(* ===== verification/Prelude.thy ===== *)
theory Prelude
  imports Complex_Main
    "HOL-Library.Monad_Syntax"
    "HOL-Library.Product_Lexorder"
    "HOL-Library.List_Lexorder"
    "HOL-Library.Char_ord"
    "HOL-Library.Multiset"
begin

text \<open>
  What every component of the development shares: Python's \<open>min\<close> with a key,
  order-preserving removal of duplicates, \<open>str.join\<close>, decimal numerals, pairs of list
  positions, and the lemma collections.  A Python exception is the value \<open>None\<close> of an
  option type; the option monad of \<open>Monad_Syntax\<close> passes it on.
\<close>

section \<open>Collections of facts\<close>

text \<open>
  \<open>decide_unfold\<close> holds the definitions a case analysis of the decision rules unfolds,
  \<open>sane_intros\<close> the rules that establish that a marker's times are sane.
\<close>

named_theorems decide_unfold
named_theorems sane_intros

section \<open>Python's min with a key\<close>

text \<open>
  \<open>min(xs, key=k, default=None)\<close>: the first element with the least key.  The empty list
  gives \<open>None\<close>, which is the default or, where the code passes none, the exception.
\<close>

definition min_step :: "('a \<Rightarrow> 'k::linorder) \<Rightarrow> 'a \<Rightarrow> 'a \<Rightarrow> 'a" where
  "min_step k b y = (if k y < k b then y else b)"

fun py_min :: "('a \<Rightarrow> 'k::linorder) \<Rightarrow> 'a list \<Rightarrow> 'a option" where
  "py_min k [] = None"
| "py_min k (x # xs) = Some (foldl (min_step k) x xs)"

lemma foldl_min_step_in: "foldl (min_step k) b xs \<in> insert b (set xs)"
proof (induction xs arbitrary: b)
  case Nil
  then show ?case by simp
next
  case (Cons x xs)
  have "foldl (min_step k) (min_step k b x) xs \<in> insert (min_step k b x) (set xs)"
    by (rule Cons.IH)
  moreover have "min_step k b x = b \<or> min_step k b x = x" by (simp add: min_step_def)
  ultimately show ?case by auto
qed

lemma foldl_min_step_le:
  "y \<in> insert b (set xs) \<Longrightarrow> k (foldl (min_step k) b xs) \<le> k y"
proof (induction xs arbitrary: b y)
  case Nil
  then show ?case by simp
next
  case (Cons x xs)
  have le: "k (foldl (min_step k) (min_step k b x) xs) \<le> k z"
    if "z \<in> insert (min_step k b x) (set xs)" for z
    using that by (rule Cons.IH)
  have "k (min_step k b x) \<le> k b" and "k (min_step k b x) \<le> k x"
    by (auto simp: min_step_def)
  with le [of "min_step k b x"] have "k (foldl (min_step k) (min_step k b x) xs) \<le> k b"
    and "k (foldl (min_step k) (min_step k b x) xs) \<le> k x"
    by (auto intro: order_trans)
  with le Cons.prems show ?case by auto
qed

lemma py_min_eq_None [simp]: "py_min k xs = None \<longleftrightarrow> xs = []"
  by (cases xs) auto

lemma py_min_in: "py_min k xs = Some x \<Longrightarrow> x \<in> set xs"
proof (cases xs)
  case (Cons y ys)
  moreover assume "py_min k xs = Some x"
  ultimately show ?thesis using foldl_min_step_in [of k y ys] by auto
qed simp

lemma py_min_le: "py_min k xs = Some x \<Longrightarrow> y \<in> set xs \<Longrightarrow> k x \<le> k y"
proof (cases xs)
  case (Cons z zs)
  moreover assume "py_min k xs = Some x" "y \<in> set xs"
  ultimately show ?thesis using foldl_min_step_le [of y z zs k] by auto
qed simp

lemma py_min_Some: "xs \<noteq> [] \<Longrightarrow> \<exists>x. py_min k xs = Some x"
  by (cases xs) auto

text \<open>The least key depends only on the set of elements.\<close>

lemma py_min_key_cong:
  assumes "py_min k xs = Some x" and "py_min k ys = Some y" and "k ` set xs = k ` set ys"
  shows "k x = k y"
proof (rule antisym)
  have "k y \<in> k ` set xs" using py_min_in [OF assms(2)] assms(3) by simp
  then show "k x \<le> k y" using py_min_le [OF assms(1)] by auto
  have "k x \<in> k ` set ys" using py_min_in [OF assms(1)] assms(3) by (metis imageI)
  then show "k y \<le> k x" using py_min_le [OF assms(2)] by auto
qed

section \<open>Chains of guarded results\<close>

text \<open>A chain of early returns ends without a reason exactly when no guard fired.\<close>

lemma if_Some_eq_None [simp]: "(if b then Some x else y) = None \<longleftrightarrow> \<not> b \<and> y = None"
  by simp

section \<open>Lists\<close>

text \<open>\<open>list(dict.fromkeys(xs))\<close>: the first occurrence of every element, in order.\<close>

fun dedupe :: "'a list \<Rightarrow> 'a list" where
  "dedupe [] = []"
| "dedupe (x # xs) = x # dedupe (removeAll x xs)"

lemma set_dedupe [simp]: "set (dedupe xs) = set xs"
  by (induction xs rule: dedupe.induct) auto

lemma distinct_dedupe [simp]: "distinct (dedupe xs)"
  by (induction xs rule: dedupe.induct) auto

lemma dedupe_eq_Nil [simp]: "dedupe xs = [] \<longleftrightarrow> xs = []"
  by (cases xs) auto

lemma sorted_wrt_pairs:
  assumes "sorted_wrt P xs" and "x \<in> set xs" and "y \<in> set xs"
  shows "x = y \<or> P x y \<or> P y x"
  using assms by (induction xs) auto

lemma sorted_wrt_distinct_map:
  "sorted_wrt P xs \<Longrightarrow> (\<And>x y. P x y \<Longrightarrow> f x \<noteq> f y) \<Longrightarrow> distinct (map f xs)"
  by (induction xs) fastforce+

lemma find_SomeD: "find P xs = Some x \<Longrightarrow> x \<in> set xs \<and> P x"
  by (induction xs) (auto split: if_splits)

lemma in_map_filter: "y \<in> set (List.map_filter f xs) \<longleftrightarrow> (\<exists>x \<in> set xs. f x = Some y)"
  by (induction xs) (auto simp: List.map_filter_simps split: option.splits)

text \<open>\<open>itertools.combinations(xs, 2)\<close>.\<close>

fun pairs_of :: "'a list \<Rightarrow> ('a \<times> 'a) list" where
  "pairs_of [] = []"
| "pairs_of (x # xs) = map (Pair x) xs @ pairs_of xs"

lemma pairs_of_subset: "(a, b) \<in> set (pairs_of xs) \<Longrightarrow> a \<in> set xs \<and> b \<in> set xs"
  by (induction xs) auto

lemma pairs_of_ex_sym:
  assumes "\<And>a b. R a b \<Longrightarrow> R b a" and "\<And>a. \<not> R a a"
  shows "(\<exists>(a, b) \<in> set (pairs_of xs). R a b) \<longleftrightarrow> (\<exists>a \<in> set xs. \<exists>b \<in> set xs. R a b)"
proof (induction xs)
  case Nil
  then show ?case by simp
next
  case (Cons x xs)
  have "(\<exists>(a, b) \<in> set (pairs_of (x # xs)). R a b) \<longleftrightarrow>
      (\<exists>b \<in> set xs. R x b) \<or> (\<exists>(a, b) \<in> set (pairs_of xs). R a b)"
    by auto
  also have "\<dots> \<longleftrightarrow> (\<exists>a \<in> set (x # xs). \<exists>b \<in> set (x # xs). R a b)"
    using Cons.IH assms by auto
  finally show ?case .
qed

lemma pairs_of_all_sym:
  assumes "\<And>a b. R a b \<Longrightarrow> R b a" and "\<And>a. R a a"
  shows "(\<forall>(a, b) \<in> set (pairs_of xs). R a b) \<longleftrightarrow> (\<forall>a \<in> set xs. \<forall>b \<in> set xs. R a b)"
  using pairs_of_ex_sym [where R = "\<lambda>a b. \<not> R a b" and xs = xs] assms by blast

text \<open>\<open>max\<close> and \<open>min\<close> of integers: \<open>None\<close> is Python's ValueError on an empty sequence.\<close>

fun py_max_int :: "int list \<Rightarrow> int option" where
  "py_max_int [] = None"
| "py_max_int (x # xs) = Some (foldl max x xs)"

fun py_min_int :: "int list \<Rightarrow> int option" where
  "py_min_int [] = None"
| "py_min_int (x # xs) = Some (foldl min x xs)"

lemma foldl_max_eq: "foldl max (x::int) xs = Max (insert x (set xs))"
  using Max.set_eq_fold [of x xs] by (simp add: foldl_conv_fold max.commute)

lemma foldl_min_eq: "foldl min (x::int) xs = Min (insert x (set xs))"
  using Min.set_eq_fold [of x xs] by (simp add: foldl_conv_fold min.commute)

lemma py_max_int_eq: "xs \<noteq> [] \<Longrightarrow> py_max_int xs = Some (Max (set xs))"
  by (cases xs) (simp_all add: foldl_max_eq)

lemma py_min_int_eq: "xs \<noteq> [] \<Longrightarrow> py_min_int xs = Some (Min (set xs))"
  by (cases xs) (simp_all add: foldl_min_eq)

lemma py_max_int_None [simp]: "py_max_int xs = None \<longleftrightarrow> xs = []"
  by (cases xs) auto

lemma py_min_int_None [simp]: "py_min_int xs = None \<longleftrightarrow> xs = []"
  by (cases xs) auto

text \<open>\<open>list.index\<close>, with the length of the list where the value is missing.\<close>

fun index_or_len :: "'a \<Rightarrow> 'a list \<Rightarrow> nat" where
  "index_or_len x [] = 0"
| "index_or_len x (y # ys) = (if x = y then 0 else Suc (index_or_len x ys))"

lemma index_or_len_le: "index_or_len x xs \<le> length xs"
  by (induction xs) auto

lemma index_or_len_less [simp]: "index_or_len x xs < length xs \<longleftrightarrow> x \<in> set xs"
  by (induction xs) auto

text \<open>A comprehension whose element expression may raise.\<close>

fun map_opt :: "('a \<Rightarrow> 'b option) \<Rightarrow> 'a list \<Rightarrow> 'b list option" where
  "map_opt f [] = Some []"
| "map_opt f (x # xs) = do { y \<leftarrow> f x; ys \<leftarrow> map_opt f xs; Some (y # ys) }"

lemma map_opt_Some: "(\<And>x. x \<in> set xs \<Longrightarrow> f x = Some (g x)) \<Longrightarrow> map_opt f xs = Some (map g xs)"
  by (induction xs) auto

lemma map_opt_SomeD:
  "map_opt f xs = Some ys \<Longrightarrow> length ys = length xs \<and> (\<forall>i < length xs. f (xs ! i) = Some (ys ! i))"
proof (induction xs arbitrary: ys)
  case Nil
  then show ?case by simp
next
  case (Cons x xs)
  then show ?case by (auto simp: nth_Cons bind_eq_Some_conv split: nat.splits)
qed

lemma map_opt_in: "map_opt f xs = Some ys \<Longrightarrow> y \<in> set ys \<Longrightarrow> \<exists>x \<in> set xs. f x = Some y"
  by (induction xs arbitrary: ys) (auto simp: bind_eq_Some_conv)

text \<open>A comprehension whose condition may raise.\<close>

fun filter_opt :: "('a \<Rightarrow> bool option) \<Rightarrow> 'a list \<Rightarrow> 'a list option" where
  "filter_opt p [] = Some []"
| "filter_opt p (x # xs) =
     do { keep \<leftarrow> p x; ys \<leftarrow> filter_opt p xs; Some (if keep then x # ys else ys) }"

lemma filter_opt_Some: "(\<And>x. x \<in> set xs \<Longrightarrow> p x = Some (q x)) \<Longrightarrow> filter_opt p xs = Some (filter q xs)"
  by (induction xs) auto

section \<open>Integer division\<close>

text \<open>The ceiling \<open>-(-a // b)\<close> is the least integer whose product with \<open>b\<close> reaches \<open>a\<close>.\<close>

lemma le_int_div_iff: "0 < b \<Longrightarrow> k \<le> a div b \<longleftrightarrow> k * b \<le> (a::int)"
proof
  assume b: "0 < b" and "k \<le> a div b"
  then have "k * b \<le> (a div b) * b" by simp
  also have "\<dots> \<le> a" using b by (metis div_mult_mod_eq pos_mod_sign le_add_same_cancel1)
  finally show "k * b \<le> a" .
next
  assume b: "0 < b" and "k * b \<le> a"
  then have "k * b div b \<le> a div b" by (intro zdiv_mono1)
  with b show "k \<le> a div b" by simp
qed

lemma neg_div_le_iff: "0 < b \<Longrightarrow> - (a div b) \<le> s \<longleftrightarrow> - (s * b) \<le> (a::int)"
  using le_int_div_iff [of b "- s" a] by (simp add: minus_le_iff)

section \<open>Strings\<close>

text \<open>\<open>sep.join(xs)\<close>.\<close>

fun join :: "string \<Rightarrow> string list \<Rightarrow> string" where
  "join sep [] = []"
| "join sep [x] = x"
| "join sep (x # y # ys) = x @ sep @ join sep (y # ys)"

text \<open>Decimal numerals, as \<open>str(n)\<close> prints them and \<open>int(s)\<close> reads them.\<close>

definition digit_char :: "nat \<Rightarrow> char" where
  "digit_char d = char_of (48 + d)"

fun show_nat :: "nat \<Rightarrow> string" where
  "show_nat n = (if n < 10 then [digit_char n] else show_nat (n div 10) @ [digit_char (n mod 10)])"

declare show_nat.simps [simp del]

definition show_int :: "int \<Rightarrow> string" where
  "show_int i = (if i < 0 then ''-'' @ show_nat (nat (- i)) else show_nat (nat i))"

definition is_digit :: "char \<Rightarrow> bool" where
  "is_digit c \<longleftrightarrow> 48 \<le> (of_char c :: nat) \<and> (of_char c :: nat) \<le> 57"

definition digit_value :: "char \<Rightarrow> nat" where
  "digit_value c = of_char c - 48"

definition read_nat :: "string \<Rightarrow> nat" where
  "read_nat s = foldl (\<lambda>n c. 10 * n + digit_value c) 0 s"

lemma of_char_digit_char: "d < 10 \<Longrightarrow> (of_char (digit_char d) :: nat) = 48 + d"
  by (simp add: digit_char_def of_char_of)

lemma is_digit_digit_char [simp]: "d < 10 \<Longrightarrow> is_digit (digit_char d)"
  by (simp add: is_digit_def of_char_digit_char)

lemma digit_value_digit_char [simp]: "d < 10 \<Longrightarrow> digit_value (digit_char d) = d"
  by (simp add: digit_value_def of_char_digit_char)

lemma show_nat_digits: "\<forall>c \<in> set (show_nat n). is_digit c"
proof (induction n rule: show_nat.induct)
  case (1 n)
  then show ?case by (subst show_nat.simps) auto
qed

lemma show_nat_nonempty [simp]: "show_nat n \<noteq> []"
  by (subst show_nat.simps) simp

lemma read_show_nat [simp]: "read_nat (show_nat n) = n"
proof (induction n rule: show_nat.induct)
  case (1 n)
  show ?case
  proof (cases "n < 10")
    case True
    then show ?thesis by (subst show_nat.simps) (simp add: read_nat_def)
  next
    case False
    with 1 have "read_nat (show_nat (n div 10)) = n div 10" by simp
    with False show ?thesis by (subst show_nat.simps) (simp add: read_nat_def)
  qed
qed

text \<open>\<open>a in s\<close> for strings: whether \<open>a\<close> stands anywhere in \<open>s\<close>.\<close>

fun contains :: "string \<Rightarrow> string \<Rightarrow> bool" where
  "contains a [] \<longleftrightarrow> a = []"
| "contains a (c # s) \<longleftrightarrow> take (length a) (c # s) = a \<or> contains a s"

text \<open>\<open>s.startswith(a)\<close> with the rest of the string, \<open>None\<close> when it does not.\<close>

fun strip_prefix :: "string \<Rightarrow> string \<Rightarrow> string option" where
  "strip_prefix [] s = Some s"
| "strip_prefix (a # as) [] = None"
| "strip_prefix (a # as) (c # s) = (if a = c then strip_prefix as s else None)"

lemma strip_prefix_append [simp]: "strip_prefix a (a @ s) = Some s"
  by (induction a) auto

lemma strip_prefix_Some: "strip_prefix a s = Some r \<longleftrightarrow> s = a @ r"
  by (induction a s rule: strip_prefix.induct) auto

text \<open>\<open>s.split(c)\<close> for a one-character separator: one more piece than separators.\<close>

fun split_on :: "char \<Rightarrow> string \<Rightarrow> string list" where
  "split_on sep [] = [[]]"
| "split_on sep (c # s) =
     (if c = sep then [] # split_on sep s
      else case split_on sep s of [] \<Rightarrow> [[c]] | p # ps \<Rightarrow> (c # p) # ps)"

lemma split_on_nonempty [simp]: "split_on sep s \<noteq> []"
  by (induction s) (auto split: list.splits)

lemma split_on_no_sep: "sep \<notin> set s \<Longrightarrow> split_on sep s = [s]"
  by (induction s) auto

lemma split_on_append_sep:
  "sep \<notin> set s \<Longrightarrow> split_on sep (s @ sep # t) = s # split_on sep t"
  by (induction s) auto

end
