(* ===== verification/Models.thy ===== *)
theory Models
  imports Prelude
begin

text \<open>
  The value types of Intro and Credits (\<open>markers/models.py\<close>): the segment types, the
  evidence sources in their declaration order, a source's claim about a segment
  (\<open>candidate\<close>), a decided segment (\<open>marker\<close>).  All times are integer milliseconds.
  Both enumerations are instances of \<open>linorder\<close> by their declaration order, which is the
  order \<open>_ENUM_ORDER\<close> of \<open>markers/decide.py\<close> ranks sources by.
\<close>

section \<open>Enumerations\<close>

datatype marker_type = INTRO | CREDITS | RECAP | PREVIEW

definition marker_types :: "marker_type list" where
  "marker_types = [INTRO, CREDITS, RECAP, PREVIEW]"

fun type_value :: "marker_type \<Rightarrow> string" where
  "type_value INTRO = ''intro''"
| "type_value CREDITS = ''credits''"
| "type_value RECAP = ''recap''"
| "type_value PREVIEW = ''preview''"

datatype source =
    CHAPTERS
  | THEINTRODB
  | INTRODB
  | SKIPDB
  | SEASON_AUDIO
  | CREDITS_TEXT
  | SERVER_MARKERS
  | SERVER_MARKERS_IMPORTED
  | USER
  | SEASON_AUDIO_PREVIOUS

definition all_sources :: "source list" where
  "all_sources = [CHAPTERS, THEINTRODB, INTRODB, SKIPDB, SEASON_AUDIO, CREDITS_TEXT,
     SERVER_MARKERS, SERVER_MARKERS_IMPORTED, USER, SEASON_AUDIO_PREVIOUS]"

fun source_value :: "source \<Rightarrow> string" where
  "source_value CHAPTERS = ''chapters''"
| "source_value THEINTRODB = ''theintrodb''"
| "source_value INTRODB = ''introdb''"
| "source_value SKIPDB = ''skipdb''"
| "source_value SEASON_AUDIO = ''season_audio''"
| "source_value CREDITS_TEXT = ''credits_text''"
| "source_value SERVER_MARKERS = ''server_markers''"
| "source_value SERVER_MARKERS_IMPORTED = ''server_markers_imported''"
| "source_value USER = ''user''"
| "source_value SEASON_AUDIO_PREVIOUS = ''season_audio_previous''"

text \<open>\<open>Source(value)\<close>: the member with that value, \<open>None\<close> for the ValueError.\<close>

definition source_of_value :: "string \<Rightarrow> source option" where
  "source_of_value v = find (\<lambda>s. source_value s = v) all_sources"

definition enum_order :: "source \<Rightarrow> nat" where
  "enum_order s = index_or_len s all_sources"

definition type_order :: "marker_type \<Rightarrow> nat" where
  "type_order t = index_or_len t marker_types"

lemma set_marker_types [simp]: "set marker_types = UNIV"
proof -
  have "t \<in> set marker_types" for t by (cases t) (simp_all add: marker_types_def)
  then show ?thesis by blast
qed

lemma in_all_sources [simp]: "s \<in> set all_sources"
  by (cases s) (simp_all add: all_sources_def)

lemma set_all_sources: "set all_sources = UNIV"
  using in_all_sources by blast

lemma distinct_all_sources [simp]: "distinct all_sources"
  by (simp add: all_sources_def)

lemma enum_order_inj [simp]: "enum_order a = enum_order b \<longleftrightarrow> a = b"
  by (cases a; cases b) (simp_all add: enum_order_def all_sources_def)

lemma type_order_inj [simp]: "type_order a = type_order b \<longleftrightarrow> a = b"
  by (cases a; cases b) (simp_all add: type_order_def marker_types_def)

lemma source_value_inj [simp]: "source_value a = source_value b \<longleftrightarrow> a = b"
  by (cases a; cases b) simp_all

lemma source_of_source_value [simp]: "source_of_value (source_value s) = Some s"
  by (cases s) (simp_all add: source_of_value_def all_sources_def)

instantiation source :: linorder
begin

definition less_eq_source :: "source \<Rightarrow> source \<Rightarrow> bool" where
  "less_eq_source a b \<longleftrightarrow> enum_order a \<le> enum_order b"

definition less_source :: "source \<Rightarrow> source \<Rightarrow> bool" where
  "less_source a b \<longleftrightarrow> enum_order a < enum_order b"

instance
  by standard (auto simp: less_eq_source_def less_source_def)

end

instantiation marker_type :: linorder
begin

definition less_eq_marker_type :: "marker_type \<Rightarrow> marker_type \<Rightarrow> bool" where
  "less_eq_marker_type a b \<longleftrightarrow> type_order a \<le> type_order b"

definition less_marker_type :: "marker_type \<Rightarrow> marker_type \<Rightarrow> bool" where
  "less_marker_type a b \<longleftrightarrow> type_order a < type_order b"

instance
  by standard (auto simp: less_eq_marker_type_def less_marker_type_def)

end

text \<open>\<open>SERVER_SOURCES\<close>: markers already on a server.\<close>

definition SERVER_SOURCES :: "source set" where
  "SERVER_SOURCES = {SERVER_MARKERS, SERVER_MARKERS_IMPORTED}"

section \<open>Candidates and markers\<close>

text \<open>
  A confidence is a Python float: a finite one is the rational it stands for, NaN and the
  infinities are \<open>NotFinite\<close> (the only reader, the ranking key, tells no more apart).
\<close>

datatype confidence = Finite rat | NotFinite

record candidate =
  c_type :: marker_type
  c_start_ms :: int
  c_end_ms :: "int option"
  c_source :: source
  c_confidence :: confidence
  c_origin :: string
  c_copied_from :: string
  c_stale :: bool

record marker =
  m_type :: marker_type
  m_start_ms :: int
  m_end_ms :: int
  m_decided_by :: "string list"
  m_locked :: bool

text \<open>\<open>Candidate(type, start, end, source)\<close> with the dataclass defaults.\<close>

definition new_candidate :: "marker_type \<Rightarrow> int \<Rightarrow> int option \<Rightarrow> source \<Rightarrow> candidate" where
  "new_candidate t s e src = \<lparr>c_type = t, c_start_ms = s, c_end_ms = e, c_source = src,
     c_confidence = Finite 1, c_origin = [], c_copied_from = [], c_stale = False\<rparr>"

text \<open>\<open>MediaIds\<close>: what online lookups know a file by.\<close>

record media_ids =
  ids_kind :: string
  ids_tmdb :: "string option"
  ids_imdb :: "string option"
  ids_tvdb :: "string option"
  ids_season :: "int option"
  ids_episode :: "int option"

definition is_episode :: "media_ids \<Rightarrow> bool" where
  "is_episode ids \<longleftrightarrow> ids_kind ids = ''episode''"

end
