(* ===== verification/Speed.thy ===== *)
theory Speed
  imports Models
begin

text \<open>
  Playback speed families (\<open>markers/speed.py\<close>) on Python floats.  A finite double is the
  rational it stands for; every arithmetic operation of the source rounds its exact result
  with \<open>fl\<close>, round to nearest, ties to even, at 53 significant bits.  An integer time of any
  size meets a float in \<open>scale_ms\<close> alone, which says where it overflows; the other operands are
  frame rates and their ratios, between \<open>2 ^ -50\<close> and \<open>2 ^ 100\<close> for any file, where
  neither overflow nor a subnormal result can arise.
\<close>

section \<open>Binary64 arithmetic on rationals\<close>

text \<open>Round half to even, as \<open>round(x)\<close> does on a float.\<close>

definition round_half_even :: "rat \<Rightarrow> int" where
  "round_half_even x =
     (let f = \<lfloor>x\<rfloor>; r = x - of_int f
      in if r < 1 / 2 then f
         else if r > 1 / 2 then f + 1
         else if even f then f else f + 1)"

function nbits :: "int \<Rightarrow> int" where
  "nbits n = (if n \<le> 0 then 0 else 1 + nbits (n div 2))"
  by pat_completeness auto
termination
  by (relation "measure nat") auto

declare nbits.simps [simp del]

text \<open>The scale \<open>e\<close> with \<open>2 ^ 52 \<le> \<bar>x\<bar> / 2 ^ e < 2 ^ 53\<close>, from the bit lengths.\<close>

definition pow2 :: "int \<Rightarrow> rat" where
  "pow2 e = (if e \<ge> 0 then 2 ^ nat e else 1 / 2 ^ nat (- e))"

definition float_scale :: "rat \<Rightarrow> int" where
  "float_scale x =
     (let (p, q) = quotient_of \<bar>x\<bar>;
          e = nbits p - nbits q - 53
      in if \<bar>x\<bar> / pow2 e < 2 ^ 53 then e else e + 1)"

definition fl :: "rat \<Rightarrow> rat" where
  "fl x = (if x = 0 then 0
           else let e = float_scale x in of_int (round_half_even (x / pow2 e)) * pow2 e)"

section \<open>Speed families\<close>

definition FILM_FPS :: rat where
  "FILM_FPS = fl (24000 / 1001)"

definition PAL_FPS :: rat where
  "PAL_FPS = 25"

definition RATE_TOLERANCE :: rat where
  "RATE_TOLERANCE = fl (5 / 100)"

definition FAMILIES :: "(rat \<times> rat) list" where
  "FAMILIES = [(FILM_FPS, FILM_FPS), (24, FILM_FPS), (PAL_FPS, PAL_FPS)]"

definition playback_speed :: "rat option \<Rightarrow> rat option" where
  "playback_speed frame_rate =
     (case frame_rate of
        None \<Rightarrow> None
      | Some r \<Rightarrow>
          if r = 0 then None
          else map_option snd (find (\<lambda>(rate, family). \<bar>fl (r - rate)\<bar> \<le> RATE_TOLERANCE) FAMILIES))"

definition match_speed :: "rat option list \<Rightarrow> rat option" where
  "match_speed speeds =
     (let film = length (filter (\<lambda>v. v = Some FILM_FPS) speeds);
          pal = length (filter (\<lambda>v. v = Some PAL_FPS) speeds)
      in if film = 0 \<or> pal = 0 then None
         else if pal > film then Some PAL_FPS else Some FILM_FPS)"

definition retime_factor :: "rat option \<Rightarrow> rat option \<Rightarrow> rat option" where
  "retime_factor speed clock =
     (case (speed, clock) of
        (Some s, Some c) \<Rightarrow> if s = c then None else Some (fl (c / s))
      | _ \<Rightarrow> None)"

definition online_time_scale :: "rat option \<Rightarrow> rat option" where
  "online_time_scale frame_rate =
     (case playback_speed frame_rate of
        None \<Rightarrow> None
      | Some own \<Rightarrow>
          let other = (if own = PAL_FPS then FILM_FPS else PAL_FPS) in Some (fl (other / own)))"

text \<open>
  \<open>round(ms * scale)\<close>: the product is one float operation on \<open>float(ms)\<close>.  \<open>None\<close> is the
  OverflowError: an int that rounds to \<open>2 ^ 1024\<close> or more has no float, and an infinite
  product has no integer.
\<close>

definition to_finite :: "rat \<Rightarrow> rat option" where
  "to_finite x = (if \<bar>fl x\<bar> \<ge> 2 ^ 1024 then None else Some (fl x))"

definition scale_ms :: "int \<Rightarrow> rat \<Rightarrow> int option" where
  "scale_ms ms scale = do {
     f \<leftarrow> to_finite (of_int ms);
     product \<leftarrow> to_finite (f * scale);
     Some (round_half_even product)
   }"

end
