(* ===== verification/Sanity.thy ===== *)
theory Sanity
  imports Speed
begin

text \<open>
  The first part of \<open>markers/decide.py\<close>: the rules' constants, the per-file context, the
  result type, and rule 2, the sanity bounds a candidate's times must pass on this file
  (\<open>sanity_problem\<close>, \<open>unusable_server_marker\<close>, \<open>earliest_credits_start_ms\<close>,
  \<open>credits_limits_ms\<close>).  A reason is \<open>Some\<close> text, no problem is \<open>None\<close>.
\<close>

section \<open>Constants\<close>

definition INTRO_END_TOLERANCE_MS :: int where "INTRO_END_TOLERANCE_MS = 5000"

definition CREDITS_START_TOLERANCE_MS :: int where "CREDITS_START_TOLERANCE_MS = 10000"

definition EOF_CLAMP_MS :: int where "EOF_CLAMP_MS = 2000"

definition MIN_SEGMENT_MS :: int where "MIN_SEGMENT_MS = 3000"

definition MAX_INTRO_MS :: int where "MAX_INTRO_MS = 300000"

definition MOVIE_CREDITS_MAX_FROM_END_MS :: int where "MOVIE_CREDITS_MAX_FROM_END_MS = 900000"

definition INTRO_RECAP_MAX_OVERLAP_MS :: int where "INTRO_RECAP_MAX_OVERLAP_MS = 5000"

definition PREVIEW_CREDITS_MAX_OVERLAP_MS :: int where "PREVIEW_CREDITS_MAX_OVERLAP_MS = 10000"

definition SEASON_INTRO_CHAPTERS_MIN_OTHERS :: nat where "SEASON_INTRO_CHAPTERS_MIN_OTHERS = 2"

definition SEASON_INTRO_CHAPTER_MIN_MARGIN_MS :: int where
  "SEASON_INTRO_CHAPTER_MIN_MARGIN_MS = 30000"

definition TEXT_OVER_ONLINE_MS :: int where "TEXT_OVER_ONLINE_MS = 5000"

definition ONLINE_LOGO_BEFORE_MS :: int where "ONLINE_LOGO_BEFORE_MS = 2000"

definition MIN_ONLINE_INTRO_AT_START_MS :: int where "MIN_ONLINE_INTRO_AT_START_MS = 10000"

definition ONLINE_END_PAST_FILE_MS :: int where "ONLINE_END_PAST_FILE_MS = 5000"

definition OTHER_RELEASE_MIN_SHIFT_MS :: int where "OTHER_RELEASE_MIN_SHIFT_MS = 15000"

definition OTHER_RELEASE_MIN_LENGTH_MS :: int where "OTHER_RELEASE_MIN_LENGTH_MS = 30000"

lemmas ms_constants =
  INTRO_END_TOLERANCE_MS_def CREDITS_START_TOLERANCE_MS_def EOF_CLAMP_MS_def MIN_SEGMENT_MS_def
  MAX_INTRO_MS_def MOVIE_CREDITS_MAX_FROM_END_MS_def INTRO_RECAP_MAX_OVERLAP_MS_def
  PREVIEW_CREDITS_MAX_OVERLAP_MS_def TEXT_OVER_ONLINE_MS_def ONLINE_LOGO_BEFORE_MS_def
  MIN_ONLINE_INTRO_AT_START_MS_def ONLINE_END_PAST_FILE_MS_def OTHER_RELEASE_MIN_SHIFT_MS_def
  OTHER_RELEASE_MIN_LENGTH_MS_def SEASON_INTRO_CHAPTER_MIN_MARGIN_MS_def

section \<open>Context and results\<close>

datatype decision_status = DECIDED | NO_EVIDENCE | DISABLED

record decision_context =
  duration_ms :: int
  is_movie :: bool
  publish_when :: string
  enabled_types :: "marker_type set"
  source_order :: "string list"
  ctx_intro_chapter_limit_ms :: "int option"
  movie_credits_max_from_end_ms :: int
  credits_window_ms :: int
  frame_rate :: "rat option"

record type_decision =
  d_type :: marker_type
  d_status :: decision_status
  d_marker :: "marker option"
  d_proposed :: "marker option"
  d_reason :: string

text \<open>The context with the dataclass defaults for the fields after \<open>source_order\<close>.\<close>

definition new_context ::
  "int \<Rightarrow> bool \<Rightarrow> string \<Rightarrow> marker_type set \<Rightarrow> string list \<Rightarrow> decision_context" where
  "new_context d movie publish types order = \<lparr>duration_ms = d, is_movie = movie,
     publish_when = publish, enabled_types = types, source_order = order,
     ctx_intro_chapter_limit_ms = None,
     movie_credits_max_from_end_ms = MOVIE_CREDITS_MAX_FROM_END_MS,
     credits_window_ms = 0, frame_rate = None\<rparr>"

definition is_start_segment :: "marker_type \<Rightarrow> bool" where
  "is_start_segment t \<longleftrightarrow> t = INTRO \<or> t = RECAP"

lemma is_start_segment_simps [simp]:
  "is_start_segment INTRO" "is_start_segment RECAP"
  "\<not> is_start_segment CREDITS" "\<not> is_start_segment PREVIEW"
  by (simp_all add: is_start_segment_def)

section \<open>Sanity\<close>

definition resolve_end_ms :: "candidate \<Rightarrow> int \<Rightarrow> int" where
  "resolve_end_ms c d = (case c_end_ms c of None \<Rightarrow> d | Some e \<Rightarrow> min e d)"

definition timed_on_any_release :: "candidate \<Rightarrow> bool" where
  "timed_on_any_release c =
     (if c_source c = SERVER_MARKERS_IMPORTED then c_copied_from c = ''introdb''
      else c_source c \<in> {INTRODB, THEINTRODB})"

definition end_allowance_ms :: "candidate \<Rightarrow> int" where
  "end_allowance_ms c =
     (if \<not> is_start_segment (c_type c) \<and> timed_on_any_release c then ONLINE_END_PAST_FILE_MS
      else EOF_CLAMP_MS)"

definition is_online_logo :: "candidate \<Rightarrow> int \<Rightarrow> bool" where
  "is_online_logo c d =
     (if c_type c \<noteq> INTRO \<or> \<not> timed_on_any_release c then False
      else c_start_ms c < ONLINE_LOGO_BEFORE_MS \<and>
           resolve_end_ms c d - c_start_ms c < MIN_ONLINE_INTRO_AT_START_MS)"

text \<open>Integer ceilings: \<open>-(-75 * d // 100)\<close> and \<open>-(-d // 2)\<close>.\<close>

definition earliest_placed_ms :: "int \<Rightarrow> int \<Rightarrow> int" where
  "earliest_placed_ms d window =
     (let last_quarter = - ((-75 * d) div 100);
          inside_window = max (d - window) (- ((- d) div 2))
      in min last_quarter inside_window)"

definition earliest_credits_start_ms :: "int \<Rightarrow> bool \<Rightarrow> int \<Rightarrow> int \<Rightarrow> int" where
  "earliest_credits_start_ms d movie window movie_max =
     (let earliest = earliest_placed_ms d window
      in if movie then max earliest (d - movie_max) else earliest)"

definition times_problem :: "candidate \<Rightarrow> decision_context \<Rightarrow> string option" where
  "times_problem c ctx =
     (let d = duration_ms ctx; start = c_start_ms c in
      if d \<le> 0 then Some ''duration unknown''
      else if start < 0 then Some ''negative start''
      else if start \<ge> d then Some ''starts past the end of the file''
      else if (case c_end_ms c of None \<Rightarrow> False | Some e \<Rightarrow> e < start)
        then Some ''ends before it starts''
      else if (case c_end_ms c of None \<Rightarrow> False | Some e \<Rightarrow> e > d + end_allowance_ms c)
        then Some ''ends past the end of the file''
      else
        (let end = resolve_end_ms c d; len = end - start in
         if len < MIN_SEGMENT_MS then Some ''segment too short''
         else if is_start_segment (c_type c) then
           (if end \<ge> d - EOF_CLAMP_MS then Some (type_value (c_type c) @ '' runs to end of file'')
            else if start * 100 > 35 * d
              then Some (type_value (c_type c) @ '' starts after 35% of the file'')
            else if len > MAX_INTRO_MS then Some (type_value (c_type c) @ '' too long'')
            else None)
         else
           (let window = (if c_type c = CREDITS then credits_window_ms ctx else 0) in
            if start < earliest_placed_ms d window
              then Some (type_value (c_type c) @ '' starts before the last 25% of the file'')
            else if c_type c = CREDITS \<and>
                start < earliest_credits_start_ms d (is_movie ctx) (credits_window_ms ctx)
                          (movie_credits_max_from_end_ms ctx)
              then Some (''movie credits start more than '' @
                show_int (movie_credits_max_from_end_ms ctx div 1000) @ '' s before the end'')
            else None)))"

definition sanity_problem :: "candidate \<Rightarrow> decision_context \<Rightarrow> string option" where
  "sanity_problem c ctx =
     (let problem = times_problem c ctx in
      if problem = None \<and> is_online_logo c (duration_ms ctx)
      then Some (''online intro shorter than 10 s from the file's first 2 s: '' @
                 ''a logo at the start of the file'')
      else problem)"

text \<open>\<open>FileLimits\<close> carries the duration alone; it is the second argument.\<close>

definition unusable_server_marker :: "candidate \<Rightarrow> int \<Rightarrow> string option" where
  "unusable_server_marker c d =
     (let start = c_start_ms c in
      if d \<le> 0 then None
      else if start < 0 then Some ''negative start''
      else if start \<ge> d then Some ''starts past the end of the file''
      else if (case c_end_ms c of None \<Rightarrow> False | Some e \<Rightarrow> e < start)
        then Some ''ends before it starts''
      else if (case c_end_ms c of None \<Rightarrow> False | Some e \<Rightarrow> e > d + EOF_CLAMP_MS)
        then Some ''ends past the end of the file''
      else if resolve_end_ms c d - start < MIN_SEGMENT_MS then Some ''segment too short''
      else None)"

text \<open>
  \<open>credits_limits_ms\<close>: \<open>(chosen or 0) * 1000\<close>, and the movie cap, which never drops
  below its default.
\<close>

definition credits_limits_ms :: "bool \<Rightarrow> int option \<Rightarrow> int option \<Rightarrow> int \<times> int" where
  "credits_limits_ms episode tv_window_s movie_window_s =
     (let chosen = (if episode then tv_window_s else movie_window_s);
          or0 = case_option 0 id
      in (or0 chosen * 1000, max MOVIE_CREDITS_MAX_FROM_END_MS (or0 movie_window_s * 1000)))"

section \<open>What sane times are\<close>

text \<open>
  The bounds of rule 2 as one predicate on a segment's type, start and resolved end, with
  the percentages as exact cross-multiplications: the specification the chain of checks
  and its integer ceilings implement.
\<close>

definition placed_late :: "decision_context \<Rightarrow> marker_type \<Rightarrow> int \<Rightarrow> bool" where
  "placed_late ctx t start \<longleftrightarrow>
     (let d = duration_ms ctx; window = (if t = CREDITS then credits_window_ms ctx else 0) in
      (100 * start \<ge> 75 * d \<or> (start \<ge> d - window \<and> 2 * start \<ge> d)) \<and>
      (t = CREDITS \<and> is_movie ctx \<longrightarrow> start \<ge> d - movie_credits_max_from_end_ms ctx))"

definition sane_times :: "decision_context \<Rightarrow> marker_type \<Rightarrow> int \<Rightarrow> int \<Rightarrow> bool" where
  "sane_times ctx t start end \<longleftrightarrow>
     (let d = duration_ms ctx in
      0 < d \<and> 0 \<le> start \<and> start < d \<and> end \<le> d \<and> end - start \<ge> MIN_SEGMENT_MS \<and>
      (if is_start_segment t
       then end < d - EOF_CLAMP_MS \<and> 100 * start \<le> 35 * d \<and> end - start \<le> MAX_INTRO_MS
       else placed_late ctx t start))"

lemma earliest_placed_le_iff:
  "earliest_placed_ms d w \<le> start \<longleftrightarrow>
     100 * start \<ge> 75 * d \<or> (start \<ge> d - w \<and> 2 * start \<ge> d)"
proof -
  have "- ((-75 * d) div 100) \<le> start \<longleftrightarrow> 100 * start \<ge> 75 * d"
    and "- ((- d) div 2) \<le> start \<longleftrightarrow> 2 * start \<ge> d"
    by (simp_all add: neg_div_le_iff) linarith+
  then show ?thesis by (auto simp: earliest_placed_ms_def Let_def min_le_iff_disj)
qed

lemma placed_late_iff:
  "placed_late ctx t start \<longleftrightarrow>
     earliest_placed_ms (duration_ms ctx) (if t = CREDITS then credits_window_ms ctx else 0) \<le> start
     \<and> (t = CREDITS \<longrightarrow>
          earliest_credits_start_ms (duration_ms ctx) (is_movie ctx) (credits_window_ms ctx)
            (movie_credits_max_from_end_ms ctx) \<le> start)"
  by (auto simp: placed_late_def earliest_credits_start_ms_def Let_def earliest_placed_le_iff
      max_def)

text \<open>Every candidate the checks of the times pass has sane times once its end is resolved.\<close>

lemma times_problem_None_iff:
  "times_problem c ctx = None \<longleftrightarrow>
     sane_times ctx (c_type c) (c_start_ms c) (resolve_end_ms c (duration_ms ctx)) \<and>
     (case c_end_ms c of None \<Rightarrow> True
      | Some e \<Rightarrow> e \<le> duration_ms ctx + end_allowance_ms c)"
proof (cases "c_end_ms c")
  case None
  then show ?thesis
    by (cases "is_start_segment (c_type c)")
      (auto simp: times_problem_def sane_times_def Let_def resolve_end_ms_def placed_late_iff
        not_less not_le mult.commute)
next
  case (Some e)
  have "0 \<le> end_allowance_ms c" by (simp add: end_allowance_ms_def ms_constants)
  with Some show ?thesis
    by (cases "is_start_segment (c_type c)")
      (auto simp: times_problem_def sane_times_def Let_def resolve_end_ms_def placed_late_iff
        MIN_SEGMENT_MS_def not_less not_le mult.commute)
qed

lemma sanity_problem_None_iff:
  "sanity_problem c ctx = None \<longleftrightarrow>
     times_problem c ctx = None \<and> \<not> is_online_logo c (duration_ms ctx)"
  by (auto simp: sanity_problem_def Let_def)

lemma sane_candidate_times:
  "sanity_problem c ctx = None \<Longrightarrow>
     sane_times ctx (c_type c) (c_start_ms c) (resolve_end_ms c (duration_ms ctx))"
  by (simp add: sanity_problem_None_iff times_problem_None_iff)

text \<open>Only the times and the type matter to sane times: a later credits start stays sane.\<close>

lemma sane_times_later_start:
  assumes "sane_times ctx t s e" and "\<not> is_start_segment t" and "s \<le> s'"
    and "e - s' \<ge> MIN_SEGMENT_MS"
  shows "sane_times ctx t s' e"
  using assms by (auto simp: sane_times_def placed_late_def Let_def MIN_SEGMENT_MS_def)

end
