(* ===== verification/Ranking.thy ===== *)
theory Ranking
  imports Sanity
begin

text \<open>
  The comparisons the decision rules of \<open>markers/decide.py\<close> are built from: independence
  groups, agreement on the checked edge, the ranking keys, and the markers made of a
  candidate's edges.  Python's lexicographic tuples are HOL products ordered by
  \<open>Product_Lexorder\<close>; \<open>sorted(xs, key=k)\<close> is the stable \<open>sort_key\<close>.
\<close>

section \<open>Independence groups\<close>

definition INTRODB_GROUP :: string where "INTRODB_GROUP = ''introdb/theintrodb''"

text \<open>\<open>_INDEPENDENCE_GROUP.get(source, source.value)\<close>.\<close>

definition independence_group :: "source \<Rightarrow> string" where
  "independence_group s =
     (if s = INTRODB \<or> s = THEINTRODB \<or> s = SERVER_MARKERS_IMPORTED then INTRODB_GROUP
      else if s = SEASON_AUDIO_PREVIOUS then source_value SEASON_AUDIO
      else source_value s)"

definition imported_group :: "string \<Rightarrow> string option" where
  "imported_group copied =
     (if copied = ''introdb'' then Some INTRODB_GROUP
      else if copied = ''skipdb'' then Some (source_value SKIPDB)
      else if copied = ''aniskip'' then Some INTRODB_GROUP
      else None)"

definition group_of :: "candidate \<Rightarrow> string" where
  "group_of c =
     (case (if c_source c = SERVER_MARKERS_IMPORTED then imported_group (c_copied_from c) else None)
      of Some g \<Rightarrow> g | None \<Rightarrow> independence_group (c_source c))"

definition AGREEMENT_ONLY :: "source set" where
  "AGREEMENT_ONLY = SERVER_SOURCES \<union> {INTRODB, THEINTRODB, SKIPDB, SEASON_AUDIO_PREVIOUS}"

definition AUDIO_OR_SERVER :: "source set" where
  "AUDIO_OR_SERVER = SERVER_SOURCES \<union> {SEASON_AUDIO, SEASON_AUDIO_PREVIOUS}"

definition READS_THE_FILE :: "source set" where
  "READS_THE_FILE = {CHAPTERS, SEASON_AUDIO, SEASON_AUDIO_PREVIOUS, CREDITS_TEXT}"

definition WINS_A_DISAGREEMENT :: "source set" where
  "WINS_A_DISAGREEMENT = {CREDITS_TEXT}"

definition ONLINE_SOURCES :: "source set" where
  "ONLINE_SOURCES = {INTRODB, THEINTRODB, SKIPDB}"

lemmas source_sets = SERVER_SOURCES_def AGREEMENT_ONLY_def AUDIO_OR_SERVER_def
  READS_THE_FILE_def WINS_A_DISAGREEMENT_def ONLINE_SOURCES_def

lemma group_of_not_imported:
  "c_source c \<noteq> SERVER_MARKERS_IMPORTED \<Longrightarrow> group_of c = independence_group (c_source c)"
  by (simp add: group_of_def)

section \<open>Agreement\<close>

definition tolerance_ms :: "marker_type \<Rightarrow> int" where
  "tolerance_ms t =
     (if is_start_segment t then INTRO_END_TOLERANCE_MS else CREDITS_START_TOLERANCE_MS)"

definition agree_value :: "candidate \<Rightarrow> int \<Rightarrow> int" where
  "agree_value c d = (if is_start_segment (c_type c) then resolve_end_ms c d else c_start_ms c)"

definition checked_value :: "marker_type \<Rightarrow> marker \<Rightarrow> int" where
  "checked_value t m = (if is_start_segment t then m_end_ms m else m_start_ms m)"

definition agree :: "candidate \<Rightarrow> candidate \<Rightarrow> int \<Rightarrow> bool" where
  "agree a b d \<longleftrightarrow> \<bar>agree_value a d - agree_value b d\<bar> \<le> tolerance_ms (c_type a)"

lemma tolerance_pos [simp]: "0 < tolerance_ms t" "0 \<le> tolerance_ms t"
  by (simp_all add: tolerance_ms_def ms_constants)

lemma agree_refl [simp]: "agree a a d"
  by (simp add: agree_def)

lemma agree_sym: "c_type a = c_type b \<Longrightarrow> agree a b d = agree b a d"
  by (simp add: agree_def abs_minus_commute)

section \<open>Ranking\<close>

definition precedence :: "source \<Rightarrow> string list \<Rightarrow> nat" where
  "precedence s order = index_or_len (source_value s) order"

type_synonym rank_key = "nat \<times> nat \<times> rat \<times> int \<times> int \<times> int"

definition finite_confidence :: "confidence \<Rightarrow> rat" where
  "finite_confidence c = (case c of Finite q \<Rightarrow> q | NotFinite \<Rightarrow> 0)"

definition rank :: "decision_context \<Rightarrow> candidate \<Rightarrow> rank_key" where
  "rank ctx c =
     (let end = resolve_end_ms c (duration_ms ctx);
          shorter = (if is_start_segment (c_type c) then (end, - c_start_ms c)
                     else (- c_start_ms c, end))
      in (precedence (c_source c) (source_order ctx), enum_order (c_source c),
          - finite_confidence (c_confidence c), fst shorter, snd shorter,
          (case c_end_ms c of None \<Rightarrow> -1 | Some e \<Rightarrow> e)))"

definition source_rank :: "decision_context \<Rightarrow> source \<Rightarrow> nat \<times> nat" where
  "source_rank ctx s = (precedence s (source_order ctx), enum_order s)"

definition chapter_choice_key :: "int \<Rightarrow> candidate \<Rightarrow> int \<times> int" where
  "chapter_choice_key d c =
     ((if is_start_segment (c_type c) then c_start_ms c else - c_start_ms c), resolve_end_ms c d)"

lemma source_rank_inj [simp]: "source_rank ctx a = source_rank ctx b \<longleftrightarrow> a = b"
  by (auto simp: source_rank_def)

text \<open>Candidates of one type with equal ranks have the same source and the same times.\<close>

lemma rank_eqD:
  assumes "rank ctx a = rank ctx b" and "c_type a = c_type b"
  shows "c_source a = c_source b" and "c_start_ms a = c_start_ms b"
    and "resolve_end_ms a (duration_ms ctx) = resolve_end_ms b (duration_ms ctx)"
  using assms by (auto simp: rank_def Let_def split: if_splits)

section \<open>Markers made of candidates' edges\<close>

definition own_marker :: "candidate \<Rightarrow> decision_context \<Rightarrow> marker" where
  "own_marker c ctx = \<lparr>m_type = c_type c, m_start_ms = c_start_ms c,
     m_end_ms = resolve_end_ms c (duration_ms ctx),
     m_decided_by = [source_value (c_source c)], m_locked = False\<rparr>"

definition no_evidence :: "marker_type \<Rightarrow> marker option \<Rightarrow> string \<Rightarrow> type_decision" where
  "no_evidence t proposed reason = \<lparr>d_type = t, d_status = NO_EVIDENCE, d_marker = None,
     d_proposed = proposed, d_reason = reason\<rparr>"

definition decided :: "marker_type \<Rightarrow> marker \<Rightarrow> string \<Rightarrow> type_decision" where
  "decided t m reason = \<lparr>d_type = t, d_status = DECIDED, d_marker = Some m,
     d_proposed = None, d_reason = reason\<rparr>"

lemma no_evidence_simps [simp]:
  "d_status (no_evidence t p r) = NO_EVIDENCE" "d_marker (no_evidence t p r) = None"
  "d_type (no_evidence t p r) = t" "d_reason (no_evidence t p r) = r"
  "d_proposed (no_evidence t p r) = p"
  by (simp_all add: no_evidence_def)

lemma decided_simps [simp]:
  "d_status (decided t m r) = DECIDED" "d_marker (decided t m r) = Some m"
  "d_type (decided t m r) = t" "d_reason (decided t m r) = r" "d_proposed (decided t m r) = None"
  by (simp_all add: decided_def)

definition edges :: "marker_type \<Rightarrow> int \<Rightarrow> int \<Rightarrow> int \<times> int" where
  "edges t checked other = (if is_start_segment t then (other, checked) else (checked, other))"

text \<open>\<open>sorted(sources, key=_source_sort_key(ctx))\<close> of a set of sources.\<close>

definition sorted_sources :: "source set \<Rightarrow> decision_context \<Rightarrow> source list" where
  "sorted_sources S ctx = sort_key (source_rank ctx) (filter (\<lambda>s. s \<in> S) all_sources)"

definition composed_marker ::
  "marker_type \<Rightarrow> int \<Rightarrow> int \<Rightarrow> source set \<Rightarrow> decision_context \<Rightarrow> marker" where
  "composed_marker t checked other S ctx =
     (let (s, e) = edges t checked other
      in \<lparr>m_type = t, m_start_ms = s, m_end_ms = e,
          m_decided_by = map source_value (sorted_sources S ctx), m_locked = False\<rparr>)"

text \<open>
  \<open>_marker_is_sane\<close> probes with the first deciding source.  A marker credited to nothing, or
  to something that is no source, makes the code raise (IndexError, ValueError), which is
  \<open>None\<close>; \<open>own_marker_checked\<close> and \<open>composed_marker_checked\<close> below show that no marker the
  module composes is one.
\<close>

definition probe_source :: "marker \<Rightarrow> source option" where
  "probe_source m = (case m_decided_by m of [] \<Rightarrow> None | v # _ \<Rightarrow> source_of_value v)"

definition marker_is_sane :: "marker \<Rightarrow> decision_context \<Rightarrow> bool option" where
  "marker_is_sane m ctx = do {
     src \<leftarrow> probe_source m;
     Some (times_problem (new_candidate (m_type m) (m_start_ms m) (Some (m_end_ms m)) src) ctx = None)
   }"

text \<open>The check ran and passed.\<close>

definition sane_marker :: "marker \<Rightarrow> decision_context \<Rightarrow> bool" where
  "sane_marker m ctx \<longleftrightarrow> marker_is_sane m ctx = Some True"

definition safer_other_edge ::
  "marker_type \<Rightarrow> candidate list \<Rightarrow> decision_context \<Rightarrow> (int \<times> candidate list) option" where
  "safer_other_edge t suppliers ctx =
     (if is_start_segment t then do {
        value \<leftarrow> py_max_int (map c_start_ms suppliers);
        Some (value, filter (\<lambda>c. c_start_ms c = value) suppliers)
      } else do {
        value \<leftarrow> py_min_int (map (\<lambda>c. resolve_end_ms c (duration_ms ctx)) suppliers);
        Some (value, filter (\<lambda>c. resolve_end_ms c (duration_ms ctx) = value) suppliers)
      })"

section \<open>Lemmas\<close>

lemma set_sorted_sources [simp]: "set (sorted_sources S ctx) = S"
  by (auto simp: sorted_sources_def)

lemma sorted_sources_Nil [simp]: "sorted_sources S ctx = [] \<longleftrightarrow> S = {}"
  by (metis set_empty set_sorted_sources)

lemma own_marker_simps [simp]:
  "m_type (own_marker c ctx) = c_type c" "m_start_ms (own_marker c ctx) = c_start_ms c"
  "m_end_ms (own_marker c ctx) = resolve_end_ms c (duration_ms ctx)"
  "m_decided_by (own_marker c ctx) = [source_value (c_source c)]"
  "m_locked (own_marker c ctx) = False"
  by (simp_all add: own_marker_def)

lemma composed_marker_simps [simp]:
  "m_type (composed_marker t k x S ctx) = t"
  "m_start_ms (composed_marker t k x S ctx) = fst (edges t k x)"
  "m_end_ms (composed_marker t k x S ctx) = snd (edges t k x)"
  "m_decided_by (composed_marker t k x S ctx) = map source_value (sorted_sources S ctx)"
  "m_locked (composed_marker t k x S ctx) = False"
  by (simp_all add: composed_marker_def split_beta)

lemma edges_sel [simp]:
  "is_start_segment t \<Longrightarrow> edges t k x = (x, k)"
  "\<not> is_start_segment t \<Longrightarrow> edges t k x = (k, x)"
  by (simp_all add: edges_def)

lemma probe_own [simp]: "probe_source (own_marker c ctx) = Some (c_source c)"
  by (simp add: probe_source_def)

lemma probe_composed: "S \<noteq> {} \<Longrightarrow> \<exists>s \<in> S. probe_source (composed_marker t k x S ctx) = Some s"
proof -
  assume "S \<noteq> {}"
  then obtain s ss where ss: "sorted_sources S ctx = s # ss"
    by (metis list.exhaust sorted_sources_Nil)
  then have "s \<in> S" by (metis list.set_intros(1) set_sorted_sources)
  with ss show ?thesis by (auto simp: probe_source_def)
qed

lemma resolve_end_le [simp]: "resolve_end_ms c d \<le> d"
  by (simp add: resolve_end_ms_def split: option.splits)

lemma sane_probe_times:
  assumes "times_problem (new_candidate t s (Some e) src) ctx = None" and "e \<le> duration_ms ctx"
  shows "sane_times ctx t s e"
  using assms
  by (simp add: times_problem_None_iff new_candidate_def resolve_end_ms_def min_def
      split: if_splits)

lemma sane_markerD:
  "sane_marker m ctx \<Longrightarrow> m_end_ms m \<le> duration_ms ctx \<Longrightarrow>
     sane_times ctx (m_type m) (m_start_ms m) (m_end_ms m)"
  by (auto simp: sane_marker_def marker_is_sane_def bind_eq_Some_conv dest: sane_probe_times)

text \<open>A marker with a first source is checked without raising.\<close>

lemma marker_checked: "probe_source m \<noteq> None \<Longrightarrow> marker_is_sane m ctx = Some (sane_marker m ctx)"
  by (auto simp: sane_marker_def marker_is_sane_def)

lemma own_marker_checked [simp]:
  "marker_is_sane (own_marker c ctx) ctx = Some (sane_marker (own_marker c ctx) ctx)"
  by (rule marker_checked) simp

lemma composed_marker_checked [simp]:
  "S \<noteq> {} \<Longrightarrow> marker_is_sane (composed_marker t k x S ctx) ctx =
     Some (sane_marker (composed_marker t k x S ctx) ctx)"
  using probe_composed [of S t k x ctx] by (intro marker_checked) auto

lemma sane_times_probe:
  assumes "sane_times ctx t s e"
  shows "times_problem (new_candidate t s (Some e) src) ctx = None"
proof -
  have "e \<le> duration_ms ctx" using assms by (simp add: sane_times_def Let_def)
  with assms show ?thesis
    by (simp add: times_problem_None_iff new_candidate_def resolve_end_ms_def min_def
        end_allowance_ms_def ms_constants)
qed

text \<open>On a marker that has a source, sane means sane times.\<close>

lemma sane_marker_iff:
  assumes "m_end_ms m \<le> duration_ms ctx" and "probe_source m \<noteq> None"
  shows "sane_marker m ctx \<longleftrightarrow> sane_times ctx (m_type m) (m_start_ms m) (m_end_ms m)"
  using assms by (auto simp: sane_marker_def marker_is_sane_def sane_times_probe intro: sane_probe_times)

lemma own_marker_sane [sane_intros]:
  "sanity_problem c ctx = None \<Longrightarrow> sane_marker (own_marker c ctx) ctx"
  by (simp add: sane_marker_iff sane_candidate_times)

lemma safer_other_edge_Some:
  "suppliers \<noteq> [] \<Longrightarrow> \<exists>v ss. safer_other_edge t suppliers ctx = Some (v, ss) \<and> ss \<noteq> []"
proof -
  assume ne: "suppliers \<noteq> []"
  have "Max (c_start_ms ` set suppliers) \<in> c_start_ms ` set suppliers"
    and "Min ((\<lambda>c. resolve_end_ms c (duration_ms ctx)) ` set suppliers)
      \<in> (\<lambda>c. resolve_end_ms c (duration_ms ctx)) ` set suppliers"
    using ne by (simp_all add: Max_in Min_in)
  then have "\<exists>c \<in> set suppliers. c_start_ms c = Max (c_start_ms ` set suppliers)"
    and "\<exists>c \<in> set suppliers. resolve_end_ms c (duration_ms ctx) =
      Min ((\<lambda>c. resolve_end_ms c (duration_ms ctx)) ` set suppliers)"
    by (metis imageE)+
  with ne show ?thesis
    by (simp add: safer_other_edge_def py_max_int_eq py_min_int_eq filter_empty_conv)
qed

text \<open>The safer edge, whatever the order of the suppliers, and who supplies it.\<close>

lemma safer_other_edge_start:
  assumes "safer_other_edge t suppliers ctx = Some (v, ss)" and "is_start_segment t"
  shows "v = Max (c_start_ms ` set suppliers)" and "suppliers \<noteq> []"
    and "set ss = {c \<in> set suppliers. c_start_ms c = v}"
  using assms by (cases "suppliers = []"; auto simp: safer_other_edge_def py_max_int_eq)+

lemma safer_other_edge_end:
  assumes "safer_other_edge t suppliers ctx = Some (v, ss)" and "\<not> is_start_segment t"
  shows "v = Min ((\<lambda>c. resolve_end_ms c (duration_ms ctx)) ` set suppliers)" and "suppliers \<noteq> []"
    and "set ss = {c \<in> set suppliers. resolve_end_ms c (duration_ms ctx) = v}"
  using assms by (cases "suppliers = []"; auto simp: safer_other_edge_def py_min_int_eq)+

lemma safer_other_edge_le:
  assumes "safer_other_edge t suppliers ctx = Some (v, ss)" and "\<not> is_start_segment t"
  shows "v \<le> duration_ms ctx"
proof -
  obtain x where "x \<in> set suppliers"
    using safer_other_edge_end(2) [OF assms] by (cases suppliers) auto
  then have "v \<le> resolve_end_ms x (duration_ms ctx)"
    using safer_other_edge_end(1) [OF assms] by simp
  then show ?thesis using resolve_end_le order_trans by blast
qed

end
