(* ===== verification/Clusters.thy ===== *)
theory Clusters
  imports Ranking
begin

text \<open>
  Agreeing clusters (\<open>markers/decide.py\<close>): the sweep that finds every maximal set of
  mutually agreeing candidates (\<open>_agreeing_cliques\<close>), the marker such a cluster would publish
  (\<open>_compose_cluster\<close>), and the agreeing pairs that contradict a result
  (\<open>_contradicting_groups\<close>).  \<open>None\<close> of \<open>compose_cluster\<close> is the ValueError of \<open>min\<close>
  or \<open>max\<close> on an empty sequence.
\<close>

section \<open>The sweep\<close>

text \<open>The inner loop: slide the right edge out as far as the tolerance allows.\<close>

function extend_hi :: "int list \<Rightarrow> int \<Rightarrow> nat \<Rightarrow> nat \<Rightarrow> nat" where
  "extend_hi vs tol lo hi =
     (if hi + 1 < length vs \<and> vs ! (hi + 1) - vs ! lo \<le> tol
      then extend_hi vs tol lo (hi + 1) else hi)"
  by pat_completeness auto
termination
  by (relation "measure (\<lambda>(vs, tol, lo, hi). length vs - hi)") auto

declare extend_hi.simps [simp del]

definition window_of :: "'a list \<Rightarrow> nat \<Rightarrow> nat \<Rightarrow> 'a list" where
  "window_of xs lo hi = take (hi + 1 - lo) (drop lo xs)"

text \<open>The outer loop over the left edges, with the variables \<open>last_hi\<close> and \<open>hi\<close>.\<close>

fun clique_loop ::
  "('a list \<Rightarrow> bool) \<Rightarrow> 'a list \<Rightarrow> int list \<Rightarrow> int \<Rightarrow> nat list \<Rightarrow> int \<Rightarrow> nat \<Rightarrow> 'a list list" where
  "clique_loop keep xs vs tol [] last_hi hi = []"
| "clique_loop keep xs vs tol (lo # los) last_hi hi =
     (let hi' = extend_hi vs tol lo (max hi lo) in
      if int hi' \<le> last_hi then clique_loop keep xs vs tol los last_hi hi'
      else
        (if keep (window_of xs lo hi') then [window_of xs lo hi'] else []) @
        clique_loop keep xs vs tol los (int hi') hi')"

definition spans_groups :: "candidate list \<Rightarrow> bool" where
  "spans_groups w \<longleftrightarrow>
     card (group_of ` set w) \<ge> 2 \<and> (\<exists>c \<in> set w. c_source c \<notin> AUDIO_OR_SERVER)"

definition agreeing_cliques ::
  "candidate list \<Rightarrow> marker_type \<Rightarrow> decision_context \<Rightarrow> candidate list list" where
  "agreeing_cliques cs t ctx =
     (let d = duration_ms ctx;
          by_value = sort_key (\<lambda>c. (agree_value c d, rank ctx c)) cs;
          vs = map (\<lambda>c. agree_value c d) by_value
      in map (sort_key (rank ctx))
           (clique_loop spans_groups by_value vs (tolerance_ms t) [0..<length by_value] (-1) 0))"

section \<open>Composing a cluster\<close>

definition partial_season_match :: "candidate \<Rightarrow> candidate list \<Rightarrow> bool" where
  "partial_season_match c confirmed =
     (if c_source c \<noteq> SEASON_AUDIO \<or> hd (split_on CHR ''/'' (c_origin c)) \<noteq> ''1'' then False
      else \<exists>o' \<in> set confirmed.
             c_source o' \<notin> SERVER_SOURCES \<and> group_of o' \<noteq> group_of c \<and>
             c_start_ms c - c_start_ms o' > OTHER_RELEASE_MIN_SHIFT_MS)"

definition confirmed_in :: "candidate list \<Rightarrow> int \<Rightarrow> candidate list" where
  "confirmed_in cl d =
     filter (\<lambda>c. \<exists>o' \<in> set cl. group_of o' \<noteq> group_of c \<and> agree c o' d) cl"

definition winner_key ::
  "bool \<Rightarrow> bool \<Rightarrow> decision_context \<Rightarrow> candidate \<Rightarrow> bool \<times> bool \<times> rank_key" where
  "winner_key file_edge text_start ctx c =
     (file_edge \<and> timed_on_any_release c, text_start \<and> c_source c \<noteq> CREDITS_TEXT, rank ctx c)"

definition cluster_winner ::
  "candidate list \<Rightarrow> marker_type \<Rightarrow> decision_context \<Rightarrow> bool \<Rightarrow> candidate option" where
  "cluster_winner non_server t ctx text_start =
     (let file_edge = is_start_segment t \<and> (\<exists>c \<in> set non_server. c_source c \<in> READS_THE_FILE)
      in do {
        winner \<leftarrow> py_min (winner_key file_edge text_start ctx) non_server;
        Some (if t = CREDITS then
                (case py_min (rank ctx) (filter (\<lambda>c. c_source c = CREDITS_TEXT) non_server) of
                   None \<Rightarrow> winner
                 | Some txt \<Rightarrow>
                     if \<bar>c_start_ms txt - c_start_ms winner\<bar> > TEXT_OVER_ONLINE_MS then txt
                     else winner)
              else winner)
      })"

definition compose_cluster ::
  "candidate list \<Rightarrow> marker_type \<Rightarrow> decision_context \<Rightarrow> bool \<Rightarrow> (marker \<times> candidate) option" where
  "compose_cluster cl t ctx text_start =
     (let d = duration_ms ctx;
          confirmed = confirmed_in cl d;
          non_server = filter (\<lambda>c. c_source c \<notin> SERVER_SOURCES) confirmed
      in do {
        winner \<leftarrow> cluster_winner non_server t ctx text_start;
        let edge_pool = (if is_start_segment t
                         then filter (\<lambda>c. \<not> partial_season_match c confirmed) confirmed else []);
        (other_edge, suppliers) \<leftarrow>
          safer_other_edge t (if edge_pool = [] then confirmed else edge_pool) ctx;
        let sources = c_source ` set (winner # suppliers @ filter (\<lambda>c. agree winner c d) confirmed);
        Some (composed_marker t (agree_value winner d) other_edge sources ctx, winner)
      })"

section \<open>Contradicting pairs\<close>

definition contradicting_groups ::
  "marker \<Rightarrow> candidate list \<Rightarrow> decision_context \<Rightarrow> string list" where
  "contradicting_groups m pool ctx =
     (let d = duration_ms ctx;
          far = filter (\<lambda>c. \<bar>agree_value c d - checked_value (m_type m) m\<bar> > tolerance_ms (m_type m))
                  pool;
          pairs = filter (\<lambda>(a, b). group_of a \<noteq> group_of b \<and> agree a b d) (pairs_of far)
      in sort (dedupe (concat (map (\<lambda>(a, b). [group_of a, group_of b]) pairs))))"

section \<open>The sweep finds exactly the agreeing windows\<close>

lemma extend_hi_ge: "hi \<le> extend_hi vs tol lo hi"
proof (induction vs tol lo hi rule: extend_hi.induct)
  case (1 vs tol lo hi)
  then show ?case by (subst extend_hi.simps) auto
qed

lemma extend_hi_less: "hi < length vs \<Longrightarrow> extend_hi vs tol lo hi < length vs"
proof (induction vs tol lo hi rule: extend_hi.induct)
  case (1 vs tol lo hi)
  then show ?case by (subst extend_hi.simps) auto
qed

lemma extend_hi_within:
  "vs ! hi - vs ! lo \<le> tol \<Longrightarrow> vs ! extend_hi vs tol lo hi - vs ! lo \<le> tol"
proof (induction vs tol lo hi rule: extend_hi.induct)
  case (1 vs tol lo hi)
  then show ?case by (subst extend_hi.simps) auto
qed

lemma extend_hi_stops:
  "extend_hi vs tol lo hi + 1 < length vs \<Longrightarrow> vs ! (extend_hi vs tol lo hi + 1) - vs ! lo > tol"
proof (induction vs tol lo hi rule: extend_hi.induct)
  case (1 vs tol lo hi)
  show ?case
  proof (cases "hi + 1 < length vs \<and> vs ! (hi + 1) - vs ! lo \<le> tol")
    case True
    with 1 show ?thesis by (simp add: extend_hi.simps [of vs tol lo hi])
  next
    case False
    with "1.prems" show ?thesis by (auto simp: extend_hi.simps [of vs tol lo hi])
  qed
qed

lemma sorted_nth_le: "sorted (vs::int list) \<Longrightarrow> i \<le> j \<Longrightarrow> j < length vs \<Longrightarrow> vs ! i \<le> vs ! j"
  by (rule sorted_nth_mono)

text \<open>The loop keeps the right edge within tolerance of the next left edge.\<close>

definition sweep_inv :: "int list \<Rightarrow> int \<Rightarrow> nat \<Rightarrow> nat \<Rightarrow> bool" where
  "sweep_inv vs tol lo hi \<longleftrightarrow> hi < length vs \<and> (lo < hi \<longrightarrow> vs ! hi - vs ! lo \<le> tol)"

lemma sweep_inv_edge:
  assumes "sweep_inv vs tol lo hi" and "lo < length vs" and "0 \<le> tol"
  shows "vs ! extend_hi vs tol lo (max hi lo) - vs ! lo \<le> tol"
    and "extend_hi vs tol lo (max hi lo) < length vs" and "lo \<le> extend_hi vs tol lo (max hi lo)"
proof -
  have "vs ! max hi lo - vs ! lo \<le> tol" using assms by (auto simp: sweep_inv_def max_def)
  then show "vs ! extend_hi vs tol lo (max hi lo) - vs ! lo \<le> tol" by (rule extend_hi_within)
  show "extend_hi vs tol lo (max hi lo) < length vs"
    using assms by (intro extend_hi_less) (simp add: sweep_inv_def)
  show "lo \<le> extend_hi vs tol lo (max hi lo)"
    using extend_hi_ge [of "max hi lo" vs tol lo] by simp
qed

lemma sweep_inv_next:
  assumes "sweep_inv vs tol lo hi" and "Suc lo < length vs" and "0 \<le> tol" and "sorted vs"
  shows "sweep_inv vs tol (Suc lo) (extend_hi vs tol lo (max hi lo))"
  using sweep_inv_edge [OF assms(1) _ assms(3)] assms(2)
    sorted_nth_le [OF assms(4), of lo "Suc lo"]
  by (auto simp: sweep_inv_def)

lemma clique_loop_sound:
  assumes "W \<in> set (clique_loop keep xs vs tol [lo..<length vs] last_hi hi)"
    and "sweep_inv vs tol lo hi" and "0 \<le> tol" and "sorted vs"
  shows "\<exists>i j. lo \<le> i \<and> i \<le> j \<and> j < length vs \<and> vs ! j - vs ! i \<le> tol \<and>
    (j + 1 < length vs \<longrightarrow> vs ! (j + 1) - vs ! i > tol) \<and> last_hi < int j \<and>
    W = window_of xs i j \<and> keep W"
  using assms
proof (induction "length vs - lo" arbitrary: lo last_hi hi)
  case 0
  then show ?case by simp
next
  case (Suc n)
  then have lo: "lo < length vs" by simp
  then have upt: "[lo..<length vs] = lo # [Suc lo..<length vs]" by (rule upt_conv_Cons)
  let ?h = "extend_hi vs tol lo (max hi lo)"
  note edge = sweep_inv_edge [OF Suc.prems(2) lo Suc.prems(3)]
  have rest: ?case
    if "W \<in> set (clique_loop keep xs vs tol [Suc lo..<length vs] l ?h)" and l: "last_hi \<le> l" for l
  proof (cases "Suc lo < length vs")
    case True
    have "n = length vs - Suc lo" using Suc.hyps(2) by simp
    from Suc.hyps(1) [OF this that(1) sweep_inv_next [OF Suc.prems(2) True Suc.prems(3,4)]
        Suc.prems(3,4)]
    obtain i j where "Suc lo \<le> i" "i \<le> j" "j < length vs" "vs ! j - vs ! i \<le> tol"
      "j + 1 < length vs \<longrightarrow> vs ! (j + 1) - vs ! i > tol" "l < int j" "W = window_of xs i j" "keep W"
      by blast
    with l show ?thesis by (intro exI [of _ i] exI [of _ j]) simp
  next
    case False
    with that show ?thesis by simp
  qed
  from Suc.prems(1) consider "W = window_of xs lo ?h" and "keep W" and "last_hi < int ?h"
    | l where "W \<in> set (clique_loop keep xs vs tol [Suc lo..<length vs] l ?h)" and "last_hi \<le> l"
    by (auto simp: upt Let_def split: if_splits)
  then show ?case
  proof cases
    case 1
    with edge extend_hi_stops [of vs tol lo "max hi lo"] show ?thesis by blast
  next
    case 2
    then show ?thesis by (rule rest)
  qed
qed

text \<open>Of two windows the later one starts later and reaches further; both are slid out as far as they go.\<close>

definition later_window :: "'a list \<Rightarrow> int list \<Rightarrow> int \<Rightarrow> 'a list \<Rightarrow> 'a list \<Rightarrow> bool" where
  "later_window xs vs tol W W' \<longleftrightarrow>
     (\<exists>i j i' j'. W = window_of xs i j \<and> W' = window_of xs i' j' \<and> i \<le> j \<and> i < i' \<and> j < j' \<and>
        i' \<le> j' \<and> j' < length vs \<and> vs ! (j + 1) - vs ! i > tol \<and> vs ! j - vs ! i \<le> tol \<and>
        vs ! j' - vs ! i' \<le> tol)"

lemma clique_loop_later:
  assumes "sweep_inv vs tol lo hi" and "0 \<le> tol" and "sorted vs"
  shows "sorted_wrt (later_window xs vs tol) (clique_loop keep xs vs tol [lo..<length vs] last_hi hi)"
  using assms
proof (induction "length vs - lo" arbitrary: lo last_hi hi)
  case 0
  then show ?case by simp
next
  case (Suc n)
  then have lo: "lo < length vs" by simp
  then have upt: "[lo..<length vs] = lo # [Suc lo..<length vs]" by (rule upt_conv_Cons)
  let ?h = "extend_hi vs tol lo (max hi lo)"
  note edge = sweep_inv_edge [OF Suc.prems(1) lo Suc.prems(2)]
  show ?case
  proof (cases "Suc lo < length vs")
    case False
    then show ?thesis by (simp add: upt Let_def)
  next
    case True
    note inv = sweep_inv_next [OF Suc.prems(1) True Suc.prems(2,3)]
    have n: "n = length vs - Suc lo" using Suc.hyps(2) by simp
    have rest: "sorted_wrt (later_window xs vs tol)
        (clique_loop keep xs vs tol [Suc lo..<length vs] l ?h)" for l
      using Suc.hyps(1) [OF n inv Suc.prems(2,3)] .
    have "later_window xs vs tol (window_of xs lo ?h) W"
      if "W \<in> set (clique_loop keep xs vs tol [Suc lo..<length vs] (int ?h) ?h)" for W
    proof -
      from clique_loop_sound [OF that inv Suc.prems(2,3)] obtain i j where "Suc lo \<le> i" "i \<le> j"
        "j < length vs" "vs ! j - vs ! i \<le> tol" "?h < j" "W = window_of xs i j" by auto
      with edge extend_hi_stops [of vs tol lo "max hi lo"] show ?thesis
        unfolding later_window_def by (intro exI [of _ lo] exI [of _ ?h] exI [of _ i] exI [of _ j]) auto
    qed
    with rest show ?thesis by (simp add: upt Let_def)
  qed
qed

lemma clique_loop_complete:
  assumes "lo \<le> i" and "i \<le> j" and "j < length vs" and "vs ! j - vs ! i \<le> tol"
    and "last_hi < int j" and "sweep_inv vs tol lo hi" and "0 \<le> tol" and "sorted vs"
  shows "\<exists>i' j'. i' \<le> i \<and> j \<le> j' \<and> j' < length vs \<and>
    (keep (window_of xs i' j') \<longrightarrow>
       window_of xs i' j' \<in> set (clique_loop keep xs vs tol [lo..<length vs] last_hi hi))"
  using assms
proof (induction "length vs - lo" arbitrary: lo last_hi hi)
  case 0
  then show ?case by simp
next
  case (Suc n)
  then have lo: "lo < length vs" by simp
  then have upt: "[lo..<length vs] = lo # [Suc lo..<length vs]" by (rule upt_conv_Cons)
  let ?h = "extend_hi vs tol lo (max hi lo)"
  note edge = sweep_inv_edge [OF Suc.prems(6) lo Suc.prems(7)]
  show ?case
  proof (cases "j \<le> ?h \<and> last_hi < int ?h")
    case True
    with edge Suc.prems(1) show ?thesis
      by (intro exI [of _ lo] exI [of _ ?h]) (simp add: upt Let_def)
  next
    case False
    have ne: "i \<noteq> lo"
    proof
      assume "i = lo"
      then have "vs ! j - vs ! lo \<le> tol" using Suc.prems(4) by simp
      moreover have "vs ! (?h + 1) \<le> vs ! j" if "?h + 1 \<le> j"
        using sorted_nth_le [OF Suc.prems(8) that Suc.prems(3)] .
      ultimately have "j \<le> ?h"
        using extend_hi_stops [of vs tol lo "max hi lo"] Suc.prems(3) by force
      with False Suc.prems(5) show False by simp
    qed
    then have lo': "Suc lo \<le> i" using Suc.prems(1) by simp
    then have "Suc lo < length vs" using Suc.prems(2,3) by simp
    note inv = sweep_inv_next [OF Suc.prems(6) this Suc.prems(7,8)]
    let ?l = "if int ?h \<le> last_hi then last_hi else int ?h"
    have l: "?l < int j" using False Suc.prems(5) by auto
    have "n = length vs - Suc lo" using Suc.hyps(2) by simp
    from Suc.hyps(1) [OF this lo' Suc.prems(2-4) l inv Suc.prems(7,8)] show ?thesis
      by (auto simp: upt Let_def split: if_splits)
  qed
qed

end
