(* ===== verification/Cluster_Decision.thy ===== *)
theory Cluster_Decision
  imports Clusters
begin

text \<open>
  The decision of agreeing clusters (\<open>_decide_from_cliques\<close>) and of a chapter against them
  (\<open>_decide_from_chapters\<close> and its helpers, rule 3) of \<open>markers/decide.py\<close>, with the chapter
  hint a credit text answer carries and the season's limit on an intro chapter.
  A definition of type \<open>_ option\<close> is \<open>None\<close> where the code raises; \<open>... option option\<close>
  adds the code's own \<open>None\<close> inside.
\<close>

section \<open>Reasons\<close>

definition SEASON_AUDIO_WITH_SERVER_REASON :: string where
  "SEASON_AUDIO_WITH_SERVER_REASON = ''Season audio and a server's own marker agree, '' @
     ''but both come from matching audio; needs another source''"

definition LONG_INTRO_CHAPTER_REASON :: string where
  "LONG_INTRO_CHAPTER_REASON = ''Intro chapter is much longer than the rest of the season's''"

definition TEXT_CHECKS_CHAPTER_REASON :: string where
  "TEXT_CHECKS_CHAPTER_REASON =
     ''chapters contradicted by skipdb; waiting for credit text to check them''"

definition TEXT_OVER_CHAPTER_REASON :: string where
  "TEXT_OVER_CHAPTER_REASON = ''credit text and agreeing sources contradict the chapters: ''"

definition TEXT_MOVES_CHAPTER_REASON :: string where
  "TEXT_MOVES_CHAPTER_REASON =
     ''chapters, the start moved to the credit roll the frames show''"

definition AUDIO_CHECKS_CHAPTER_REASON :: string where
  "AUDIO_CHECKS_CHAPTER_REASON =
     ''chapters contradicted by an online answer; waiting for season audio to check them''"

definition AUDIO_OVER_CHAPTER_REASON :: string where
  "AUDIO_OVER_CHAPTER_REASON = ''season audio and agreeing sources contradict the chapters: ''"

definition TEXT_START_NOTE :: string where
  "TEXT_START_NOTE = ''start from credit text''"

fun source_label :: "source \<Rightarrow> string" where
  "source_label CHAPTERS = ''chapters''"
| "source_label THEINTRODB = ''TheIntroDB''"
| "source_label INTRODB = ''IntroDB''"
| "source_label SKIPDB = ''SkipDB''"
| "source_label SEASON_AUDIO = ''season audio''"
| "source_label SEASON_AUDIO_PREVIOUS = ''the previous season's audio''"
| "source_label CREDITS_TEXT = ''on-screen text''"
| "source_label SERVER_MARKERS = ''a server's own marker''"
| "source_label SERVER_MARKERS_IMPORTED = ''a server's imported marker''"
| "source_label USER = source_value USER"

definition comma :: "string list \<Rightarrow> string" where
  "comma = join '', ''"

section \<open>Agreeing clusters decide\<close>

definition credit_text_with_own_marker ::
  "candidate list \<Rightarrow> decision_context \<Rightarrow> candidate option option" where
  "credit_text_with_own_marker cs ctx =
     (if publish_when ctx \<noteq> ''medium'' then Some None
      else do {
        reads \<leftarrow> filter_opt (\<lambda>c. if c_source c \<in> WINS_A_DISAGREEMENT
                               then marker_is_sane (own_marker c ctx) ctx else Some False) cs;
        Some (py_min (rank ctx) reads)
      })"

text \<open>
  The part after the conflict check.  \<open>merged\<close> keeps one of each object; the model keeps one of
  each value, which only drops an exact double of a candidate already there.
\<close>

definition decide_merged ::
  "marker_type \<Rightarrow> candidate list list \<Rightarrow> string \<Rightarrow> decision_context \<Rightarrow> bool \<Rightarrow>
     type_decision option" where
  "decide_merged t cliques outvoted ctx text_start =
     (let merged = dedupe (concat cliques) in do {
        (marker, winner) \<leftarrow> compose_cluster merged t ctx text_start;
        sane \<leftarrow> marker_is_sane marker ctx;
        if \<not> sane then do {
          own_read \<leftarrow> credit_text_with_own_marker merged ctx;
          Some (case own_read of
             None \<Rightarrow> no_evidence t (Some (own_marker winner ctx))
                       ''agreeing sources disagree on the other edge''
           | Some text_read \<Rightarrow> decided t (own_marker text_read ctx)
               (''single source ('' @ source_value (c_source text_read) @
                ''); agreeing sources disagree on the other edge''))
        } else Some
          (let reason = ''sources agree: '' @ comma (m_decided_by marker) @ outvoted;
               others = {s \<in> c_source ` set merged. source_value s \<in> set (m_decided_by marker)}
                          - SERVER_SOURCES - {c_source winner}
           in decided t marker
                (if t = CREDITS \<and> \<not> text_start \<and> c_source winner = CREDITS_TEXT \<and> others \<noteq> {}
                 then reason @ ''; '' @ TEXT_START_NOTE else reason))
      })"

definition decide_from_cliques ::
  "marker_type \<Rightarrow> candidate list list \<Rightarrow> decision_context \<Rightarrow> bool \<Rightarrow> type_decision option" where
  "decide_from_cliques t cliques ctx text_start = do {
     composed \<leftarrow> map_opt (\<lambda>cl. compose_cluster cl t ctx text_start) cliques;
     let values = map (\<lambda>mw. checked_value t (fst mw)) composed;
     high \<leftarrow> py_max_int values;
     low \<leftarrow> py_min_int values;
     if high - low > tolerance_ms t then
       (let ranked = sort_key (\<lambda>mw. rank ctx (snd mw)) composed;
            names = join '' vs '' (dedupe (map (\<lambda>mw. group_of (snd mw)) ranked));
            reads = filter (\<lambda>cl. \<exists>c \<in> set cl. c_source c \<in> WINS_A_DISAGREEMENT) cliques
        in if length reads \<noteq> 1
           then Some (no_evidence t (Some (fst (hd ranked))) (''agreeing sources conflict: '' @ names))
           else decide_merged t reads
                  (''; agreeing sources conflict ('' @ names @ ''), credit text's cluster decides'')
                  ctx text_start)
     else decide_merged t cliques [] ctx text_start
   }"

definition took_start_from_text :: "string \<Rightarrow> bool" where
  "took_start_from_text reason \<longleftrightarrow> contains (''; '' @ TEXT_START_NOTE) reason"

text \<open>
  \<open>_agreed\<close>: decided from the agreement, not from one file read's own edges.  A DECIDED
  decision that carries no marker makes the code raise (AttributeError on None), here \<open>None\<close>.
\<close>

definition agreed :: "type_decision \<Rightarrow> bool option" where
  "agreed dec =
     (if d_status dec \<noteq> DECIDED then Some False
      else do { m \<leftarrow> d_marker dec; Some (length (m_decided_by m) > 1) })"

text \<open>\<open>replace(decision, reason=...)\<close> with the decided marker's sources.\<close>

definition with_reason :: "type_decision \<Rightarrow> string \<Rightarrow> type_decision option" where
  "with_reason dec prefix =
     do { m \<leftarrow> d_marker dec; Some (dec\<lparr>d_reason := prefix @ comma (m_decided_by m)\<rparr>) }"

definition text_over_chapter ::
  "candidate list list \<Rightarrow> marker_type \<Rightarrow> decision_context \<Rightarrow> type_decision option option" where
  "text_over_chapter clusters t ctx =
     (if \<exists>cl \<in> set clusters.
           \<not> (\<exists>c \<in> set cl. c_source c = CREDITS_TEXT) \<or>
           \<not> (\<exists>c \<in> set cl. c_source c \<notin> SERVER_SOURCES \<and> group_of c \<noteq> source_value CREDITS_TEXT)
      then Some None
      else do {
        decision \<leftarrow> decide_from_cliques t clusters ctx True;
        by_agreement \<leftarrow> agreed decision;
        if \<not> by_agreement then Some None
        else map_option Some (with_reason decision TEXT_OVER_CHAPTER_REASON)
      })"

definition audio_over_chapter ::
  "candidate list list \<Rightarrow> marker \<Rightarrow> decision_context \<Rightarrow> type_decision option option" where
  "audio_over_chapter clusters chapter ctx =
     (if \<exists>cl \<in> set clusters.
           \<not> (\<exists>c \<in> set cl. c_source c = SEASON_AUDIO) \<or>
           \<not> (\<exists>c \<in> set cl. c_source c \<notin> SERVER_SOURCES \<and> group_of c \<noteq> source_value SEASON_AUDIO)
      then Some None
      else do {
        decision \<leftarrow> decide_from_cliques INTRO clusters ctx False;
        by_agreement \<leftarrow> agreed decision;
        if \<not> by_agreement then Some None
        else do {
          m \<leftarrow> d_marker decision;
          if \<not> (m_start_ms chapter < m_end_ms m \<and> m_end_ms m < m_end_ms chapter) then Some None
          else map_option Some (with_reason decision AUDIO_OVER_CHAPTER_REASON)
        }
      })"

section \<open>The chapter hint\<close>

definition chapter_hint :: "int \<Rightarrow> bool \<Rightarrow> int option \<Rightarrow> string" where
  "chapter_hint chapter_start moves to_ms =
     (let verdict = (if moves then ''the frames move'' else ''the frames keep'');
          target = (case to_ms of
                      Some n \<Rightarrow> if moves then '' to '' @ show_int n @ '' ms'' else []
                    | None \<Rightarrow> [])
      in verdict @ '' the credits chapter at '' @ show_int chapter_start @ '' ms'' @ target)"

text \<open>
  The label's pattern, read left to right: \<open>\<d>+\<close> is a maximal run of digits, and \<open>$\<close> also
  matches before one final newline.
\<close>

definition at_end :: "string \<Rightarrow> bool" where
  "at_end s \<longleftrightarrow> s = [] \<or> s = [CHR 0x0A]"

definition take_number :: "string \<Rightarrow> (nat \<times> string) option" where
  "take_number s =
     (let ds = takeWhile is_digit s
      in if ds = [] then None else Some (read_nat ds, dropWhile is_digit s))"

definition read_verdict :: "string \<Rightarrow> (bool \<times> string) option" where
  "read_verdict s =
     (case strip_prefix ''move'' s of
        Some r \<Rightarrow> Some (True, r)
      | None \<Rightarrow> map_option (Pair False) (strip_prefix ''keep'' s))"

definition read_chapter_hint :: "string \<Rightarrow> (int \<times> bool \<times> int option) option" where
  "read_chapter_hint label = do {
     r1 \<leftarrow> strip_prefix ''the frames '' label;
     (moves, r2) \<leftarrow> read_verdict r1;
     r3 \<leftarrow> strip_prefix '' the credits chapter at '' r2;
     (start, r4) \<leftarrow> take_number r3;
     r5 \<leftarrow> strip_prefix '' ms'' r4;
     if at_end r5 then Some (int start, moves, None)
     else do {
       r6 \<leftarrow> strip_prefix '' to '' r5;
       (target, r7) \<leftarrow> take_number r6;
       r8 \<leftarrow> strip_prefix '' ms'' r7;
       if at_end r8 then Some (int start, moves, Some (int target)) else None
     }
   }"

section \<open>The season's limit on an intro chapter\<close>

definition intro_chapter_length_ms :: "candidate list \<Rightarrow> int \<Rightarrow> int option" where
  "intro_chapter_length_ms candidates d =
     (let ctx = new_context d False ''high'' {INTRO} [];
          chapters = filter (\<lambda>c. c_source c = CHAPTERS \<and> c_type c = INTRO \<and>
                                 sanity_problem c ctx = None) candidates
      in map_option (\<lambda>c. resolve_end_ms c d - c_start_ms c) (py_min (chapter_choice_key d) chapters))"

text \<open>
  \<open>statistics.median\<close> of integers is the middle one, or the float half of the sum of the two
  middle ones; the margin and the doubling are integer arithmetic in the first case, float
  arithmetic in the second.
\<close>

definition intro_chapter_limit_ms :: "int list \<Rightarrow> int option" where
  "intro_chapter_limit_ms lengths =
     (if length lengths < SEASON_INTRO_CHAPTERS_MIN_OTHERS then None
      else let xs = sort lengths; n = length xs; margin = SEASON_INTRO_CHAPTER_MIN_MARGIN_MS
      in if odd n then
           (let m = xs ! (n div 2) in Some (max (2 * m) (m + margin)))
         else
           (let m = fl (of_int (xs ! (n div 2 - 1) + xs ! (n div 2)) / 2)
            in Some \<lfloor>max (fl (2 * m)) (fl (m + of_int margin))\<rfloor>))"

section \<open>A chapter against the other sources\<close>

definition is_online :: "candidate \<Rightarrow> bool" where
  "is_online c \<longleftrightarrow> c_source c \<in> ONLINE_SOURCES \<or> c_source c = SERVER_MARKERS_IMPORTED"

definition audio_should_check_chapter ::
  "marker \<Rightarrow> candidate list \<Rightarrow> decision_context \<Rightarrow> bool" where
  "audio_should_check_chapter chapter others ctx =
     (let tol = tolerance_ms INTRO; end_of = (\<lambda>c. resolve_end_ms c (duration_ms ctx)) in
      if source_value SEASON_AUDIO \<notin> set (source_order ctx) then False
      else if \<exists>c \<in> set others. c_source c \<in> {SEASON_AUDIO, SEASON_AUDIO_PREVIOUS} then False
      else if \<exists>c \<in> set others. \<bar>end_of c - m_end_ms chapter\<bar> \<le> tol then False
      else \<exists>c \<in> set others. is_online c \<and> m_start_ms chapter < end_of c \<and>
             end_of c < m_end_ms chapter - tol)"

definition text_should_check_chapter :: "int \<Rightarrow> candidate list \<Rightarrow> decision_context \<Rightarrow> bool" where
  "text_should_check_chapter chapter_value others ctx =
     (let tol = tolerance_ms CREDITS in
      if source_value CREDITS_TEXT \<notin> set (source_order ctx) \<or>
         (\<exists>c \<in> set others. c_source c = CREDITS_TEXT) then False
      else if \<exists>c \<in> set others. \<bar>c_start_ms c - chapter_value\<bar> \<le> tol then False
      else \<exists>c \<in> set others. group_of c = source_value SKIPDB)"

definition moving_text_answers :: "candidate \<Rightarrow> candidate list \<Rightarrow> candidate list" where
  "moving_text_answers chosen others =
     filter (\<lambda>c. c_source c = CREDITS_TEXT \<and>
       (case read_chapter_hint (c_origin c) of
          None \<Rightarrow> False
        | Some (start, moves, to_ms) \<Rightarrow> start = c_start_ms chosen \<and> moves)) others"

definition hint_target :: "candidate \<Rightarrow> int" where
  "hint_target answer =
     (case read_chapter_hint (c_origin answer) of
        Some (_, _, Some to_ms) \<Rightarrow> to_ms
      | _ \<Rightarrow> c_start_ms answer)"

definition text_moves_chapter ::
  "candidate \<Rightarrow> marker \<Rightarrow> candidate list \<Rightarrow> decision_context \<Rightarrow> type_decision option option" where
  "text_moves_chapter chosen chapter others ctx =
     (let tol = tolerance_ms CREDITS in
      case moving_text_answers chosen others of
        [answer] \<Rightarrow>
          (let start = hint_target answer;
               end = min (m_end_ms chapter) (resolve_end_ms answer (duration_ms ctx));
               marker = composed_marker CREDITS start end {CHAPTERS, CREDITS_TEXT} ctx
           in if \<bar>start - m_start_ms chapter\<bar> \<le> tol then Some None
              else if \<exists>c \<in> set others. c_source c \<noteq> CREDITS_TEXT \<and>
                        \<bar>c_start_ms c - m_start_ms chapter\<bar> \<le> tol then Some None
              else do {
                sane \<leftarrow> marker_is_sane marker ctx;
                Some (if \<not> sane then None
                      else Some (decided CREDITS marker TEXT_MOVES_CHAPTER_REASON))
              })
      | _ \<Rightarrow> Some None)"

text \<open>The clusters that contradict the chapter, with the marker each would publish.\<close>

definition contradicting_clusters ::
  "marker_type \<Rightarrow> int \<Rightarrow> candidate list \<Rightarrow> decision_context \<Rightarrow>
     (candidate list \<times> marker) list option" where
  "contradicting_clusters t chapter_value others ctx = do {
     composed \<leftarrow> map_opt (\<lambda>cl. do { mw \<leftarrow> compose_cluster cl t ctx (t = CREDITS); Some (cl, fst mw) })
                   (agreeing_cliques others t ctx);
     Some (filter (\<lambda>cm. \<bar>checked_value t (snd cm) - chapter_value\<bar> > tolerance_ms t) composed)
   }"

text \<open>Contradicted: credit text that agrees with the chapter lets it stand.\<close>

definition contradicted_chapter ::
  "marker_type \<Rightarrow> marker \<Rightarrow> candidate list \<Rightarrow> marker \<Rightarrow> decision_context \<Rightarrow> type_decision" where
  "contradicted_chapter t chapter others against ctx =
     (let value = checked_value t chapter;
          reason = ''chapters contradicted by agreeing sources: '' @ comma (m_decided_by against);
          reads = filter (\<lambda>c. c_source c \<in> WINS_A_DISAGREEMENT \<and>
                    \<bar>agree_value c (duration_ms ctx) - value\<bar> \<le> tolerance_ms t) others
      in if reads \<noteq> [] then
           (let other_edge = (if is_start_segment t then m_start_ms chapter else m_end_ms chapter);
                marker = composed_marker t value other_edge ({CHAPTERS} \<union> c_source ` set reads) ctx;
                labels = join '' and '' (dedupe (map (\<lambda>c. source_label (c_source c)) reads))
            in decided t marker (''chapters, '' @ labels @ '' agrees; '' @ reason))
         else no_evidence t (Some chapter) reason)"

text \<open>Uncontradicted: the agreeing sources may confirm a suspect chapter and shorten the skip.\<close>

definition accepted_chapter ::
  "marker_type \<Rightarrow> marker \<Rightarrow> candidate list \<Rightarrow> decision_context \<Rightarrow> type_decision option" where
  "accepted_chapter t chapter others ctx =
     (let value = checked_value t chapter;
          agreeing = filter (\<lambda>c. \<bar>agree_value c (duration_ms ctx) - value\<bar> \<le> tolerance_ms t) others;
          suspect = (t = INTRO \<and> (case ctx_intro_chapter_limit_ms ctx of
                       None \<Rightarrow> False
                     | Some limit \<Rightarrow> m_end_ms chapter - m_start_ms chapter > limit));
          sources = {CHAPTERS} \<union> c_source ` set agreeing
      in if suspect \<and> (\<forall>c \<in> set agreeing. c_source c \<in> SERVER_SOURCES)
         then Some (no_evidence t (Some chapter) LONG_INTRO_CHAPTER_REASON)
         else if card (group_of ` set agreeing) \<ge> (if suspect then 1 else 2) then do {
           edge \<leftarrow> safer_other_edge t agreeing ctx;
           let other_edge = fst edge;
           let safer = (if is_start_segment t then other_edge > m_start_ms chapter
                        else other_edge < m_end_ms chapter);
           m \<leftarrow> (if safer then do {
                    let composed = composed_marker t value other_edge sources ctx;
                    sane \<leftarrow> marker_is_sane composed ctx;
                    Some (if sane then composed else chapter)
                  }
                  else Some (if suspect then composed_marker t value (m_start_ms chapter) sources ctx
                             else chapter));
           Some (decided t m ''chapters'')
         }
         else Some (decided t chapter ''chapters''))"

definition uncontradicted_chapter ::
  "marker_type \<Rightarrow> candidate \<Rightarrow> candidate list \<Rightarrow> decision_context \<Rightarrow> type_decision option" where
  "uncontradicted_chapter t chosen others ctx =
     (let chapter = own_marker chosen ctx in
      if t = CREDITS \<and> text_should_check_chapter (checked_value t chapter) others ctx
        then Some (no_evidence t (Some chapter) TEXT_CHECKS_CHAPTER_REASON)
      else if t = INTRO \<and> audio_should_check_chapter chapter others ctx
        then Some (no_evidence t (Some chapter) AUDIO_CHECKS_CHAPTER_REASON)
      else do {
        text_moved \<leftarrow> (if t = CREDITS then text_moves_chapter chosen chapter others ctx else Some None);
        case text_moved of
          Some dec \<Rightarrow> Some dec
        | None \<Rightarrow> accepted_chapter t chapter others ctx
      })"

definition decide_from_chapters ::
  "marker_type \<Rightarrow> candidate list \<Rightarrow> candidate list \<Rightarrow> decision_context \<Rightarrow>
     type_decision option" where
  "decide_from_chapters t chapters others ctx = do {
     chosen \<leftarrow> py_min (chapter_choice_key (duration_ms ctx)) chapters;
     let chapter = own_marker chosen ctx;
     contradicting \<leftarrow> contradicting_clusters t (checked_value t chapter) others ctx;
     (case contradicting of
        [] \<Rightarrow> uncontradicted_chapter t chosen others ctx
      | (_, against) # _ \<Rightarrow> do {
          let clusters = map fst contradicting;
          overruled \<leftarrow> (if t = CREDITS then text_over_chapter clusters t ctx
                         else if t = INTRO then audio_over_chapter clusters chapter ctx
                         else Some None);
          Some (case overruled of
                  Some dec \<Rightarrow> dec
                | None \<Rightarrow> contradicted_chapter t chapter others against ctx)
        })
   }"

definition credits_chapter_start_ms ::
  "candidate list \<Rightarrow> int \<Rightarrow> bool \<Rightarrow> int \<Rightarrow> int \<Rightarrow> int option" where
  "credits_chapter_start_ms candidates d movie window movie_max =
     (let ctx = (new_context d movie ''medium'' {CREDITS} [])
                  \<lparr>movie_credits_max_from_end_ms := movie_max, credits_window_ms := window\<rparr>;
          chapters = filter (\<lambda>c. c_source c = CHAPTERS \<and> c_type c = CREDITS \<and>
                                 sanity_problem c ctx = None) candidates
      in map_option c_start_ms (py_min (chapter_choice_key d) chapters))"

section \<open>Reading the chapter hint back\<close>

lemma takeWhile_show_nat [simp]: "takeWhile is_digit (show_nat n @ CHR '' '' # s) = show_nat n"
  and dropWhile_show_nat [simp]: "dropWhile is_digit (show_nat n @ CHR '' '' # s) = CHR '' '' # s"
proof -
  have "\<not> is_digit (CHR '' '')" by (simp add: is_digit_def)
  then show "takeWhile is_digit (show_nat n @ CHR '' '' # s) = show_nat n"
    and "dropWhile is_digit (show_nat n @ CHR '' '' # s) = CHR '' '' # s"
    using show_nat_digits [of n] by (simp_all add: takeWhile_append dropWhile_append)
qed

lemma take_number_show [simp]: "take_number (show_nat n @ CHR '' '' # s) = Some (n, CHR '' '' # s)"
  by (simp add: take_number_def Let_def)

lemma show_int_nonneg [simp]: "0 \<le> i \<Longrightarrow> show_int i = show_nat (nat i)"
  by (simp add: show_int_def)

lemma chapter_hint_read_back:
  assumes "0 \<le> start" and "case target of None \<Rightarrow> True | Some n \<Rightarrow> 0 \<le> n"
  shows "read_chapter_hint (chapter_hint start moves target) = Some (start, moves, if moves then target else None)"
  using assms
  by (cases target; cases moves)
    (simp_all add: chapter_hint_def read_chapter_hint_def read_verdict_def at_end_def)

end
