(* ===== verification/Decide.thy ===== *)
theory Decide
  imports Cluster_Decision "HOL-Library.AList"
begin

text \<open>
  The decision of every segment type of one file (\<open>markers/decide.py\<close>, \<open>decide\<close> and below):
  reading online times on the file's clock, a lone source, one type's decision with its
  contradiction guard, the cross-type overlap checks, the shortening to a server's own
  marker, and the published marker kept through a rule change (\<open>keep_published\<close>).
\<close>

section \<open>One source alone\<close>

definition may_decide_alone :: "candidate \<Rightarrow> bool" where
  "may_decide_alone c =
     (if c_source c \<in> AGREEMENT_ONLY then False
      else if c_source c = SEASON_AUDIO then c_type c = INTRO
      else True)"

definition NEEDS_ANOTHER_SOURCE :: string where
  "NEEDS_ANOTHER_SOURCE = ''it needs another source to agree''"

fun why_not_alone :: "source \<Rightarrow> string" where
  "why_not_alone INTRODB = ''an online answer needs a check against the file''"
| "why_not_alone THEINTRODB = ''an online answer needs a check against the file''"
| "why_not_alone SKIPDB = ''an online answer needs a check against the file''"
| "why_not_alone SEASON_AUDIO = ''matching audio needs another source to agree''"
| "why_not_alone SEASON_AUDIO_PREVIOUS = ''matching audio needs another source to agree''"
| "why_not_alone SERVER_MARKERS = ''a server's marker needs another source to agree''"
| "why_not_alone SERVER_MARKERS_IMPORTED = ''a server's marker needs another source to agree''"
| "why_not_alone CHAPTERS = NEEDS_ANOTHER_SOURCE"
| "why_not_alone CREDITS_TEXT = NEEDS_ANOTHER_SOURCE"
| "why_not_alone USER = NEEDS_ANOTHER_SOURCE"

definition lone_answer_reason ::
  "marker_type \<Rightarrow> candidate list \<Rightarrow> candidate \<Rightarrow> bool \<Rightarrow> string" where
  "lone_answer_reason t sane best alone_allowed =
     (let sources = filter (\<lambda>s. s \<in> c_source ` set sane) all_sources;
          names = join '' and '' (dedupe (map source_label sources));
          found = (if set sources \<subseteq> READS_THE_FILE then ''found''
                   else if length sources = 1 then ''has'' else ''have'')
      in if alone_allowed
         then ''only '' @ names @ '' found the '' @ type_value t @
              ''; at \"high\" a second source must agree''
         else ''only '' @ names @ '' '' @ found @ '' the '' @ type_value t @ ''; '' @
              why_not_alone (c_source best))"

definition only_audio_and_server_markers :: "source set \<Rightarrow> bool" where
  "only_audio_and_server_markers S \<longleftrightarrow>
     S \<subseteq> AUDIO_OR_SERVER \<and> S \<inter> SERVER_SOURCES \<noteq> {} \<and> S - SERVER_SOURCES \<noteq> {}"

text \<open>The lone group decides: nothing else answered, or only agreeing server markers did.\<close>

definition decide_lone_group ::
  "marker_type \<Rightarrow> candidate \<Rightarrow> candidate list \<Rightarrow> decision_context \<Rightarrow> type_decision option" where
  "decide_lone_group t proposal own ctx =
     (if \<exists>(a, b) \<in> set (pairs_of own). \<not> agree a b (duration_ms ctx)
      then Some (no_evidence t (Some (own_marker proposal ctx)) ''source disagrees with itself'')
      else do {
        (other_edge, suppliers) \<leftarrow> safer_other_edge t own ctx;
        let sources = insert (c_source proposal) (c_source ` set suppliers);
        let marker = composed_marker t (agree_value proposal (duration_ms ctx)) other_edge sources ctx;
        let reason = ''single source ('' @ source_value (c_source proposal) @ '')'';
        sane \<leftarrow> marker_is_sane marker ctx;
        Some (if \<not> sane then
                (if c_source proposal \<notin> WINS_A_DISAGREEMENT
                 then no_evidence t (Some (own_marker proposal ctx)) ''sources disagree on the other edge''
                 else decided t (own_marker proposal ctx)
                        (reason @ ''; sources disagree on the other edge''))
              else decided t marker reason)
      })"

text \<open>Nothing decides by agreement; credit text may still decide with its own edges.\<close>

definition decide_disagreeing ::
  "marker_type \<Rightarrow> candidate list \<Rightarrow> candidate list \<Rightarrow> candidate option \<Rightarrow> decision_context \<Rightarrow>
     type_decision option" where
  "decide_disagreeing t sane ranked proposal0 ctx =
     (case ranked of
        [] \<Rightarrow> None
      | best # _ \<Rightarrow>
          (let disagree = (\<exists>(a, b) \<in> set (pairs_of sane).
                             group_of a \<noteq> group_of b \<and> \<not> agree a b (duration_ms ctx));
               groups = sort (dedupe (map group_of sane));
               proposal = (if disagree then find (\<lambda>c. c_source c \<in> WINS_A_DISAGREEMENT) ranked
                           else proposal0);
               reason = (if disagree then ''sources disagree: '' @ comma groups
                         else if only_audio_and_server_markers (c_source ` set sane)
                           then SEASON_AUDIO_WITH_SERVER_REASON
                         else lone_answer_reason t sane best
                                (proposal0 \<noteq> None \<and> publish_when ctx \<noteq> ''medium''))
           in Some (case (if publish_when ctx = ''medium'' then proposal else None) of
                Some p \<Rightarrow> decided t (own_marker p ctx)
                  (''single source ('' @ source_value (c_source p) @ ''); '' @ reason)
              | None \<Rightarrow> no_evidence t (Some (own_marker best ctx)) reason)))"

definition decide_from_single_source ::
  "marker_type \<Rightarrow> candidate list \<Rightarrow> decision_context \<Rightarrow> type_decision option" where
  "decide_from_single_source t sane ctx =
     (let d = duration_ms ctx;
          ranked = sort_key (rank ctx) sane;
          proposal = find may_decide_alone ranked
      in case proposal of
           None \<Rightarrow> decide_disagreeing t sane ranked None ctx
         | Some p \<Rightarrow>
             (let own = filter (\<lambda>c. group_of c = group_of p) sane;
                  others = filter (\<lambda>c. group_of c \<noteq> group_of p) sane;
                  servers_only_agree =
                    (\<forall>c \<in> set others. c_source c \<in> SERVER_SOURCES) \<and>
                    (\<forall>x \<in> set others. \<forall>c \<in> set own. agree x c d)
              in if publish_when ctx = ''medium'' \<and> servers_only_agree
                 then decide_lone_group t p own ctx
                 else decide_disagreeing t sane ranked proposal ctx))"

section \<open>The file's clock\<close>

definition file_clock_may_matter :: "candidate list \<Rightarrow> int \<Rightarrow> bool" where
  "file_clock_may_matter found d \<longleftrightarrow>
     (\<exists>c \<in> set found. timed_on_any_release c \<and>
        (let others = filter (\<lambda>x. c_type x = c_type c \<and> group_of x \<noteq> group_of c) found;
             outside = (d > 0 \<and> (c_start_ms c \<ge> d \<or>
               (case c_end_ms c of None \<Rightarrow> False | Some e \<Rightarrow> e > d + end_allowance_ms c)))
         in others \<noteq> [] \<and> (outside \<or> \<not> (\<exists>x \<in> set others. agree c x d))))"

definition scaled_candidate :: "rat \<Rightarrow> candidate \<Rightarrow> candidate option" where
  "scaled_candidate scale c = do {
     e \<leftarrow> (case c_end_ms c of None \<Rightarrow> Some None | Some e \<Rightarrow> map_option Some (scale_ms e scale));
     s \<leftarrow> scale_ms (c_start_ms c) scale;
     Some (c\<lparr>c_start_ms := s, c_end_ms := e\<rparr>)
   }"

text \<open>
  One answer as the loop body reads it: scaled, as it is, or left out.  The scaled answer of a
  source timed on any release is built before any check, so an answer too large to scale raises
  even where its raw reading would be kept.
\<close>

definition clock_reading ::
  "candidate list \<Rightarrow> rat \<Rightarrow> decision_context \<Rightarrow> candidate \<Rightarrow> candidate option option" where
  "clock_reading sane scale ctx c =
     (let d = duration_ms ctx;
          raw_sane = (sanity_problem c ctx = None);
          others = filter (\<lambda>x. group_of x \<noteq> group_of c) sane;
          as_it_is = (if raw_sane then Some c else None)
      in if timed_on_any_release c then do {
           scaled \<leftarrow> scaled_candidate scale c;
           Some (if \<not> (raw_sane \<and> (\<exists>x \<in> set others. agree c x d)) \<and>
                    sanity_problem scaled ctx = None \<and> (\<exists>x \<in> set others. agree scaled x d)
                 then Some scaled else as_it_is)
         }
         else Some as_it_is)"

definition on_file_clock :: "candidate list \<Rightarrow> decision_context \<Rightarrow> candidate list option" where
  "on_file_clock of_type ctx =
     (let sane = filter (\<lambda>c. sanity_problem c ctx = None) of_type in
      case online_time_scale (frame_rate ctx) of
        None \<Rightarrow> Some sane
      | Some scale \<Rightarrow> do {
          readings \<leftarrow> map_opt (clock_reading sane scale ctx) of_type;
          Some (List.map_filter id readings)
        })"

definition on_another_clock :: "candidate list \<Rightarrow> int \<Rightarrow> candidate \<Rightarrow> bool" where
  "on_another_clock sane d c =
     (let len = (\<lambda>x. resolve_end_ms x d - c_start_ms x) in
      if \<not> is_start_segment (c_type c) \<or> \<not> timed_on_any_release c then False
      else if \<exists>x \<in> set sane. group_of x \<noteq> group_of c \<and> agree c x d then False
      else \<exists>a \<in> set sane. c_source a = SEASON_AUDIO \<and>
             min (len c) (len a) \<ge> OTHER_RELEASE_MIN_LENGTH_MS \<and>
             \<bar>len c - len a\<bar> \<le> INTRO_END_TOLERANCE_MS \<and>
             \<bar>c_start_ms c - c_start_ms a\<bar> > OTHER_RELEASE_MIN_SHIFT_MS)"

definition without_another_releases_intro ::
  "candidate list \<Rightarrow> decision_context \<Rightarrow> candidate list" where
  "without_another_releases_intro sane ctx =
     (if \<exists>c \<in> set sane. c_source c = SEASON_AUDIO
      then filter (\<lambda>c. \<not> on_another_clock sane (duration_ms ctx) c) sane else sane)"

section \<open>One type\<close>

definition rests_on_credit_text :: "marker \<Rightarrow> candidate list \<Rightarrow> decision_context \<Rightarrow> bool" where
  "rests_on_credit_text m cs ctx \<longleftrightarrow>
     (\<exists>c \<in> set cs. c_source c \<in> WINS_A_DISAGREEMENT \<and>
        source_value (c_source c) \<in> set (m_decided_by m) \<and>
        \<bar>agree_value c (duration_ms ctx) - checked_value (m_type m) m\<bar> \<le> tolerance_ms (m_type m))"

definition NO_EVIDENCE_REASON :: string where
  "NO_EVIDENCE_REASON = ''no evidence''"

text \<open>
  An agreeing pair that contradicts the result undoes it, unless the result rests on credit
  text.  Both checks read the decided marker's type, so a DECIDED decision without one raises.
\<close>

definition contradiction_guard ::
  "marker_type \<Rightarrow> candidate list \<Rightarrow> candidate list \<Rightarrow> decision_context \<Rightarrow> type_decision \<Rightarrow>
     type_decision option" where
  "contradiction_guard t sane guard_pool ctx decision =
     (if d_status decision \<noteq> DECIDED then Some decision
      else do {
        m \<leftarrow> d_marker decision;
        Some (if rests_on_credit_text m sane ctx then decision
              else (let contradicting = contradicting_groups m guard_pool ctx
                    in if contradicting \<noteq> []
                       then no_evidence t (d_marker decision)
                              (''agreeing sources contradict the result: '' @ comma contradicting)
                       else decision))
      })"

definition decide_type ::
  "marker_type \<Rightarrow> candidate list \<Rightarrow> candidate list \<Rightarrow> decision_context \<Rightarrow>
     type_decision option" where
  "decide_type t of_type sane ctx =
     (if sane = [] then
        Some (no_evidence t None
          (if of_type = [] then NO_EVIDENCE_REASON
           else show_nat (length of_type) @ '' candidate(s) failed sanity checks''))
      else
        (let chapters = filter (\<lambda>c. c_source c = CHAPTERS) sane;
             others = filter (\<lambda>c. c_source c \<noteq> CHAPTERS) sane
         in if chapters \<noteq> [] then do {
              decision \<leftarrow> decide_from_chapters t chapters others ctx;
              chosen \<leftarrow> py_min (chapter_choice_key (duration_ms ctx)) chapters;
              contradiction_guard t sane (remove1 chosen sane) ctx decision
            } else do {
              let cliques = agreeing_cliques sane t ctx;
              decision \<leftarrow> (if cliques \<noteq> [] then decide_from_cliques t cliques ctx False
                           else decide_from_single_source t sane ctx);
              contradiction_guard t sane others ctx decision
            }))"

section \<open>Shortening to a server's own marker\<close>

definition SHORTENED_NOTE :: string where
  "SHORTENED_NOTE = ''shortened to the server's own marker''"

text \<open>\<open>first_start\<close>: the dictionary from a server to its first start, in insertion order.\<close>

definition first_starts :: "candidate list \<Rightarrow> (string \<times> int) list" where
  "first_starts offers =
     foldl (\<lambda>m c. AList.update (c_origin c)
              (case map_of m (c_origin c) of None \<Rightarrow> c_start_ms c | Some v \<Rightarrow> min (c_start_ms c) v) m)
       [] offers"

definition shorten_marker ::
  "type_decision \<Rightarrow> marker \<Rightarrow> candidate list \<Rightarrow> decision_context \<Rightarrow> type_decision option" where
  "shorten_marker decision m sane ctx =
     (let t = d_type decision;
          tol = tolerance_ms t;
          own = filter (\<lambda>c. c_source c = SERVER_MARKERS) sane;
          offers = filter (\<lambda>c. m_start_ms m + tol < c_start_ms c \<and> c_start_ms c < m_end_ms m - tol) own;
          first_start = first_starts offers
      in if is_start_segment t then Some decision
         else if \<exists>c \<in> set own.
                   (c_start_ms c \<le> m_start_ms m \<and> m_start_ms m \<le> resolve_end_ms c (duration_ms ctx)) \<or>
                   \<bar>c_start_ms c - m_start_ms m\<bar> \<le> tol
           then Some decision
         else if first_start = [] then Some decision
         else do {
           start \<leftarrow> py_max_int (map snd first_start);
           credited \<leftarrow> map_opt source_of_value (m_decided_by m);
           let shortened = composed_marker t start (m_end_ms m) (set credited \<union> {SERVER_MARKERS}) ctx;
           let servers = sort (map fst (filter (\<lambda>(server, v). v = start \<and> server \<noteq> []) first_start));
           let note = ''start '' @ SHORTENED_NOTE @
                      (if servers = [] then [] else '' ('' @ comma servers @ '')'');
           shortened_sane \<leftarrow> marker_is_sane shortened ctx;
           Some (if \<not> shortened_sane then decision
                 else decision\<lparr>d_marker := Some shortened,
                               d_reason := d_reason decision @ ''; '' @ note\<rparr>)
         })"

definition shorten_to_server_markers ::
  "type_decision \<Rightarrow> candidate list \<Rightarrow> decision_context \<Rightarrow> type_decision option" where
  "shorten_to_server_markers decision sane ctx =
     (case d_marker decision of
        None \<Rightarrow> None
      | Some m \<Rightarrow> shorten_marker decision m sane ctx)"

text \<open>
  \<open>re.search\<close> of the note at the end of a reason: the leftmost position where the note starts
  and either the reason ends or one parenthesised list of ids (with no closing bracket in it)
  ends it.
\<close>

definition note_at :: "string \<Rightarrow> string list option" where
  "note_at s = do {
     r \<leftarrow> strip_prefix (''; start '' @ SHORTENED_NOTE) s;
     if at_end r then Some []
     else do {
       r2 \<leftarrow> strip_prefix '' ('' r;
       let ids = takeWhile (\<lambda>c. c \<noteq> CHR '')'') r2;
       r3 \<leftarrow> strip_prefix '')'' (dropWhile (\<lambda>c. c \<noteq> CHR '')'') r2);
       if at_end r3 then Some (if ids = [] then [] else [ids]) else None
     }
   }"

fun search_note :: "string \<Rightarrow> string list option" where
  "search_note [] = None"
| "search_note (c # s) = (case note_at (c # s) of Some r \<Rightarrow> Some r | None \<Rightarrow> search_note s)"

text \<open>\<open>s.split(", ")\<close>.\<close>

fun split_comma :: "string \<Rightarrow> string list" where
  "split_comma [] = [[]]"
| "split_comma (c # s) =
     (case strip_prefix '', '' (c # s) of
        Some r \<Rightarrow> [] # split_comma (drop 1 s)
      | None \<Rightarrow> (case split_comma s of [] \<Rightarrow> [[c]] | p # ps \<Rightarrow> (c # p) # ps))"

definition shortened_by :: "string \<Rightarrow> string list option" where
  "shortened_by reason =
     map_option (\<lambda>found. case found of [] \<Rightarrow> [] | ids # _ \<Rightarrow> split_comma ids) (search_note reason)"

section \<open>Overlaps between types\<close>

type_synonym decisions = "marker_type \<Rightarrow> type_decision"

definition overlap_ms :: "marker \<Rightarrow> marker \<Rightarrow> int" where
  "overlap_ms a b = max 0 (min (m_end_ms a) (m_end_ms b) - max (m_start_ms a) (m_start_ms b))"

definition demote :: "type_decision \<Rightarrow> string \<Rightarrow> type_decision" where
  "demote dec reason = no_evidence (d_type dec) (d_marker dec) reason"

definition decided_marker_of :: "type_decision \<Rightarrow> marker option" where
  "decided_marker_of dec = (if d_status dec = DECIDED then d_marker dec else None)"

definition unless_locked :: "marker \<Rightarrow> type_decision \<Rightarrow> string \<Rightarrow> type_decision" where
  "unless_locked m dec reason = (if m_locked m then dec else demote dec reason)"

text \<open>The markers of a pair of types: \<open>Some None\<close> unless both are decided, \<open>None\<close> for a raise.\<close>

definition both_decided :: "type_decision \<Rightarrow> type_decision \<Rightarrow> (marker \<times> marker) option option" where
  "both_decided a b =
     (if d_status a = DECIDED \<and> d_status b = DECIDED
      then do { ma \<leftarrow> d_marker a; mb \<leftarrow> d_marker b; Some (Some (ma, mb)) }
      else Some None)"

definition apply_overlap_demotions :: "decisions \<Rightarrow> decisions option" where
  "apply_overlap_demotions out = do {
     first \<leftarrow> both_decided (out INTRO) (out RECAP);
     let out1 =
       (case first of
          Some (i, r) \<Rightarrow>
            if overlap_ms i r > INTRO_RECAP_MAX_OVERLAP_MS
            then out(INTRO := unless_locked i (out INTRO) ''intro and recap overlap'',
                     RECAP := unless_locked r (out RECAP) ''intro and recap overlap'')
            else out
        | None \<Rightarrow> out);
     second \<leftarrow> both_decided (out1 PREVIEW) (out1 CREDITS);
     Some (case second of
         Some (p, c) \<Rightarrow>
           if overlap_ms p c > PREVIEW_CREDITS_MAX_OVERLAP_MS
           then out1(PREVIEW := unless_locked p (out1 PREVIEW) ''preview overlaps credits'')
           else out1
       | None \<Rightarrow> out1)
   }"

section \<open>Every type of a file\<close>

text \<open>A dictionary comprehension over the enumeration whose values may raise.\<close>

definition for_types :: "(marker_type \<Rightarrow> 'a option) \<Rightarrow> (marker_type \<Rightarrow> 'a) option" where
  "for_types f = do {
     i \<leftarrow> f INTRO;
     c \<leftarrow> f CREDITS;
     r \<leftarrow> f RECAP;
     p \<leftarrow> f PREVIEW;
     Some (\<lambda>t. case t of INTRO \<Rightarrow> i | CREDITS \<Rightarrow> c | RECAP \<Rightarrow> r | PREVIEW \<Rightarrow> p)
   }"

lemma for_types_Some: "for_types f = Some g \<longleftrightarrow> (\<forall>t. f t = Some (g t))"
proof
  assume "for_types f = Some g"
  then show "\<forall>t. f t = Some (g t)"
    by (auto simp: for_types_def bind_eq_Some_conv split: marker_type.split)
next
  assume *: "\<forall>t. f t = Some (g t)"
  have "(\<lambda>t. case t of INTRO \<Rightarrow> g INTRO | CREDITS \<Rightarrow> g CREDITS | RECAP \<Rightarrow> g RECAP
    | PREVIEW \<Rightarrow> g PREVIEW) = g"
    by (rule ext) (simp split: marker_type.split)
  with * show "for_types f = Some g" by (simp add: for_types_def)
qed

definition valid_lock :: "(marker_type \<rightharpoonup> marker) \<Rightarrow> marker_type \<Rightarrow> marker option" where
  "valid_lock locked t =
     (case locked t of None \<Rightarrow> None | Some m \<Rightarrow> if m_type m = t then Some m else None)"

text \<open>\<open>on_clock[mtype]\<close>: read once per type by the code, from the same arguments here.\<close>

definition on_clock_of ::
  "marker_type \<Rightarrow> candidate list \<Rightarrow> decision_context \<Rightarrow> candidate list option" where
  "on_clock_of t fresh ctx = do {
     sane \<leftarrow> on_file_clock (filter (\<lambda>c. c_type c = t) fresh) ctx;
     Some (without_another_releases_intro sane ctx)
   }"

definition decide_one ::
  "candidate list \<Rightarrow> decision_context \<Rightarrow> (marker_type \<rightharpoonup> marker) \<Rightarrow> marker_type \<Rightarrow>
     type_decision option" where
  "decide_one fresh ctx locked t =
     (case valid_lock locked t of
        Some m \<Rightarrow> Some (decided t (m\<lparr>m_locked := True\<rparr>) ''locked by user'')
      | None \<Rightarrow>
          if t \<notin> enabled_types ctx
          then Some \<lparr>d_type = t, d_status = DISABLED, d_marker = None, d_proposed = None,
                     d_reason = ''detection off''\<rparr>
          else do {
            sane \<leftarrow> on_clock_of t fresh ctx;
            decide_type t (filter (\<lambda>c. c_type c = t) fresh) sane ctx
          })"

definition shorten_one :: "candidate list \<Rightarrow> decision_context \<Rightarrow> type_decision \<Rightarrow> type_decision option" where
  "shorten_one fresh ctx decision =
     (if d_status decision \<noteq> DECIDED then Some decision
      else do {
        m \<leftarrow> d_marker decision;
        if m_locked m then Some decision
        else do {
          sane \<leftarrow> on_clock_of (d_type decision) fresh ctx;
          shorten_to_server_markers decision sane ctx
        }
      })"

definition decide ::
  "candidate list \<Rightarrow> decision_context \<Rightarrow> (marker_type \<rightharpoonup> marker) \<Rightarrow> decisions option" where
  "decide candidates ctx locked =
     (let fresh = filter (\<lambda>c. \<not> c_stale c) candidates in do {
        out \<leftarrow> for_types (decide_one fresh ctx locked);
        checked \<leftarrow> apply_overlap_demotions out;
        for_types (\<lambda>t. shorten_one fresh ctx (checked t))
      })"

section \<open>Keeping a published marker through a rule change\<close>

definition KEPT_BEFORE_RULE_CHANGE :: string where
  "KEPT_BEFORE_RULE_CHANGE = ''kept: published before a rule change''"

definition kept_before_rule_change :: "string \<Rightarrow> bool" where
  "kept_before_rule_change reason \<longleftrightarrow> strip_prefix KEPT_BEFORE_RULE_CHANGE reason \<noteq> None"

definition agrees_with :: "marker \<Rightarrow> int \<Rightarrow> candidate \<Rightarrow> bool" where
  "agrees_with published d c \<longleftrightarrow>
     \<bar>agree_value c d - checked_value (m_type published) published\<bar> \<le> tolerance_ms (m_type published)"

definition rests_on_answers_that_never_decide_alone :: "marker \<Rightarrow> bool" where
  "rests_on_answers_that_never_decide_alone m \<longleftrightarrow>
     m_decided_by m \<noteq> [] \<and> set (m_decided_by m) \<subseteq> source_value ` AGREEMENT_ONLY"

definition unchecked_by_the_file :: "candidate list \<Rightarrow> source list \<Rightarrow> (candidate \<Rightarrow> bool) \<Rightarrow> bool" where
  "unchecked_by_the_file candidates read_by agrees =
     (if \<exists>c \<in> set candidates. c_source c \<in> READS_THE_FILE \<and> \<not> agrees c then False
      else \<forall>s \<in> set read_by.
             \<exists>c \<in> set candidates. group_of c = independence_group s \<and> agrees c)"

definition keep_published ::
  "type_decision \<Rightarrow> marker \<Rightarrow> candidate list \<Rightarrow> candidate list \<Rightarrow> int \<Rightarrow> source list \<Rightarrow>
     type_decision" where
  "keep_published decision published candidates changed d read_by =
     (let agrees = agrees_with published d;
          supported = (\<exists>c \<in> set candidates.
            source_value (c_source c) \<in> set (m_decided_by published) \<and> agrees c)
      in if d_status decision \<noteq> NO_EVIDENCE then decision
         else if \<not> supported \<or> \<not> (\<forall>c \<in> set changed. agrees c) then decision
         else if rests_on_answers_that_never_decide_alone published \<and>
                 \<not> unchecked_by_the_file candidates read_by agrees then decision
         else decided (m_type published) published
                (KEPT_BEFORE_RULE_CHANGE @ ''; today's rules: '' @ d_reason decision))"

end
