(* ===== verification/Clique_Spec.thy ===== *)
theory Clique_Spec
  imports Clusters
begin

text \<open>
  The sweep of \<open>_agreeing_cliques\<close> against what it stands for: the maximal sets of mutually
  agreeing candidates that span two independence groups and hold a source that is neither
  season audio nor a server's marker.
\<close>

lemma set_window_of:
  "j < length xs \<Longrightarrow> set (window_of xs i j) = (\<lambda>k. xs ! k) ` {i..j}"
proof (intro set_eqI iffI)
  fix x
  assume j: "j < length xs" and "x \<in> set (window_of xs i j)"
  then obtain k where "k < j + 1 - i" "x = xs ! (i + k)"
    by (auto simp: window_of_def in_set_conv_nth)
  then show "x \<in> (\<lambda>k. xs ! k) ` {i..j}" by (intro image_eqI [of _ _ "i + k"]) auto
next
  fix x
  assume j: "j < length xs" and "x \<in> (\<lambda>k. xs ! k) ` {i..j}"
  then obtain k where k: "i \<le> k" "k \<le> j" "x = xs ! k" by auto
  then have "x = window_of xs i j ! (k - i)" and "k - i < length (window_of xs i j)"
    using j by (auto simp: window_of_def)
  then show "x \<in> set (window_of xs i j)" by (auto simp: in_set_conv_nth)
qed

lemma sorted_map_fst_key:
  fixes f :: "'a \<Rightarrow> 'b::linorder" and g :: "'a \<Rightarrow> 'c::linorder"
  shows "sorted (map f (sort_key (\<lambda>x. (f x, g x)) xs))"
proof -
  have "sorted (map (\<lambda>x. (f x, g x)) (sort_key (\<lambda>x. (f x, g x)) xs))" by (rule sorted_sort_key)
  then show ?thesis
    by (auto simp: sorted_wrt_map less_eq_prod_def le_less elim!: sorted_wrt_mono_rel [rotated])
qed

definition by_val :: "candidate list \<Rightarrow> decision_context \<Rightarrow> candidate list" where
  "by_val cs ctx = sort_key (\<lambda>c. (agree_value c (duration_ms ctx), rank ctx c)) cs"

definition vals :: "candidate list \<Rightarrow> decision_context \<Rightarrow> int list" where
  "vals cs ctx = map (\<lambda>c. agree_value c (duration_ms ctx)) (by_val cs ctx)"

text \<open>The values the sweep runs over are sorted, and the loop starts within its invariant.\<close>

lemma vals_facts:
  "sorted (vals cs ctx)" "length (vals cs ctx) = length cs" "set (by_val cs ctx) = set cs"
  "length (by_val cs ctx) = length cs"
  "k < length cs \<Longrightarrow> vals cs ctx ! k = agree_value (by_val cs ctx ! k) (duration_ms ctx)"
  by (simp_all add: vals_def by_val_def sorted_map_fst_key)

lemma agreeing_cliques_eq:
  "agreeing_cliques cs t ctx =
     map (sort_key (rank ctx)) (clique_loop spans_groups (by_val cs ctx) (vals cs ctx) (tolerance_ms t)
       [0..<length (vals cs ctx)] (-1) 0)"
  by (simp add: agreeing_cliques_def Let_def vals_def by_val_def)

lemma sweep_inv_start: "cs \<noteq> [] \<Longrightarrow> sweep_inv (vals cs ctx) tol 0 0"
  by (simp add: sweep_inv_def vals_facts)

lemma spans_groups_cong: "set a = set b \<Longrightarrow> spans_groups a = spans_groups b"
  by (simp add: spans_groups_def)

lemma agreeing_cliques_window:
  assumes "W \<in> set (agreeing_cliques cs t ctx)"
  obtains i j where "i \<le> j" and "j < length cs"
    and "vals cs ctx ! j - vals cs ctx ! i \<le> tolerance_ms t"
    and "j + 1 < length cs \<longrightarrow> vals cs ctx ! (j + 1) - vals cs ctx ! i > tolerance_ms t"
    and "set W = (\<lambda>k. by_val cs ctx ! k) ` {i..j}" and "spans_groups W"
proof -
  have "cs \<noteq> []" using assms by (auto simp: agreeing_cliques_eq vals_facts)
  obtain V where V: "V \<in> set (clique_loop spans_groups (by_val cs ctx) (vals cs ctx) (tolerance_ms t)
      [0..<length (vals cs ctx)] (-1) 0)" and W: "set W = set V"
    using assms by (auto simp: agreeing_cliques_eq)
  from clique_loop_sound [OF V sweep_inv_start [OF \<open>cs \<noteq> []\<close>] _ vals_facts(1)]
  obtain i j where ij: "i \<le> j" "j < length cs" "vals cs ctx ! j - vals cs ctx ! i \<le> tolerance_ms t"
    "j + 1 < length cs \<longrightarrow> vals cs ctx ! (j + 1) - vals cs ctx ! i > tolerance_ms t"
    "V = window_of (by_val cs ctx) i j" "spans_groups V"
    by (auto simp: vals_facts)
  then show thesis
    using that W set_window_of [of j "by_val cs ctx" i] spans_groups_cong [OF W]
    by (simp add: vals_facts)
qed

lemma agreeing_cliques_agree:
  assumes W: "W \<in> set (agreeing_cliques cs t ctx)" and t: "\<forall>c \<in> set cs. c_type c = t"
  shows "set W \<subseteq> set cs" and "\<forall>a \<in> set W. \<forall>b \<in> set W. agree a b (duration_ms ctx)"
    and "spans_groups W"
proof -
  from W obtain i j where ij: "i \<le> j" "j < length cs"
      "vals cs ctx ! j - vals cs ctx ! i \<le> tolerance_ms t"
      "set W = (\<lambda>k. by_val cs ctx ! k) ` {i..j}" "spans_groups W"
    by (rule agreeing_cliques_window) blast
  have mem: "by_val cs ctx ! k \<in> set cs" if "k \<le> j" for k
    using that ij(2) by (metis nth_mem le_less_trans vals_facts(3,4))
  show "set W \<subseteq> set cs" using mem ij(4) by auto
  show "spans_groups W" by fact
  have within: "vals cs ctx ! i \<le> vals cs ctx ! k \<and> vals cs ctx ! k \<le> vals cs ctx ! j"
    if "i \<le> k" "k \<le> j" for k
    using that ij(2) vals_facts(1,2) by (metis le_less_trans sorted_nth_le)
  show "\<forall>a \<in> set W. \<forall>b \<in> set W. agree a b (duration_ms ctx)"
  proof (intro ballI)
    fix a b
    assume "a \<in> set W" "b \<in> set W"
    then obtain k l where kl: "i \<le> k" "k \<le> j" "a = by_val cs ctx ! k"
        "i \<le> l" "l \<le> j" "b = by_val cs ctx ! l"
      using ij(4) by auto
    then have "c_type a = t" using mem t by simp
    moreover have "\<bar>vals cs ctx ! k - vals cs ctx ! l\<bar> \<le> tolerance_ms t"
      using within [of k] within [of l] kl ij(3) by linarith
    ultimately show "agree a b (duration_ms ctx)"
      using kl ij(2) by (simp add: agree_def vals_facts)
  qed
qed

text \<open>Every agreeing set that could publish lies inside a clique.\<close>

lemma agreeing_cliques_cover:
  assumes "S \<subseteq> set cs" and "\<forall>a \<in> S. \<forall>b \<in> S. agree a b (duration_ms ctx)"
    and "card (group_of ` S) \<ge> 2" and "\<exists>c \<in> S. c_source c \<notin> AUDIO_OR_SERVER"
    and t: "\<forall>c \<in> set cs. c_type c = t"
  shows "\<exists>W \<in> set (agreeing_cliques cs t ctx). S \<subseteq> set W"
proof -
  let ?xs = "by_val cs ctx" and ?vs = "vals cs ctx"
  have fin: "finite S" using assms(1) by (rule finite_subset) simp
  define I where "I = {k. k < length cs \<and> ?xs ! k \<in> S}"
  have "finite I" by (simp add: I_def)
  have cover: "\<exists>k \<in> I. c = ?xs ! k" if "c \<in> S" for c
    using that assms(1) by (auto simp: I_def) (metis in_set_conv_nth subsetD vals_facts(3,4))
  have "I \<noteq> {}" using assms(4) cover by auto
  define i j where "i = Min I" and "j = Max I"
  have i: "i \<in> I" and j: "j \<in> I" using \<open>finite I\<close> \<open>I \<noteq> {}\<close> by (simp_all add: i_def j_def)
  have "i \<le> j" using i \<open>finite I\<close> by (simp add: j_def)
  have jl: "j < length cs" and il: "i < length cs" using i j by (simp_all add: I_def)
  have "agree (?xs ! j) (?xs ! i) (duration_ms ctx)" using i j assms(2) by (simp add: I_def)
  moreover have "c_type (?xs ! j) = t" using t jl by (metis nth_mem vals_facts(3,4))
  ultimately have close: "?vs ! j - ?vs ! i \<le> tolerance_ms t"
    using il jl by (simp add: agree_def vals_facts)
  have inv: "sweep_inv ?vs (tolerance_ms t) 0 0"
    using il by (intro sweep_inv_start) auto
  from clique_loop_complete [OF _ \<open>i \<le> j\<close> _ close _ inv _ vals_facts(1),
      where keep = spans_groups and xs = ?xs and last_hi = "-1"] jl
  obtain i' j' where ij': "i' \<le> i" "j \<le> j'" "j' < length cs"
    "spans_groups (window_of ?xs i' j') \<longrightarrow> window_of ?xs i' j' \<in>
       set (clique_loop spans_groups ?xs ?vs (tolerance_ms t) [0..<length ?vs] (-1) 0)"
    by (auto simp: vals_facts)
  have "k \<in> {i'..j'}" if "k \<in> I" for k
  proof -
    have "i \<le> k" "k \<le> j" using that \<open>finite I\<close> by (simp_all add: i_def j_def)
    with ij' show ?thesis by simp
  qed
  then have sub: "S \<subseteq> set (window_of ?xs i' j')"
    using cover ij'(3) by (force simp: set_window_of vals_facts)
  have "card (group_of ` S) \<le> card (group_of ` set (window_of ?xs i' j'))"
    using sub by (intro card_mono image_mono) auto
  with assms(3,4) sub have "spans_groups (window_of ?xs i' j')"
    by (auto simp: spans_groups_def)
  with ij'(4) sub show ?thesis
    by (intro bexI [of _ "sort_key (rank ctx) (window_of ?xs i' j')"]) (auto simp: agreeing_cliques_eq)
qed

text \<open>Two returned windows never contain one another, whatever doubles the candidates hold.\<close>

lemma later_window_incomparable:
  assumes later: "later_window (by_val cs ctx) (vals cs ctx) tol W W'"
  shows "\<not> set W \<subseteq> set W'" and "\<not> set W' \<subseteq> set W"
proof -
  let ?xs = "by_val cs ctx" and ?vs = "vals cs ctx"
  from later obtain i j i' j' where W: "W = window_of ?xs i j" "W' = window_of ?xs i' j'"
    and ij: "i \<le> j" "i < i'" "j < j'" "i' \<le> j'" and len: "j' < length ?vs"
    and far: "?vs ! (j + 1) - ?vs ! i > tol" and near: "?vs ! j - ?vs ! i \<le> tol" "?vs ! j' - ?vs ! i' \<le> tol"
    unfolding later_window_def by blast
  have len': "j' < length ?xs" using len by (simp add: vals_facts)
  have sets: "set W = (\<lambda>k. ?xs ! k) ` {i..j}" "set W' = (\<lambda>k. ?xs ! k) ` {i'..j'}"
    using len' ij(3) by (simp_all add: W set_window_of)
  have ends: "?xs ! i \<in> set W" "?xs ! j' \<in> set W'" using ij by (auto simp: sets)
  have mono: "?vs ! k \<le> ?vs ! l" if "k \<le> l" "l \<le> j'" for k l
    using sorted_nth_le [OF vals_facts(1) that(1)] that(2) len by simp
  have val: "?vs ! k = agree_value (?xs ! k) (duration_ms ctx)" if "k \<le> j'" for k
    using that len by (intro vals_facts(5)) (simp add: vals_facts)
  have "?vs ! (j + 1) \<le> ?vs ! j'" using ij by (intro mono) simp_all
  then have first: "?vs ! i < ?vs ! i'" and last: "?vs ! j < ?vs ! j'" using far near by linarith+
  have "?xs ! i \<notin> set W'"
  proof
    assume "?xs ! i \<in> set W'"
    then obtain k where k: "i' \<le> k" "k \<le> j'" "?xs ! i = ?xs ! k" by (auto simp: sets)
    then have "?vs ! i = ?vs ! k" using val [of i] val [of k] ij by simp
    with first mono [of i' k] k show False by simp
  qed
  then show "\<not> set W \<subseteq> set W'" using ends by blast
  have "?xs ! j' \<notin> set W"
  proof
    assume "?xs ! j' \<in> set W"
    then obtain k where k: "k \<le> j" "?xs ! j' = ?xs ! k" by (auto simp: sets)
    then have "?vs ! j' = ?vs ! k" using val [of j'] val [of k] ij by simp
    with last mono [of k j] k ij show False by simp
  qed
  then show "\<not> set W' \<subseteq> set W" using ends by blast
qed

lemma agreeing_cliques_incomparable:
  "sorted_wrt (\<lambda>W W'. \<not> set W \<subseteq> set W' \<and> \<not> set W' \<subseteq> set W) (agreeing_cliques cs t ctx)"
proof (cases "cs = []")
  case True
  then show ?thesis by (simp add: agreeing_cliques_eq vals_facts)
next
  case False
  have tol: "0 \<le> tolerance_ms t" by (cases t) (simp_all add: tolerance_ms_def ms_constants)
  from clique_loop_later [OF sweep_inv_start [OF False] tol vals_facts(1),
      where xs = "by_val cs ctx" and keep = spans_groups and last_hi = "-1"]
  show ?thesis
    unfolding agreeing_cliques_eq sorted_wrt_map
    by (rule sorted_wrt_mono_rel [rotated]) (use later_window_incomparable in auto)
qed

end
