(* ===== verification/Decide_Sound.thy ===== *)
theory Decide_Sound
  imports Decide Clique_Spec
begin

text \<open>
  What every rule of \<open>Decide\<close> owes the others, as one predicate on a type's decision, and the
  proof that each of the three rules (chapters, agreeing clusters, a lone source) pays it: it
  returns, a decided marker has sane times, is credited to real sources, and rests on decisive
  evidence.  The three share the interface \<open>evidence_rule\<close>; the contradiction guard is its
  client.
\<close>

section \<open>The contract\<close>

definition sane_pool :: "marker_type \<Rightarrow> decision_context \<Rightarrow> candidate list \<Rightarrow> bool" where
  "sane_pool t ctx cs \<longleftrightarrow> (\<forall>c \<in> set cs. c_type c = t \<and> sanity_problem c ctx = None)"

definition well_credited :: "decision_context \<Rightarrow> marker \<Rightarrow> bool" where
  "well_credited ctx m \<longleftrightarrow> (\<exists>S. S \<noteq> {} \<and> m_decided_by m = map source_value (sorted_sources S ctx))"

definition credited :: "marker \<Rightarrow> source \<Rightarrow> bool" where
  "credited m s \<longleftrightarrow> source_value s \<in> set (m_decided_by m)"

text \<open>Nothing is credited that did not answer: every name is the source of a candidate.\<close>

definition credits_answers :: "candidate list \<Rightarrow> marker \<Rightarrow> bool" where
  "credits_answers cs m \<longleftrightarrow> set (m_decided_by m) \<subseteq> source_value ` c_source ` set cs"

text \<open>
  Decisive evidence: a credited answer that is no server's marker, and that either may decide
  alone or agrees with a credited answer of another independence group.
\<close>

definition decisive :: "candidate list \<Rightarrow> decision_context \<Rightarrow> marker \<Rightarrow> bool" where
  "decisive cs ctx m \<longleftrightarrow>
     (\<exists>a \<in> set cs. credited m (c_source a) \<and> c_source a \<notin> SERVER_SOURCES \<and>
        (may_decide_alone a \<or>
         (\<exists>b \<in> set cs. credited m (c_source b) \<and> group_of b \<noteq> group_of a \<and>
            agree a b (duration_ms ctx))))"

definition sound_marker :: "marker_type \<Rightarrow> candidate list \<Rightarrow> decision_context \<Rightarrow> marker \<Rightarrow> bool" where
  "sound_marker t cs ctx m \<longleftrightarrow>
     m_type m = t \<and> \<not> m_locked m \<and> sane_times ctx t (m_start_ms m) (m_end_ms m) \<and>
     well_credited ctx m \<and> credits_answers cs m \<and> decisive cs ctx m"

definition sound_decision ::
  "marker_type \<Rightarrow> candidate list \<Rightarrow> decision_context \<Rightarrow> type_decision \<Rightarrow> bool" where
  "sound_decision t cs ctx dec \<longleftrightarrow>
     d_type dec = t \<and>
     (case d_marker dec of
        None \<Rightarrow> d_status dec \<noteq> DECIDED
      | Some m \<Rightarrow> d_status dec = DECIDED \<and> sound_marker t cs ctx m)"

lemma sound_no_evidence [simp]: "sound_decision t cs ctx (no_evidence t p r)"
  by (simp add: sound_decision_def)

lemma sound_decided [simp]:
  "sound_decision t cs ctx (decided t m r) \<longleftrightarrow> sound_marker t cs ctx m"
  by (simp add: sound_decision_def)

lemma sane_poolD:
  "sane_pool t ctx cs \<Longrightarrow> c \<in> set cs \<Longrightarrow> c_type c = t"
  "sane_pool t ctx cs \<Longrightarrow> c \<in> set cs \<Longrightarrow> sanity_problem c ctx = None"
  by (simp_all add: sane_pool_def)

lemma sane_pool_subset: "sane_pool t ctx cs \<Longrightarrow> set ds \<subseteq> set cs \<Longrightarrow> sane_pool t ctx ds"
  by (auto simp: sane_pool_def)

lemma decisive_mono:
  "decisive cs ctx m \<Longrightarrow> set cs \<subseteq> set ds \<Longrightarrow> set (m_decided_by m) \<subseteq> set (m_decided_by m') \<Longrightarrow>
     decisive ds ctx m'"
  unfolding decisive_def credited_def by (meson subsetD)

lemma credits_answers_mono: "credits_answers cs m \<Longrightarrow> set cs \<subseteq> set ds \<Longrightarrow> credits_answers ds m"
  unfolding credits_answers_def by blast

lemma credits_answers_composed [simp]:
  "credits_answers cs (composed_marker t k x S ctx) \<longleftrightarrow> S \<subseteq> c_source ` set cs"
proof -
  have "inj source_value" by (rule injI) simp
  then show ?thesis by (simp add: credits_answers_def inj_image_subset_iff)
qed

lemma sound_marker_mono:
  "sound_marker t cs ctx m \<Longrightarrow> set cs \<subseteq> set ds \<Longrightarrow> sound_marker t ds ctx m"
  by (auto simp: sound_marker_def intro: decisive_mono credits_answers_mono)

lemma sound_decision_mono:
  "sound_decision t cs ctx dec \<Longrightarrow> set cs \<subseteq> set ds \<Longrightarrow> sound_decision t ds ctx dec"
  by (auto simp: sound_decision_def split: option.splits intro: sound_marker_mono)

lemma credited_composed [simp]: "credited (composed_marker t k x S ctx) s \<longleftrightarrow> s \<in> S"
  by (auto simp: credited_def)

lemma credited_own [simp]: "credited (own_marker c ctx) s \<longleftrightarrow> s = c_source c"
  by (auto simp: credited_def)

lemma well_credited_composed [simp]: "S \<noteq> {} \<Longrightarrow> well_credited ctx (composed_marker t k x S ctx)"
  by (auto simp: well_credited_def)

lemma well_credited_own [simp]: "well_credited ctx (own_marker c ctx)"
proof -
  have "filter (\<lambda>s. s = c_source c) all_sources = [c_source c]"
    by (cases "c_source c") (simp_all add: all_sources_def)
  then have "m_decided_by (own_marker c ctx) = map source_value (sorted_sources {c_source c} ctx)"
    by (simp add: sorted_sources_def)
  then show ?thesis unfolding well_credited_def by blast
qed

lemma well_credited_sources:
  "well_credited ctx m \<Longrightarrow> \<exists>ss. ss \<noteq> [] \<and> map_opt source_of_value (m_decided_by m) = Some ss \<and>
     set (m_decided_by m) = source_value ` set ss"
proof -
  assume "well_credited ctx m"
  then obtain S where S: "S \<noteq> {}" "m_decided_by m = map source_value (sorted_sources S ctx)"
    by (auto simp: well_credited_def)
  have "map_opt source_of_value (map source_value ss) = Some ss" for ss
    by (induction ss) simp_all
  with S show ?thesis by auto
qed

text \<open>A marker credited to something has a first source, so the sanity check cannot raise.\<close>

lemma well_credited_checked:
  "well_credited ctx m \<Longrightarrow> marker_is_sane m ctx = Some (sane_marker m ctx)"
proof -
  assume "well_credited ctx m"
  then obtain S where S: "S \<noteq> {}" "m_decided_by m = map source_value (sorted_sources S ctx)"
    by (auto simp: well_credited_def)
  then obtain s ss where "sorted_sources S ctx = s # ss" by (metis list.exhaust sorted_sources_Nil)
  with S(2) have "probe_source m = Some s" by (simp add: probe_source_def)
  then show ?thesis by (intro marker_checked) simp
qed

lemma may_decide_alone_no_server: "may_decide_alone c \<Longrightarrow> c_source c \<notin> SERVER_SOURCES"
  by (auto simp: may_decide_alone_def source_sets split: if_splits)

lemma own_marker_sound:
  assumes "sane_pool t ctx cs" and "c \<in> set cs" and "may_decide_alone c"
  shows "sound_marker t cs ctx (own_marker c ctx)"
  using assms may_decide_alone_no_server [OF assms(3)] sane_candidate_times [of c ctx]
  by (auto simp: sound_marker_def decisive_def sane_pool_def credits_answers_def)

lemma credit_text_decides_alone [simp]:
  "c_source c \<in> WINS_A_DISAGREEMENT \<Longrightarrow> may_decide_alone c"
  by (auto simp: may_decide_alone_def source_sets)

lemma credit_text_with_own_marker_checked:
  "credit_text_with_own_marker cs ctx =
     Some (if publish_when ctx \<noteq> ''medium'' then None
           else py_min (rank ctx) (filter (\<lambda>c. c_source c \<in> WINS_A_DISAGREEMENT \<and>
                  sane_marker (own_marker c ctx) ctx) cs))"
proof -
  have "filter_opt (\<lambda>c. if c_source c \<in> WINS_A_DISAGREEMENT
      then marker_is_sane (own_marker c ctx) ctx else Some False) cs =
    Some (filter (\<lambda>c. c_source c \<in> WINS_A_DISAGREEMENT \<and> sane_marker (own_marker c ctx) ctx) cs)"
    by (rule filter_opt_Some) simp
  then show ?thesis by (simp add: credit_text_with_own_marker_def)
qed

section \<open>Agreeing clusters\<close>

text \<open>A cluster that can compose a marker: a non-server member confirmed by another group.\<close>

definition confirming_pair :: "candidate list \<Rightarrow> int \<Rightarrow> bool" where
  "confirming_pair cl d \<longleftrightarrow>
     (\<exists>a \<in> set cl. \<exists>b \<in> set cl. c_source a \<notin> SERVER_SOURCES \<and> group_of b \<noteq> group_of a \<and> agree a b d)"

definition composable :: "marker_type \<Rightarrow> decision_context \<Rightarrow> candidate list \<Rightarrow> bool" where
  "composable t ctx cl \<longleftrightarrow> sane_pool t ctx cl \<and> confirming_pair cl (duration_ms ctx)"

lemma cluster_winner_Some:
  "ns \<noteq> [] \<Longrightarrow> \<exists>w \<in> set ns. cluster_winner ns t ctx ts = Some w"
proof -
  assume "ns \<noteq> []"
  then obtain w where w: "py_min (winner_key (is_start_segment t \<and>
      (\<exists>c \<in> set ns. c_source c \<in> READS_THE_FILE)) ts ctx) ns = Some w"
    using py_min_Some by blast
  from py_min_in [OF w] w show ?thesis
    by (auto simp: cluster_winner_def Let_def split: option.splits dest!: py_min_in)
qed

lemma in_confirmed_in:
  "c \<in> set (confirmed_in cl d) \<longleftrightarrow>
     c \<in> set cl \<and> (\<exists>o' \<in> set cl. group_of o' \<noteq> group_of c \<and> agree c o' d)"
  by (auto simp: confirmed_in_def)

lemma compose_cluster_sound:
  assumes "composable t ctx cl"
  obtains m w where "compose_cluster cl t ctx ts = Some (m, w)" and "w \<in> set cl"
    and "c_source w \<notin> SERVER_SOURCES" and "m_type m = t" and "\<not> m_locked m"
    and "m_end_ms m \<le> duration_ms ctx" and "well_credited ctx m" and "credits_answers cl m"
    and "decisive cl ctx m" and "checked_value t m = agree_value w (duration_ms ctx)"
proof -
  let ?d = "duration_ms ctx"
  let ?conf = "confirmed_in cl ?d"
  let ?ns = "filter (\<lambda>c. c_source c \<notin> SERVER_SOURCES) ?conf"
  have pool: "sane_pool t ctx cl" using assms by (simp add: composable_def)
  obtain a where "a \<in> set ?ns"
    using assms by (auto simp: composable_def confirming_pair_def in_confirmed_in)
  then have "?ns \<noteq> []" by (cases ?ns) auto
  then obtain w where w: "cluster_winner ?ns t ctx ts = Some w" and win: "w \<in> set ?ns"
    using cluster_winner_Some by blast
  then have wc: "w \<in> set ?conf" and wcl: "w \<in> set cl" and wns: "c_source w \<notin> SERVER_SOURCES"
    by (auto simp: in_confirmed_in)
  have tw: "c_type w = t" using pool wcl by (rule sane_poolD)
  let ?pool = "if is_start_segment t then filter (\<lambda>c. \<not> partial_season_match c ?conf) ?conf else []"
  let ?sup = "if ?pool = [] then ?conf else ?pool"
  have "?sup \<noteq> []" using wc by auto
  then obtain v ss where v: "safer_other_edge t ?sup ctx = Some (v, ss)"
    using safer_other_edge_Some by blast
  let ?S = "c_source ` set (w # ss @ filter (\<lambda>c. agree w c ?d) ?conf)"
  let ?m = "composed_marker t (agree_value w ?d) v ?S ctx"
  have eq: "compose_cluster cl t ctx ts = Some (?m, w)"
    using w v by (simp add: compose_cluster_def Let_def)
  have "set ss \<subseteq> set ?sup"
    using safer_other_edge_start(3) [OF v] safer_other_edge_end(3) [OF v] by blast
  then have "set ss \<subseteq> set cl" by (auto simp: in_confirmed_in split: if_splits)
  with wcl have answers: "credits_answers cl ?m" by (auto simp: in_confirmed_in)
  have end_le: "m_end_ms ?m \<le> ?d"
  proof (cases "is_start_segment t")
    case True
    then show ?thesis by (simp add: agree_value_def tw)
  next
    case False
    then have "v \<le> ?d" using v by (intro safer_other_edge_le)
    with False show ?thesis by simp
  qed
  have "decisive cl ctx ?m"
  proof -
    obtain b where b: "b \<in> set cl" "group_of b \<noteq> group_of w" "agree w b ?d"
      using wc by (auto simp: in_confirmed_in)
    have tb: "c_type b = t" using pool b(1) by (rule sane_poolD)
    have "agree b w ?d" using b(3) agree_sym [of w b] tw tb by simp
    then have "b \<in> set ?conf" using b wcl unfolding in_confirmed_in by metis
    then have cb: "credited ?m (c_source b)" using b(3) by simp
    have "credited ?m (c_source w)" by simp
    with cb b wcl wns show ?thesis unfolding decisive_def by blast
  qed
  then show thesis
    using eq wcl wns end_le answers
    by (intro that [of ?m w])
      (auto simp: checked_value_def edges_def)
qed

lemma decide_merged_sound:
  assumes "\<forall>cl \<in> set cls. composable t ctx cl" and "cls \<noteq> []"
  shows "\<exists>dec. decide_merged t cls outv ctx ts = Some dec \<and> sound_decision t (concat cls) ctx dec"
proof -
  let ?merged = "dedupe (concat cls)"
  have pool: "sane_pool t ctx ?merged"
    using assms(1) by (auto simp: composable_def sane_pool_def)
  obtain cl where "cl \<in> set cls" using assms(2) by (cases cls) auto
  moreover from this assms(1) have "confirming_pair cl (duration_ms ctx)"
    by (simp add: composable_def)
  ultimately have "confirming_pair ?merged (duration_ms ctx)"
    unfolding confirming_pair_def by (auto intro: bexI [rotated])
  with pool have comp: "composable t ctx ?merged" by (simp add: composable_def)
  from comp obtain m w where mw: "compose_cluster ?merged t ctx ts = Some (m, w)" "m_type m = t"
      "\<not> m_locked m" "m_end_ms m \<le> duration_ms ctx" "well_credited ctx m"
      "credits_answers ?merged m" "decisive ?merged ctx m"
    by (rule compose_cluster_sound [where ts = ts]) blast
  have same: "sound_marker t (concat cls) ctx x = sound_marker t ?merged ctx x" for x
    by (simp add: sound_marker_def decisive_def credits_answers_def)
  note checked = well_credited_checked [OF mw(5)]
  show ?thesis
  proof (cases "sane_marker m ctx")
    case True
    with mw have "sound_marker t ?merged ctx m"
      using sane_markerD by (auto simp: sound_marker_def)
    with True mw(1) checked show ?thesis by (simp add: decide_merged_def Let_def same)
  next
    case False
    show ?thesis
    proof (cases "credit_text_with_own_marker ?merged ctx = Some None")
      case True
      with False mw(1) checked show ?thesis by (simp add: decide_merged_def Let_def)
    next
      case no: False
      then obtain c where c: "credit_text_with_own_marker ?merged ctx = Some (Some c)"
        by (auto simp: credit_text_with_own_marker_checked)
      then have "c \<in> set ?merged" "c_source c \<in> WINS_A_DISAGREEMENT"
        by (auto simp: credit_text_with_own_marker_checked split: if_splits dest!: py_min_in)
      with pool have "sound_marker t ?merged ctx (own_marker c ctx)"
        by (intro own_marker_sound) auto
      with c False mw(1) checked show ?thesis by (simp add: decide_merged_def Let_def same)
    qed
  qed
qed

lemma decide_from_cliques_sound:
  assumes "\<forall>cl \<in> set cls. composable t ctx cl" and "cls \<noteq> []"
  shows "\<exists>dec. decide_from_cliques t cls ctx ts = Some dec \<and> sound_decision t (concat cls) ctx dec"
proof -
  have "\<exists>mw. compose_cluster cl t ctx ts = Some mw" if "cl \<in> set cls" for cl
    using compose_cluster_sound [where ts = ts, of t ctx cl] assms(1) that by metis
  then have "map_opt (\<lambda>cl. compose_cluster cl t ctx ts) cls =
      Some (map (\<lambda>cl. the (compose_cluster cl t ctx ts)) cls)"
    by (intro map_opt_Some) fastforce
  moreover let ?reads = "filter (\<lambda>cl. \<exists>c \<in> set cl. c_source c \<in> WINS_A_DISAGREEMENT) cls"
  have reads: "\<exists>dec. decide_merged t ?reads outv ctx ts = Some dec \<and> sound_decision t (concat cls) ctx dec"
    if "length ?reads = 1" for outv
  proof -
    have "?reads \<noteq> []" using that by (metis length_greater_0_conv zero_less_one)
    then show ?thesis
      using decide_merged_sound [of ?reads t ctx outv ts] assms(1)
        sound_decision_mono [of t "concat ?reads" ctx _ "concat cls"] by fastforce
  qed
  ultimately show ?thesis
    using assms decide_merged_sound [OF assms, of "[]" ts] reads
    by (auto simp: decide_from_cliques_def Let_def py_max_int_eq py_min_int_eq)
qed

lemma clique_composable:
  assumes "sane_pool t ctx cs" and "W \<in> set (agreeing_cliques cs t ctx)"
  shows "composable t ctx W" and "set W \<subseteq> set cs"
proof -
  have t: "\<forall>c \<in> set cs. c_type c = t" using assms(1) by (simp add: sane_pool_def)
  note W = agreeing_cliques_agree [OF assms(2) t]
  show "set W \<subseteq> set cs" by (rule W(1))
  obtain a where a: "a \<in> set W" "c_source a \<notin> AUDIO_OR_SERVER"
    and two: "card (group_of ` set W) \<ge> 2"
    using W(3) by (auto simp: spans_groups_def)
  have "\<exists>b \<in> set W. group_of b \<noteq> group_of a"
  proof (rule ccontr)
    assume "\<not> ?thesis"
    then have "group_of ` set W \<subseteq> {group_of a}" by auto
    then have "card (group_of ` set W) \<le> card {group_of a}" by (intro card_mono) simp_all
    with two show False by simp
  qed
  then obtain b where "b \<in> set W" "group_of b \<noteq> group_of a" by blast
  moreover have "c_source a \<notin> SERVER_SOURCES" using a(2) by (auto simp: source_sets)
  ultimately have "confirming_pair W (duration_ms ctx)"
    using a(1) W(2) unfolding confirming_pair_def by blast
  with assms(1) W(1) show "composable t ctx W"
    by (auto simp: composable_def intro: sane_pool_subset)
qed

lemma cliques_rule_sound:
  assumes "sane_pool t ctx cs" and "agreeing_cliques cs t ctx \<noteq> []"
  shows "\<exists>dec. decide_from_cliques t (agreeing_cliques cs t ctx) ctx ts = Some dec \<and>
    sound_decision t cs ctx dec"
proof -
  let ?cls = "agreeing_cliques cs t ctx"
  have comp: "\<forall>cl \<in> set ?cls. composable t ctx cl"
    using clique_composable(1) [OF assms(1)] by blast
  have sub: "set (concat ?cls) \<subseteq> set cs"
    using clique_composable(2) [OF assms(1)] by auto
  obtain dec where "decide_from_cliques t ?cls ctx ts = Some dec"
    "sound_decision t (concat ?cls) ctx dec"
    using decide_from_cliques_sound [OF comp assms(2)] by metis
  then show ?thesis using sound_decision_mono [OF _ sub] by blast
qed

section \<open>Chapters\<close>

lemma chapters_no_server [simp]: "CHAPTERS \<notin> SERVER_SOURCES"
  by (simp add: source_sets)

lemma chapters_decide_alone [simp]: "c_source c = CHAPTERS \<Longrightarrow> may_decide_alone c"
  by (simp add: may_decide_alone_def source_sets)

text \<open>A marker credited to the chapter whose times are sane is sound.\<close>

lemma chapter_marker_sound:
  assumes "chosen \<in> set cs" and "c_source chosen = CHAPTERS" and "m_type m = t"
    and "\<not> m_locked m" and "sane_times ctx t (m_start_ms m) (m_end_ms m)"
    and "well_credited ctx m" and "credited m CHAPTERS" and "credits_answers cs m"
  shows "sound_marker t cs ctx m"
proof -
  have "decisive cs ctx m"
    unfolding decisive_def using assms by (intro bexI [of _ chosen]) simp_all
  with assms show ?thesis by (simp add: sound_marker_def)
qed

lemma composed_chapter_times:
  assumes "sanity_problem chosen ctx = None" and "c_type chosen = t"
  shows "sane_times ctx t
    (fst (edges t (checked_value t (own_marker chosen ctx))
      (if is_start_segment t then m_start_ms (own_marker chosen ctx) else m_end_ms (own_marker chosen ctx))))
    (snd (edges t (checked_value t (own_marker chosen ctx))
      (if is_start_segment t then m_start_ms (own_marker chosen ctx) else m_end_ms (own_marker chosen ctx))))"
  using sane_candidate_times [OF assms(1)] assms(2)
  by (cases "is_start_segment t") (simp_all add: checked_value_def)

lemma contradicted_chapter_sound:
  assumes "sane_pool t ctx cs" and "chosen \<in> set cs" and "c_source chosen = CHAPTERS"
    and "set others \<subseteq> set cs"
  shows "sound_decision t cs ctx (contradicted_chapter t (own_marker chosen ctx) others against ctx)"
proof -
  have san: "sanity_problem chosen ctx = None" and ty: "c_type chosen = t"
    using sane_poolD [OF assms(1,2)] by simp_all
  have ch: "CHAPTERS \<in> c_source ` set cs" using assms(2,3) by force
  show ?thesis
    unfolding contradicted_chapter_def Let_def
    using assms(2,3) ch imageI [OF subsetD [OF assms(4)], of _ c_source] composed_chapter_times [OF san ty]
    by (auto intro!: chapter_marker_sound [of chosen] simp del: edges_sel)
qed

lemma accepted_chapter_sound:
  assumes pool: "sane_pool t ctx cs" and cs: "chosen \<in> set cs" "c_source chosen = CHAPTERS"
    and oth: "set others \<subseteq> set cs"
  shows "\<exists>dec. accepted_chapter t (own_marker chosen ctx) others ctx = Some dec \<and>
    sound_decision t cs ctx dec"
proof -
  let ?ch = "own_marker chosen ctx"
  let ?v = "checked_value t ?ch"
  let ?ag = "filter (\<lambda>c. \<bar>agree_value c (duration_ms ctx) - ?v\<bar> \<le> tolerance_ms t) others"
  let ?S = "{CHAPTERS} \<union> c_source ` set ?ag"
  have san: "sanity_problem chosen ctx = None" and ty: "c_type chosen = t"
    using sane_poolD [OF pool cs(1)] by simp_all
  have own: "sound_marker t cs ctx ?ch"
    using cs by (intro own_marker_sound [OF pool]) simp_all
  have answers: "?S \<subseteq> c_source ` set cs" using cs oth by force
  have composed: "sound_marker t cs ctx (composed_marker t ?v x ?S ctx)"
    if sane: "sane_marker (composed_marker t ?v x ?S ctx) ctx"
      and le: "\<not> is_start_segment t \<Longrightarrow> x \<le> duration_ms ctx" for x
  proof -
    have "m_end_ms (composed_marker t ?v x ?S ctx) \<le> duration_ms ctx"
      using le by (auto simp: edges_def checked_value_def)
    from sane_markerD [OF sane this] answers show ?thesis
      by (intro chapter_marker_sound [OF cs]) simp_all
  qed
  have kept: "sound_marker t cs ctx (composed_marker INTRO ?v (m_start_ms ?ch) ?S ctx)"
    if "t = INTRO"
    using composed_chapter_times [OF san ty] that answers
    by (intro chapter_marker_sound [OF cs]) (simp_all del: own_marker_simps)
  show ?thesis
  proof (cases "?ag = []")
    case True
    with own show ?thesis by (auto simp: accepted_chapter_def Let_def)
  next
    case False
    then obtain x ss where x: "safer_other_edge t ?ag ctx = Some (x, ss)"
      using safer_other_edge_Some by blast
    have "\<not> is_start_segment t \<Longrightarrow> x \<le> duration_ms ctx"
      using safer_other_edge_le [OF x] by blast
    let ?m = "composed_marker t ?v x ?S ctx"
    have "?S \<noteq> {}" by simp
    note checked = composed_marker_checked [OF this, of t ?v x ctx]
    have "sound_marker t cs ctx (if sane_marker ?m ctx then ?m else ?ch)"
      using composed [of x] own \<open>\<not> is_start_segment t \<Longrightarrow> x \<le> duration_ms ctx\<close> by simp
    with own kept x checked show ?thesis
      by (auto simp: accepted_chapter_def Let_def simp del: own_marker_simps composed_marker_checked Un_insert_left)
  qed
qed

lemma text_moves_chapter_returns:
  "\<exists>r. text_moves_chapter chosen chapter others ctx = Some r"
  by (simp add: text_moves_chapter_def Let_def split: list.split)

lemma text_moves_chapter_sound:
  assumes pool: "sane_pool t ctx cs" and cs: "chosen \<in> set cs" "c_source chosen = CHAPTERS"
    and oth: "set others \<subseteq> set cs" and "t = CREDITS"
    and dec: "text_moves_chapter chosen (own_marker chosen ctx) others ctx = Some (Some dec)"
  shows "sound_decision t cs ctx dec"
proof -
  let ?d = "duration_ms ctx"
  from dec obtain answer m where answer: "moving_text_answers chosen others = [answer]"
    and m: "dec = decided CREDITS m TEXT_MOVES_CHAPTER_REASON"
      "m = composed_marker CREDITS (hint_target answer)
         (min (resolve_end_ms chosen ?d) (resolve_end_ms answer ?d)) {CHAPTERS, CREDITS_TEXT} ctx"
      "sane_marker m ctx"
    by (auto simp: text_moves_chapter_def Let_def split: list.splits if_splits)
  have "answer \<in> set (moving_text_answers chosen others)" using answer by simp
  then have "answer \<in> set cs" "c_source answer = CREDITS_TEXT"
    using oth by (auto simp: moving_text_answers_def)
  then have answers: "{CHAPTERS, CREDITS_TEXT} \<subseteq> c_source ` set cs" using cs by force
  have "m_end_ms m \<le> ?d" using m(2) by (simp add: min.coboundedI1)
  from sane_markerD [OF m(3) this] show ?thesis
    using m(1,2) assms(5) answers by (auto intro!: chapter_marker_sound [OF cs])
qed

lemma uncontradicted_chapter_sound:
  assumes "sane_pool t ctx cs" and "chosen \<in> set cs" "c_source chosen = CHAPTERS"
    and "set others \<subseteq> set cs"
  shows "\<exists>dec. uncontradicted_chapter t chosen others ctx = Some dec \<and> sound_decision t cs ctx dec"
proof -
  obtain r where "text_moves_chapter chosen (own_marker chosen ctx) others ctx = Some r"
    using text_moves_chapter_returns by blast
  then show ?thesis
    using accepted_chapter_sound [OF assms] text_moves_chapter_sound [OF assms]
    by (cases r) (auto simp: uncontradicted_chapter_def Let_def)
qed

text \<open>A sound decision carries its marker where it is decided, so nothing that reads it raises.\<close>

lemma agreed_sound: "sound_decision t cs ctx dec \<Longrightarrow>
    \<exists>b. agreed dec = Some b \<and> (b \<longrightarrow> (\<exists>m. d_marker dec = Some m))"
  by (auto simp: sound_decision_def agreed_def split: option.splits)

lemma sound_with_reason:
  "sound_decision t cs ctx dec \<Longrightarrow> d_marker dec = Some m \<Longrightarrow>
     \<exists>dec'. with_reason dec p = Some dec' \<and> sound_decision t cs ctx dec'"
  by (simp add: sound_decision_def with_reason_def)

lemma overruling_sound:
  assumes "\<forall>cl \<in> set cls. composable t ctx cl" and "cls \<noteq> []" and "set (concat cls) \<subseteq> set cs"
  shows "\<exists>r. text_over_chapter cls t ctx = Some r \<and> (\<forall>dec. r = Some dec \<longrightarrow> sound_decision t cs ctx dec)"
    and "t = INTRO \<Longrightarrow> \<exists>r. audio_over_chapter cls chapter ctx = Some r \<and>
      (\<forall>dec. r = Some dec \<longrightarrow> sound_decision t cs ctx dec)"
proof -
  have *: "\<exists>dec. decide_from_cliques t cls ctx ts = Some dec \<and> sound_decision t cs ctx dec" for ts
    using decide_from_cliques_sound [OF assms(1,2), of ts] sound_decision_mono [OF _ assms(3)]
    by metis
  have read: "\<exists>b. agreed dec = Some b \<and> (b \<longrightarrow> (\<exists>m dec'. d_marker dec = Some m \<and>
      with_reason dec p = Some dec' \<and> sound_decision t cs ctx dec'))"
    if "sound_decision t cs ctx dec" for dec p
    using agreed_sound [OF that] sound_with_reason [OF that] by blast
  show "\<exists>r. text_over_chapter cls t ctx = Some r \<and> (\<forall>dec. r = Some dec \<longrightarrow> sound_decision t cs ctx dec)"
    using * [of True] read [where p = TEXT_OVER_CHAPTER_REASON]
    by (fastforce simp: text_over_chapter_def)
  show "\<exists>r. audio_over_chapter cls chapter ctx = Some r \<and>
      (\<forall>dec. r = Some dec \<longrightarrow> sound_decision t cs ctx dec)" if "t = INTRO"
    using * [of False] that read [where p = AUDIO_OVER_CHAPTER_REASON]
    by (fastforce simp: audio_over_chapter_def)
qed

end
