(* ===== verification/Floats.thy ===== *)
theory Floats
  imports Speed
begin

text \<open>
  Rounding to a double (\<open>fl\<close> of \<open>Speed\<close>): it is monotone and odd.  Every comparison of rounded
  times in the audio matcher and the credits rule rests on the first.
\<close>

section \<open>Powers of two\<close>

lemma pow2_powi: "pow2 e = 2 powi e"
  unfolding pow2_def power_int_def by (simp only: power_one_over inverse_eq_divide)

lemma pow2_pos [simp]: "0 < pow2 e"
  by (simp add: pow2_powi)

lemma pow2_nonneg [simp]: "0 \<le> pow2 e"
  using pow2_pos [of e] by linarith

lemma pow2_neq0 [simp]: "pow2 e \<noteq> 0"
  using pow2_pos [of e] by linarith

lemma pow2_add: "pow2 (a + b) = pow2 a * pow2 b"
  by (simp add: pow2_powi power_int_add)

lemma pow2_1 [simp]: "pow2 1 = 2"
  by (simp add: pow2_def)

lemma pow2_Suc: "pow2 (e + 1) = 2 * pow2 e"
  by (simp add: pow2_add)

lemma pow2_nat: "pow2 (int n) = 2 ^ n"
  by (simp add: pow2_def)

lemma pow2_mono: "a \<le> b \<Longrightarrow> pow2 a \<le> pow2 b"
  by (simp add: pow2_powi power_int_increasing)

section \<open>Bit lengths\<close>

lemma nbits_nonneg: "0 \<le> nbits n"
proof (induction n rule: nbits.induct)
  case (1 n)
  then show ?case by (subst nbits.simps) auto
qed

lemma nbits_pos: "0 < n \<Longrightarrow> 0 < nbits n"
  using nbits_nonneg [of "n div 2"] by (subst nbits.simps) simp

lemma nbits_bounds: "0 < n \<Longrightarrow> 2 ^ nat (nbits n - 1) \<le> n \<and> n < 2 ^ nat (nbits n)"
proof (induction n rule: nbits.induct)
  case (1 n)
  note unfold = nbits.simps [of n]
  show ?case
  proof (cases "n = 1")
    case True
    have "nbits (0::int) = 0" by (subst nbits.simps) simp
    with True unfold show ?thesis by simp
  next
    case False
    with 1 have "0 < n div 2" "\<not> n \<le> 0" by auto
    with 1 have ih: "2 ^ nat (nbits (n div 2) - 1) \<le> n div 2" "n div 2 < 2 ^ nat (nbits (n div 2))"
      by simp_all
    have b: "0 < nbits (n div 2)" using \<open>0 < n div 2\<close> by (rule nbits_pos)
    then have "2 ^ nat (nbits (n div 2)) = (2::int) * 2 ^ nat (nbits (n div 2) - 1)"
      by (simp add: power_Suc [symmetric] del: power_Suc)
    moreover have "nat (1 + nbits (n div 2)) = Suc (nat (nbits (n div 2)))" using b by simp
    moreover have "2 * (n div 2) \<le> n" "n \<le> 2 * (n div 2) + 1" by linarith+
    ultimately show ?thesis using unfold ih \<open>\<not> n \<le> 0\<close> by simp
  qed
qed

lemma nbits_bounds_rat:
  assumes "0 < n"
  shows "pow2 (nbits n - 1) \<le> of_int n" "of_int n < pow2 (nbits n)"
proof -
  note b = nbits_bounds [OF assms] nbits_pos [OF assms]
  have "pow2 (nbits n - 1) = of_int (2 ^ nat (nbits n - 1))" "pow2 (nbits n) = of_int (2 ^ nat (nbits n))"
    using b by (simp_all add: pow2_def)
  with b show "pow2 (nbits n - 1) \<le> of_int n" "of_int n < pow2 (nbits n)"
    by (simp_all only: of_int_le_iff of_int_less_iff)
qed

section \<open>The scale\<close>

lemma float_scale_bounds:
  assumes "x \<noteq> 0"
  shows "2 ^ 52 * pow2 (float_scale x) \<le> \<bar>x\<bar>" "\<bar>x\<bar> < 2 ^ 53 * pow2 (float_scale x)"
proof -
  obtain p q where pq: "quotient_of \<bar>x\<bar> = (p, q)" by (cases "quotient_of \<bar>x\<bar>")
  have q: "0 < q" using quotient_of_denom_pos [OF pq] .
  have x: "\<bar>x\<bar> = of_int p / of_int q" by (rule quotient_of_div [OF pq])
  have p: "0 < p"
  proof -
    have "0 < of_int p / (of_int q :: rat)" using assms x by linarith
    with q show ?thesis by (simp add: zero_less_divide_iff)
  qed
  define e where "e = nbits p - nbits q - 53"
  note bp = nbits_bounds_rat [OF p] and bq = nbits_bounds_rat [OF q]
  have qpos: "(0::rat) < of_int q" using q by simp
  have low: "2 ^ 52 * pow2 e \<le> \<bar>x\<bar>"
  proof -
    have "2 ^ 52 * pow2 e * of_int q \<le> 2 ^ 52 * pow2 e * pow2 (nbits q)"
      using bq(2) by (intro mult_left_mono) simp_all
    also have "\<dots> = pow2 (nbits p - 1)"
      by (simp add: e_def pow2_nat [of 52, simplified, symmetric] pow2_add [symmetric])
    also have "\<dots> \<le> of_int p" by (rule bp(1))
    finally show ?thesis using qpos by (simp add: x pos_le_divide_eq)
  qed
  have high: "\<bar>x\<bar> < 2 ^ 54 * pow2 e"
  proof -
    have "of_int p < pow2 (nbits p)" by (rule bp(2))
    also have "\<dots> = 2 ^ 54 * pow2 e * pow2 (nbits q - 1)"
      by (simp add: e_def pow2_nat [of 54, simplified, symmetric] pow2_add [symmetric])
    also have "\<dots> \<le> 2 ^ 54 * pow2 e * of_int q" using bq(1) by (intro mult_left_mono) simp_all
    finally show ?thesis using qpos by (simp add: x pos_divide_less_eq)
  qed
  have scale: "float_scale x = (if \<bar>x\<bar> / pow2 e < 2 ^ 53 then e else e + 1)"
    by (simp add: float_scale_def pq e_def Let_def)
  show "2 ^ 52 * pow2 (float_scale x) \<le> \<bar>x\<bar>"
  proof (cases "\<bar>x\<bar> / pow2 e < 2 ^ 53")
    case False
    then have "2 ^ 53 * pow2 e \<le> \<bar>x\<bar>" by (simp add: pos_divide_less_eq not_less)
    moreover have "pow2 (e + 1) = 2 * pow2 e" by (simp add: pow2_Suc)
    ultimately show ?thesis using False scale by simp
  qed (use low scale in simp)
  show "\<bar>x\<bar> < 2 ^ 53 * pow2 (float_scale x)"
  proof (cases "\<bar>x\<bar> / pow2 e < 2 ^ 53")
    case True
    then show ?thesis using scale by (simp add: pos_divide_less_eq)
  next
    case False
    moreover have "pow2 (e + 1) = 2 * pow2 e" by (simp add: pow2_Suc)
    ultimately show ?thesis using high scale by simp
  qed
qed

section \<open>Rounding half to even\<close>

lemma round_half_even_le: "x \<le> of_int n \<Longrightarrow> round_half_even x \<le> n"
proof -
  assume le: "x \<le> of_int n"
  show ?thesis
  proof (cases "x = of_int n")
    case False
    with le have "\<lfloor>x\<rfloor> < n" by (simp add: floor_less_iff)
    then show ?thesis by (auto simp: round_half_even_def Let_def)
  qed (simp add: round_half_even_def)
qed

lemma round_half_even_ge: "of_int n \<le> x \<Longrightarrow> n \<le> round_half_even x"
proof -
  assume "of_int n \<le> x"
  then have "n \<le> \<lfloor>x\<rfloor>" by (simp add: le_floor_iff)
  then show ?thesis by (auto simp: round_half_even_def Let_def)
qed

lemma round_half_even_mono:
  assumes "x \<le> y"
  shows "round_half_even x \<le> round_half_even y"
proof (cases "\<lfloor>x\<rfloor> = \<lfloor>y\<rfloor>")
  case True
  with assms show ?thesis by (auto simp: round_half_even_def Let_def)
next
  case False
  with floor_mono [OF assms] have "\<lfloor>x\<rfloor> + 1 \<le> \<lfloor>y\<rfloor>" by simp
  moreover have "round_half_even x \<le> \<lfloor>x\<rfloor> + 1" "\<lfloor>y\<rfloor> \<le> round_half_even y"
    by (auto simp: round_half_even_def Let_def)
  ultimately show ?thesis by linarith
qed

lemma round_of_int [simp]: "round_half_even (of_int n) = n"
  by (simp add: round_half_even_def)

lemma round_half_even_minus: "round_half_even (- x) = - round_half_even x"
proof (cases "x = of_int \<lfloor>x\<rfloor>")
  case True
  have "round_half_even (- of_int n :: rat) = - n" for n
    by (simp only: of_int_minus [symmetric] round_of_int)
  then show ?thesis using True by (metis round_of_int)
next
  case False
  have fl: "\<lfloor>- x\<rfloor> = - \<lfloor>x\<rfloor> - 1"
  proof (rule floor_unique)
    show "of_int (- \<lfloor>x\<rfloor> - 1) \<le> - x" using floor_correct [of x] by simp
    have "of_int \<lfloor>x\<rfloor> < x" using False of_int_floor_le [of x] by linarith
    then show "- x < of_int (- \<lfloor>x\<rfloor> - 1) + 1" by simp
  qed
  show ?thesis by (auto simp: round_half_even_def Let_def fl)
qed

section \<open>Rounding to a double\<close>

lemma fl_0 [simp]: "fl 0 = 0"
  by (simp add: fl_def)

lemma fl_minus: "fl (- x) = - fl x"
  by (simp add: fl_def float_scale_def Let_def round_half_even_minus)

lemma fl_pos_bounds:
  assumes "0 < x"
  shows "2 ^ 52 * pow2 (float_scale x) \<le> fl x" "fl x \<le> 2 ^ 53 * pow2 (float_scale x)"
proof -
  let ?e = "float_scale x"
  have b: "2 ^ 52 * pow2 ?e \<le> x" "x < 2 ^ 53 * pow2 ?e" using float_scale_bounds [of x] assms by simp_all
  have "of_int (2 ^ 52) \<le> x / pow2 ?e" "x / pow2 ?e \<le> of_int (2 ^ 53)"
    using b by (simp_all add: pos_le_divide_eq pos_divide_le_eq)
  then have "2 ^ 52 \<le> round_half_even (x / pow2 ?e)" "round_half_even (x / pow2 ?e) \<le> 2 ^ 53"
    using round_half_even_ge round_half_even_le by blast+
  then have "of_int (2 ^ 52) \<le> (of_int (round_half_even (x / pow2 ?e)) :: rat)"
    "(of_int (round_half_even (x / pow2 ?e)) :: rat) \<le> of_int (2 ^ 53)"
    by (simp_all only: of_int_le_iff)
  then show "2 ^ 52 * pow2 ?e \<le> fl x" "fl x \<le> 2 ^ 53 * pow2 ?e"
    using assms by (simp_all add: fl_def Let_def mult_right_mono)
qed

lemma fl_pos: "0 < x \<Longrightarrow> 0 < fl x"
proof -
  assume x: "0 < x"
  have "0 < 2 ^ 52 * pow2 (float_scale x)" by simp
  also have "\<dots> \<le> fl x" by (rule fl_pos_bounds(1) [OF x])
  finally show ?thesis .
qed

lemma fl_mono_pos:
  assumes "0 < x" and "x \<le> y"
  shows "fl x \<le> fl y"
proof -
  let ?a = "float_scale x" and ?b = "float_scale y"
  have y: "0 < y" using assms by linarith
  have "pow2 ?a < 2 * pow2 ?b"
  proof -
    have "2 ^ 52 * pow2 ?a \<le> x" using float_scale_bounds(1) [of x] assms(1) by simp
    moreover have "y < 2 ^ 53 * pow2 ?b" using float_scale_bounds(2) [of y] y by simp
    ultimately show ?thesis using assms(2) by simp
  qed
  also have "2 * pow2 ?b = pow2 (?b + 1)" by (simp add: pow2_Suc)
  finally have "?a < ?b + 1" using pow2_mono [of "?b + 1" ?a] by linarith
  then consider "?a = ?b" | "?a + 1 \<le> ?b" by linarith
  then show ?thesis
  proof cases
    case 1
    have "x / pow2 ?a \<le> y / pow2 ?a" using assms(2) by (simp add: divide_right_mono)
    then have "round_half_even (x / pow2 ?a) \<le> round_half_even (y / pow2 ?b)"
      unfolding 1 by (rule round_half_even_mono)
    then show ?thesis using assms(1) y 1 by (simp add: fl_def Let_def)
  next
    case 2
    have "fl x \<le> 2 ^ 53 * pow2 ?a" by (rule fl_pos_bounds(2) [OF assms(1)])
    also have "\<dots> = 2 ^ 52 * pow2 (?a + 1)" by (simp add: pow2_Suc)
    also have "\<dots> \<le> 2 ^ 52 * pow2 ?b" using pow2_mono [OF 2] by simp
    also have "\<dots> \<le> fl y" by (rule fl_pos_bounds(1) [OF y])
    finally show ?thesis .
  qed
qed

theorem fl_mono: "x \<le> y \<Longrightarrow> fl x \<le> fl y"
proof -
  assume le: "x \<le> y"
  consider "0 < x" | "x = 0" | "x < 0" "y < 0" | "x < 0" "0 \<le> y" by linarith
  then show ?thesis
  proof cases
    case 1
    then show ?thesis using le by (rule fl_mono_pos)
  next
    case 2
    then show ?thesis using le fl_pos [of y] by (cases "y = 0") auto
  next
    case 3
    then show ?thesis using le fl_mono_pos [of "- y" "- x"] by (simp add: fl_minus)
  next
    case 4
    have "fl x < 0" using fl_pos [of "- x"] 4(1) by (simp add: fl_minus)
    moreover have "0 \<le> fl y" using fl_pos [of y] 4(2) by (cases "y = 0") auto
    ultimately show ?thesis by linarith
  qed
qed

lemma fl_nonneg_iff [simp]: "0 \<le> fl x \<longleftrightarrow> 0 \<le> x"
  using fl_pos [of x] fl_pos [of "- x"] by (cases x "0::rat" rule: linorder_cases) (auto simp: fl_minus)

lemma fl_pos_iff [simp]: "0 < fl x \<longleftrightarrow> 0 < x"
  using fl_nonneg_iff [of "- x"] by (simp add: fl_minus not_le [symmetric])

text \<open>Integers below \<open>2 ^ 53\<close> are doubles.\<close>

lemma fl_of_int:
  assumes "\<bar>n\<bar> < 2 ^ 53"
  shows "fl (of_int n) = of_int n"
proof (cases "n = 0")
  case False
  let ?e = "float_scale (of_int n :: rat)"
  have "2 ^ 52 * pow2 ?e \<le> \<bar>of_int n :: rat\<bar>" using float_scale_bounds(1) [of "of_int n"] False by simp
  also have "\<dots> < 2 ^ 53" using assms by (metis of_int_abs of_int_less_iff of_int_numeral of_int_power)
  finally have "pow2 ?e < 2" by simp
  then have "?e \<le> 0" using pow2_mono [of 1 ?e] by (cases "?e \<le> 0") auto
  then have "of_int n / pow2 ?e = (of_int (n * 2 ^ nat (- ?e)) :: rat)" by (auto simp: pow2_def)
  then have "round_half_even (of_int n / pow2 ?e) = n * 2 ^ nat (- ?e)" by (simp only: round_of_int)
  then show ?thesis using False \<open>?e \<le> 0\<close> by (auto simp: fl_def Let_def pow2_def)
qed simp

section \<open>Medians\<close>

text \<open>
  \<open>np.median\<close> and \<open>statistics.median\<close> of a non-empty list of doubles: the middle element, or half
  the rounded sum of the two in the middle.
\<close>

definition float_median :: "rat list \<Rightarrow> rat" where
  "float_median xs =
     (let ys = sort xs; n = length ys
      in if odd n then ys ! (n div 2) else fl (fl (ys ! (n div 2 - 1) + ys ! (n div 2)) / 2))"

end
