(* ===== verification/Decide_Total.thy ===== *)
theory Decide_Total
  imports Decide_Sound Floats
begin

text \<open>
  The three rules as providers of one interface, the guard as its client, and from it that one
  type's decision returns and is sound; and reading times on the file's clock, which returns for
  times below \<open>2 ^ 63\<close> and keeps the candidates sane.
\<close>

section \<open>The chapter rule\<close>

lemma contradicting_clusters_sound:
  assumes "sane_pool t ctx others"
  obtains con where "contradicting_clusters t v others ctx = Some con"
    and "\<forall>cl \<in> set (map fst con). composable t ctx cl" and "set (concat (map fst con)) \<subseteq> set others"
proof -
  let ?cls = "agreeing_cliques others t ctx"
  let ?f = "\<lambda>cl. do { mw \<leftarrow> compose_cluster cl t ctx (t = CREDITS); Some (cl, fst mw) }"
  have "\<exists>x. ?f cl = Some x" if "cl \<in> set ?cls" for cl
    using compose_cluster_sound [OF clique_composable(1) [OF assms that], where ts = "t = CREDITS"]
    by (metis bind.bind_lunit fst_conv)
  then have eq: "map_opt ?f ?cls = Some (map (\<lambda>cl. the (?f cl)) ?cls)"
    by (intro map_opt_Some) fastforce
  let ?all = "map (\<lambda>cl. the (?f cl)) ?cls"
  have fst: "fst x \<in> set ?cls" if "x \<in> set ?all" for x
  proof -
    from map_opt_in [OF eq that] obtain cl where "cl \<in> set ?cls" "?f cl = Some x" by blast
    then show ?thesis by (auto simp: bind_eq_Some_conv)
  qed
  let ?con = "filter (\<lambda>cm. \<bar>checked_value t (snd cm) - v\<bar> > tolerance_ms t) ?all"
  have con: "contradicting_clusters t v others ctx = Some ?con"
    by (simp only: contradicting_clusters_def eq bind.bind_lunit)
  have in_cls: "cl \<in> set ?cls" if "cl \<in> set (map fst ?con)" for cl using that fst by auto
  have "\<forall>cl \<in> set (map fst ?con). composable t ctx cl"
    using clique_composable(1) [OF assms in_cls] by blast
  moreover have "set (concat (map fst ?con)) \<subseteq> set others"
    using clique_composable(2) [OF assms in_cls] by (auto simp del: set_map)
  ultimately show thesis by (rule that [OF con])
qed

lemma chapters_rule_sound:
  assumes pool: "sane_pool t ctx cs" and ch: "chapters \<noteq> []" "set chapters \<subseteq> set cs"
    "\<forall>c \<in> set chapters. c_source c = CHAPTERS" and oth: "set others \<subseteq> set cs"
  shows "\<exists>dec. decide_from_chapters t chapters others ctx = Some dec \<and> sound_decision t cs ctx dec"
proof -
  obtain chosen where chosen: "py_min (chapter_choice_key (duration_ms ctx)) chapters = Some chosen"
    using py_min_Some [OF ch(1)] by blast
  from py_min_in [OF this] ch have c: "chosen \<in> set cs" "c_source chosen = CHAPTERS" by auto
  let ?v = "checked_value t (own_marker chosen ctx)"
  obtain con where con: "contradicting_clusters t ?v others ctx = Some con"
    and comp: "\<forall>cl \<in> set (map fst con). composable t ctx cl"
    and sub: "set (concat (map fst con)) \<subseteq> set others"
    by (rule contradicting_clusters_sound [OF sane_pool_subset [OF pool oth]])
  show ?thesis
  proof (cases con)
    case Nil
    then show ?thesis
      using chosen con uncontradicted_chapter_sound [OF pool c oth]
      by (simp add: decide_from_chapters_def Let_def)
  next
    case (Cons x rest)
    obtain cl against where x: "x = (cl, against)" by (cases x)
    have "map fst con \<noteq> []" and sub': "set (concat (map fst con)) \<subseteq> set cs"
      using Cons sub oth by auto
    note over = overruling_sound [OF comp this]
    let ?over = "if t = CREDITS then text_over_chapter (map fst con) t ctx
      else if t = INTRO then audio_over_chapter (map fst con) (own_marker chosen ctx) ctx else Some None"
    have "\<exists>r. ?over = Some r \<and> (\<forall>dec. r = Some dec \<longrightarrow> sound_decision t cs ctx dec)"
      using over by auto
    then obtain r where r: "?over = Some r" "\<forall>dec. r = Some dec \<longrightarrow> sound_decision t cs ctx dec"
      by blast
    have "decide_from_chapters t chapters others ctx = Some (case r of Some dec \<Rightarrow> dec
        | None \<Rightarrow> contradicted_chapter t (own_marker chosen ctx) others against ctx)"
      using chosen con r(1)
      by (cases "t = CREDITS"; cases "t = INTRO") (auto simp: decide_from_chapters_def Let_def Cons x)
    then show ?thesis
      using r(2) contradicted_chapter_sound [OF pool c oth] by (auto split: option.splits)
  qed
qed

section \<open>The lone source rule\<close>

lemma decide_lone_group_sound:
  assumes pool: "sane_pool t ctx cs" and p: "p \<in> set own" "may_decide_alone p"
    and own: "set own \<subseteq> set cs"
  shows "\<exists>dec. decide_lone_group t p own ctx = Some dec \<and> sound_decision t cs ctx dec"
proof -
  let ?d = "duration_ms ctx"
  have pc: "p \<in> set cs" using p own by auto
  note pa = p(2) and ps = may_decide_alone_no_server [OF p(2)]
  have tp: "c_type p = t" using pool pc by (rule sane_poolD)
  have "own \<noteq> []" using p by auto
  then obtain x ss where x: "safer_other_edge t own ctx = Some (x, ss)"
    using safer_other_edge_Some by blast
  let ?S = "insert (c_source p) (c_source ` set ss)"
  let ?m = "composed_marker t (agree_value p ?d) x ?S ctx"
  have "set ss \<subseteq> set own"
    using safer_other_edge_start(3) [OF x] safer_other_edge_end(3) [OF x] by blast
  then have answers: "credits_answers cs ?m" using own pc by auto
  have composed: "sound_marker t cs ctx ?m" if "sane_marker ?m ctx"
  proof -
    have "m_end_ms ?m \<le> ?d"
      using safer_other_edge_le [OF x] tp by (auto simp: edges_def agree_value_def)
    from sane_markerD [OF that this] have "sane_times ctx t (m_start_ms ?m) (m_end_ms ?m)" by simp
    moreover have "decisive cs ctx ?m"
      unfolding decisive_def using pc pa ps by (intro bexI [of _ p]) simp_all
    ultimately show ?thesis using answers by (simp add: sound_marker_def)
  qed
  show ?thesis
    using composed own_marker_sound [OF pool pc pa] x
    by (auto simp: decide_lone_group_def Let_def)
qed

lemma decide_disagreeing_sound:
  assumes pool: "sane_pool t ctx cs" and r: "ranked \<noteq> []" "set ranked \<subseteq> set cs"
    and p: "\<forall>p. proposal = Some p \<longrightarrow> p \<in> set cs \<and> may_decide_alone p"
  shows "\<exists>dec. decide_disagreeing t sane ranked proposal ctx = Some dec \<and> sound_decision t cs ctx dec"
proof -
  have own: "sound_marker t cs ctx (own_marker c ctx)"
    if "c \<in> set cs" "may_decide_alone c" for c
    using pool that by (rule own_marker_sound)
  have alone: "sound_marker t cs ctx (own_marker c ctx)" if "proposal = Some c" for c
    using p that by (intro own) auto
  have from_text: "sound_marker t cs ctx (own_marker c ctx)"
    if "find (\<lambda>c. c_source c \<in> WINS_A_DISAGREEMENT) ranked = Some c" for c
    using that r(2) by (intro own) (auto dest!: find_SomeD)
  obtain best rest where ranked: "ranked = best # rest" using r(1) by (cases ranked) auto
  show ?thesis
    using alone from_text
    by (auto simp: decide_disagreeing_def Let_def ranked split: option.split)
qed

lemma lone_rule_sound:
  assumes pool: "sane_pool t ctx cs" and ne: "cs \<noteq> []"
  shows "\<exists>dec. decide_from_single_source t cs ctx = Some dec \<and> sound_decision t cs ctx dec"
proof -
  let ?ranked = "sort_key (rank ctx) cs"
  have r: "?ranked \<noteq> []" "set ?ranked \<subseteq> set cs"
    using ne by (metis set_empty set_sort, simp)
  show ?thesis
  proof (cases "find may_decide_alone ?ranked")
    case None
    with decide_disagreeing_sound [OF pool r, of None cs] show ?thesis
      by (simp add: decide_from_single_source_def Let_def)
  next
    case (Some p)
    then have p: "p \<in> set cs" "may_decide_alone p" by (auto dest!: find_SomeD)
    have "p \<in> set (filter (\<lambda>c. group_of c = group_of p) cs)" using p by simp
    from decide_lone_group_sound [OF pool this p(2)] decide_disagreeing_sound [OF pool r, of "Some p" cs]
      Some p show ?thesis
      by (auto simp: decide_from_single_source_def Let_def)
  qed
qed

section \<open>The interface of a rule, and the guard as its client\<close>

text \<open>
  A rule decides one type from a pool of sane candidates, where it applies.  It promises to
  return, and to return a sound decision.
\<close>

locale evidence_rule =
  fixes rule :: "marker_type \<Rightarrow> candidate list \<Rightarrow> decision_context \<Rightarrow> type_decision option"
    and applies :: "marker_type \<Rightarrow> candidate list \<Rightarrow> decision_context \<Rightarrow> bool"
  assumes rule_sound: "sane_pool t ctx cs \<Longrightarrow> applies t cs ctx \<Longrightarrow>
    \<exists>dec. rule t cs ctx = Some dec \<and> sound_decision t cs ctx dec"
begin

lemma guarded:
  assumes "sane_pool t ctx cs" and "applies t cs ctx"
  shows "\<exists>dec dec'. rule t cs ctx = Some dec \<and> contradiction_guard t cs pool ctx dec = Some dec' \<and>
    sound_decision t cs ctx dec'"
proof -
  obtain dec where dec: "rule t cs ctx = Some dec" "sound_decision t cs ctx dec"
    using rule_sound [OF assms] by blast
  then have "\<exists>dec'. contradiction_guard t cs pool ctx dec = Some dec' \<and> sound_decision t cs ctx dec'"
    by (cases "d_marker dec") (auto simp: contradiction_guard_def Let_def sound_decision_def)
  with dec(1) show ?thesis by blast
qed

end

definition chapters_of :: "candidate list \<Rightarrow> candidate list" where
  "chapters_of cs = filter (\<lambda>c. c_source c = CHAPTERS) cs"

definition others_of :: "candidate list \<Rightarrow> candidate list" where
  "others_of cs = filter (\<lambda>c. c_source c \<noteq> CHAPTERS) cs"

interpretation chapter_rule: evidence_rule
  "\<lambda>t cs ctx. decide_from_chapters t (chapters_of cs) (others_of cs) ctx"
  "\<lambda>t cs ctx. chapters_of cs \<noteq> []"
  by unfold_locales (rule chapters_rule_sound, auto simp: chapters_of_def others_of_def)

interpretation clique_rule: evidence_rule
  "\<lambda>t cs ctx. decide_from_cliques t (agreeing_cliques cs t ctx) ctx False"
  "\<lambda>t cs ctx. agreeing_cliques cs t ctx \<noteq> []"
  by unfold_locales (rule cliques_rule_sound)

interpretation lone_rule: evidence_rule decide_from_single_source "\<lambda>t cs ctx. cs \<noteq> []"
  by unfold_locales (rule lone_rule_sound)

text \<open>One type: whichever rule applies, the guarded result is sound.\<close>

lemma decide_type_sound:
  assumes pool: "sane_pool t ctx cs"
  shows "\<exists>dec. decide_type t of_type cs ctx = Some dec \<and> sound_decision t cs ctx dec"
proof (cases "cs = []")
  case True
  then show ?thesis by (simp add: decide_type_def)
next
  case ne: False
  show ?thesis
  proof (cases "chapters_of cs = []")
    case False
    then obtain chosen where "py_min (chapter_choice_key (duration_ms ctx)) (chapters_of cs) = Some chosen"
      using py_min_Some by blast
    with False ne chapter_rule.guarded [OF pool, of "remove1 chosen cs"] show ?thesis
      by (auto simp: decide_type_def Let_def chapters_of_def others_of_def)
  next
    case True
    then show ?thesis
      using ne clique_rule.guarded [OF pool, of "others_of cs"] lone_rule.guarded [OF pool, of "others_of cs"]
      by (cases "agreeing_cliques cs t ctx = []")
        (auto simp: decide_type_def Let_def chapters_of_def others_of_def)
  qed
qed

section \<open>Reading on the file's clock\<close>

text \<open>Scaling a time below \<open>2 ^ 63\<close> overflows nothing: the two scales are below 2.\<close>

lemma online_time_scale_bounds:
  assumes "online_time_scale r = Some scale"
  shows "0 \<le> scale" and "scale \<le> 2"
proof -
  obtain own where own: "playback_speed r = Some own"
    and scale: "scale = fl ((if own = PAL_FPS then FILM_FPS else PAL_FPS) / own)"
    using assms by (auto simp: online_time_scale_def Let_def split: option.splits)
  have "own = FILM_FPS \<or> own = PAL_FPS"
    using own by (auto simp: playback_speed_def FAMILIES_def split: option.splits if_splits)
  moreover have "FILM_FPS \<noteq> PAL_FPS" by code_simp
  ultimately have s: "scale = fl (PAL_FPS / FILM_FPS) \<or> scale = fl (FILM_FPS / PAL_FPS)"
    using scale by auto
  have "0 \<le> fl (PAL_FPS / FILM_FPS)" "fl (PAL_FPS / FILM_FPS) \<le> 2"
    "0 \<le> fl (FILM_FPS / PAL_FPS)" "fl (FILM_FPS / PAL_FPS) \<le> 2"
    by code_simp+
  with s show "0 \<le> scale" "scale \<le> 2" by auto
qed

lemma fl_abs: "\<bar>fl x\<bar> = fl \<bar>x\<bar>"
proof (cases "0 \<le> x")
  case False
  then have "fl x < 0" by (meson fl_nonneg_iff not_le)
  with False show ?thesis using fl_minus [of x] by simp
qed simp

lemma fl_two_powers: "fl (2 ^ 63) = 2 ^ 63" "fl (2 ^ 64) = 2 ^ 64"
  by code_simp+

lemma to_finite_below:
  assumes "\<bar>x\<bar> \<le> y" and "fl y = y" and "y < 2 ^ 1024"
  shows "to_finite x = Some (fl x)" and "\<bar>fl x\<bar> \<le> y"
  using assms fl_mono [OF assms(1)] by (simp_all add: to_finite_def fl_abs)

lemma scale_ms_returns:
  assumes "online_time_scale r = Some scale" and "\<bar>ms\<bar> \<le> 2 ^ 63"
  shows "\<exists>v. scale_ms ms scale = Some v"
proof -
  let ?x = "of_int ms :: rat"
  have "\<bar>?x\<bar> = of_int \<bar>ms\<bar>" by simp
  also have "\<dots> \<le> of_int (2 ^ 63)" using assms(2) by (simp only: of_int_le_iff)
  finally have x: "\<bar>?x\<bar> \<le> 2 ^ 63" by simp
  have small: "(2::rat) ^ 63 < 2 ^ 1024" "(2::rat) ^ 64 < 2 ^ 1024"
    by (rule power_strict_increasing; simp)+
  note f = to_finite_below [OF x fl_two_powers(1) small(1)]
  have "\<bar>fl ?x * scale\<bar> = \<bar>fl ?x\<bar> * scale"
    using online_time_scale_bounds(1) [OF assms(1)] by (simp add: abs_mult)
  also have "\<dots> \<le> 2 ^ 63 * 2"
    using f(2) online_time_scale_bounds [OF assms(1)] by (intro mult_mono) simp_all
  finally have "\<bar>fl ?x * scale\<bar> \<le> 2 ^ 64" by simp
  from to_finite_below(1) [OF this fl_two_powers(2) small(2)] f(1) show ?thesis
    by (simp add: scale_ms_def)
qed

text \<open>Past \<open>2 ^ 1025\<close> there is no float, and the code raises.\<close>

lemma scale_ms_overflows:
  assumes "2 ^ 1025 \<le> ms"
  shows "scale_ms ms scale = None"
proof -
  let ?x = "of_int ms :: rat"
  have "of_int (2 ^ 1025) \<le> ?x" using assms by (simp only: of_int_le_iff)
  then have x: "2 ^ 1025 \<le> ?x" by simp
  have "0 < (2::rat) ^ 1025" by simp
  then have pos: "0 < ?x" using x by (rule less_le_trans)
  have "?x < 2 * (2 ^ 52 * pow2 (float_scale ?x))"
    using float_scale_bounds(2) [of ?x] pos by simp
  also have "\<dots> \<le> 2 * fl ?x" using fl_pos_bounds(1) [OF pos] by simp
  finally have "?x < 2 * fl ?x" .
  with x have "2 ^ 1025 < 2 * fl ?x" by (rule le_less_trans)
  moreover have "(2::rat) ^ 1025 = 2 * 2 ^ 1024" by (metis power_Suc Suc_numeral semiring_norm(5))
  ultimately have "2 ^ 1024 \<le> fl ?x" by simp
  then show ?thesis by (simp add: scale_ms_def to_finite_def abs_if)
qed

definition times_fit :: "candidate \<Rightarrow> bool" where
  "times_fit c \<longleftrightarrow> \<bar>c_start_ms c\<bar> \<le> 2 ^ 63 \<and>
     (case c_end_ms c of None \<Rightarrow> True | Some e \<Rightarrow> \<bar>e\<bar> \<le> 2 ^ 63)"

lemma scaled_candidate_returns:
  assumes "online_time_scale r = Some scale" and "times_fit c"
  shows "\<exists>x. scaled_candidate scale c = Some x"
proof -
  obtain s where s: "scale_ms (c_start_ms c) scale = Some s"
    using scale_ms_returns [OF assms(1)] assms(2) unfolding times_fit_def by blast
  show ?thesis
  proof (cases "c_end_ms c")
    case None
    with s show ?thesis by (simp add: scaled_candidate_def)
  next
    case (Some e)
    then have "\<bar>e\<bar> \<le> 2 ^ 63" using assms(2) by (simp add: times_fit_def)
    with scale_ms_returns [OF assms(1)] obtain v where "scale_ms e scale = Some v" by blast
    with s Some show ?thesis by (simp add: scaled_candidate_def)
  qed
qed

lemma clock_reading_returns:
  "online_time_scale r = Some scale \<Longrightarrow> times_fit c \<Longrightarrow> \<exists>x. clock_reading sane scale ctx c = Some x"
  using scaled_candidate_returns [of r scale c] by (auto simp: clock_reading_def Let_def)

lemma on_file_clock_returns:
  assumes "\<forall>c \<in> set of_type. times_fit c"
  shows "\<exists>x. on_file_clock of_type ctx = Some x"
proof (cases "online_time_scale (frame_rate ctx)")
  case None
  then show ?thesis by (simp add: on_file_clock_def)
next
  case (Some scale)
  let ?sane = "filter (\<lambda>c. sanity_problem c ctx = None) of_type"
  have "map_opt (clock_reading ?sane scale ctx) of_type =
      Some (map (\<lambda>c. the (clock_reading ?sane scale ctx c)) of_type)"
    using clock_reading_returns [OF Some] assms by (intro map_opt_Some) fastforce
  with Some show ?thesis by (simp add: on_file_clock_def)
qed

text \<open>Every reading is a candidate, perhaps at other times, and is sane.\<close>

definition same_answer :: "candidate \<Rightarrow> candidate \<Rightarrow> bool" where
  "same_answer c x \<longleftrightarrow> c_source x = c_source c \<and> c_type x = c_type c \<and> c_stale x = c_stale c"

lemma clock_reading_sane:
  "clock_reading sane scale ctx c = Some (Some x) \<Longrightarrow> same_answer c x \<and> sanity_problem x ctx = None"
  by (auto simp: clock_reading_def Let_def scaled_candidate_def same_answer_def bind_eq_Some_conv
      split: if_splits)

lemma on_file_clock_from:
  assumes "on_file_clock of_type ctx = Some sane" and "x \<in> set sane"
  shows "\<exists>c \<in> set of_type. same_answer c x \<and> sanity_problem x ctx = None"
proof (cases "online_time_scale (frame_rate ctx)")
  case None
  with assms show ?thesis by (auto simp: on_file_clock_def same_answer_def)
next
  case (Some scale)
  let ?sane = "filter (\<lambda>c. sanity_problem c ctx = None) of_type"
  from assms(1) Some obtain rs where rs: "map_opt (clock_reading ?sane scale ctx) of_type = Some rs"
    and sane: "sane = List.map_filter id rs"
    by (auto simp: on_file_clock_def Let_def bind_eq_Some_conv)
  from assms(2) have "Some x \<in> set rs" by (auto simp: sane in_map_filter)
  from map_opt_in [OF rs this] clock_reading_sane show ?thesis by blast
qed

lemma on_clock_of_from:
  assumes "on_clock_of t fresh ctx = Some pool" and "x \<in> set pool"
  shows "\<exists>c \<in> set fresh. c_type c = t \<and> same_answer c x \<and> sanity_problem x ctx = None"
proof -
  from assms(1) obtain sane where sane: "on_file_clock (filter (\<lambda>c. c_type c = t) fresh) ctx = Some sane"
    and "pool = without_another_releases_intro sane ctx"
    by (auto simp: on_clock_of_def bind_eq_Some_conv)
  with assms(2) have "x \<in> set sane" by (auto simp: without_another_releases_intro_def split: if_splits)
  from on_file_clock_from [OF sane this] show ?thesis by auto
qed

lemma on_clock_of_pool: "on_clock_of t fresh ctx = Some pool \<Longrightarrow> sane_pool t ctx pool"
  using on_clock_of_from unfolding sane_pool_def same_answer_def by metis

lemma on_clock_of_returns:
  assumes "\<forall>c \<in> set fresh. times_fit c"
  shows "\<exists>pool. on_clock_of t fresh ctx = Some pool"
proof -
  obtain sane where "on_file_clock (filter (\<lambda>c. c_type c = t) fresh) ctx = Some sane"
    using on_file_clock_returns [of "filter (\<lambda>c. c_type c = t) fresh" ctx] assms by auto
  then show ?thesis by (simp add: on_clock_of_def)
qed

end
