(* ===== verification/Decide_Whole.thy ===== *)
theory Decide_Whole
  imports Decide_Total
begin

text \<open>
  \<open>decide\<close> of \<open>markers/decide.py\<close> as a whole: the shortening to a server's own marker, the
  overlap checks between types, locks and disabled types, and \<open>keep_published\<close>.
\<close>

section \<open>The shortening\<close>

lemma set_update_subset: "set (AList.update k v m) \<subseteq> insert (k, v) (set m)"
  by (induction m) auto

lemma first_starts_from_offers:
  "v \<in> snd ` set (first_starts offers) \<Longrightarrow> v \<in> c_start_ms ` set offers"
proof (induction offers arbitrary: v rule: rev_induct)
  case Nil
  then show ?case by (simp add: first_starts_def)
next
  case (snoc c offers)
  let ?m = "first_starts offers"
  let ?new = "case map_of ?m (c_origin c) of None \<Rightarrow> c_start_ms c | Some w \<Rightarrow> min (c_start_ms c) w"
  have step: "first_starts (offers @ [c]) = AList.update (c_origin c) ?new ?m"
    by (simp add: first_starts_def)
  have new: "?new \<in> c_start_ms ` set (offers @ [c])"
  proof (cases "map_of ?m (c_origin c)")
    case None
    then show ?thesis by simp
  next
    case (Some w)
    then have "w \<in> snd ` set ?m" by (metis map_of_SomeD snd_conv imageI)
    then have "w \<in> c_start_ms ` set offers" by (rule snoc.IH)
    with Some show ?thesis by (simp add: min_def)
  qed
  from snoc.prems set_update_subset [of "c_origin c" ?new ?m]
  have "v = ?new \<or> v \<in> snd ` set ?m" unfolding step by auto
  then show ?case
  proof
    assume "v = ?new"
    with new show ?thesis by simp
  next
    assume "v \<in> snd ` set ?m"
    then show ?thesis using snoc.IH by auto
  qed
qed

text \<open>
  What shortening may do to a marker: a later start, where one of the servers' own markers
  starts, the same end, one more source.
\<close>

definition shortening_of ::
  "candidate list \<Rightarrow> decision_context \<Rightarrow> marker \<Rightarrow> marker \<Rightarrow> bool" where
  "shortening_of sane ctx m m' \<longleftrightarrow>
     (\<exists>c \<in> set sane. c_source c = SERVER_MARKERS \<and> m_start_ms m' = c_start_ms c) \<and>
     m_type m' = m_type m \<and> \<not> is_start_segment (m_type m) \<and> m_start_ms m < m_start_ms m' \<and>
     m_end_ms m' = m_end_ms m \<and> \<not> m_locked m' \<and> sane_marker m' ctx \<and> well_credited ctx m' \<and>
     set (m_decided_by m') = insert (source_value SERVER_MARKERS) (set (m_decided_by m))"

lemma shorten_marker_cases:
  assumes "well_credited ctx m" and "m_type m = d_type dec"
  shows "\<exists>dec'. shorten_marker dec m sane ctx = Some dec' \<and>
    (dec' = dec \<or>
     (\<exists>m' r. dec' = dec\<lparr>d_marker := Some m', d_reason := r\<rparr> \<and> shortening_of sane ctx m m'))"
proof (cases "is_start_segment (d_type dec)")
  case True
  then show ?thesis by (simp add: shorten_marker_def Let_def)
next
  case False
  let ?t = "d_type dec" and ?tol = "tolerance_ms (d_type dec)"
  let ?own = "filter (\<lambda>c. c_source c = SERVER_MARKERS) sane"
  let ?offers = "filter (\<lambda>c. m_start_ms m + ?tol < c_start_ms c \<and> c_start_ms c < m_end_ms m - ?tol) ?own"
  let ?fs = "first_starts ?offers"
  let ?covered = "\<exists>c \<in> set ?own.
    (c_start_ms c \<le> m_start_ms m \<and> m_start_ms m \<le> resolve_end_ms c (duration_ms ctx)) \<or>
    \<bar>c_start_ms c - m_start_ms m\<bar> \<le> ?tol"
  obtain ss where ss: "ss \<noteq> []" "map_opt source_of_value (m_decided_by m) = Some ss"
    "set (m_decided_by m) = source_value ` set ss"
    using well_credited_sources [OF assms(1)] by blast
  show ?thesis
  proof (cases "?covered \<or> ?fs = []")
    case True
    then have "shorten_marker dec m sane ctx = Some dec"
      by (cases ?covered) (simp_all only: shorten_marker_def Let_def False if_True if_False simp_thms)
    then show ?thesis by blast
  next
    case go: False
    then have fs: "map snd ?fs \<noteq> []" and nc: "\<not> ?covered" by simp_all
    let ?start = "Max (snd ` set ?fs)"
    have start: "py_max_int (map snd ?fs) = Some ?start" using fs by (simp add: py_max_int_eq)
    have "?start \<in> snd ` set ?fs" using fs by (intro Max_in) auto
    then have "?start \<in> c_start_ms ` set ?offers" by (rule first_starts_from_offers)
    then have later: "m_start_ms m + ?tol < ?start" by auto
    have "0 \<le> ?tol" by (cases "d_type dec") (simp_all add: tolerance_ms_def ms_constants)
    with later have later': "m_start_ms m < ?start" by linarith
    let ?m' = "composed_marker ?t ?start (m_end_ms m) (set ss \<union> {SERVER_MARKERS}) ctx"
    have "set ss \<union> {SERVER_MARKERS} \<noteq> {}" by simp
    note checked = composed_marker_checked [OF this, of ?t ?start "m_end_ms m" ctx]
    have offered: "\<exists>c \<in> set sane. c_source c = SERVER_MARKERS \<and> ?start = c_start_ms c"
      using \<open>?start \<in> c_start_ms ` set ?offers\<close> by auto
    have short: "shortening_of sane ctx m ?m'" if "sane_marker ?m' ctx"
      using that False later' assms(2) ss(3) offered by (simp add: shortening_of_def)
    obtain r where "shorten_marker dec m sane ctx =
      Some (if \<not> sane_marker ?m' ctx then dec else dec\<lparr>d_marker := Some ?m', d_reason := r\<rparr>)"
      using go by (simp only: shorten_marker_def Let_def False nc fs start ss(2) checked if_False bind.bind_lunit) simp
    with short show ?thesis by auto
  qed
qed

lemma shortening_sound:
  assumes "sound_marker t cs ctx m" and "shortening_of cs ctx m m'"
  shows "sound_marker t cs ctx m'"
proof -
  from assms have t: "m_type m = t" and times: "sane_times ctx t (m_start_ms m) (m_end_ms m)"
    and dec: "decisive cs ctx m" and answers: "credits_answers cs m"
    by (simp_all add: sound_marker_def)
  from assms(2) have "SERVER_MARKERS \<in> c_source ` set cs" by (force simp: shortening_of_def)
  then have "source_value SERVER_MARKERS \<in> source_value ` c_source ` set cs" by (rule imageI)
  moreover from assms(2) have "set (m_decided_by m') =
      insert (source_value SERVER_MARKERS) (set (m_decided_by m))"
    unfolding shortening_of_def by blast
  ultimately have named: "credits_answers cs m'"
    using answers unfolding credits_answers_def by simp
  from times have "m_end_ms m' \<le> duration_ms ctx"
    using assms(2) by (simp add: sane_times_def shortening_of_def Let_def)
  then have "sane_times ctx t (m_start_ms m') (m_end_ms m')"
    using sane_markerD [of m' ctx] assms(2) t by (simp add: shortening_of_def)
  moreover have "decisive cs ctx m'"
    using dec assms(2) by (intro decisive_mono [OF dec]) (auto simp: shortening_of_def)
  ultimately show ?thesis
    using assms(2) t named by (simp add: sound_marker_def shortening_of_def)
qed

section \<open>Every type, in three steps\<close>

text \<open>What holds of one type's decision after every step of \<open>decide\<close>.\<close>

definition file_decision ::
  "candidate list \<Rightarrow> decision_context \<Rightarrow> (marker_type \<rightharpoonup> marker) \<Rightarrow> marker_type \<Rightarrow>
     type_decision \<Rightarrow> bool" where
  "file_decision fresh ctx locked t dec \<longleftrightarrow>
     (case valid_lock locked t of
        Some m \<Rightarrow> dec = decided t (m\<lparr>m_locked := True\<rparr>) ''locked by user''
      | None \<Rightarrow>
          if t \<in> enabled_types ctx
          then \<exists>pool. on_clock_of t fresh ctx = Some pool \<and> sound_decision t pool ctx dec
          else dec = \<lparr>d_type = t, d_status = DISABLED, d_marker = None, d_proposed = None,
                      d_reason = ''detection off''\<rparr>)"

lemma decide_one_file_decision:
  assumes "decide_one fresh ctx locked t = Some dec"
  shows "file_decision fresh ctx locked t dec"
proof (cases "valid_lock locked t = None \<and> t \<in> enabled_types ctx")
  case True
  with assms obtain pool where pool: "on_clock_of t fresh ctx = Some pool"
    and dec: "decide_type t (filter (\<lambda>c. c_type c = t) fresh) pool ctx = Some dec"
    by (auto simp: decide_one_def bind_eq_Some_conv)
  from decide_type_sound [OF on_clock_of_pool [OF pool], of "filter (\<lambda>c. c_type c = t) fresh"] dec
  have "sound_decision t pool ctx dec" by auto
  with True pool show ?thesis by (simp add: file_decision_def)
next
  case False
  with assms show ?thesis
    by (auto simp: decide_one_def file_decision_def split: option.splits if_splits)
qed

lemma decide_one_returns:
  assumes "\<forall>c \<in> set fresh. times_fit c"
  shows "\<exists>dec. decide_one fresh ctx locked t = Some dec"
proof -
  obtain pool where pool: "on_clock_of t fresh ctx = Some pool"
    using on_clock_of_returns [OF assms] by blast
  from decide_type_sound [OF on_clock_of_pool [OF pool], of "filter (\<lambda>c. c_type c = t) fresh"] pool
  show ?thesis by (auto simp: decide_one_def split: option.split)
qed

lemma file_decision_unlocked:
  assumes "file_decision fresh ctx locked t dec" and "decided_marker_of dec = Some m"
    and "\<not> m_locked m"
  obtains pool where "valid_lock locked t = None" "t \<in> enabled_types ctx"
    "on_clock_of t fresh ctx = Some pool" "sound_decision t pool ctx dec"
  using assms
  by (auto simp: file_decision_def decided_marker_of_def decided_def split: option.splits if_splits)

lemma file_decision_type: "file_decision fresh ctx locked t dec \<Longrightarrow> d_type dec = t"
  by (auto simp: file_decision_def sound_decision_def decided_def split: option.splits if_splits)

text \<open>Decided means there is a marker, so no later step reads one that is missing.\<close>

lemma file_decision_marker:
  assumes "file_decision fresh ctx locked t dec"
  shows "d_status dec = DECIDED \<longleftrightarrow> (\<exists>m. decided_marker_of dec = Some m)"
  using assms
  by (auto simp: file_decision_def sound_decision_def decided_def decided_marker_of_def
      split: option.splits if_splits)

lemma decided_marker_ofD: "decided_marker_of dec = Some m \<Longrightarrow> d_status dec = DECIDED \<and> d_marker dec = Some m"
  by (simp add: decided_marker_of_def split: if_splits)

text \<open>The overlap checks take a type back or leave it alone.\<close>

definition demoted_or_same :: "type_decision \<Rightarrow> type_decision \<Rightarrow> bool" where
  "demoted_or_same dec dec' \<longleftrightarrow>
     dec' = dec \<or> (\<exists>m r. decided_marker_of dec = Some m \<and> \<not> m_locked m \<and> dec' = demote dec r)"

lemma decided_marker_demote [simp]: "decided_marker_of (demote dec r) = None"
  by (simp add: decided_marker_of_def demote_def no_evidence_def)

lemma decided_marker_unless_locked [simp]:
  "decided_marker_of (unless_locked m dec r) = (if m_locked m then decided_marker_of dec else None)"
  by (simp add: unless_locked_def)

lemma unless_locked_step:
  "decided_marker_of dec = Some m \<Longrightarrow> demoted_or_same dec (unless_locked m dec r)"
  by (auto simp: demoted_or_same_def unless_locked_def)

lemma demoted_or_same_refl [simp]: "demoted_or_same dec dec"
  by (simp add: demoted_or_same_def)

lemma file_decision_demoted:
  assumes "file_decision fresh ctx locked t dec" and "demoted_or_same dec dec'"
  shows "file_decision fresh ctx locked t dec'"
proof (cases "dec' = dec")
  case False
  with assms(2) obtain m r where m: "decided_marker_of dec = Some m" "\<not> m_locked m"
    and dec': "dec' = demote dec r"
    by (auto simp: demoted_or_same_def)
  obtain pool where "valid_lock locked t = None" "t \<in> enabled_types ctx"
    "on_clock_of t fresh ctx = Some pool"
    by (rule file_decision_unlocked [OF assms(1) m])
  with file_decision_type [OF assms(1)] show ?thesis
    by (simp add: file_decision_def dec' demote_def)
qed (use assms in simp)

text \<open>After the checks, markers that still overlap too much are locked.\<close>

definition overlaps_locked :: "decisions \<Rightarrow> bool" where
  "overlaps_locked out \<longleftrightarrow>
     (\<forall>i r. decided_marker_of (out INTRO) = Some i \<longrightarrow> decided_marker_of (out RECAP) = Some r \<longrightarrow>
        overlap_ms i r > INTRO_RECAP_MAX_OVERLAP_MS \<longrightarrow> m_locked i \<and> m_locked r) \<and>
     (\<forall>p c. decided_marker_of (out PREVIEW) = Some p \<longrightarrow> decided_marker_of (out CREDITS) = Some c \<longrightarrow>
        overlap_ms p c > PREVIEW_CREDITS_MAX_OVERLAP_MS \<longrightarrow> m_locked p)"

text \<open>\<open>both_decided\<close> where decided decisions have their markers.\<close>

lemma both_decided_markers:
  assumes "d_status a = DECIDED \<longleftrightarrow> (\<exists>m. decided_marker_of a = Some m)"
    and "d_status b = DECIDED \<longleftrightarrow> (\<exists>m. decided_marker_of b = Some m)"
  shows "both_decided a b = Some (case (decided_marker_of a, decided_marker_of b) of
      (Some x, Some y) \<Rightarrow> Some (x, y) | _ \<Rightarrow> None)"
  using assms by (auto simp: both_decided_def dest!: decided_marker_ofD split: option.split)

text \<open>The two checks, each as the code applies it to the decisions it is given.\<close>

definition intro_against_recap :: "decisions \<Rightarrow> decisions" where
  "intro_against_recap out =
     (case (decided_marker_of (out INTRO), decided_marker_of (out RECAP)) of
        (Some i, Some r) \<Rightarrow>
          if overlap_ms i r > INTRO_RECAP_MAX_OVERLAP_MS
          then out(INTRO := unless_locked i (out INTRO) ''intro and recap overlap'',
                   RECAP := unless_locked r (out RECAP) ''intro and recap overlap'')
          else out
      | _ \<Rightarrow> out)"

definition preview_against_credits :: "decisions \<Rightarrow> decisions" where
  "preview_against_credits out =
     (case (decided_marker_of (out PREVIEW), decided_marker_of (out CREDITS)) of
        (Some p, Some c) \<Rightarrow>
          if overlap_ms p c > PREVIEW_CREDITS_MAX_OVERLAP_MS
          then out(PREVIEW := unless_locked p (out PREVIEW) ''preview overlaps credits'')
          else out
      | _ \<Rightarrow> out)"

lemma intro_against_recap_step:
  "demoted_or_same (out t) (intro_against_recap out t)"
  by (cases t) (auto simp: intro_against_recap_def unless_locked_step split: option.split)

lemma preview_against_credits_step:
  "demoted_or_same (out t) (preview_against_credits out t)"
  by (cases t) (auto simp: preview_against_credits_def unless_locked_step split: option.split)

lemma intro_against_recap_others [simp]:
  "intro_against_recap out PREVIEW = out PREVIEW" "intro_against_recap out CREDITS = out CREDITS"
  by (simp_all add: intro_against_recap_def split: option.split)

lemma preview_against_credits_others [simp]:
  "preview_against_credits out INTRO = out INTRO" "preview_against_credits out RECAP = out RECAP"
  by (simp_all add: preview_against_credits_def split: option.split)

lemma overlaps_locked_checks: "overlaps_locked (preview_against_credits (intro_against_recap out))"
proof -
  have "m_locked i \<and> m_locked r"
    if "decided_marker_of (intro_against_recap out INTRO) = Some i"
      "decided_marker_of (intro_against_recap out RECAP) = Some r"
      "overlap_ms i r > INTRO_RECAP_MAX_OVERLAP_MS" for i r
    using that by (auto simp: intro_against_recap_def split: option.splits if_splits)
  moreover have "m_locked p"
    if "decided_marker_of (preview_against_credits x PREVIEW) = Some p"
      "decided_marker_of (preview_against_credits x CREDITS) = Some c"
      "overlap_ms p c > PREVIEW_CREDITS_MAX_OVERLAP_MS" for p c x
    using that
    by (cases "decided_marker_of (x PREVIEW)"; cases "decided_marker_of (x CREDITS)")
      (simp_all add: preview_against_credits_def split: if_splits)
  ultimately show ?thesis
    unfolding overlaps_locked_def preview_against_credits_others by blast
qed

lemma overlap_checks:
  assumes fd: "\<forall>t. file_decision fresh ctx locked t (out t)"
  shows "apply_overlap_demotions out = Some (preview_against_credits (intro_against_recap out))"
proof -
  have marker: "d_status (out t) = DECIDED \<longleftrightarrow> (\<exists>m. decided_marker_of (out t) = Some m)" for t
    using fd file_decision_marker by blast
  have first: "both_decided (out INTRO) (out RECAP) =
      Some (case (decided_marker_of (out INTRO), decided_marker_of (out RECAP)) of
        (Some x, Some y) \<Rightarrow> Some (x, y) | _ \<Rightarrow> None)"
    by (rule both_decided_markers [OF marker marker])
  have second: "both_decided (intro_against_recap out PREVIEW) (intro_against_recap out CREDITS) =
      Some (case (decided_marker_of (out PREVIEW), decided_marker_of (out CREDITS)) of
        (Some x, Some y) \<Rightarrow> Some (x, y) | _ \<Rightarrow> None)"
    using both_decided_markers [OF marker marker] by simp
  have one: "(case (case (decided_marker_of (out INTRO), decided_marker_of (out RECAP)) of
        (Some x, Some y) \<Rightarrow> Some (x, y) | _ \<Rightarrow> None) of
      Some (i, r) \<Rightarrow>
        if overlap_ms i r > INTRO_RECAP_MAX_OVERLAP_MS
        then out(INTRO := unless_locked i (out INTRO) ''intro and recap overlap'',
                 RECAP := unless_locked r (out RECAP) ''intro and recap overlap'')
        else out
    | None \<Rightarrow> out) = intro_against_recap out"
    by (simp add: intro_against_recap_def split: option.split)
  show ?thesis
    unfolding apply_overlap_demotions_def first Let_def bind.bind_lunit one second
    by (simp add: preview_against_credits_def split: option.split)
qed

section \<open>Shortening a type\<close>

lemma shorten_one_cases:
  assumes fd: "file_decision fresh ctx locked t dec"
  shows "\<exists>dec'. shorten_one fresh ctx dec = Some dec' \<and>
    (dec' = dec \<or>
     (\<exists>m m' r pool. decided_marker_of dec = Some m \<and> \<not> m_locked m \<and>
        on_clock_of t fresh ctx = Some pool \<and>
        dec' = dec\<lparr>d_marker := Some m', d_reason := r\<rparr> \<and> shortening_of pool ctx m m'))"
proof (cases "decided_marker_of dec")
  case None
  with file_decision_marker [OF fd] show ?thesis by (simp add: shorten_one_def)
next
  case (Some m)
  note dm = decided_marker_ofD [OF Some]
  show ?thesis
  proof (cases "m_locked m")
    case True
    with dm show ?thesis by (simp add: shorten_one_def)
  next
    case False
    obtain pool where pool: "on_clock_of t fresh ctx = Some pool" and "sound_decision t pool ctx dec"
      by (rule file_decision_unlocked [OF fd Some False])
    then have "sound_marker t pool ctx m" using dm by (simp add: sound_decision_def)
    then have "well_credited ctx m" "m_type m = d_type dec"
      using file_decision_type [OF fd] by (simp_all add: sound_marker_def)
    from shorten_marker_cases [OF this, of pool] Some False dm pool file_decision_type [OF fd]
    show ?thesis by (auto simp: shorten_one_def shorten_to_server_markers_def)
  qed
qed

lemma shorten_one_file_decision:
  assumes fd: "file_decision fresh ctx locked t dec" and sh: "shorten_one fresh ctx dec = Some dec'"
  shows "file_decision fresh ctx locked t dec'"
proof (cases "dec' = dec")
  case False
  with shorten_one_cases [OF fd] sh obtain m m' r pool
    where m: "decided_marker_of dec = Some m" "\<not> m_locked m"
      and pool: "on_clock_of t fresh ctx = Some pool"
      and dec': "dec' = dec\<lparr>d_marker := Some m', d_reason := r\<rparr>" and short: "shortening_of pool ctx m m'"
    by auto
  obtain pool' where f: "valid_lock locked t = None" "t \<in> enabled_types ctx"
    "on_clock_of t fresh ctx = Some pool'" "sound_decision t pool' ctx dec"
    by (rule file_decision_unlocked [OF fd m])
  with pool have "sound_decision t pool ctx dec" by simp
  with decided_marker_ofD [OF m(1)] short have "sound_decision t pool ctx dec'"
    by (auto simp: sound_decision_def dec' intro: shortening_sound)
  with f(1,2) pool show ?thesis by (simp add: file_decision_def)
qed (use assms in simp)

end
