(* ===== verification/Decide_Claims.thy ===== *)
theory Decide_Claims
  imports Decide_Whole
begin

text \<open>
  The properties of \<open>decide\<close> and of the checks around it, each with a witness on a concrete
  file where it has hypotheses.
\<close>

section \<open>The whole of decide\<close>

lemma shortening_overlap:
  "m_start_ms m \<le> m_start_ms m' \<Longrightarrow> m_end_ms m' = m_end_ms m \<Longrightarrow>
   m_start_ms n \<le> m_start_ms n' \<Longrightarrow> m_end_ms n' = m_end_ms n \<Longrightarrow> overlap_ms m' n' \<le> overlap_ms m n"
  by (simp add: overlap_ms_def max_def min_def)

definition narrowed :: "type_decision \<Rightarrow> type_decision \<Rightarrow> bool" where
  "narrowed dec dec' \<longleftrightarrow>
     (\<forall>m'. decided_marker_of dec' = Some m' \<longrightarrow>
       (\<exists>m. decided_marker_of dec = Some m \<and> m_start_ms m \<le> m_start_ms m' \<and>
          m_end_ms m' = m_end_ms m \<and> m_locked m' = m_locked m))"

lemma shorten_one_narrowed:
  assumes "file_decision fresh ctx locked t dec" and "shorten_one fresh ctx dec = Some dec'"
  shows "narrowed dec dec'"
  using shorten_one_cases [OF assms(1)] assms(2)
  by (auto simp: narrowed_def shortening_of_def decided_marker_of_def split: if_splits)

lemma overlaps_locked_narrowed:
  assumes over: "overlaps_locked out" and nar: "\<forall>t. narrowed (out t) (out' t)"
  shows "overlaps_locked out'"
  unfolding overlaps_locked_def
proof (intro conjI allI impI)
  fix i r assume ir: "decided_marker_of (out' INTRO) = Some i" "decided_marker_of (out' RECAP) = Some r"
    and big: "INTRO_RECAP_MAX_OVERLAP_MS < overlap_ms i r"
  from nar ir obtain i0 r0 where "decided_marker_of (out INTRO) = Some i0" "m_start_ms i0 \<le> m_start_ms i"
    "m_end_ms i = m_end_ms i0" "m_locked i = m_locked i0" "decided_marker_of (out RECAP) = Some r0"
    "m_start_ms r0 \<le> m_start_ms r" "m_end_ms r = m_end_ms r0" "m_locked r = m_locked r0"
    unfolding narrowed_def by metis
  with over big shortening_overlap [of i0 i r0 r] show "m_locked i" "m_locked r"
    unfolding overlaps_locked_def by (meson less_le_trans)+
next
  fix p c assume pc: "decided_marker_of (out' PREVIEW) = Some p" "decided_marker_of (out' CREDITS) = Some c"
    and big: "PREVIEW_CREDITS_MAX_OVERLAP_MS < overlap_ms p c"
  from nar pc obtain p0 c0 where "decided_marker_of (out PREVIEW) = Some p0" "m_start_ms p0 \<le> m_start_ms p"
    "m_end_ms p = m_end_ms p0" "m_locked p = m_locked p0" "decided_marker_of (out CREDITS) = Some c0"
    "m_start_ms c0 \<le> m_start_ms c" "m_end_ms c = m_end_ms c0"
    unfolding narrowed_def by metis
  with over big shortening_overlap [of p0 p c0 c] show "m_locked p"
    unfolding overlaps_locked_def by (meson less_le_trans)
qed

lemma for_types_ex:
  assumes "\<And>t. \<exists>x. f t = Some x \<and> P t x"
  shows "\<exists>g. for_types f = Some g \<and> (\<forall>t. P t (g t))"
proof -
  from assms have "\<forall>t. \<exists>x. f t = Some x \<and> P t x" by blast
  then obtain g where "\<forall>t. f t = Some (g t) \<and> P t (g t)" by metis
  then show ?thesis using for_types_Some by metis
qed

abbreviation fresh_of :: "candidate list \<Rightarrow> candidate list" where
  "fresh_of cs \<equiv> filter (\<lambda>c. \<not> c_stale c) cs"

text \<open>
  The fact every property of \<open>decide\<close> rests on: once every type on its own is decided, the
  overlap checks and the shortening return, and keep what each type's decision promises.
\<close>

lemma decide_outcome:
  assumes out0: "for_types (decide_one (fresh_of cs) ctx locked) = Some out0"
  obtains out where "decide cs ctx locked = Some out"
    and "\<forall>t. file_decision (fresh_of cs) ctx locked t (out t)"
    and "overlaps_locked out"
proof -
  let ?fresh = "fresh_of cs"
  have fd0: "\<forall>t. file_decision ?fresh ctx locked t (out0 t)"
    using out0 decide_one_file_decision by (simp add: for_types_Some)
  let ?checked = "preview_against_credits (intro_against_recap out0)"
  have fd1: "file_decision ?fresh ctx locked t (?checked t)" for t
    using fd0 file_decision_demoted intro_against_recap_step preview_against_credits_step by metis
  have "\<exists>dec. shorten_one ?fresh ctx (?checked t) = Some dec \<and>
      (file_decision ?fresh ctx locked t dec \<and> narrowed (?checked t) dec)" for t
    using shorten_one_cases [OF fd1, of t] shorten_one_file_decision [OF fd1] shorten_one_narrowed [OF fd1]
    by blast
  then have "\<exists>out. for_types (\<lambda>t. shorten_one ?fresh ctx (?checked t)) = Some out \<and>
      (\<forall>t. file_decision ?fresh ctx locked t (out t) \<and> narrowed (?checked t) (out t))"
    by (rule for_types_ex)
  then obtain out where
    out: "for_types (\<lambda>t. shorten_one ?fresh ctx (?checked t)) = Some out"
    and fd: "\<forall>t. file_decision ?fresh ctx locked t (out t)"
    and nar: "\<forall>t. narrowed (?checked t) (out t)"
    by blast
  from overlaps_locked_narrowed [OF overlaps_locked_checks nar] have "overlaps_locked out" .
  moreover have "decide cs ctx locked = Some out"
    using out0 out overlap_checks [OF fd0] by (simp add: decide_def Let_def)
  ultimately show thesis using fd that by blast
qed

lemma decide_each:
  assumes "decide cs ctx locked = Some out"
  shows "file_decision (fresh_of cs) ctx locked t (out t)" "overlaps_locked out"
proof -
  from assms obtain out0 where out0: "for_types (decide_one (fresh_of cs) ctx locked) = Some out0"
    by (auto simp: decide_def Let_def bind_eq_Some_conv)
  obtain out' where "decide cs ctx locked = Some out'"
    "\<forall>t. file_decision (fresh_of cs) ctx locked t (out' t)" "overlaps_locked out'"
    using out0 by (rule decide_outcome)
  with assms show "file_decision (fresh_of cs) ctx locked t (out t)" "overlaps_locked out" by simp_all
qed

lemma fresh_decided:
  assumes "\<forall>c \<in> set (fresh_of cs). times_fit c"
  obtains out where "decide cs ctx locked = Some out"
    and "\<forall>t. file_decision (fresh_of cs) ctx locked t (out t)"
proof -
  obtain out0 where "for_types (decide_one (fresh_of cs) ctx locked) = Some out0"
    using for_types_ex [where f = "decide_one (fresh_of cs) ctx locked" and P = "\<lambda>t x. True"]
      decide_one_returns [OF assms] by blast
  then show thesis by (rule decide_outcome) (rule that)
qed

section \<open>Properties\<close>

text \<open>
  C1: \<open>decide\<close> raises for no candidates whose times fit 64 bits, in any context and under any
  locks: no \<open>min\<close>, \<open>max\<close> or \<open>next\<close> is taken of nothing, no name is looked up that is no
  source, no marker's first source is read where there is none, no decided marker is missing
  where the agreement check, the contradiction guard, the overlap checks and the shortening read
  it, and scaling a time to the file's clock does not overflow.  It answers for every segment
  type.  (Some bound is needed: \<open>scale_ms_overflows\<close>.)
\<close>

theorem decide_returns:
  assumes "\<forall>c \<in> set cs. \<not> c_stale c \<longrightarrow> times_fit c"
  shows "\<exists>out. decide cs ctx locked = Some out \<and> (\<forall>t. d_type (out t) = t)"
proof -
  have "\<forall>c \<in> set (fresh_of cs). times_fit c" using assms by simp
  then obtain out where "decide cs ctx locked = Some out"
    and fd: "\<forall>t. file_decision (fresh_of cs) ctx locked t (out t)"
    by (rule fresh_decided)
  moreover have "d_type (out t) = t" for t
    by (rule file_decision_type [OF fd [rule_format]])
  ultimately show ?thesis by blast
qed

lemma unlocked_decided_sound:
  assumes "decide cs ctx locked = Some out" and "d_status (out t) = DECIDED"
    and "valid_lock locked t = None"
  obtains m pool where "d_marker (out t) = Some m" "t \<in> enabled_types ctx"
    "on_clock_of t (fresh_of cs) ctx = Some pool" "sound_marker t pool ctx m"
  using decide_each(1) [OF assms(1), of t] assms(2,3)
  by (auto simp: file_decision_def sound_decision_def split: option.splits if_splits)

lemma lock_decided:
  assumes "decide cs ctx locked = Some out" and "valid_lock locked t = Some m"
  shows "d_marker (out t) = Some (m\<lparr>m_locked := True\<rparr>)" "m_type m = t"
  using decide_each(1) [OF assms(1), of t] assms(2)
  by (auto simp: file_decision_def valid_lock_def split: option.splits if_splits)

text \<open>
  C2: every marker \<open>decide\<close> decides is of its own type, and is either the user's lock, with the
  user's times and marked as locked, or an unlocked marker of an enabled type whose times satisfy
  the sanity bounds of this file: it starts inside the file and ends by its end, lasts at least
  3 s, an intro or recap starts in the first 35%, lasts at most 300 s and stops before the end of
  the file, and credits or a preview start late enough.  So composing edges of several sources,
  moving a start to credit text and shortening to a server's marker never publish times the
  checks would refuse.
\<close>

theorem decide_times_sane:
  assumes "decide cs ctx locked = Some out" and "d_status (out t) = DECIDED"
  shows "\<exists>m. d_marker (out t) = Some m \<and> m_type m = t \<and>
    (case valid_lock locked t of
       Some l \<Rightarrow> m = l\<lparr>m_locked := True\<rparr>
     | None \<Rightarrow> \<not> m_locked m \<and> t \<in> enabled_types ctx \<and>
         sane_times ctx t (m_start_ms m) (m_end_ms m))"
proof (cases "valid_lock locked t")
  case None
  obtain m pool where "d_marker (out t) = Some m" "t \<in> enabled_types ctx" "sound_marker t pool ctx m"
    using assms None by (rule unlocked_decided_sound)
  with None show ?thesis by (simp add: sound_marker_def)
next
  case (Some l)
  from lock_decided [OF assms(1) Some] Some show ?thesis by simp
qed

text \<open>
  C3: the evidence behind a decided marker.  Under a lock it is credited as the user's marker
  was.  Otherwise it names only sources that answered: every name is the source of a candidate
  of this type that is not stale and whose reading on the file's clock passed the checks.  And
  one of them carries the decision: a candidate that is no server's own marker and that either may
  decide alone (season audio only for an intro, an online answer, a server's marker and the
  previous season's audio never) or agrees within the tolerance with a credited candidate of
  another independence group.
\<close>

theorem decide_evidence:
  assumes "decide cs ctx locked = Some out" and "d_status (out t) = DECIDED"
  shows "case valid_lock locked t of
      Some l \<Rightarrow> map_option m_decided_by (d_marker (out t)) = Some (m_decided_by l)
    | None \<Rightarrow> \<exists>m pool. d_marker (out t) = Some m \<and>
        on_clock_of t (fresh_of cs) ctx = Some pool \<and> m_decided_by m \<noteq> [] \<and>
        (\<forall>name \<in> set (m_decided_by m). \<exists>x \<in> set pool. source_value (c_source x) = name \<and>
           sanity_problem x ctx = None \<and>
           (\<exists>c \<in> set cs. \<not> c_stale c \<and> c_type c = t \<and> c_source c = c_source x)) \<and>
        (\<exists>a \<in> set pool. source_value (c_source a) \<in> set (m_decided_by m) \<and>
           c_source a \<notin> SERVER_SOURCES \<and>
           (may_decide_alone a \<or>
            (\<exists>b \<in> set pool. source_value (c_source b) \<in> set (m_decided_by m) \<and>
               group_of b \<noteq> group_of a \<and> agree a b (duration_ms ctx))))"
proof (cases "valid_lock locked t")
  case (Some l)
  from lock_decided(1) [OF assms(1) Some] Some show ?thesis by simp
next
  case None
  obtain m pool where m: "d_marker (out t) = Some m" and pool: "on_clock_of t (fresh_of cs) ctx = Some pool"
    and sound: "sound_marker t pool ctx m"
    using assms None by (rule unlocked_decided_sound)
  have "m_decided_by m \<noteq> []" using sound by (auto simp: sound_marker_def well_credited_def)
  moreover have "\<exists>x \<in> set pool. source_value (c_source x) = name \<and> sanity_problem x ctx = None \<and>
      (\<exists>c \<in> set cs. \<not> c_stale c \<and> c_type c = t \<and> c_source c = c_source x)"
    if "name \<in> set (m_decided_by m)" for name
  proof -
    from sound that obtain x where x: "x \<in> set pool" "source_value (c_source x) = name"
      by (auto simp: sound_marker_def credits_answers_def)
    obtain c where "c \<in> set (fresh_of cs)" "c_type c = t" "same_answer c x" "sanity_problem x ctx = None"
      using on_clock_of_from [OF pool x(1)] by blast
    with x show ?thesis by (intro bexI [of _ x]) (auto simp: same_answer_def)
  qed
  moreover have "\<exists>a \<in> set pool. source_value (c_source a) \<in> set (m_decided_by m) \<and>
      c_source a \<notin> SERVER_SOURCES \<and>
      (may_decide_alone a \<or>
       (\<exists>b \<in> set pool. source_value (c_source b) \<in> set (m_decided_by m) \<and>
          group_of b \<noteq> group_of a \<and> agree a b (duration_ms ctx)))"
    using sound unfolding sound_marker_def decisive_def credited_def by blast
  ultimately show ?thesis using None m pool by simp
qed

text \<open>
  C5: a valid lock wins over every candidate and every later check, and comes back marked as
  locked; a type that is off and has no valid lock is reported as disabled, with no marker and
  no proposal.
\<close>

theorem decide_locks_and_switches:
  assumes "decide cs ctx locked = Some out"
  shows "case valid_lock locked t of
      Some m \<Rightarrow> d_status (out t) = DECIDED \<and> d_marker (out t) = Some (m\<lparr>m_locked := True\<rparr>) \<and>
                d_reason (out t) = ''locked by user''
    | None \<Rightarrow> t \<in> enabled_types ctx \<or>
        (d_status (out t) = DISABLED \<and> d_marker (out t) = None \<and> d_proposed (out t) = None)"
  using decide_each(1) [OF assms, of t]
  by (auto simp: file_decision_def split: option.splits if_splits)

text \<open>
  C4: in what \<open>decide\<close> returns, an intro and a recap overlap by at most 5 s unless the user
  locked both, and a preview overlaps the credits by at most 10 s unless the user locked the
  preview.  The shortening that runs after the checks cannot break this.
\<close>

theorem decide_overlaps:
  assumes "decide cs ctx locked = Some out"
  shows "(\<forall>i r. decided_marker_of (out INTRO) = Some i \<and> decided_marker_of (out RECAP) = Some r \<and>
            overlap_ms i r > INTRO_RECAP_MAX_OVERLAP_MS \<longrightarrow> m_locked i \<and> m_locked r) \<and>
         (\<forall>p c. decided_marker_of (out PREVIEW) = Some p \<and> decided_marker_of (out CREDITS) = Some c \<and>
            overlap_ms p c > PREVIEW_CREDITS_MAX_OVERLAP_MS \<longrightarrow> m_locked p)"
  using decide_each(2) [OF assms] unfolding overlaps_locked_def by blast

section \<open>Witnesses\<close>

text \<open>
  An episode of half an hour: an online and an audio intro that agree, a stale chapter, and
  credit text with an online answer, whose start a Plex server's own marker moves later.
\<close>

definition sample_candidates :: "candidate list" where
  "sample_candidates =
     [new_candidate INTRO 60000 (Some 90000) INTRODB,
      new_candidate INTRO 61000 (Some 92000) SEASON_AUDIO,
      (new_candidate INTRO 61000 (Some 92000) CHAPTERS)\<lparr>c_stale := True\<rparr>,
      new_candidate CREDITS 1500000 None CREDITS_TEXT,
      new_candidate CREDITS 1503000 None SKIPDB,
      (new_candidate CREDITS 1560000 None SERVER_MARKERS)\<lparr>c_origin := ''plex''\<rparr>]"

definition sample_context :: decision_context where
  "sample_context = new_context 1800000 False ''high'' {INTRO, CREDITS, RECAP} [''introdb'']"

definition sample_locks :: "marker_type \<rightharpoonup> marker" where
  "sample_locks = [INTRO \<mapsto> \<lparr>m_type = INTRO, m_start_ms = 0, m_end_ms = 40000,
                              m_decided_by = [''user''], m_locked = False\<rparr>,
                   RECAP \<mapsto> \<lparr>m_type = RECAP, m_start_ms = 10000, m_end_ms = 30000,
                              m_decided_by = [''user''], m_locked = False\<rparr>]"

definition sample_out :: "(marker_type \<rightharpoonup> marker) \<Rightarrow> decisions" where
  "sample_out locked = the (decide sample_candidates sample_context locked)"

lemma sample_times_fit: "\<forall>c \<in> set sample_candidates. \<not> c_stale c \<longrightarrow> times_fit c"
  by (simp add: sample_candidates_def times_fit_def new_candidate_def)

lemma sample_decided: "decide sample_candidates sample_context locked = Some (sample_out locked)"
proof -
  have "\<forall>c \<in> set (fresh_of sample_candidates). times_fit c" using sample_times_fit by simp
  then obtain out where "decide sample_candidates sample_context locked = Some out"
    by (rule fresh_decided)
  then show ?thesis by (simp add: sample_out_def)
qed

theorem decide_returns_witness:
  "\<exists>out. decide sample_candidates sample_context sample_locks = Some out \<and> d_type (out INTRO) = INTRO"
  using decide_returns [OF sample_times_fit, of sample_context sample_locks] by blast

lemma sample_status:
  "d_status (sample_out Map.empty INTRO) = DECIDED" "d_status (sample_out Map.empty CREDITS) = DECIDED"
  by code_simp+

lemma sample_locked:
  "decided_marker_of (sample_out sample_locks INTRO) =
     Some \<lparr>m_type = INTRO, m_start_ms = 0, m_end_ms = 40000, m_decided_by = [''user''], m_locked = True\<rparr>"
  "decided_marker_of (sample_out sample_locks RECAP) =
     Some \<lparr>m_type = RECAP, m_start_ms = 10000, m_end_ms = 30000, m_decided_by = [''user''], m_locked = True\<rparr>"
  by code_simp+

lemma no_lock: "valid_lock Map.empty t = None"
  by (simp add: valid_lock_def)

theorem decide_times_sane_witness:
  "\<exists>m. d_marker (sample_out Map.empty CREDITS) = Some m \<and> m_type m = CREDITS \<and> \<not> m_locked m \<and>
     CREDITS \<in> enabled_types sample_context \<and>
     sane_times sample_context CREDITS (m_start_ms m) (m_end_ms m)"
  using decide_times_sane [OF sample_decided sample_status(2)] by (simp add: no_lock)

theorem decide_evidence_witness:
  "\<exists>m (a::candidate). d_marker (sample_out Map.empty INTRO) = Some m \<and>
     source_value (c_source a) \<in> set (m_decided_by m) \<and> c_source a \<notin> SERVER_SOURCES"
  using decide_evidence [OF sample_decided sample_status(1)] unfolding no_lock option.case
  by blast

theorem decide_locks_and_switches_witness:
  "d_marker (sample_out sample_locks INTRO) = Some (the (sample_locks INTRO)\<lparr>m_locked := True\<rparr>)"
  using decide_locks_and_switches [OF sample_decided [of sample_locks], of INTRO]
  by (simp add: valid_lock_def sample_locks_def)

theorem decide_overlaps_witness:
  "\<exists>i r. decided_marker_of (sample_out sample_locks INTRO) = Some i \<and>
     decided_marker_of (sample_out sample_locks RECAP) = Some r \<and>
     overlap_ms i r > INTRO_RECAP_MAX_OVERLAP_MS \<and> m_locked i \<and> m_locked r"
  using decide_overlaps [OF sample_decided [of sample_locks]]
  by (simp add: sample_locked overlap_ms_def ms_constants)

end
