(* ===== verification/Rules_Claims.thy ===== *)
theory Rules_Claims
  imports Decide_Claims
begin

text \<open>
  Properties of the single rules of \<open>markers/decide.py\<close>: the sanity bounds as exact
  fractions, the sweep that finds agreeing clusters, a server's unusable marker, the
  shortening to a server's marker, the published marker kept through a rule change, and the
  two notes the module writes into texts and reads back.
\<close>

section \<open>Sanity\<close>

text \<open>
  The chain of checks with its integer ceilings accepts exactly the candidates whose times
  satisfy the bounds as exact fractions of the duration (35%, 75%, one half), once an end past
  the file is clamped; whose end is at most the allowance past the file; and that are no
  online logo at the start of the file.
\<close>

theorem sanity_problem_exact:
  "sanity_problem c ctx = None \<longleftrightarrow>
     (sane_times ctx (c_type c) (c_start_ms c) (resolve_end_ms c (duration_ms ctx)) \<and>
      (case c_end_ms c of None \<Rightarrow> True | Some e \<Rightarrow> e \<le> duration_ms ctx + end_allowance_ms c)) \<and>
     \<not> is_online_logo c (duration_ms ctx)"
  by (simp only: sanity_problem_None_iff times_problem_None_iff)

text \<open>
  A server marker the pipeline drops as unusable from the duration alone could never have
  decided anything: whatever the rest of the context, the sanity checks refuse it.
\<close>

theorem unusable_server_marker_refused:
  assumes "unusable_server_marker c (duration_ms ctx) = Some reason"
    and "c_source c = SERVER_MARKERS"
  shows "sanity_problem c ctx \<noteq> None"
proof
  assume sane: "sanity_problem c ctx = None"
  have "end_allowance_ms c = EOF_CLAMP_MS"
    using assms(2) by (simp add: end_allowance_ms_def timed_on_any_release_def)
  then have "unusable_server_marker c (duration_ms ctx) = None"
    using sane
    by (cases "c_end_ms c")
      (auto simp: sanity_problem_None_iff times_problem_None_iff sane_times_def
        unusable_server_marker_def resolve_end_ms_def ms_constants Let_def)
  with assms(1) show False by simp
qed

theorem unusable_server_marker_refused_witness:
  "sanity_problem (new_candidate CREDITS 900000 (Some 901000) SERVER_MARKERS)
     (new_context 1000000 False ''high'' {CREDITS} []) \<noteq> None"
  by (rule unusable_server_marker_refused [where reason = "''segment too short''"])
    (simp_all add: unusable_server_marker_def new_candidate_def new_context_def resolve_end_ms_def
      ms_constants)

section \<open>Agreeing clusters\<close>

definition agreeing_set :: "candidate list \<Rightarrow> decision_context \<Rightarrow> candidate set \<Rightarrow> bool" where
  "agreeing_set cs ctx S \<longleftrightarrow>
     S \<subseteq> set cs \<and> (\<forall>a \<in> S. \<forall>b \<in> S. agree a b (duration_ms ctx)) \<and>
     card (group_of ` S) \<ge> 2 \<and> (\<exists>c \<in> S. c_source c \<notin> AUDIO_OR_SERVER)"

text \<open>A maximal one: no agreeing set contains it but itself.\<close>

definition maximal_agreeing :: "candidate list \<Rightarrow> decision_context \<Rightarrow> candidate set \<Rightarrow> bool" where
  "maximal_agreeing cs ctx S \<longleftrightarrow>
     agreeing_set cs ctx S \<and> (\<forall>S'. agreeing_set cs ctx S' \<longrightarrow> S \<subseteq> S' \<longrightarrow> S' = S)"

text \<open>
  C23: the sliding window of \<open>_agreeing_cliques\<close> computes exactly the maximal agreeing clusters
  of one type's candidates: the sets of its windows are the maximal sets of candidates that are
  mutually within the tolerance, span two independence groups and hold more than audio and
  server markers; it returns each of them once, and no window lies inside another.
\<close>

theorem agreeing_cliques_exact:
  assumes "\<forall>c \<in> set cs. c_type c = t"
  shows "set ` set (agreeing_cliques cs t ctx) = {S. maximal_agreeing cs ctx S} \<and>
    distinct (map set (agreeing_cliques cs t ctx)) \<and>
    sorted_wrt (\<lambda>W W'. \<not> set W \<subseteq> set W' \<and> \<not> set W' \<subseteq> set W) (agreeing_cliques cs t ctx)"
proof -
  let ?cls = "agreeing_cliques cs t ctx"
  have agreeing: "agreeing_set cs ctx (set W)" if "W \<in> set ?cls" for W
    using agreeing_cliques_agree [OF that assms] unfolding agreeing_set_def spans_groups_def by blast
  have covered: "\<exists>W \<in> set ?cls. S \<subseteq> set W" if "agreeing_set cs ctx S" for S
    using that unfolding agreeing_set_def using agreeing_cliques_cover [OF _ _ _ _ assms] by blast
  have same: "W = W'" if "W \<in> set ?cls" "W' \<in> set ?cls" "set W \<subseteq> set W'" for W W'
    using that sorted_wrt_pairs [OF agreeing_cliques_incomparable that(1,2)] by blast
  have "maximal_agreeing cs ctx (set W)" if "W \<in> set ?cls" for W
    unfolding maximal_agreeing_def using agreeing [OF that] covered same [OF that]
    by (metis order_antisym order_trans)
  moreover have "S \<in> set ` set ?cls" if "maximal_agreeing cs ctx S" for S
    using that covered agreeing unfolding maximal_agreeing_def by (metis imageI)
  moreover have "distinct (map set ?cls)"
    by (rule sorted_wrt_distinct_map [OF agreeing_cliques_incomparable]) blast
  ultimately show ?thesis using agreeing_cliques_incomparable by blast
qed

definition sample_intros :: "candidate list" where
  "sample_intros = filter (\<lambda>c. c_type c = INTRO) sample_candidates"

theorem agreeing_cliques_exact_witness:
  "\<exists>W \<in> set (agreeing_cliques sample_intros INTRO sample_context). set W = set sample_intros"
proof -
  have "\<forall>c \<in> set sample_intros. c_type c = INTRO" by (simp add: sample_intros_def)
  moreover have "agreeing_set sample_intros sample_context (set sample_intros)" by code_simp
  then have "maximal_agreeing sample_intros sample_context (set sample_intros)"
    by (auto simp: maximal_agreeing_def agreeing_set_def)
  ultimately show ?thesis using agreeing_cliques_exact [of sample_intros INTRO sample_context]
    by (metis (mono_tags, lifting) image_iff mem_Collect_eq)
qed

section \<open>Shortening\<close>

text \<open>
  Shortening a decided marker whose sources are real sources never fails, never touches an
  intro or recap, and changes nothing but this: the start moves later, by more than the type's
  tolerance, to the start of one of the servers' own markers, the end stays, the server's
  markers are credited beside the earlier sources, and the result is sane.
\<close>

theorem shortening_only_later:
  assumes "d_marker dec = Some m" and "m_type m = d_type dec" and "well_credited ctx m"
  shows "\<exists>dec'. shorten_to_server_markers dec sane ctx = Some dec' \<and>
    (dec' = dec \<or> (\<exists>m'. d_marker dec' = Some m' \<and> d_status dec' = d_status dec \<and>
       d_type dec' = d_type dec \<and> shortening_of sane ctx m m'))"
  using shorten_marker_cases [OF assms(3,2), of sane] assms(1)
  by (auto simp: shorten_to_server_markers_def)

definition sample_credits :: marker where
  "sample_credits = own_marker (new_candidate CREDITS 1500000 None CREDITS_TEXT) sample_context"

theorem shortening_only_later_witness:
  "\<exists>m'. shortening_of [new_candidate CREDITS 1560000 None SERVER_MARKERS] sample_context sample_credits m' \<and> m_start_ms m' = 1560000"
proof -
  let ?dec = "decided CREDITS sample_credits ''x''"
  let ?sane = "[new_candidate CREDITS 1560000 None SERVER_MARKERS]"
  have "well_credited sample_context sample_credits" by (simp add: sample_credits_def)
  moreover have "d_marker ?dec = Some sample_credits" "m_type sample_credits = d_type ?dec"
    by (simp_all add: decided_def sample_credits_def new_candidate_def)
  moreover have moved: "map_option (\<lambda>d. map_option m_start_ms (d_marker d))
      (shorten_to_server_markers ?dec ?sane sample_context) = Some (Some 1560000)"
    by code_simp
  moreover have "m_start_ms sample_credits = 1500000" by code_simp
  ultimately show ?thesis using shortening_only_later [of ?dec sample_credits sample_context ?sane] by auto
qed

section \<open>A rule change\<close>

text \<open>
  \<open>keep_published\<close> only ever answers the decision it was given or the published marker, and
  the latter only where today's rules found no evidence, a candidate of a source the marker is
  credited to still agrees with it, every changed candidate agrees with it, and, when only
  sources that never decide alone stand behind it, no source that reads the file disagrees.
\<close>

theorem keep_published_cases:
  "keep_published decision published candidates changed d read_by = decision \<or>
   (d_status decision = NO_EVIDENCE \<and>
    d_status (keep_published decision published candidates changed d read_by) = DECIDED \<and>
    d_marker (keep_published decision published candidates changed d read_by) = Some published \<and>
    kept_before_rule_change (d_reason (keep_published decision published candidates changed d read_by)) \<and>
    (\<exists>c \<in> set candidates. source_value (c_source c) \<in> set (m_decided_by published) \<and>
       agrees_with published d c) \<and>
    {c \<in> set changed. \<not> agrees_with published d c} = {} \<and>
    (rests_on_answers_that_never_decide_alone published = False \<or>
     {c \<in> set candidates. c_source c \<in> READS_THE_FILE \<and> \<not> agrees_with published d c} = {}))"
proof (cases "keep_published decision published candidates changed d read_by = decision")
  case False
  then have st: "d_status decision = NO_EVIDENCE"
    and sup: "\<exists>c \<in> set candidates. source_value (c_source c) \<in> set (m_decided_by published) \<and>
      agrees_with published d c"
    and ch: "\<forall>c \<in> set changed. agrees_with published d c"
    and al: "\<not> rests_on_answers_that_never_decide_alone published \<or>
      unchecked_by_the_file candidates read_by (agrees_with published d)"
    and eq: "keep_published decision published candidates changed d read_by =
      decided (m_type published) published
        (KEPT_BEFORE_RULE_CHANGE @ ''; today's rules: '' @ d_reason decision)"
    by (auto simp: keep_published_def Let_def split: if_splits)
  have "\<not> rests_on_answers_that_never_decide_alone published \<or>
      {c \<in> set candidates. c_source c \<in> READS_THE_FILE \<and> \<not> agrees_with published d c} = {}"
    using al by (auto simp: unchecked_by_the_file_def split: if_splits)
  with st sup ch show ?thesis
    unfolding eq by (auto simp: decided_def kept_before_rule_change_def)
qed simp

section \<open>Notes\<close>

text \<open>
  What \<open>chapter_hint\<close> writes into a candidate's label for the chapter rule,
  \<open>read_chapter_hint\<close> reads back: the chapter's start, the verdict, and, for a moving verdict,
  the place the frames point at.
\<close>

theorem chapter_hint_roundtrip:
  assumes "0 \<le> start" and "\<forall>n. to_ms = Some n \<longrightarrow> 0 \<le> n"
  shows "read_chapter_hint (chapter_hint start moves to_ms) =
    Some (start, moves, if moves then to_ms else None)"
  using assms by (intro chapter_hint_read_back) (auto split: option.splits)

theorem chapter_hint_roundtrip_witness:
  "read_chapter_hint (chapter_hint 1500000 True (Some 1512000)) = Some (1500000, True, Some 1512000)"
  using chapter_hint_roundtrip [of 1500000 "Some 1512000" True] by simp

end
