(* ===== verification/Carry_Over.thy ===== *)
theory Carry_Over
  imports Decide_Claims
begin

text \<open>
  Carry-over (\<open>markers/carry_over.py\<close>): when a file is replaced by one of the same length, what
  was decided for a type stays for the new file while nothing answers for it there.  The store
  and the disk are parameters: the decisions kept aside, the files published to the same items
  with their decisions, and whether a file is gone (\<open>None\<close> when that can't be told now).
\<close>

section \<open>Data\<close>

definition CARRIED_OVER :: string where "CARRIED_OVER = ''carried_over''"

definition CARRIED_OVER_REASON :: string where
  "CARRIED_OVER_REASON = ''carried over from the file it replaced (same length)''"

definition MAX_LENGTH_CHANGE_MS :: int where "MAX_LENGTH_CHANGE_MS = 1000"

record previous_decision =
  pd_type :: marker_type
  pd_marker :: "(int \<times> int) option"
  pd_duration_ms :: int
  pd_seen_at :: string
  pd_decided_by :: "string list"
  pd_versions :: "(string \<rightharpoonup> int) option"

record read_now =
  rn_version :: int
  rn_step :: int

fun paired :: "marker_type \<Rightarrow> marker_type \<times> int" where
  "paired INTRO = (RECAP, INTRO_RECAP_MAX_OVERLAP_MS)"
| "paired RECAP = (INTRO, INTRO_RECAP_MAX_OVERLAP_MS)"
| "paired CREDITS = (PREVIEW, PREVIEW_CREDITS_MAX_OVERLAP_MS)"
| "paired PREVIEW = (CREDITS, PREVIEW_CREDITS_MAX_OVERLAP_MS)"

definition ALWAYS_ON :: "string set" where
  "ALWAYS_ON = {source_value USER, CARRIED_OVER}"

definition CONFIRMING_ONLY :: "string set" where
  "CONFIRMING_ONLY = source_value ` SERVER_SOURCES"

definition newer_than :: "read_now \<Rightarrow> int \<Rightarrow> bool" where
  "newer_than r stored =
     (if rn_step r \<noteq> 0 then rn_version r mod rn_step r > stored mod rn_step r
      else rn_version r > stored)"

definition is_carried_over :: "marker option \<Rightarrow> bool" where
  "is_carried_over m = (case m of None \<Rightarrow> False | Some m \<Rightarrow> CARRIED_OVER \<in> set (m_decided_by m))"

section \<open>What the replaced files decided\<close>

text \<open>
  The inner loop over one type's entries, latest first: \<open>Some\<close> answer once a file speaks
  (\<open>None\<close> inside it when that can't be told), \<open>None\<close> when no file did.
\<close>

fun first_speaker ::
  "('file \<Rightarrow> bool option) \<Rightarrow> (previous_decision \<times> 'file option) list \<Rightarrow>
     previous_decision option option" where
  "first_speaker gone [] = None"
| "first_speaker gone ((d, None) # es) = Some (Some d)"
| "first_speaker gone ((d, Some f) # es) =
     (case gone f of
        None \<Rightarrow> Some None
      | Some True \<Rightarrow> Some (Some d)
      | Some False \<Rightarrow> first_speaker gone es)"

text \<open>\<open>sorted(..., key=seen_at, reverse=True)\<close> keeps equal entries in order.\<close>

definition latest_first ::
  "(previous_decision \<times> 'f option) list \<Rightarrow> (previous_decision \<times> 'f option) list" where
  "latest_first es = rev (sort_key (\<lambda>e. pd_seen_at (fst e)) (rev es))"

definition previous_decisions ::
  "bool \<Rightarrow> previous_decision list \<Rightarrow> ('f \<times> previous_decision list) list \<Rightarrow> ('f \<Rightarrow> bool option) \<Rightarrow>
     bool \<Rightarrow> marker_type set \<Rightarrow> (marker_type \<rightharpoonup> previous_decision option)" where
  "previous_decisions moved_here in_place published gone items_known wanted t =
     (let candidates = (if moved_here then [] else map (\<lambda>d. (d, None)) in_place) @
            concat (map (\<lambda>(f, ds). map (\<lambda>d. (d, Some f)) ds) published)
      in if t \<notin> wanted then None
         else case first_speaker gone (latest_first (filter (\<lambda>e. pd_type (fst e) = t) candidates)) of
                Some answer \<Rightarrow> Some answer
              | None \<Rightarrow> if items_known then None else Some None)"

section \<open>Carrying over\<close>

definition deciding_sources :: "string list \<Rightarrow> string list" where
  "deciding_sources decided_by = filter (\<lambda>s. s \<notin> CONFIRMING_ONLY) decided_by"

definition sources_on :: "string list \<Rightarrow> string set option \<Rightarrow> bool" where
  "sources_on decided_by enabled =
     (let deciding = deciding_sources decided_by in
      case enabled of
        None \<Rightarrow> True
      | Some on \<Rightarrow> deciding = [] \<or> (\<exists>s \<in> set deciding. s \<in> ALWAYS_ON) \<or> (\<exists>s \<in> set deciding. s \<in> on))"

definition passed_over_by_a_newer_version ::
  "previous_decision \<Rightarrow> (string \<rightharpoonup> read_now) \<Rightarrow> bool" where
  "passed_over_by_a_newer_version held read_by =
     (let deciding = deciding_sources (pd_decided_by held);
          versions = (case pd_versions held of None \<Rightarrow> Map.empty | Some v \<Rightarrow> v)
      in deciding \<noteq> [] \<and>
         (\<forall>s \<in> set deciding. case (read_by s, versions s) of
            (Some r, Some v) \<Rightarrow> newer_than r v
          | _ \<Rightarrow> False))"

definition fitted :: "marker_type \<Rightarrow> int \<times> int \<Rightarrow> int \<Rightarrow> marker option" where
  "fitted t span_ms d =
     (let start = fst span_ms; end = min (snd span_ms) d in
      if end - start < MIN_SEGMENT_MS then None
      else if is_start_segment t \<and> end \<ge> d - EOF_CLAMP_MS then None
      else Some \<lparr>m_type = t, m_start_ms = start, m_end_ms = end, m_decided_by = [CARRIED_OVER],
                 m_locked = False\<rparr>)"

definition overlaps :: "marker \<Rightarrow> (marker_type \<rightharpoonup> type_decision) \<Rightarrow> bool" where
  "overlaps m out =
     (let (other_type, allowed) = paired (m_type m) in
      case out other_type of
        None \<Rightarrow> False
      | Some dec \<Rightarrow>
          (case decided_marker_of dec of
             None \<Rightarrow> False
           | Some m' \<Rightarrow>
               min (m_end_ms m) (m_end_ms m') - max (m_start_ms m) (m_start_ms m') > allowed))"

text \<open>The marker one type would carry: from the replaced file, or the one already carried.\<close>

definition carried_marker ::
  "int \<Rightarrow> (marker_type \<rightharpoonup> marker) \<Rightarrow> string set option \<Rightarrow>
     (marker_type \<Rightarrow> string \<rightharpoonup> read_now) option \<Rightarrow> marker_type \<Rightarrow> previous_decision option \<Rightarrow>
     marker option" where
  "carried_marker d kept enabled read_by t known =
     (case known of
        None \<Rightarrow>
          (case kept t of
             None \<Rightarrow> None
           | Some m \<Rightarrow> if is_carried_over (Some m) \<and> \<not> m_locked m then Some m else None)
      | Some held \<Rightarrow>
          (case pd_marker held of
             None \<Rightarrow> None
           | Some span_ms \<Rightarrow>
               if \<bar>pd_duration_ms held - d\<bar> > MAX_LENGTH_CHANGE_MS \<or>
                  \<not> sources_on (pd_decided_by held) enabled \<or>
                  (case read_by of None \<Rightarrow> False
                   | Some rb \<Rightarrow> passed_over_by_a_newer_version held (rb t))
               then None else fitted t span_ms d))"

definition has_no_evidence :: "type_decision \<Rightarrow> bool" where
  "has_no_evidence dec \<longleftrightarrow> d_status dec = NO_EVIDENCE \<and> d_reason dec = NO_EVIDENCE_REASON"

definition carry_wanted :: "(marker_type \<rightharpoonup> type_decision) \<Rightarrow> marker_type set" where
  "carry_wanted decisions =
     {t \<in> set marker_types. case decisions t of None \<Rightarrow> False | Some dec \<Rightarrow> has_no_evidence dec}"

definition carry_one ::
  "int \<Rightarrow> (marker_type \<rightharpoonup> marker) \<Rightarrow> string set option \<Rightarrow>
     (marker_type \<Rightarrow> string \<rightharpoonup> read_now) option \<Rightarrow> marker_type set \<Rightarrow>
     (marker_type \<rightharpoonup> previous_decision option) \<Rightarrow> marker_type \<Rightarrow>
     (marker_type \<rightharpoonup> type_decision) \<Rightarrow> (marker_type \<rightharpoonup> type_decision)" where
  "carry_one d kept enabled read_by wanted known t out =
     (if t \<notin> wanted then out
      else case known t of
             None \<Rightarrow> out
           | Some answer \<Rightarrow>
               (case carried_marker d kept enabled read_by t answer of
                  None \<Rightarrow> out
                | Some m \<Rightarrow>
                    if overlaps m out then out
                    else out(t \<mapsto> \<lparr>d_type = t, d_status = DECIDED, d_marker = Some m,
                                     d_proposed = None, d_reason = CARRIED_OVER_REASON\<rparr>)))"

definition carry_over ::
  "(marker_type \<rightharpoonup> type_decision) \<Rightarrow> int \<Rightarrow>
     (marker_type set \<Rightarrow> (marker_type \<rightharpoonup> previous_decision option)) \<Rightarrow>
     (marker_type \<rightharpoonup> marker) \<Rightarrow> string set option \<Rightarrow>
     (marker_type \<Rightarrow> string \<rightharpoonup> read_now) option \<Rightarrow> (marker_type \<rightharpoonup> type_decision)" where
  "carry_over decisions d previous kept enabled read_by =
     (let wanted = carry_wanted decisions in
      if wanted = {} then decisions
      else fold (carry_one d kept enabled read_by wanted (previous wanted)) marker_types decisions)"

section \<open>One step\<close>

lemma marker_types_all [simp]: "t \<in> set marker_types"
  by (cases t) (simp_all add: marker_types_def)

lemma carry_one_other [simp]:
  "t' \<noteq> t \<Longrightarrow> carry_one d kept enabled read_by wanted known t out t' = out t'"
  by (simp add: carry_one_def split: option.split)

lemma carry_one_cases:
  "carry_one d kept enabled read_by wanted known t out = out \<or>
   (t \<in> wanted \<and> (\<exists>answer m. known t = Some answer \<and>
      carried_marker d kept enabled read_by t answer = Some m \<and> \<not> overlaps m out \<and>
      carry_one d kept enabled read_by wanted known t out =
        out(t \<mapsto> \<lparr>d_type = t, d_status = DECIDED, d_marker = Some m, d_proposed = None,
                   d_reason = CARRIED_OVER_REASON\<rparr>)))"
  by (simp add: carry_one_def split: option.split)

lemma fitted_Some:
  assumes "fitted t span_ms d = Some m"
  shows "m_type m = t \<and> m_decided_by m = [CARRIED_OVER] \<and> \<not> m_locked m \<and>
    m_start_ms m = fst span_ms \<and> m_end_ms m \<le> d \<and> m_end_ms m \<le> snd span_ms \<and>
    m_end_ms m - m_start_ms m \<ge> MIN_SEGMENT_MS \<and>
    (is_start_segment t \<longrightarrow> m_end_ms m < d - EOF_CLAMP_MS)"
  using assms by (auto simp: fitted_def Let_def split: if_splits)

text \<open>Overlap within the limits of decide's checks, for one pair of types.\<close>

definition pair_fits ::
  "(marker_type \<rightharpoonup> type_decision) \<Rightarrow> marker_type \<Rightarrow> marker_type \<Rightarrow> int \<Rightarrow> bool" where
  "pair_fits out a b allowed \<longleftrightarrow>
     (\<forall>da db ma mb. out a = Some da \<longrightarrow> out b = Some db \<longrightarrow> decided_marker_of da = Some ma \<longrightarrow>
        decided_marker_of db = Some mb \<longrightarrow>
        min (m_end_ms ma) (m_end_ms mb) - max (m_start_ms ma) (m_start_ms mb) \<le> allowed)"

definition all_pairs_fit :: "(marker_type \<rightharpoonup> type_decision) \<Rightarrow> bool" where
  "all_pairs_fit out \<longleftrightarrow> (\<forall>t. pair_fits out t (fst (paired t)) (snd (paired t)))"

lemma pair_fits_sym: "pair_fits out a b n \<Longrightarrow> pair_fits out b a n"
  unfolding pair_fits_def by (metis min.commute max.commute)

lemma paired_sym: "paired t = (t', n) \<Longrightarrow> paired t' = (t, n) \<and> t' \<noteq> t"
  by (cases t) auto

definition right_types :: "(marker_type \<rightharpoonup> marker) \<Rightarrow> bool" where
  "right_types kept \<longleftrightarrow> (\<forall>t m. kept t = Some m \<longrightarrow> m_type m = t)"

lemma carried_marker_type:
  "carried_marker d kept enabled read_by t answer = Some m \<Longrightarrow> right_types kept \<Longrightarrow> m_type m = t"
  by (auto simp: carried_marker_def right_types_def dest: fitted_Some split: option.splits if_splits)

lemma carry_one_fits:
  assumes fit: "all_pairs_fit out" and kept: "right_types kept"
  shows "all_pairs_fit (carry_one d kept enabled read_by wanted known t out)" (is "all_pairs_fit ?out")
proof (cases "?out = out")
  case False
  then obtain answer m where m: "carried_marker d kept enabled read_by t answer = Some m"
    and no: "\<not> overlaps m out"
    and out: "?out = out(t \<mapsto> \<lparr>d_type = t, d_status = DECIDED, d_marker = Some m, d_proposed = None,
      d_reason = CARRIED_OVER_REASON\<rparr>)"
    using carry_one_cases [of d kept enabled read_by wanted known t out] by auto
  obtain t' n where pt: "paired t = (t', n)" by force
  note ps = paired_sym [OF pt]
  have mt: "m_type m = t" using carried_marker_type [OF m kept] .
  have new: "min (m_end_ms m) (m_end_ms m') - max (m_start_ms m) (m_start_ms m') \<le> n"
    if "out t' = Some dec" "decided_marker_of dec = Some m'" for dec m'
    using no that by (simp add: overlaps_def mt pt)
  show ?thesis unfolding all_pairs_fit_def
  proof
    fix s
    show "pair_fits ?out s (fst (paired s)) (snd (paired s))"
    proof (cases "s = t \<or> s = t'")
      case True
      have "pair_fits ?out t t' n"
        using new ps unfolding pair_fits_def out by (simp add: decided_marker_of_def [of "\<lparr>d_type = t, d_status = DECIDED,
          d_marker = Some m, d_proposed = None, d_reason = CARRIED_OVER_REASON\<rparr>"])
      moreover from this have "pair_fits ?out t' t n" by (rule pair_fits_sym)
      ultimately show ?thesis using True ps pt by auto
    next
      case s: False
      then have "fst (paired s) \<noteq> t" 
        using paired_sym [of s "fst (paired s)" "snd (paired s)"] pt by auto
      then show ?thesis using fit s by (simp add: all_pairs_fit_def pair_fits_def out)
    qed
  qed
qed (use fit in simp)

section \<open>Properties\<close>

lemma fold_carry_other:
  "t \<notin> set ts \<Longrightarrow> fold (carry_one d kept enabled read_by wanted known) ts out t = out t"
  by (induction ts arbitrary: out) auto

lemma fold_carry_at:
  assumes "distinct ts" and "t \<in> set ts"
  shows "fold (carry_one d kept enabled read_by wanted known) ts out t = out t \<or>
    (t \<in> wanted \<and> (\<exists>answer m. known t = Some answer \<and>
      carried_marker d kept enabled read_by t answer = Some m \<and>
      fold (carry_one d kept enabled read_by wanted known) ts out t =
        Some \<lparr>d_type = t, d_status = DECIDED, d_marker = Some m, d_proposed = None,
              d_reason = CARRIED_OVER_REASON\<rparr>))"
  using assms
proof (induction ts arbitrary: out)
  case (Cons s ts)
  let ?step = "carry_one d kept enabled read_by wanted known s out"
  show ?case
  proof (cases "s = t")
    case True
    then have "fold (carry_one d kept enabled read_by wanted known) (s # ts) out t = ?step t"
      using Cons.prems fold_carry_other by simp
    with True carry_one_cases [of d kept enabled read_by wanted known t out] show ?thesis by fastforce
  next
    case False
    with Cons.prems have "?step t = out t" "t \<in> set ts" "distinct ts" by simp_all
    with Cons.IH [of ?step] show ?thesis by simp
  qed
qed simp

lemma distinct_marker_types: "distinct marker_types"
  by (simp add: marker_types_def)

lemma carry_over_at:
  "carry_over decisions d previous kept enabled read_by t = decisions t \<or>
   (t \<in> carry_wanted decisions \<and> (\<exists>answer m.
      previous (carry_wanted decisions) t = Some answer \<and>
      carried_marker d kept enabled read_by t answer = Some m \<and>
      carry_over decisions d previous kept enabled read_by t =
        Some \<lparr>d_type = t, d_status = DECIDED, d_marker = Some m, d_proposed = None,
              d_reason = CARRIED_OVER_REASON\<rparr>))"
  using fold_carry_at [OF distinct_marker_types marker_types_all, where t = t and out = decisions
      and d = d and kept = kept and enabled = enabled and read_by = read_by
      and wanted = "carry_wanted decisions" and known = "previous (carry_wanted decisions)"]
  unfolding carry_over_def Let_def
  by (cases "carry_wanted decisions = {}") (simp_all only: if_True if_False simp_thms)

text \<open>
  Carry-over touches nothing but types with no evidence at all.  A type it decides had
  exactly that status and reason, and its marker is either the carried marker the file already
  had, unlocked, when the replaced file can't be told now, or the replaced file's own, which
  then is at most 1 s longer or shorter, rests on a source that is still on, was not passed over
  by a newer detector, ends by the new file's end, lasts 3 s or more, and is no intro or recap
  that runs to the end.
\<close>

theorem carry_over_only_without_evidence:
  "carry_over decisions d previous kept enabled read_by t = decisions t \<or>
   (\<exists>old m. decisions t = Some old \<and> d_status old = NO_EVIDENCE \<and> d_reason old = NO_EVIDENCE_REASON \<and>
      carry_over decisions d previous kept enabled read_by t =
        Some \<lparr>d_type = t, d_status = DECIDED, d_marker = Some m, d_proposed = None,
              d_reason = CARRIED_OVER_REASON\<rparr> \<and>
      CARRIED_OVER \<in> set (m_decided_by m) \<and> \<not> m_locked m \<and>
      (kept t = Some m \<or>
       (\<exists>held span_ms. previous (carry_wanted decisions) t = Some (Some held) \<and> pd_marker held = Some span_ms \<and>
          \<bar>pd_duration_ms held - d\<bar> \<le> 1000 \<and> sources_on (pd_decided_by held) enabled \<and>
          (case read_by of None \<Rightarrow> True | Some now \<Rightarrow> \<not> passed_over_by_a_newer_version held (now t)) \<and>
          m_type m = t \<and> m_start_ms m = fst span_ms \<and> m_end_ms m \<le> d \<and> m_end_ms m \<le> snd span_ms \<and>
          m_end_ms m - m_start_ms m \<ge> MIN_SEGMENT_MS \<and>
          (if is_start_segment t then m_end_ms m < d - EOF_CLAMP_MS else True))))"
proof (cases "carry_over decisions d previous kept enabled read_by t = decisions t")
  case False
  then obtain answer m where t: "t \<in> carry_wanted decisions"
    and known: "previous (carry_wanted decisions) t = Some answer"
    and m: "carried_marker d kept enabled read_by t answer = Some m"
    and out: "carry_over decisions d previous kept enabled read_by t =
      Some \<lparr>d_type = t, d_status = DECIDED, d_marker = Some m, d_proposed = None,
            d_reason = CARRIED_OVER_REASON\<rparr>"
    using carry_over_at by blast
  from t obtain old where old: "decisions t = Some old" "d_status old = NO_EVIDENCE"
    "d_reason old = NO_EVIDENCE_REASON"
    by (auto simp: carry_wanted_def has_no_evidence_def split: option.splits)
  show ?thesis
  proof (cases answer)
    case None
    with m have "kept t = Some m" "CARRIED_OVER \<in> set (m_decided_by m)" "\<not> m_locked m"
      by (auto simp: carried_marker_def is_carried_over_def split: option.splits if_splits)
    with old out show ?thesis by blast
  next
    case (Some held)
    with m obtain span_ms where span_ms: "pd_marker held = Some span_ms" "\<bar>pd_duration_ms held - d\<bar> \<le> 1000"
      "sources_on (pd_decided_by held) enabled"
      "read_by = None \<or> \<not> passed_over_by_a_newer_version held (the read_by t)"
      and fit: "fitted t span_ms d = Some m"
      by (auto simp: carried_marker_def MAX_LENGTH_CHANGE_MS_def split: option.splits if_splits)
    from fitted_Some [OF fit] span_ms known Some old out show ?thesis
      by (auto split: option.split)
  qed
qed simp

text \<open>
  C36: carry-over keeps the types from overlapping.  If the decided markers it is given overlap
  by no more than decide's checks allow (intro and recap 5 s, credits and preview 10 s), so do
  the ones it returns, also two carried ones.
\<close>

theorem carry_over_keeps_pairs_apart:
  assumes "all_pairs_fit decisions" and "right_types kept"
  shows "all_pairs_fit (carry_over decisions d previous kept enabled read_by)"
proof -
  have "all_pairs_fit (fold (carry_one d kept enabled read_by wanted known) ts out)"
    if "all_pairs_fit out" for ts out wanted known
    using that by (induction ts arbitrary: out) (simp_all add: carry_one_fits assms(2))
  with assms(1) show ?thesis by (simp add: carry_over_def Let_def)
qed

definition sample_decisions :: "marker_type \<rightharpoonup> type_decision" where
  "sample_decisions = (\<lambda>t. Some (no_evidence t None NO_EVIDENCE_REASON))"

definition sample_previous :: "marker_type set \<Rightarrow> marker_type \<rightharpoonup> previous_decision option" where
  "sample_previous wanted t =
     (if t = INTRO \<or> t = RECAP
      then Some (Some \<lparr>pd_type = t, pd_marker = Some (1000, 92000), pd_duration_ms = 1800500,
             pd_seen_at = ''2026-01-01'', pd_decided_by = [''chapters''], pd_versions = None\<rparr>)
      else None)"

text \<open>The intro is carried; the recap of the same minutes is not.\<close>

theorem carry_over_keeps_pairs_apart_witness:
  "all_pairs_fit (carry_over sample_decisions 1800000 sample_previous Map.empty None None) \<and>
   map_option d_status (carry_over sample_decisions 1800000 sample_previous Map.empty None None INTRO) =
     Some DECIDED \<and>
   map_option d_status (carry_over sample_decisions 1800000 sample_previous Map.empty None None RECAP) =
     Some NO_EVIDENCE"
proof (intro conjI)
  have "all_pairs_fit sample_decisions"
    by (auto simp: all_pairs_fit_def pair_fits_def sample_decisions_def decided_marker_of_def
        no_evidence_def)
  then show "all_pairs_fit (carry_over sample_decisions 1800000 sample_previous Map.empty None None)"
    by (rule carry_over_keeps_pairs_apart) (simp add: right_types_def)
qed (code_simp+)

lemma latest_first_sorted:
  "sorted_wrt (\<lambda>a b. pd_seen_at (fst b) \<le> pd_seen_at (fst a)) (latest_first es)"
proof -
  have "sorted (map (\<lambda>e. pd_seen_at (fst e)) (sort_key (\<lambda>e. pd_seen_at (fst e)) (rev es)))"
    by (rule sorted_sort_key)
  then show ?thesis
    unfolding latest_first_def sorted_wrt_rev sorted_map .
qed

lemma latest_first_set: "set (latest_first es) = set es"
  by (simp add: latest_first_def)

lemma first_speaker_latest:
  assumes "sorted_wrt (\<lambda>a b. pd_seen_at (fst b) \<le> pd_seen_at (fst a)) es"
  shows "case first_speaker gone es of
      None \<Rightarrow> True
    | Some None \<Rightarrow> \<exists>d f. (d, Some f) \<in> set es \<and> gone f = None
    | Some (Some dec) \<Rightarrow> ((dec, None) \<in> set es \<or> (\<exists>f. (dec, Some f) \<in> set es \<and> gone f = Some True)) \<and>
        (\<forall>d f. (d, Some f) \<in> set es \<longrightarrow> pd_seen_at dec < pd_seen_at d \<longrightarrow> gone f = Some False)"
  using assms
proof (induction gone es rule: first_speaker.induct)
  case (1 gone)
  then show ?case by simp
next
  case (2 gone d es)
  then show ?case by (auto simp: not_less[symmetric])
next
  case (3 gone d f es)
  show ?case
  proof (cases "gone f")
    case None
    then show ?thesis by auto
  next
    case (Some b)
    show ?thesis
    proof (cases b)
      case True
      with Some 3(2) show ?thesis by (auto simp: not_less[symmetric])
    next
      case False
      with Some have step: "first_speaker gone ((d, Some f) # es) = first_speaker gone es" by simp
      have ih: "case first_speaker gone es of
          None \<Rightarrow> True
        | Some None \<Rightarrow> \<exists>d f. (d, Some f) \<in> set es \<and> gone f = None
        | Some (Some dec) \<Rightarrow> ((dec, None) \<in> set es \<or> (\<exists>f. (dec, Some f) \<in> set es \<and> gone f = Some True)) \<and>
            (\<forall>d f. (d, Some f) \<in> set es \<longrightarrow> pd_seen_at dec < pd_seen_at d \<longrightarrow> gone f = Some False)"
        using 3 Some False by simp
      have head: "gone f = Some False" using Some False by simp
      show ?thesis
        unfolding step using ih head by (cases "first_speaker gone es") (auto split: option.splits)
    qed
  qed
qed

text \<open>
  The replaced file stored last speaks for a type.  An answer is either a decision of that
  type kept aside or of a file that is gone from disk, with every file stored after it still
  there (another version), or it is "can't tell", and then some file's state, or an item's
  server, could not be asked.
\<close>

theorem previous_decisions_latest:
  "case previous_decisions moved in_place published gone items_known wanted t of
     None \<Rightarrow> True
   | Some None \<Rightarrow> (if items_known then \<exists>f \<in> fst ` set published. gone f = None else True)
   | Some (Some dec) \<Rightarrow> t \<in> wanted \<and> pd_type dec = t \<and>
       ((\<not> moved \<and> dec \<in> set in_place) \<or>
        (\<exists>f ds. (f, ds) \<in> set published \<and> dec \<in> set ds \<and> gone f = Some True)) \<and>
       {f. \<exists>ds dec'. (f, ds) \<in> set published \<and> dec' \<in> set ds \<and> pd_type dec' = t \<and>
          pd_seen_at dec < pd_seen_at dec' \<and> gone f \<noteq> Some False} = {}"
proof -
  let ?cs = "(if moved then [] else map (\<lambda>d. (d, None)) in_place) @
    concat (map (\<lambda>(f, ds). map (\<lambda>d. (d, Some f)) ds) published)"
  let ?es = "latest_first (filter (\<lambda>e. pd_type (fst e) = t) ?cs)"
  have in_cs: "set ?es = {e \<in> set ?cs. pd_type (fst e) = t}"
    by (simp only: latest_first_set set_filter)
  have kept: "(dec, None) \<in> set ?es \<Longrightarrow> pd_type dec = t \<and> \<not> moved \<and> dec \<in> set in_place" for dec
    unfolding in_cs by (auto split: if_splits)
  have stored: "(dec, Some f) \<in> set ?es \<longleftrightarrow>
      pd_type dec = t \<and> (\<exists>ds. (f, ds) \<in> set published \<and> dec \<in> set ds)" for dec f
    unfolding in_cs by (simp add: image_iff) (auto simp: image_iff split: if_splits)
  note speaker = first_speaker_latest 
    [where gone = gone and es = "?es", OF latest_first_sorted]
  show ?thesis
  proof (cases "t \<in> wanted")
    case False
    then show ?thesis by (simp add: previous_decisions_def)
  next
    case True
    then have answer: "previous_decisions moved in_place published gone items_known wanted t =
        (case first_speaker gone ?es of
           Some answer \<Rightarrow> Some answer | None \<Rightarrow> if items_known then None else Some None)"
      unfolding previous_decisions_def Let_def by (simp only: not_True_eq_False if_False)
    show ?thesis
    proof (cases "first_speaker gone ?es")
      case None
      then show ?thesis unfolding answer by simp
    next
      case (Some a)
      show ?thesis
      proof (cases a)
        case None
        with Some speaker obtain d f where "(d, Some f) \<in> set ?es" "gone f = None" by auto
        then have "\<exists>f \<in> fst ` set published. gone f = None" unfolding stored by force
        then show ?thesis unfolding answer Some option.case None by simp
      next
        case (Some dec)
        with \<open>first_speaker gone ?es = Some a\<close> have fs: "first_speaker gone ?es = Some (Some dec)" by simp
        from speaker [unfolded fs option.case]
        have from_where: "(dec, None) \<in> set ?es \<or> (\<exists>f. (dec, Some f) \<in> set ?es \<and> gone f = Some True)"
          and newer: "(d, Some f) \<in> set ?es \<Longrightarrow> pd_seen_at dec < pd_seen_at d \<Longrightarrow> gone f = Some False" for d f
          by blast+
        have none_newer: "{f. \<exists>ds dec'. (f, ds) \<in> set published \<and> dec' \<in> set ds \<and> pd_type dec' = t \<and>
            pd_seen_at dec < pd_seen_at dec' \<and> gone f \<noteq> Some False} = {}"
          using newer unfolding stored by blast
        have "pd_type dec = t \<and> ((\<not> moved \<and> dec \<in> set in_place) \<or>
            (\<exists>f ds. (f, ds) \<in> set published \<and> dec \<in> set ds \<and> gone f = Some True))"
          using from_where
        proof
          assume "(dec, None) \<in> set ?es"
          from kept [OF this] show ?thesis by simp
        next
          assume "\<exists>f. (dec, Some f) \<in> set ?es \<and> gone f = Some True"
          then show ?thesis unfolding stored by auto
        qed
        then show ?thesis unfolding answer fs option.case using True none_newer by blast
      qed
    qed
  qed
qed

end
