(* ===== verification/Bytes.thy ===== *)
theory Bytes
  imports Speed "HOL-Library.Word"
begin

text \<open>
  Bytes, the little-endian 32-bit fields of \<open>struct.pack("<I", n)\<close>, sequences of fixed-width
  records (the interface \<open>record_codec\<close>), results that carry an error, and the facts that
  whole numbers below \<open>2 ^ 53\<close> are exact in a Python float.
\<close>

section \<open>Results with an error\<close>

fun bindE :: "'e + 'a \<Rightarrow> ('a \<Rightarrow> 'e + 'b) \<Rightarrow> 'e + 'b" where
  "bindE (Inl e) f = Inl e"
| "bindE (Inr x) f = f x"

lemma bindE_eq_Inr: "bindE r f = Inr y \<longleftrightarrow> (\<exists>x. r = Inr x \<and> f x = Inr y)"
  by (cases r) auto

lemma bindE_eq_Inl: "bindE r f = Inl e \<longleftrightarrow> r = Inl e \<or> (\<exists>x. r = Inr x \<and> f x = Inl e)"
  by (cases r) auto

section \<open>Little-endian fields\<close>

type_synonym byte = "8 word"

type_synonym bytes = "byte list"

definition fits_u32 :: "int \<Rightarrow> bool" where
  "fits_u32 n \<longleftrightarrow> 0 \<le> n \<and> n < 2 ^ 32"

definition le32 :: "int \<Rightarrow> bytes" where
  "le32 n = [word_of_int n, word_of_int (n div 256), word_of_int (n div 65536),
             word_of_int (n div 16777216)]"

text \<open>\<open>struct.unpack("<I", f.read(4))\<close> and the file position after it; a short read raises.\<close>

fun read_u32 :: "'e \<Rightarrow> bytes \<Rightarrow> 'e + (int \<times> bytes)" where
  "read_u32 e (a # b # c # d # rest) =
     Inr (uint a + 256 * uint b + 65536 * uint c + 16777216 * uint d, rest)"
| "read_u32 e _ = Inl e"

lemma length_le32 [simp]: "length (le32 n) = 4"
  by (simp add: le32_def)

lemma u32_digits:
  assumes "0 \<le> (n::int)" and "n < 4294967296"
  shows "n mod 256 + 256 * (n div 256 mod 256) + 65536 * (n div 65536 mod 256) +
    16777216 * (n div 16777216 mod 256) = n"
proof -
  have "n div 65536 = n div 256 div 256" "n div 16777216 = n div 65536 div 256"
    by (simp_all add: zdiv_zmult2_eq [symmetric])
  moreover have "n div 16777216 mod 256 = n div 16777216" using assms by (intro mod_pos_pos_trivial) auto
  ultimately show ?thesis
    using div_mult_mod_eq [of n 256] div_mult_mod_eq [of "n div 256" 256]
      div_mult_mod_eq [of "n div 65536" 256]
    by linarith
qed

lemma uint_byte [simp]: "uint (word_of_int n :: byte) = n mod 256"
  by (simp add: uint_word_of_int)

lemma read_u32_le32 [simp]: "fits_u32 n \<Longrightarrow> read_u32 e (le32 n @ s) = Inr (n, s)"
proof -
  assume "fits_u32 n"
  then have "0 \<le> n" "n < 4294967296" by (simp_all add: fits_u32_def)
  note digits = u32_digits [OF this]
  show "read_u32 e (le32 n @ s) = Inr (n, s)"
    by (simp only: le32_def append.simps read_u32.simps uint_byte digits)
qed

section \<open>Sequences of fixed-width records\<close>

fun read_many :: "(bytes \<Rightarrow> 'e + ('a \<times> bytes)) \<Rightarrow> nat \<Rightarrow> bytes \<Rightarrow> 'e + ('a list \<times> bytes)" where
  "read_many dec 0 s = Inr ([], s)"
| "read_many dec (Suc n) s =
     bindE (dec s) (\<lambda>(x, s1). bindE (read_many dec n s1) (\<lambda>(xs, s2). Inr (x # xs, s2)))"

text \<open>
  A record's writer and reader: reading what was written gives the record and leaves the rest.
  Any number of records then reads back too.
\<close>

locale record_codec =
  fixes enc :: "'a \<Rightarrow> bytes" and dec :: "bytes \<Rightarrow> 'e + ('a \<times> bytes)" and valid :: "'a \<Rightarrow> bool"
  assumes dec_enc: "valid x \<Longrightarrow> dec (enc x @ s) = Inr (x, s)"
begin

lemma read_many_enc:
  "\<forall>x \<in> set xs. valid x \<Longrightarrow> read_many dec (length xs) (concat (map enc xs) @ s) = Inr (xs, s)"
  by (induction xs) (simp_all add: dec_enc)

lemma enc_injective: "valid x \<Longrightarrow> valid y \<Longrightarrow> enc x @ s = enc y @ t \<Longrightarrow> x = y \<and> s = t"
  by (metis dec_enc Inr_inject prod.inject)

end

text \<open>Two records side by side are a record.\<close>

definition enc_pair :: "('a \<Rightarrow> bytes) \<Rightarrow> ('b \<Rightarrow> bytes) \<Rightarrow> 'a \<times> 'b \<Rightarrow> bytes" where
  "enc_pair f g p = f (fst p) @ g (snd p)"

definition dec_pair ::
  "(bytes \<Rightarrow> 'e + ('a \<times> bytes)) \<Rightarrow> (bytes \<Rightarrow> 'e + ('b \<times> bytes)) \<Rightarrow> bytes \<Rightarrow>
     'e + (('a \<times> 'b) \<times> bytes)" where
  "dec_pair f g s = bindE (f s) (\<lambda>(x, s1). bindE (g s1) (\<lambda>(y, s2). Inr ((x, y), s2)))"

locale two_codecs = a: record_codec enc dec valid + b: record_codec enc' dec' valid'
  for enc :: "'a \<Rightarrow> bytes" and dec :: "bytes \<Rightarrow> 'e + ('a \<times> bytes)" and valid
    and enc' :: "'b \<Rightarrow> bytes" and dec' :: "bytes \<Rightarrow> 'e + ('b \<times> bytes)" and valid'
begin

lemma dec_pair_enc:
  "valid (fst p) \<and> valid' (snd p) \<Longrightarrow> dec_pair dec dec' (enc_pair enc enc' p @ s) = Inr (p, s)"
  by (simp add: dec_pair_def enc_pair_def a.dec_enc b.dec_enc)

end

sublocale two_codecs \<subseteq> pair: record_codec
  "enc_pair enc enc'" "dec_pair dec dec'" "\<lambda>p. valid (fst p) \<and> valid' (snd p)"
  by unfold_locales (rule dec_pair_enc)

interpretation u32: record_codec le32 "read_u32 e" fits_u32
  by unfold_locales simp

interpretation u32_pair: two_codecs le32 "read_u32 e" fits_u32 le32 "read_u32 e" fits_u32
  by unfold_locales

section \<open>Whole numbers in floats\<close>

lemma nbits_le: "n < 2 ^ k \<Longrightarrow> nbits n \<le> int k"
proof (induction k arbitrary: n)
  case 0
  then show ?case by (simp add: nbits.simps)
next
  case (Suc k)
  have "n div 2 < 2 ^ k" using Suc.prems by simp
  from Suc.IH [OF this] show ?case by (subst nbits.simps) simp
qed

lemma round_half_even_int [simp]: "round_half_even (of_int n) = n"
  by (simp add: round_half_even_def Let_def)

lemma exact_at_scale:
  assumes "e \<le> 0"
  shows "of_int (round_half_even (of_int n / pow2 e)) * pow2 e = (of_int n :: rat)"
proof -
  have "(of_int n :: rat) / pow2 e = of_int (n * 2 ^ nat (- e))"
    using assms by (cases "e = 0") (simp_all add: pow2_def)
  then have "of_int (round_half_even (of_int n / pow2 e)) = (of_int (n * 2 ^ nat (- e)) :: rat)"
    by (metis round_half_even_int)
  moreover have "pow2 e = 1 / 2 ^ nat (- e)" using assms by (cases "e = 0") (simp_all add: pow2_def)
  ultimately show ?thesis by simp
qed

lemma fl_whole:
  assumes "0 \<le> n" and "n < 2 ^ 53"
  shows "fl (of_int n) = of_int n"
proof (cases "n = 0")
  case False
  have "quotient_of (of_int n) = (n, 1)" by simp
  then have "float_scale (of_int n) \<le> 0"
    using nbits_le [of n 53] assms nbits.simps [of 1] nbits.simps [of 0]
    by (simp add: float_scale_def Let_def)
  with exact_at_scale False show ?thesis by (simp add: fl_def Let_def)
qed (simp add: fl_def)

end
