(* ===== verification/Bif.thy ===== *)
theory Bif
  imports Bytes
begin

text \<open>
  Roku BIF preview files: the reader (\<open>bif_reader.py\<close>) and the writer (\<open>generate_bif\<close> and
  \<open>_bif_temp_path\<close> of \<open>processing/generator.py\<close>).  A file is a list of bytes, the file system a map
  from paths to files; a file's modification time, owner, mode and the log are left out.  The
  digest in the temporary name and the uuid are parameters.
\<close>

section \<open>Data\<close>

datatype bif_error =
    Bad_Magic | Struct_Error | Missing_Sentinel | Frame_Index_Error | File_Not_Found
  | No_Thumbnails | Permission_Denied | File_Exists | Write_Error | Publish_Refused | Replace_Failed

type_synonym fs = "string \<rightharpoonup> bytes"

definition BIF_MAGIC :: bytes where
  "BIF_MAGIC = [0x89, 0x42, 0x49, 0x46, 0x0D, 0x0A, 0x1A, 0x0A]"

definition HEADER_SIZE :: nat where "HEADER_SIZE = 64"

definition SENTINEL_TIMESTAMP :: int where "SENTINEL_TIMESTAMP = 0xFFFFFFFF"

definition DEFAULT_MULTIPLIER_MS :: int where "DEFAULT_MULTIPLIER_MS = 1000"

record bif_metadata =
  bm_path :: string
  bm_version :: int
  bm_frame_count :: int
  bm_frame_interval_ms :: int
  bm_file_size :: nat
  bm_frame_offsets :: "int list"
  bm_frame_sizes :: "int list"
  bm_header_interval_ms :: int

section \<open>The reader\<close>

text \<open>
  \<open>round(statistics.median(steps) * unit)\<close>: the median of an even number of steps is a float,
  so the product is one float operation.
\<close>

definition index_steps :: "int list \<Rightarrow> int list" where
  "index_steps ts = map (\<lambda>(a, b). b - a) (filter (\<lambda>(a, b). b > a) (zip ts (drop 1 ts)))"

definition median_times :: "int list \<Rightarrow> int \<Rightarrow> int" where
  "median_times steps unit =
     (let xs = sort steps; n = length xs
      in if odd n then xs ! (n div 2) * unit
         else round_half_even
                (fl (fl (of_int (xs ! (n div 2 - 1) + xs ! (n div 2)) / 2) * of_int unit)))"

definition interval_from_index :: "int \<Rightarrow> int list \<Rightarrow> int" where
  "interval_from_index multiplier timestamps =
     (let unit = (if multiplier = 0 then DEFAULT_MULTIPLIER_MS else multiplier);
          steps = index_steps timestamps
      in if steps = [] then multiplier else median_times steps unit)"

abbreviation read_field :: "bytes \<Rightarrow> bif_error + (int \<times> bytes)" where
  "read_field \<equiv> read_u32 Struct_Error"

definition read_entry :: "bytes \<Rightarrow> bif_error + ((int \<times> int) \<times> bytes)" where
  "read_entry = dec_pair read_field read_field"

definition read_bif_metadata :: "fs \<Rightarrow> string \<Rightarrow> bif_error + bif_metadata" where
  "read_bif_metadata fs path =
     (case fs path of
        None \<Rightarrow> Inl File_Not_Found
      | Some file \<Rightarrow>
          if take 8 file \<noteq> BIF_MAGIC then Inl Bad_Magic
          else
            bindE (read_field (drop 8 file)) (\<lambda>(version, r1).
            bindE (read_field r1) (\<lambda>(frame_count, r2).
            bindE (read_field r2) (\<lambda>(multiplier_ms, r3).
            bindE (read_many read_entry (nat frame_count) (drop HEADER_SIZE file)) (\<lambda>(table, r4).
            bindE (read_field r4) (\<lambda>(sentinel_ts, r5).
            bindE (read_field r5) (\<lambda>(end_offset, r6).
              if sentinel_ts \<noteq> SENTINEL_TIMESTAMP then Inl Missing_Sentinel
              else
                (let timestamps = map fst table;
                     offsets = map snd table;
                     all_offsets = offsets @ [end_offset];
                     sizes = map (\<lambda>i. all_offsets ! (i + 1) - all_offsets ! i) [0..<length offsets]
                 in Inr \<lparr>bm_path = path, bm_version = version, bm_frame_count = frame_count,
                         bm_frame_interval_ms = interval_from_index multiplier_ms timestamps,
                         bm_file_size = length file, bm_frame_offsets = offsets,
                         bm_frame_sizes = sizes, bm_header_interval_ms = multiplier_ms\<rparr>))))))))"

text \<open>\<open>f.seek(offset); f.read(size)\<close>: a negative size reads to the end of the file.\<close>

definition read_at :: "bytes \<Rightarrow> int \<Rightarrow> int \<Rightarrow> bytes" where
  "read_at file offset sz =
     (let rest = drop (nat offset) file in if sz < 0 then rest else take (nat sz) rest)"

text \<open>\<open>f"{n:05d}.jpg"\<close>.\<close>

definition frame_name :: "nat \<Rightarrow> string" where
  "frame_name n = (let s = show_nat n in replicate (5 - length s) CHR ''0'' @ s @ ''.jpg'')"

text \<open>The number of frames, and the files written in order (name within \<open>out_dir\<close>, bytes).\<close>

definition unpack_bif_to_jpegs :: "fs \<Rightarrow> string \<Rightarrow> bif_error + (int \<times> (string \<times> bytes) list)" where
  "unpack_bif_to_jpegs fs path =
     bindE (read_bif_metadata fs path) (\<lambda>md.
       if bm_frame_count md \<le> 0 then Inr (0, [])
       else case fs path of
              None \<Rightarrow> Inl File_Not_Found
            | Some file \<Rightarrow>
                Inr (bm_frame_count md,
                     map (\<lambda>idx. (frame_name (idx + 1),
                                 read_at file (bm_frame_offsets md ! idx) (bm_frame_sizes md ! idx)))
                       [0..<nat (bm_frame_count md)]))"

definition read_bif_frame :: "fs \<Rightarrow> string \<Rightarrow> int \<Rightarrow> bif_metadata option \<Rightarrow> bif_error + bytes" where
  "read_bif_frame fs path index metadata =
     bindE (case metadata of None \<Rightarrow> read_bif_metadata fs path | Some md \<Rightarrow> Inr md) (\<lambda>md.
       if index < 0 \<or> index \<ge> bm_frame_count md then Inl Frame_Index_Error
       else case fs path of
              None \<Rightarrow> Inl File_Not_Found
            | Some file \<Rightarrow>
                Inr (read_at file (bm_frame_offsets md ! nat index) (bm_frame_sizes md ! nat index)))"

section \<open>The writer\<close>

text \<open>What the operating system does to one run of the writer.\<close>

record bif_io =
  io_can_list :: bool
  io_can_remove :: bool
  io_can_create :: bool
  io_no_stat :: "string set"
  io_unreadable :: "string set"
  io_write_fails :: "nat option"
  io_publish_raises :: bool
  io_replace_fails :: bool

text \<open>\<open>os.path.splitext(name)[1] == ".jpg"\<close> for a name without slashes.\<close>

definition splitext_ext :: "string \<Rightarrow> string" where
  "splitext_ext name =
     (let back = takeWhile (\<lambda>c. c \<noteq> CHR ''.'') (rev name);
          stem = take (length name - length back - 1) name
      in if CHR ''.'' \<in> set name \<and> (\<exists>c \<in> set stem. c \<noteq> CHR ''.'') then CHR ''.'' # rev back
         else [])"

definition bif_images :: "(string \<times> bytes) list \<Rightarrow> (string \<times> bytes) list" where
  "bif_images listing = sort_key fst (filter (\<lambda>(name, data). splitext_ext name = ''.jpg'') listing)"

definition pack_u32 :: "int \<Rightarrow> bif_error + bytes" where
  "pack_u32 n = (if fits_u32 n then Inr (le32 n) else Inl Struct_Error)"

text \<open>The loop over the images' sizes: its writes, and \<open>image_index\<close> after it.\<close>

fun index_loop ::
  "bif_io \<Rightarrow> int \<Rightarrow> int \<Rightarrow> (string \<times> bytes) list \<Rightarrow> (bif_error + bytes) list \<times> int" where
  "index_loop io timestamp image_index [] = ([], image_index)"
| "index_loop io timestamp image_index ((name, data) # images) =
     (let (writes, end_index) = index_loop io (timestamp + 1) (image_index + int (length data)) images
      in (if name \<in> io_no_stat io then Inl Permission_Denied # writes
          else pack_u32 timestamp # pack_u32 image_index # writes, end_index))"

definition bif_writes :: "bif_io \<Rightarrow> int \<Rightarrow> (string \<times> bytes) list \<Rightarrow> (bif_error + bytes) list" where
  "bif_writes io interval images =
     (let n = int (length images);
          (table, image_index) = index_loop io 0 (64 + (8 + 8 * n)) images
      in [Inr BIF_MAGIC, pack_u32 0, pack_u32 n, pack_u32 (1000 * interval),
          Inr (replicate 44 0)] @ table @ [pack_u32 SENTINEL_TIMESTAMP, pack_u32 image_index] @
         map (\<lambda>(name, data). if name \<in> io_unreadable io then Inl Permission_Denied else Inr data)
           images)"

text \<open>The bytes that reach the file, and the error that stopped the writes.\<close>

fun write_all :: "nat option \<Rightarrow> (bif_error + bytes) list \<Rightarrow> bytes \<times> bif_error option" where
  "write_all k [] = ([], None)"
| "write_all k (Inl e # ws) = ([], Some e)"
| "write_all k (Inr b # ws) =
     (if k = Some 0 then ([], Some Write_Error)
      else (let (bs, e) = write_all (map_option (\<lambda>n. n - 1) k) ws in (b @ bs, e)))"

text \<open>\<open>os.path.split\<close> and \<open>os.path.join\<close> of a folder and a relative name.\<close>

definition path_split :: "string \<Rightarrow> string \<times> string" where
  "path_split p =
     (let name = rev (takeWhile (\<lambda>c. c \<noteq> CHR ''/'') (rev p));
          head = take (length p - length name) p
      in (if \<forall>c \<in> set head. c = CHR ''/'' then head
          else rev (dropWhile (\<lambda>c. c = CHR ''/'') (rev head)), name))"

definition path_join :: "string \<Rightarrow> string \<Rightarrow> string" where
  "path_join folder name =
     (if folder = [] then name
      else if last folder = CHR ''/'' then folder @ name else folder @ ''/'' @ name)"

definition bif_temp_path :: "(string \<Rightarrow> string) \<Rightarrow> string \<Rightarrow> string" where
  "bif_temp_path sha1_hex bif_filename =
     (let (folder, name) = path_split bif_filename
      in path_join folder (''.'' @ take 16 (sha1_hex name) @ ''.bif-tmp''))"

definition remove_suffix :: "string \<Rightarrow> string \<Rightarrow> string" where
  "remove_suffix s suffix =
     (case strip_prefix (rev suffix) (rev s) of None \<Rightarrow> s | Some r \<Rightarrow> rev r)"

definition bif_unique_temp :: "(string \<Rightarrow> string) \<Rightarrow> string \<Rightarrow> string \<Rightarrow> string" where
  "bif_unique_temp sha1_hex uuid_hex bif_filename =
     remove_suffix (bif_temp_path sha1_hex bif_filename) ''.bif-tmp'' @ ''.'' @ uuid_hex @ ''.bif-tmp''"

text \<open>Removing a file whose removal may be refused, with the error suppressed.\<close>

definition try_remove :: "bif_io \<Rightarrow> string \<Rightarrow> fs \<Rightarrow> fs" where
  "try_remove io p fs = (if io_can_remove io then fs(p := None) else fs)"

definition generate_bif ::
  "(string \<Rightarrow> string) \<Rightarrow> string \<Rightarrow> bif_io \<Rightarrow> int \<Rightarrow> string \<Rightarrow> (string \<times> bytes) list \<Rightarrow> fs \<Rightarrow>
     fs \<times> (bif_error + unit)" where
  "generate_bif sha1_hex uuid_hex io interval bif_filename listing fs =
     (let images = bif_images listing;
          legacy = bif_temp_path sha1_hex bif_filename;
          tmp = bif_unique_temp sha1_hex uuid_hex bif_filename;
          fs1 = try_remove io legacy fs
      in if \<not> io_can_list io then (fs, Inl Permission_Denied)
         else if images = [] then (fs, Inl No_Thumbnails)
         else if \<not> io_can_create io then (fs1, Inl Permission_Denied)
         else if fs1 tmp \<noteq> None then (fs1, Inl File_Exists)
         else
           (let (written, failed) = write_all (io_write_fails io) (bif_writes io interval images);
                fs2 = fs1(tmp \<mapsto> written);
                dropped = try_remove io tmp fs2
            in case failed of
                 Some e \<Rightarrow> (dropped, Inl e)
               | None \<Rightarrow>
                   if io_publish_raises io then (dropped, Inl Publish_Refused)
                   else if io_replace_fails io then (dropped, Inl Replace_Failed)
                   else (fs2(bif_filename \<mapsto> written, tmp := None), Inr ())))"

end
