(* ===== verification/Bif_Claims.thy ===== *)
theory Bif_Claims
  imports Bif
begin

text \<open>
  What the BIF writer promises and the reader finds: a successful run leaves a file whose index
  and frames are the images, and a failed run leaves every file but its own temporary ones
  alone.
\<close>

section \<open>The index loop\<close>

fun offsets_from :: "int \<Rightarrow> bytes list \<Rightarrow> int list" where
  "offsets_from base [] = []"
| "offsets_from base (d # ds) = base # offsets_from (base + int (length d)) ds"

definition total_length :: "bytes list \<Rightarrow> int" where
  "total_length ds = int (length (concat ds))"

lemma total_length_simps [simp]:
  "total_length [] = 0" "total_length (d # ds) = int (length d) + total_length ds"
  by (simp_all add: total_length_def)

lemma length_offsets [simp]: "length (offsets_from base ds) = length ds"
  by (induction ds arbitrary: base) auto

lemma offsets_nth:
  "i < length ds \<Longrightarrow> offsets_from base ds ! i = base + total_length (take i ds)"
proof (induction ds arbitrary: base i)
  case (Cons d ds)
  then show ?case by (cases i) auto
qed simp

lemma offsets_end_nth:
  "i \<le> length ds \<Longrightarrow> (offsets_from base ds @ [base + total_length ds]) ! i = base + total_length (take i ds)"
  by (cases "i < length ds") (simp_all add: nth_append offsets_nth)

lemma offset_steps:
  assumes "i < length ds"
  shows "(offsets_from base ds @ [base + total_length ds]) ! (i + 1) -
    (offsets_from base ds @ [base + total_length ds]) ! i = int (length (ds ! i))"
proof -
  have "total_length (take (i + 1) ds) = total_length (take i ds) + int (length (ds ! i))"
    using assms by (simp add: take_Suc_conv_app_nth total_length_def)
  then show ?thesis
    using assms offsets_end_nth [of "i + 1" ds base] offsets_end_nth [of i ds base] by simp
qed

text \<open>A chain of writes without an error writes the concatenation of its chunks.\<close>

lemma write_all_ok:
  "write_all k ws = (bs, None) \<Longrightarrow> \<exists>cs. ws = map Inr cs \<and> concat cs = bs"
proof (induction k ws arbitrary: bs rule: write_all.induct)
  case (3 k b ws)
  from 3(2) have k: "k \<noteq> Some 0" by (auto split: if_splits)
  obtain bs' e where w: "write_all (map_option (\<lambda>n. n - 1) k) ws = (bs', e)" by force
  with 3(2) k have "e = None" "bs = b @ bs'" by simp_all
  moreover from 3(1) [OF k] w \<open>e = None\<close> obtain cs where "ws = map Inr cs" "concat cs = bs'" by blast
  ultimately show ?case by (intro exI [of _ "b # cs"]) simp
qed simp_all

lemma enc_pair_Pair [simp]: "enc_pair f g (a, b) = f a @ g b"
  by (simp add: enc_pair_def)

lemma pack_u32_Inr: "pack_u32 n = Inr b \<longleftrightarrow> fits_u32 n \<and> b = le32 n"
  by (auto simp: pack_u32_def)

lemma index_loop_ok:
  assumes "index_loop io ts base images = (ws, fin)"
  shows "fin = base + total_length (map snd images) \<and>
    (\<forall>cs. ws = map Inr cs \<longrightarrow>
      (let table = zip (map (\<lambda>i. ts + int i) [0..<length images]) (offsets_from base (map snd images))
       in concat cs = concat (map (enc_pair le32 le32) table) \<and>
          (\<forall>x \<in> set table. fits_u32 (fst x) \<and> fits_u32 (snd x))))"
  using assms
proof (induction images arbitrary: ts base ws fin)
  case Nil
  then show ?case by simp
next
  case (Cons im images)
  obtain name data where im: "im = (name, data)" by (cases im)
  obtain ws' where rec: "index_loop io (ts + 1) (base + int (length data)) images = (ws', fin)"
    and ws: "ws = (if name \<in> io_no_stat io then Inl Permission_Denied # ws'
      else pack_u32 ts # pack_u32 base # ws')"
    using Cons.prems by (auto simp: im split: prod.splits)
  note IH = Cons.IH [OF rec]
  have shift: "map (\<lambda>i. ts + int i) [0..<length (im # images)] =
      ts # map (\<lambda>i. (ts + 1) + int i) [0..<length images]"
    by (simp add: upt_conv_Cons map_Suc_upt [symmetric] algebra_simps del: upt_Suc)
  show ?case
  proof (intro conjI allI impI)
    show "fin = base + total_length (map snd (im # images))" using IH im by simp
    fix cs assume cs: "ws = map Inr cs"
    then obtain b1 b2 cs' where "cs = b1 # b2 # cs'" "ws' = map Inr cs'"
      "pack_u32 ts = Inr b1" "pack_u32 base = Inr b2"
      unfolding ws by (auto simp: Cons_eq_map_conv split: if_splits)
    with IH show "let table = zip (map (\<lambda>i. ts + int i) [0..<length (im # images)])
          (offsets_from base (map snd (im # images)))
       in concat cs = concat (map (enc_pair le32 le32) table) \<and>
          (\<forall>x \<in> set table. fits_u32 (fst x) \<and> fits_u32 (snd x))"
      unfolding shift by (simp add: im Let_def pack_u32_Inr enc_pair_Pair)
  qed
qed

section \<open>The layout of a complete file\<close>

definition bif_table :: "bytes list \<Rightarrow> (int \<times> int) list" where
  "bif_table ds =
     zip (map int [0..<length ds]) (offsets_from (64 + (8 + 8 * int (length ds))) ds)"

definition bif_file :: "int \<Rightarrow> bytes list \<Rightarrow> bytes" where
  "bif_file interval ds =
     (BIF_MAGIC @ le32 0 @ le32 (int (length ds)) @ le32 (1000 * interval) @ replicate 44 0) @
     (concat (map (enc_pair le32 le32) (bif_table ds)) @
      (le32 SENTINEL_TIMESTAMP @ le32 (64 + (8 + 8 * int (length ds)) + total_length ds))) @ concat ds"

definition bif_fits :: "int \<Rightarrow> bytes list \<Rightarrow> bool" where
  "bif_fits interval ds \<longleftrightarrow>
     fits_u32 (int (length ds)) \<and> fits_u32 (1000 * interval) \<and>
     (\<forall>x \<in> set (bif_table ds). fits_u32 (fst x) \<and> fits_u32 (snd x)) \<and>
     fits_u32 (64 + (8 + 8 * int (length ds)) + total_length ds)"

lemma image_data_ok:
  "map (\<lambda>(name, data). if name \<in> S then Inl e else Inr data) images = map Inr cs \<Longrightarrow>
     cs = map snd images"
  by (induction images arbitrary: cs) (auto simp: Cons_eq_map_conv split: if_splits)

lemma bif_writes_ok:
  assumes "write_all k (bif_writes io interval images) = (bs, None)"
  shows "bs = bif_file interval (map snd images) \<and> bif_fits interval (map snd images)"
proof -
  let ?n = "int (length images)"
  obtain table fin where loop: "index_loop io 0 (64 + (8 + 8 * ?n)) images = (table, fin)" by force
  from write_all_ok [OF assms] obtain cs where cs: "bif_writes io interval images = map Inr cs"
    and bs: "bs = concat cs" by metis
  then obtain b0 b1 b2 tcs s1 s2 dcs where
    split: "cs = BIF_MAGIC # b0 # b1 # b2 # replicate 44 0 # tcs @ [s1, s2] @ dcs"
    and t: "table = map Inr tcs"
    and p: "pack_u32 0 = Inr b0" "pack_u32 ?n = Inr b1" "pack_u32 (1000 * interval) = Inr b2"
      "pack_u32 SENTINEL_TIMESTAMP = Inr s1" "pack_u32 fin = Inr s2"
    and d: "map (\<lambda>(name, data). if name \<in> io_unreadable io then Inl Permission_Denied else Inr data)
        images = map Inr dcs"
    unfolding bif_writes_def Let_def loop
    by (auto simp: Cons_eq_map_conv append_eq_map_conv)
  note facts = index_loop_ok [OF loop] image_data_ok [OF d]
  have idx: "map (\<lambda>i. 0 + int i) [0..<length images] = map int [0..<length images]" by simp
  show ?thesis
    using facts t p unfolding bs split bif_file_def bif_fits_def bif_table_def idx
    by (simp add: Let_def pack_u32_Inr)
qed

lemma length_bif_table [simp]: "length (bif_table ds) = length ds"
  by (simp add: bif_table_def)

lemma bif_table_columns:
  "map fst (bif_table ds) = map int [0..<length ds]"
  "map snd (bif_table ds) = offsets_from (64 + (8 + 8 * int (length ds))) ds"
  by (simp_all add: bif_table_def)

lemma length_enc_table: "length (concat (map (enc_pair le32 le32) xs)) = 8 * length xs"
  by (induction xs) (simp_all add: enc_pair_def)

lemma bif_header_length:
  "length (BIF_MAGIC @ le32 a @ le32 b @ le32 c @ replicate 44 (0::byte)) = 64"
  by (simp add: BIF_MAGIC_def)

text \<open>Everything before the frames is as long as the index says.\<close>

lemma bif_file_frames:
  "\<exists>before. bif_file interval ds = before @ concat ds \<and>
     int (length before) = 64 + (8 + 8 * int (length ds))"
  unfolding bif_file_def
  by (intro exI conjI) (subst append_assoc [symmetric], rule refl,
      simp add: bif_header_length [simplified] length_enc_table BIF_MAGIC_def)

section \<open>Reading a complete file\<close>

lemma index_steps_count: "index_steps (map int [0..<n]) = replicate (n - 1) 1"
proof -
  have zip: "zip (map int [0..<n]) (drop 1 (map int [0..<n])) = map (\<lambda>i. (int i, int (i + 1))) [0..<n - 1]"
    by (rule nth_equalityI) auto
  have "index_steps (map int [0..<n]) = map (\<lambda>i. 1) [0..<n - 1]"
    unfolding index_steps_def zip by simp
  then show ?thesis by (simp add: map_replicate_const)
qed

lemma median_ones:
  assumes "0 < m" and "0 \<le> unit" and "unit < 2 ^ 53"
  shows "median_times (replicate m 1) unit = unit"
proof -
  have s: "sort (replicate m (1::int)) = replicate m 1" by (simp add: sorted_sort_id sorted_replicate)
  have i: "m div 2 < m" "m div 2 - 1 < m" using assms(1) by auto
  have "fl (of_int (1 + 1) / 2) = (1::rat)" using fl_whole [of 1] by simp
  with fl_whole [OF assms(2,3)] have "round_half_even (fl (fl (of_int (1 + 1) / 2) * of_int unit)) = unit"
    by simp
  with i show ?thesis by (simp add: median_times_def s Let_def)
qed

lemma interval_of_written:
  assumes "fits_u32 (1000 * interval)" and "1 \<le> interval"
  shows "interval_from_index (1000 * interval) (map int [0..<n]) = 1000 * interval"
proof (cases "2 \<le> n")
  case True
  have "1000 * interval < 2 ^ 53" using assms(1) by (simp add: fits_u32_def)
  then have "median_times (replicate (n - 1) 1) (1000 * interval) = 1000 * interval"
    using assms(2) True by (intro median_ones) auto
  with assms(2) show ?thesis by (simp add: interval_from_index_def index_steps_count Let_def)
qed (simp add: interval_from_index_def index_steps_count Let_def)

lemma read_entries:
  assumes "\<forall>x \<in> set table. fits_u32 (fst x) \<and> fits_u32 (snd x)"
  shows "read_many read_entry (length table) (concat (map (enc_pair le32 le32) table) @ s) = Inr (table, s)"
  unfolding read_entry_def by (rule u32_pair.pair.read_many_enc [OF assms])

lemma fits_sentinel [simp]: "fits_u32 SENTINEL_TIMESTAMP" "fits_u32 0"
  by (simp_all add: fits_u32_def SENTINEL_TIMESTAMP_def)

lemma length_magic [simp]: "length BIF_MAGIC = 8"
  by (simp add: BIF_MAGIC_def)

lemma read_complete_file:
  assumes fs: "fs path = Some (bif_file interval ds)" and fits: "bif_fits interval ds"
    and "1 \<le> interval"
  shows "read_bif_metadata fs path = Inr
    \<lparr>bm_path = path, bm_version = 0, bm_frame_count = int (length ds),
     bm_frame_interval_ms = 1000 * interval, bm_file_size = length (bif_file interval ds),
     bm_frame_offsets = offsets_from (64 + (8 + 8 * int (length ds))) ds,
     bm_frame_sizes = map (\<lambda>d. int (length d)) ds, bm_header_interval_ms = 1000 * interval\<rparr>"
proof -
  let ?file = "bif_file interval ds" and ?base = "64 + (8 + 8 * int (length ds))"
  let ?tail = "le32 SENTINEL_TIMESTAMP @ le32 (?base + total_length ds) @ concat ds"
  have table: "drop HEADER_SIZE ?file = concat (map (enc_pair le32 le32) (bif_table ds)) @ ?tail"
    unfolding bif_file_def HEADER_SIZE_def using bif_header_length by simp
  obtain rest where head: "drop 8 ?file = le32 0 @ le32 (int (length ds)) @ le32 (1000 * interval) @ rest"
    and magic: "take 8 ?file = BIF_MAGIC"
    by (simp add: bif_file_def)
  have entries: "read_many read_entry (nat (int (length ds))) (drop HEADER_SIZE ?file) =
      Inr (bif_table ds, ?tail)"
    using read_entries [of "bif_table ds"] fits unfolding table bif_fits_def by simp
  have sizes: "map (\<lambda>i. (offsets_from ?base ds @ [?base + total_length ds]) ! (i + 1) -
      (offsets_from ?base ds @ [?base + total_length ds]) ! i) [0..<length (offsets_from ?base ds)] =
      map (\<lambda>d. int (length d)) ds"
    by (rule nth_equalityI) (simp_all add: offset_steps [simplified])
  have iv: "interval_from_index (1000 * interval) (map fst (bif_table ds)) = 1000 * interval"
    using fits assms(3) by (simp add: bif_table_columns interval_of_written bif_fits_def)
  have f: "fits_u32 (int (length ds))" "fits_u32 (1000 * interval)" "fits_u32 (?base + total_length ds)"
    using fits by (simp_all add: bif_fits_def)
  show ?thesis
    unfolding read_bif_metadata_def fs
    by (simp only: option.case magic head entries f read_u32_le32 fits_sentinel bindE.simps prod.case
        if_False if_True simp_thms Let_def sizes iv bif_table_columns(2))
qed

lemma read_frame_at:
  assumes "i < length ds"
  shows "read_at (bif_file interval ds) (offsets_from (64 + (8 + 8 * int (length ds))) ds ! i)
    (int (length (ds ! i))) = ds ! i"
proof -
  let ?base = "64 + (8 + 8 * int (length ds))"
  obtain before where whole: "bif_file interval ds = before @ concat ds" and len: "int (length before) = ?base"
    using bif_file_frames by blast
  have "nat (offsets_from ?base ds ! i) = length before + length (concat (take i ds))"
    using assms len by (simp add: offsets_nth total_length_def del: length_concat)
  moreover have "concat ds = concat (take i ds) @ ds ! i @ concat (drop (Suc i) ds)"
    by (metis assms concat.simps(2) concat_append id_take_nth_drop)
  ultimately show ?thesis unfolding whole read_at_def Let_def
    by (simp del: length_concat)
qed

lemma frames_of_file:
  "map (\<lambda>idx. (frame_name (idx + 1), read_at (bif_file interval ds)
      (offsets_from (64 + (8 + 8 * int (length ds))) ds ! idx)
      (map (\<lambda>d. int (length d)) ds ! idx))) [0..<nat (int (length ds))] =
    zip (map (\<lambda>i. frame_name (i + 1)) [0..<length ds]) ds"
  by (rule nth_equalityI) (simp_all add: read_frame_at [simplified])

section \<open>The temporary name is never the target\<close>

lemma last_unique_temp [simp]: "last (bif_unique_temp sha1_hex uuid_hex p) = CHR ''p''"
  by (simp add: bif_unique_temp_def)

lemma last_temp_path [simp]: "last (bif_temp_path sha1_hex p) = CHR ''p''"
  by (simp add: bif_temp_path_def path_join_def split_beta)

section \<open>Properties\<close>

text \<open>
  C12: what \<open>generate_bif\<close> writes, the reader finds.  After a run that returns, with an interval
  of a second or more, the target parses as a version 0 file with one frame per image, the
  interval in milliseconds both as the header's field and as the time between frames, and
  unpacking it gives the images' bytes, in the order of their names, numbered from 00001.jpg.
\<close>

theorem generate_bif_roundtrip:
  assumes run: "generate_bif sha1_hex uuid_hex io interval target listing fs = (fs', Inr ())"
    and "1 \<le> interval" and "last target \<noteq> CHR ''p''"
  shows "\<exists>md. read_bif_metadata fs' target = Inr md \<and> bm_version md = 0 \<and>
    bm_frame_count md = int (length (bif_images listing)) \<and>
    bm_frame_interval_ms md = 1000 * interval \<and> bm_header_interval_ms md = 1000 * interval \<and>
    unpack_bif_to_jpegs fs' target =
      Inr (int (length (bif_images listing)),
           zip (map (\<lambda>i. frame_name (i + 1)) [0..<length (bif_images listing)])
             (map snd (bif_images listing)))"
proof -
  let ?ds = "map snd (bif_images listing)" and ?tmp = "bif_unique_temp sha1_hex uuid_hex target"
  obtain written where w: "write_all (io_write_fails io) (bif_writes io interval (bif_images listing))
      = (written, None)"
    and fs': "fs' = (try_remove io (bif_temp_path sha1_hex target) fs)(?tmp \<mapsto> written, target \<mapsto> written, ?tmp := None)"
    and ne: "bif_images listing \<noteq> []"
    using run by (auto simp: generate_bif_def Let_def split: if_splits prod.splits option.splits)
  have "target \<noteq> ?tmp" using assms(3) last_unique_temp by metis
  then have at: "fs' target = Some (bif_file interval ?ds)"
    using bif_writes_ok [OF w] by (simp add: fs')
  note md = read_complete_file [where fs = fs' and path = target, OF at conjunct2 [OF bif_writes_ok [OF w]] assms(2)]
  note frames = frames_of_file [of interval ?ds]
  have "unpack_bif_to_jpegs fs' target = Inr (int (length ?ds),
      zip (map (\<lambda>i. frame_name (i + 1)) [0..<length ?ds]) ?ds)"
    unfolding unpack_bif_to_jpegs_def md at using ne frames by simp
  with md show ?thesis by simp
qed

text \<open>
  C37: a run of \<open>generate_bif\<close> that raises, at whatever point (the listing, a field that does not
  fit 32 bits, an unreadable image, a failed write, the check before publishing, the rename),
  leaves the target and every other file as they were; only its own two temporary names can
  change.  A folder without thumbnails is such a run and changes nothing at all.
\<close>

theorem generate_bif_failure_keeps_files:
  assumes "generate_bif sha1_hex uuid_hex io interval target listing fs = (fs', Inl e)"
  shows "(q = bif_temp_path sha1_hex target \<or> q = bif_unique_temp sha1_hex uuid_hex target \<or> fs' q = fs q) \<and>
    (e = No_Thumbnails \<longrightarrow> fs' = fs)"
proof -
  have not_empty: "write_all k ws = (bs, Some No_Thumbnails) \<Longrightarrow> Inl No_Thumbnails \<in> set ws" for k ws bs
    by (induction k ws arbitrary: bs rule: write_all.induct) (auto split: if_splits prod.splits)
  have loop: "index_loop io ts base images = (ws, fin) \<Longrightarrow> Inl No_Thumbnails \<notin> set ws" for ts base images ws fin
    by (induction images arbitrary: ts base ws fin)
      (auto simp: pack_u32_def split: if_splits prod.splits)
  have "Inl No_Thumbnails \<notin> set (bif_writes io interval images)" for images
    by (auto simp: bif_writes_def Let_def pack_u32_def dest: loop [OF sym] split: prod.splits if_splits)
  with assms not_empty show ?thesis
    by (auto simp: generate_bif_def Let_def try_remove_def split: if_splits prod.splits option.splits)
qed

section \<open>Witnesses\<close>

definition sample_io :: bif_io where
  "sample_io = \<lparr>io_can_list = True, io_can_remove = True, io_can_create = True, io_no_stat = {},
     io_unreadable = {}, io_write_fails = None, io_publish_raises = False, io_replace_fails = False\<rparr>"

definition sample_listing :: "(string \<times> bytes) list" where
  "sample_listing = [(''2.jpg'', [7, 8, 9]), (''1.jpg'', [1, 2]), (''notes.txt'', [0])]"

lemma sample_run:
  "generate_bif (\<lambda>x. ''aa'') ''u1'' sample_io 2 ''/m/x.bif'' sample_listing Map.empty =
     (fst (generate_bif (\<lambda>x. ''aa'') ''u1'' sample_io 2 ''/m/x.bif'' sample_listing Map.empty), Inr ())"
proof -
  have "snd (generate_bif (\<lambda>x. ''aa'') ''u1'' sample_io 2 ''/m/x.bif'' sample_listing Map.empty) = Inr ()"
    by code_simp
  then show ?thesis by (metis prod.collapse)
qed

theorem generate_bif_roundtrip_witness:
  "\<exists>fs'. unpack_bif_to_jpegs fs' ''/m/x.bif'' =
     Inr (2, [(''00001.jpg'', [1, 2]), (''00002.jpg'', [7, 8, 9])])"
proof -
  have images: "bif_images sample_listing = [(''1.jpg'', [1, 2]), (''2.jpg'', [7, 8, 9])]" by code_simp
  have names: "frame_name (Suc 0) = ''00001.jpg''" "frame_name (Suc (Suc 0)) = ''00002.jpg''"
    by code_simp+
  from generate_bif_roundtrip [OF sample_run] show ?thesis unfolding images by (auto simp: names)
qed

theorem generate_bif_failure_keeps_files_witness:
  "\<exists>fs'. generate_bif (\<lambda>x. ''aa'') ''u1'' (sample_io\<lparr>io_write_fails := Some 3\<rparr>) 2 ''/m/x.bif''
     sample_listing [''/m/x.bif'' \<mapsto> [1, 2, 3]] = (fs', Inl Write_Error) \<and> fs' ''/m/x.bif'' = Some [1, 2, 3]"
proof -
  let ?run = "generate_bif (\<lambda>x. ''aa'') ''u1'' (sample_io\<lparr>io_write_fails := Some 3\<rparr>) 2 ''/m/x.bif''
     sample_listing [''/m/x.bif'' \<mapsto> [1, 2, 3]]"
  have "snd ?run = Inl Write_Error" by code_simp
  then have run: "?run = (fst ?run, Inl Write_Error)" by (metis prod.collapse)
  have "''/m/x.bif'' \<noteq> bif_temp_path (\<lambda>x. ''aa'') ''/m/x.bif''"
    "''/m/x.bif'' \<noteq> bif_unique_temp (\<lambda>x. ''aa'') ''u1'' ''/m/x.bif''"
    by code_simp+
  with generate_bif_failure_keeps_files [OF run, of "''/m/x.bif''"] have "fst ?run ''/m/x.bif'' = Some [1, 2, 3]"
    by simp
  with run show ?thesis by blast
qed

end
