(* ===== verification/Py_Values.thy ===== *)
theory Py_Values
  imports Prelude
begin

text \<open>
  The Python values that JSON settings hold, and what the sources do with a value whose type
  they do not know yet: truth, equality, \<open>dict.get\<close>, \<open>str.strip\<close>, \<open>str.lower\<close>, \<open>int(text)\<close> and
  zero-padded numbers.  A float is the rational it stands for.  Characters are those of
  Latin-1; white space and digits are Python's within that range.
\<close>

section \<open>Values\<close>

datatype json =
    JNull | JBool bool | JInt int | JFloat rat | JStr string
  | JList "json list" | JObj "(string \<times> json) list"

fun truthy :: "json \<Rightarrow> bool" where
  "truthy JNull = False"
| "truthy (JBool b) = b"
| "truthy (JInt i) = (i \<noteq> 0)"
| "truthy (JFloat r) = (r \<noteq> 0)"
| "truthy (JStr s) = (s \<noteq> [])"
| "truthy (JList xs) = (xs \<noteq> [])"
| "truthy (JObj kvs) = (kvs \<noteq> [])"

fun as_number :: "json \<Rightarrow> rat option" where
  "as_number (JBool b) = Some (if b then 1 else 0)"
| "as_number (JInt i) = Some (of_int i)"
| "as_number (JFloat r) = Some r"
| "as_number _ = None"

text \<open>\<open>a == b\<close>: numbers by value (a bool is a number), dictionaries whatever their order.\<close>

function py_eq :: "json \<Rightarrow> json \<Rightarrow> bool" where
  "py_eq (JList xs) b =
     (case b of JList ys \<Rightarrow> length xs = length ys \<and> (\<forall>(x, y) \<in> set (zip xs ys). py_eq x y)
      | _ \<Rightarrow> False)"
| "py_eq (JObj kvs) b =
     (case b of
        JObj kws \<Rightarrow> length kvs = length kws \<and>
          (\<forall>(k, v) \<in> set kvs. case map_of kws k of None \<Rightarrow> False | Some w \<Rightarrow> py_eq v w)
      | _ \<Rightarrow> False)"
| "py_eq JNull b = (b = JNull)"
| "py_eq (JStr s) b = (b = JStr s)"
| "py_eq (JBool p) b = (as_number b = as_number (JBool p))"
| "py_eq (JInt i) b = (as_number b = as_number (JInt i))"
| "py_eq (JFloat r) b = (as_number b = as_number (JFloat r))"
  by pat_completeness auto
termination
proof (relation "measure (\<lambda>(a, b). size a)")
  fix xs ys :: "json list" and z x y
  assume "z \<in> set (zip xs ys)" "(x, y) = z"
  then have "x \<in> set xs" by (metis set_zip_leftD)
  then show "((x, y), JList xs, b) \<in> measure (\<lambda>(a, b). size a)" for b
    by (simp add: size_list_estimation' less_Suc_eq_le)
next
  fix kvs kws :: "(string \<times> json) list" and z k v w
  assume "z \<in> set kvs" "(k, v) = z"
  then have "size v \<le> size_list (size_prod (\<lambda>_. 0) size) kvs"
    by (intro size_list_estimation' [of z]) auto
  then show "((v, w), JObj kvs, b) \<in> measure (\<lambda>(a, b). size a)" for b
    by (simp add: less_Suc_eq_le)
qed simp

text \<open>\<open>d.get(key)\<close>, \<open>key in d\<close> and \<open>d.get(key, default)\<close> on the pairs of a dictionary.\<close>

definition get :: "(string \<times> json) list \<Rightarrow> string \<Rightarrow> json" where
  "get kvs k = (case map_of kvs k of None \<Rightarrow> JNull | Some v \<Rightarrow> v)"

definition has_key :: "(string \<times> json) list \<Rightarrow> string \<Rightarrow> bool" where
  "has_key kvs k \<longleftrightarrow> map_of kvs k \<noteq> None"

definition get_default :: "(string \<times> json) list \<Rightarrow> string \<Rightarrow> json \<Rightarrow> json" where
  "get_default kvs k d = (case map_of kvs k of None \<Rightarrow> d | Some v \<Rightarrow> v)"

section \<open>Text\<close>

definition code :: "char \<Rightarrow> nat" where
  "code c = of_char c"

definition is_space :: "char \<Rightarrow> bool" where
  "is_space c \<longleftrightarrow> code c \<in> {9, 10, 11, 12, 13, 28, 29, 30, 31, 32, 133, 160}"

definition strip :: "string \<Rightarrow> string" where
  "strip s = rev (dropWhile is_space (rev (dropWhile is_space s)))"

definition lower_char :: "char \<Rightarrow> char" where
  "lower_char c =
     (if (65 \<le> code c \<and> code c \<le> 90) \<or> (192 \<le> code c \<and> code c \<le> 222 \<and> code c \<noteq> 215)
      then char_of (code c + 32) else c)"

definition lower :: "string \<Rightarrow> string" where
  "lower s = map lower_char s"

text \<open>\<open>int(text)\<close>: white space around it, a sign, digits with single underscores between them.\<close>

fun int_digits :: "string \<Rightarrow> string option" where
  "int_digits [] = None"
| "int_digits [c] = (if is_digit c then Some [c] else None)"
| "int_digits (c # d # s) =
     (if \<not> is_digit c then None
      else if d = CHR ''_'' then map_option (Cons c) (int_digits s)
      else map_option (Cons c) (int_digits (d # s)))"

definition py_int :: "string \<Rightarrow> int option" where
  "py_int text =
     (let s = strip text in
      if s \<noteq> [] \<and> hd s = CHR ''-'' then map_option (\<lambda>ds. - int (read_nat ds)) (int_digits (tl s))
      else map_option (\<lambda>ds. int (read_nat ds))
             (int_digits (if s \<noteq> [] \<and> hd s = CHR ''+'' then tl s else s)))"

text \<open>\<open>f"{n:02d}"\<close> for a number that is not negative.\<close>

definition pad2 :: "int \<Rightarrow> string" where
  "pad2 n = (let s = show_nat (nat n) in replicate (2 - length s) CHR ''0'' @ s)"

section \<open>Lemmas\<close>

lemma is_digit_not_space: "is_digit c \<Longrightarrow> \<not> is_space c"
  by (auto simp: is_digit_def is_space_def code_def)

lemma strip_no_space:
  assumes "s = [] \<or> \<not> is_space (hd s)" and "s = [] \<or> \<not> is_space (last s)"
  shows "strip s = s"
proof (cases "s = []")
  case False
  then have "dropWhile is_space s = s" using assms(1) by (cases s) auto
  moreover have "dropWhile is_space (rev s) = rev s"
    using False assms(2) by (cases s rule: rev_cases) auto
  ultimately show ?thesis by (simp add: strip_def)
qed (simp add: strip_def)

lemma int_digits_all: "s \<noteq> [] \<Longrightarrow> \<forall>c \<in> set s. is_digit c \<Longrightarrow> int_digits s = Some s"
proof (induction s rule: int_digits.induct)
  case (3 c d s)
  have "\<not> is_digit (CHR ''_'')" by (simp add: is_digit_def)
  with 3 show ?case by auto
qed auto

lemma py_int_digits:
  assumes "s \<noteq> []" and "\<forall>c \<in> set s. is_digit c"
  shows "py_int s = Some (int (read_nat s))"
proof -
  have "strip s = s"
    using assms by (intro strip_no_space) (auto simp: is_digit_not_space hd_in_set last_in_set)
  moreover have "\<not> is_digit (CHR ''-'')" "\<not> is_digit (CHR ''+'')" by (simp_all add: is_digit_def)
  then have "hd s \<noteq> CHR ''-''" "hd s \<noteq> CHR ''+''" using assms hd_in_set by metis+
  ultimately show ?thesis using assms by (simp add: py_int_def int_digits_all Let_def)
qed

lemma pad2_digits: "\<forall>c \<in> set (pad2 n). is_digit c" "pad2 n \<noteq> []"
  using show_nat_digits [of "nat n"]
  by (auto simp: pad2_def Let_def is_digit_def)

lemma read_nat_zeros: "read_nat (replicate k CHR ''0'' @ s) = read_nat s"
proof -
  have "foldl (\<lambda>n c. 10 * n + digit_value c) 0 (replicate k CHR ''0'') = 0"
    by (induction k) (simp_all add: digit_value_def)
  then show ?thesis by (simp add: read_nat_def)
qed

lemma read_pad2 [simp]: "0 \<le> n \<Longrightarrow> int (read_nat (pad2 n)) = n"
  by (simp add: pad2_def Let_def read_nat_zeros)

lemma py_int_pad2 [simp]: "0 \<le> n \<Longrightarrow> py_int (pad2 n) = Some n"
  using py_int_digits [OF pad2_digits(2,1)] by simp

end
