(* ===== verification/Worker_Groups.thy ===== *)
theory Worker_Groups
  imports Speed Py_Values
begin

unbundle bit_operations_syntax

text \<open>
  Worker groups (\<open>worker_groups.py\<close>): the saved shape, the flat policies the runtime works on,
  weekly availability as a bit mask of minutes, peak capacity by a sweep over the masks'
  intervals, and the next opening.  A saved group is a record; an absent key is \<open>None\<close>.
  A ValueError of the clock arithmetic is \<open>None\<close>.  Time zones are a parameter: the wall-clock
  minute of the week of the instant so many elapsed minutes from now.
\<close>

section \<open>Data\<close>

definition JOB_KIND_PREVIEWS :: string where "JOB_KIND_PREVIEWS = ''previews''"

definition JOB_KIND_INTRO_CREDITS :: string where "JOB_KIND_INTRO_CREDITS = ''intro_credits''"

definition JOB_KIND_LOUDNESS :: string where "JOB_KIND_LOUDNESS = ''loudness''"

definition JOB_KINDS :: "string list" where
  "JOB_KINDS = [JOB_KIND_PREVIEWS, JOB_KIND_INTRO_CREDITS, JOB_KIND_LOUDNESS]"

definition MAX_CPU_WORKERS :: int where "MAX_CPU_WORKERS = 64"

definition MAX_GPU_WORKERS :: int where "MAX_GPU_WORKERS = 64"

definition MAX_GROUPS :: nat where "MAX_GROUPS = 64"

definition MAX_MEMBERS :: nat where "MAX_MEMBERS = 8"

definition LEGACY_MEMBER_ID :: string where "LEGACY_MEMBER_ID = ''m1''"

definition WEEK_MINUTES :: nat where "WEEK_MINUTES = 7 * 24 * 60"

definition ALL_WEEK :: int where "ALL_WEEK = push_bit WEEK_MINUTES 1 - 1"

record window =
  w_days :: "int list"
  w_start :: string
  w_end :: string

record availability =
  a_mode :: string
  a_windows :: "window list"

record group_member =
  gm_id :: string
  gm_resource :: string
  gm_device :: "string option"
  gm_count :: int
  gm_job_types :: "string list"
  gm_node :: "string option"

record worker_group =
  g_id :: string
  g_name :: string
  g_enabled :: bool
  g_availability :: availability
  g_members :: "group_member list"

record policy =
  p_id :: string
  p_group_id :: string
  p_member_id :: string
  p_name :: string
  p_enabled :: bool
  p_availability :: availability
  p_resource :: string
  p_device :: "string option"
  p_count :: int
  p_job_types :: "string list"
  p_node :: "string option"

text \<open>A group as an older release saved it: one device, its fields on the group.\<close>

record flat_group =
  fg_id :: string
  fg_name :: "string option"
  fg_enabled :: "bool option"
  fg_availability :: "availability option"
  fg_resource :: string
  fg_device :: "string option"
  fg_count :: int
  fg_job_types :: "string list option"
  fg_node :: "string option"

datatype group_entry = Saved worker_group | Flat flat_group | Already policy

section \<open>Policies\<close>

definition member_resource_key :: "string \<Rightarrow> string option \<Rightarrow> string option \<Rightarrow> string" where
  "member_resource_key resource device node =
     (let local = (if resource = ''cpu'' then ''cpu''
                   else ''gpu:'' @ (case device of None \<Rightarrow> ''None'' | Some d \<Rightarrow> d))
      in case node of
           None \<Rightarrow> local
         | Some n \<Rightarrow> if n = [] then local else ''node:'' @ n @ '':'' @ local)"

definition ALWAYS :: availability where
  "ALWAYS = \<lparr>a_mode = ''always'', a_windows = []\<rparr>"

definition policy_of :: "string \<Rightarrow> string \<Rightarrow> bool \<Rightarrow> availability \<Rightarrow> group_member \<Rightarrow> policy" where
  "policy_of gid name enabled availability m =
     \<lparr>p_id = gid @ '':'' @ gm_id m, p_group_id = gid, p_member_id = gm_id m, p_name = name,
      p_enabled = enabled, p_availability = availability, p_resource = gm_resource m,
      p_device = gm_device m, p_count = gm_count m, p_job_types = gm_job_types m,
      p_node = gm_node m\<rparr>"

fun entry_policies :: "group_entry \<Rightarrow> policy list" where
  "entry_policies (Already p) = [p]"
| "entry_policies (Saved g) =
     map (policy_of (g_id g) (g_name g) (g_enabled g) (g_availability g)) (g_members g)"
| "entry_policies (Flat f) =
     [policy_of (fg_id f) (case fg_name f of None \<Rightarrow> fg_id f | Some n \<Rightarrow> n)
        (case fg_enabled f of None \<Rightarrow> True | Some e \<Rightarrow> e)
        (case fg_availability f of None \<Rightarrow> ALWAYS | Some a \<Rightarrow> a)
        \<lparr>gm_id = LEGACY_MEMBER_ID, gm_resource = fg_resource f, gm_device = fg_device f,
         gm_count = fg_count f,
         gm_job_types = (case fg_job_types f of None \<Rightarrow> [] | Some ks \<Rightarrow> ks),
         gm_node = fg_node f\<rparr>]"

definition member_policies :: "group_entry list \<Rightarrow> policy list" where
  "member_policies groups = concat (map entry_policies groups)"

definition group_resource_key :: "group_entry \<Rightarrow> string option" where
  "group_resource_key g =
     (case g of
        Saved _ \<Rightarrow>
          (case member_policies [g] of
             [p] \<Rightarrow> Some (member_resource_key (p_resource p) (p_device p) (p_node p))
           | _ \<Rightarrow> None)
      | Flat f \<Rightarrow> Some (member_resource_key (fg_resource f) (fg_device f) (fg_node f))
      | Already p \<Rightarrow> Some (member_resource_key (p_resource p) (p_device p) (p_node p)))"

definition policy_supports_job :: "policy \<Rightarrow> string \<Rightarrow> bool" where
  "policy_supports_job p kind \<longleftrightarrow>
     kind \<in> set JOB_KINDS \<and> kind \<in> set (p_job_types p) \<and>
     (kind \<noteq> JOB_KIND_LOUDNESS \<or> p_resource p = ''cpu'')"

definition supports_job :: "group_entry \<Rightarrow> string \<Rightarrow> bool" where
  "supports_job g kind =
     (case g of
        Already p \<Rightarrow> policy_supports_job p kind
      | _ \<Rightarrow> \<exists>p \<in> set (member_policies [g]). policy_supports_job p kind)"

definition legacy_group_view :: "worker_group \<Rightarrow> group_member option" where
  "legacy_group_view g = (case g_members g of [m] \<Rightarrow> Some m | _ \<Rightarrow> None)"

section \<open>Weekly availability\<close>

definition minute_of :: "string \<Rightarrow> int option" where
  "minute_of value =
     (case split_on CHR '':'' value of
        [hour, minute] \<Rightarrow> do { h \<leftarrow> py_int hour; m \<leftarrow> py_int minute; Some (h * 60 + m) }
      | _ \<Rightarrow> None)"

definition day_segment :: "int \<Rightarrow> int \<Rightarrow> int \<Rightarrow> int" where
  "day_segment start duration day =
     (let segment = push_bit (nat (day * 1440 + start)) (push_bit (nat duration) 1 - 1)
      in (segment AND ALL_WEEK) OR drop_bit WEEK_MINUTES segment)"

definition window_mask :: "int \<Rightarrow> window \<Rightarrow> int option" where
  "window_mask wmask w = do {
     start \<leftarrow> minute_of (w_start w);
     end \<leftarrow> minute_of (w_end w);
     if \<exists>day \<in> set (w_days w). day * 1440 + start < 0 then None
     else Some (foldl (\<lambda>m day. m OR day_segment start ((end - start) mod 1440) day) wmask (w_days w))
   }"

fun windows_mask :: "int \<Rightarrow> window list \<Rightarrow> int option" where
  "windows_mask wmask [] = Some wmask"
| "windows_mask wmask (w # ws) = do { m \<leftarrow> window_mask wmask w; windows_mask m ws }"

definition group_weekly_mask :: "bool \<Rightarrow> availability \<Rightarrow> int option" where
  "group_weekly_mask enabled availability =
     (if \<not> enabled then Some 0
      else if a_mode availability = ''always'' then Some ALL_WEEK
      else windows_mask 0 (a_windows availability))"

definition clock_minute :: "int \<Rightarrow> int \<Rightarrow> int \<Rightarrow> int" where
  "clock_minute weekday hour minute = weekday * 1440 + hour * 60 + minute"

definition group_is_available :: "bool \<Rightarrow> availability \<Rightarrow> nat \<Rightarrow> bool option" where
  "group_is_available enabled availability now =
     (if \<not> enabled then Some False
      else if a_mode availability = ''always'' then Some True
      else map_option (\<lambda>wmask. wmask AND push_bit now 1 \<noteq> 0)
             (group_weekly_mask enabled availability))"

text \<open>
  \<open>next_mask_opening\<close>: \<open>clock i\<close> is the wall-clock minute of the week \<open>i\<close> elapsed minutes after
  the current minute; the answer is how many elapsed minutes to wait.
\<close>

fun search_opening :: "int \<Rightarrow> (nat \<Rightarrow> nat) \<Rightarrow> nat \<Rightarrow> nat \<Rightarrow> nat option" where
  "search_opening wmask clock 0 i = None"
| "search_opening wmask clock (Suc fuel) i =
     (if wmask AND push_bit (clock i) 1 \<noteq> 0 then Some i else search_opening wmask clock fuel (i + 1))"

definition next_mask_opening :: "int \<Rightarrow> (nat \<Rightarrow> nat) \<Rightarrow> nat option" where
  "next_mask_opening wmask clock =
     (if wmask = 0 then None
      else if wmask AND push_bit (clock 0) 1 \<noteq> 0 then Some 0
      else search_opening wmask clock (15 * 1440) 1)"

definition next_group_opening :: "bool \<Rightarrow> availability \<Rightarrow> (nat \<Rightarrow> nat) \<Rightarrow> nat option option" where
  "next_group_opening enabled availability clock =
     map_option (\<lambda>wmask. next_mask_opening wmask clock) (group_weekly_mask enabled availability)"

section \<open>Bits of the masks\<close>

lemma ones_eq_mask: "push_bit n 1 - 1 = (mask n :: int)"
  by (simp add: mask_eq_exp_minus_1 push_bit_of_1)

lemma test_bit: "m AND push_bit k 1 \<noteq> (0::int) \<longleftrightarrow> bit m k"
proof -
  have "m AND push_bit k 1 = (if bit m k then push_bit k 1 else 0)"
    by (rule bit_eqI) (auto simp: bit_simps)
  moreover have "push_bit k 1 \<noteq> (0::int)" by (simp add: push_bit_of_1)
  ultimately show ?thesis by simp
qed

lemma test_bit_exp: "m AND 2 ^ k = (0::int) \<longleftrightarrow> \<not> bit m k"
  using test_bit [of m k] unfolding push_bit_of_1 by blast

lemma bit_ALL_WEEK [simp]: "bit ALL_WEEK t \<longleftrightarrow> t < WEEK_MINUTES"
  unfolding ALL_WEEK_def ones_eq_mask by (simp only: bit_mask_iff possible_bit_int simp_thms)

lemma bit_run: "bit (push_bit k (push_bit n 1 - 1) :: int) t \<longleftrightarrow> k \<le> t \<and> t < k + n"
  unfolding ones_eq_mask by (auto simp: bit_push_bit_iff bit_mask_iff)

text \<open>A minute of the week inside a window that opens on a day and may run past the week's end.\<close>

definition in_window :: "nat \<Rightarrow> int \<Rightarrow> int \<Rightarrow> int \<Rightarrow> bool" where
  "in_window t start duration day \<longleftrightarrow>
     t < WEEK_MINUTES \<and> (int t - (day * 1440 + start)) mod int WEEK_MINUTES < duration"

lemma bit_day_segment:
  assumes "0 \<le> day" "day \<le> 6" "0 \<le> start" "start < 1440" "0 \<le> duration" "duration < 1440"
  shows "bit (day_segment start duration day) t \<longleftrightarrow> in_window t start duration day"
proof -
  let ?off = "day * 1440 + start"
  have off: "0 \<le> ?off" "?off < 10080" using assms by auto
  have "bit (day_segment start duration day) t \<longleftrightarrow>
      (?off \<le> int t \<and> int t < ?off + duration \<and> t < 10080) \<or>
      (?off \<le> int t + 10080 \<and> int t + 10080 < ?off + duration)"
    using off assms(5) unfolding day_segment_def Let_def bit_or_iff bit_and_iff bit_drop_bit_eq o_apply
      bit_run bit_ALL_WEEK
    by (auto simp: WEEK_MINUTES_def)
  also have "\<dots> \<longleftrightarrow> t < 10080 \<and> (int t - ?off) mod 10080 < duration"
  proof (cases "t < 10080")
    case True
    show ?thesis
    proof (cases "?off \<le> int t")
      case le: True
      then have "(int t - ?off) mod 10080 = int t - ?off" using True off by (intro mod_pos_pos_trivial) auto
      with le True assms off show ?thesis by auto
    next
      case False
      then have "(int t - ?off) mod 10080 = (int t - ?off + 10080) mod 10080" by simp
      also have "\<dots> = int t - ?off + 10080" using False off by (intro mod_pos_pos_trivial) auto
      finally show ?thesis using False True off by auto
    qed
  next
    case False
    with assms off show ?thesis by auto
  qed
  finally show ?thesis by (simp add: in_window_def WEEK_MINUTES_def)
qed

end
