(* ===== verification/Worker_Peak.thy ===== *)
theory Worker_Peak
  imports Worker_Groups
begin

text \<open>
  Peak capacity (\<open>_peak\<close>, \<open>configured_group_totals\<close>, \<open>configured_node_totals\<close>,
  \<open>future_capacity\<close> of \<open>worker_groups.py\<close>): the code cuts each mask into its runs of set bits,
  adds a group's workers at the start of every run and takes them off at its end, and sweeps
  the points in order.  The theorems say that this is the largest number of workers
  available at any one minute of the week.
\<close>

section \<open>The runs of a mask\<close>

text \<open>\<open>(mask & -mask).bit_length() - 1\<close>, and the length of the run of set bits that starts there.\<close>

definition lowest_bit :: "int \<Rightarrow> int" where
  "lowest_bit m = nbits (m AND - m) - 1"

definition run_length :: "int \<Rightarrow> int" where
  "run_length shifted = nbits (shifted XOR (shifted + 1)) - 1"

definition clear_run :: "int \<Rightarrow> int \<Rightarrow> int \<Rightarrow> int" where
  "clear_run m start len = m AND NOT (push_bit (nat start) (push_bit (nat len) 1 - 1))"

lemma nbits_power: "nbits (2 ^ k) = int k + 1"
proof (induction k)
  case 0
  then show ?case by (simp add: nbits.simps)
next
  case (Suc k)
  then show ?case by (subst nbits.simps) simp
qed

lemma nbits_mask: "nbits (mask k) = int k"
proof (induction k)
  case 0
  then show ?case by (simp add: nbits.simps)
next
  case (Suc k)
  have "mask (Suc k) div 2 = (mask k :: int)" by (simp only: mask_eq_exp_minus_1 power_Suc)
  moreover have "mask (Suc k) > (0::int)"
    using one_less_power [of "2::int" "Suc k"] by (simp only: mask_eq_exp_minus_1) simp
  ultimately show ?case using Suc by (subst nbits.simps) simp
qed

lemma odd_and_minus: "odd (q::int) \<Longrightarrow> q AND - q = 1"
proof -
  assume "odd q"
  then obtain r where r: "q = 2 * r + 1" by (elim oddE)
  have "- q = 2 * NOT r + 1" by (simp add: r not_int_def)
  then show ?thesis by (subst and_int_rec) (simp add: r)
qed

lemma lowest_bit_push: "odd q \<Longrightarrow> lowest_bit (push_bit k q) = int k"
proof -
  assume "odd q"
  have "push_bit k q AND - push_bit k q = push_bit k (q AND - q)"
    by (simp add: push_bit_minus push_bit_and)
  also have "\<dots> = 2 ^ k" using odd_and_minus [OF \<open>odd q\<close>] by (simp add: push_bit_of_1)
  finally show ?thesis by (simp add: lowest_bit_def nbits_power)
qed

lemma positive_push:
  assumes "0 < (m::int)"
  obtains k q where "m = push_bit k q" and "odd q" and "0 < q"
proof -
  have "\<exists>k. odd (m div 2 ^ k) \<and> m = 2 ^ k * (m div 2 ^ k)"
    using assms
  proof (induction "nat m" arbitrary: m rule: less_induct)
    case less
    show ?case
    proof (cases "odd m")
      case True
      then show ?thesis by (intro exI [of _ 0]) simp
    next
      case False
      then have "even m" by simp
      then obtain n where n: "m = 2 * n" by (rule evenE)
      with less.prems have "nat n < nat m" "0 < n" by auto
      from less.hyps [OF this] obtain k where "odd (n div 2 ^ k)" "n = 2 ^ k * (n div 2 ^ k)" by blast
      then show ?thesis by (intro exI [of _ "Suc k"]) (simp add: n)
    qed
  qed
  then obtain k where k: "odd (m div 2 ^ k)" "m = 2 ^ k * (m div 2 ^ k)" by blast
  then have "m = push_bit k (m div 2 ^ k)" by (simp add: push_bit_eq_mult mult.commute)
  moreover have "0 < m div 2 ^ k" using k(2) assms by (metis zero_less_mult_pos zero_less_numeral zero_less_power)
  ultimately show thesis using that k(1) by blast
qed

text \<open>A positive number ends in a run of ones below its lowest zero.\<close>

lemma trailing_ones:
  assumes "0 < (q::int)"
  obtains l where "\<forall>i < l. bit q i" and "\<not> bit q l"
proof -
  have "\<exists>i. \<not> bit q i"
  proof (rule ccontr)
    assume "\<nexists>i. \<not> bit q i"
    then have "q = -1" by (intro bit_eqI) auto
    with assms show False by simp
  qed
  then obtain l where "\<not> bit q l" "\<forall>i < l. bit q i"
    using exists_least_iff [of "\<lambda>i. \<not> bit q i"] by blast
  then show thesis using that by blast
qed

lemma run_length_ones:
  assumes "\<forall>i < l. bit (q::int) i" and "\<not> bit q l"
  shows "run_length q = int l"
proof -
  define s where "s = Suc l"
  let ?r = "push_bit s (drop_bit s q)"
  have r: "bit ?r i \<longleftrightarrow> l < i \<and> bit q i" for i
  proof -
    have "bit ?r i \<longleftrightarrow> s \<le> i \<and> bit q i" by (auto simp: bit_push_bit_iff bit_drop_bit_eq)
    then show ?thesis by (simp add: s_def Suc_le_eq)
  qed
  have q: "q = ?r OR mask l"
    using assms by (intro bit_eqI) (auto simp: bit_or_iff r bit_mask_iff intro: le_neq_trans)
  have one: "bit (push_bit l 1 :: int) i \<longleftrightarrow> i = l" for i
    by (auto simp: bit_exp_iff)
  have disj: "?r AND mask l = 0" "?r AND push_bit l 1 = 0"
    by (intro bit_eqI, simp only: bit_and_iff r bit_mask_iff one bit_0_eq bot_apply, auto simp: bit_exp_iff)+
  have "q = ?r + mask l" using q disj(1) by (metis disjunctive_add_eq_or)
  moreover have "mask l + 1 = (push_bit l 1 :: int)" by (simp add: mask_eq_exp_minus_1 push_bit_of_1)
  ultimately have "q + 1 = ?r + push_bit l 1" by linarith
  also have "\<dots> = ?r OR push_bit l 1" using disj(2) by (metis disjunctive_add_eq_or)
  finally have q1: "q + 1 = ?r OR push_bit l 1" .
  have "bit (q XOR (q + 1)) i \<longleftrightarrow> i \<le> l" for i
    unfolding q1 bit_xor_iff bit_or_iff r one
    using assms by (cases "i < l"; cases "i = l") auto
  then have "q XOR (q + 1) = mask s"
    by (intro bit_eqI) (simp only: bit_mask_iff s_def less_Suc_eq_le possible_bit_int simp_thms)
  then show ?thesis by (simp only: run_length_def nbits_mask s_def)
qed

text \<open>The lowest run of a positive mask: it is set, it ends, and clearing it leaves the rest.\<close>

lemma lowest_run:
  assumes "0 < (m::int)"
  obtains s l where "lowest_bit m = int s" and "run_length (drop_bit s m) = int l" and "0 < l"
    and "\<forall>t. s \<le> t \<and> t < s + l \<longrightarrow> bit m t" and "\<not> bit m (s + l)" and "\<forall>t < s. \<not> bit m t"
proof -
  obtain s q where m: "m = push_bit s q" and q: "odd q" "0 < q" by (rule positive_push [OF assms])
  obtain l where l: "\<forall>i < l. bit q i" "\<not> bit q l" by (rule trailing_ones [OF q(2)])
  have "0 < l" using q(1) l(2) by (metis bit_0 gr0I)
  moreover have "drop_bit s m = q" by (simp add: m drop_bit_push_bit)
  then have "run_length (drop_bit s m) = int l" using run_length_ones [OF l] by simp
  moreover have "lowest_bit m = int s" unfolding m by (rule lowest_bit_push [OF q(1)])
  moreover have bits: "bit m t \<longleftrightarrow> s \<le> t \<and> bit q (t - s)" for t by (auto simp: m bit_push_bit_iff)
  then have "\<forall>t. s \<le> t \<and> t < s + l \<longrightarrow> bit m t" "\<not> bit m (s + l)" "\<forall>t < s. \<not> bit m t"
    using l by auto
  ultimately show thesis using that [of s l] by blast
qed

lemma bit_clear_run:
  "bit (clear_run m (int s) (int l)) t \<longleftrightarrow> bit m t \<and> \<not> (s \<le> t \<and> t < s + l)"
  unfolding clear_run_def bit_and_iff bit_not_iff nat_int bit_run by simp

lemma clear_run_less:
  assumes "0 < (m::int)"
  shows "0 \<le> clear_run m (lowest_bit m) (run_length (drop_bit (nat (lowest_bit m)) m))"
    and "clear_run m (lowest_bit m) (run_length (drop_bit (nat (lowest_bit m)) m)) < m"
proof -
  obtain s l where r: "lowest_bit m = int s" "run_length (drop_bit s m) = int l" "0 < l"
    "\<forall>t. s \<le> t \<and> t < s + l \<longrightarrow> bit m t" "\<not> bit m (s + l)" "\<forall>t < s. \<not> bit m t"
    by (rule lowest_run [OF assms])
  let ?c = "clear_run m (int s) (int l)"
  have "?c \<noteq> m"
  proof
    assume "?c = m"
    then have "bit ?c s = bit m s" by simp
    with r(3,4) show False by (simp add: bit_clear_run)
  qed
  moreover have "?c \<le> m" "0 \<le> ?c"
    using assms unfolding clear_run_def by (simp_all add: AND_upper1)
  ultimately show "0 \<le> clear_run m (lowest_bit m) (run_length (drop_bit (nat (lowest_bit m)) m))"
    and "clear_run m (lowest_bit m) (run_length (drop_bit (nat (lowest_bit m)) m)) < m"
    by (simp_all add: r(1,2))
qed

section \<open>The sweep\<close>

text \<open>\<open>changes[k] = changes.get(k, 0) + v\<close>, in insertion order.\<close>

fun bump :: "int \<Rightarrow> int \<Rightarrow> (int \<times> int) list \<Rightarrow> (int \<times> int) list" where
  "bump k v [] = [(k, v)]"
| "bump k v ((k', v') # xs) = (if k = k' then (k', v' + v) # xs else (k', v') # bump k v xs)"

function run_changes :: "int \<Rightarrow> int \<Rightarrow> (int \<times> int) list \<Rightarrow> (int \<times> int) list" where
  "run_changes m n changes =
     (if m \<le> 0 then changes
      else
        (let start = lowest_bit m;
             len = run_length (drop_bit (nat start) m)
         in run_changes (clear_run m start len) n
              (bump (start + len) (- n) (bump start n changes))))"
  by pat_completeness auto
termination
  by (relation "measure (\<lambda>(m, n, changes). nat m)")
    (use clear_run_less in \<open>auto simp: nat_less_eq_zless\<close>)

declare run_changes.simps [simp del]

fun policies_changes :: "policy list \<Rightarrow> (int \<times> int) list \<Rightarrow> (int \<times> int) list option" where
  "policies_changes [] changes = Some changes"
| "policies_changes (p # ps) changes = do {
     m \<leftarrow> group_weekly_mask (p_enabled p) (p_availability p);
     policies_changes ps (run_changes m (p_count p) changes)
   }"

definition change_at :: "(int \<times> int) list \<Rightarrow> int \<Rightarrow> int" where
  "change_at changes k = (case map_of changes k of None \<Rightarrow> 0 | Some v \<Rightarrow> v)"

fun sweep :: "(int \<Rightarrow> int) \<Rightarrow> int list \<Rightarrow> int \<Rightarrow> int \<Rightarrow> int" where
  "sweep change [] current peak = peak"
| "sweep change (k # ks) current peak =
     sweep change ks (current + change k) (max peak (current + change k))"

definition peak_of :: "policy list \<Rightarrow> int option" where
  "peak_of ps = do {
     changes \<leftarrow> policies_changes ps [];
     Some (sweep (change_at changes) (sort (map fst changes)) 0 0)
   }"

definition peaks :: "policy list \<Rightarrow> (int \<times> int) option" where
  "peaks ps = do {
     gpu \<leftarrow> peak_of (filter (\<lambda>p. p_resource p = ''gpu'') ps);
     cpu \<leftarrow> peak_of (filter (\<lambda>p. p_resource p = ''cpu'') ps);
     Some (gpu, cpu)
   }"

definition on_node :: "policy \<Rightarrow> bool" where
  "on_node p \<longleftrightarrow> p_node p \<noteq> None \<and> p_node p \<noteq> Some []"

definition configured_group_totals :: "group_entry list \<Rightarrow> (int \<times> int) option" where
  "configured_group_totals groups = peaks (filter (\<lambda>p. \<not> on_node p) (member_policies groups))"

text \<open>The totals of every node, in the order the nodes first appear.\<close>

definition configured_node_totals :: "group_entry list \<Rightarrow> (string \<times> int \<times> int) list option" where
  "configured_node_totals groups =
     (let ps = filter on_node (member_policies groups);
          nodes = dedupe (map (\<lambda>p. the (p_node p)) ps)
      in map_opt (\<lambda>n. map_option (\<lambda>t. (n, t)) (peaks (filter (\<lambda>p. p_node p = Some n) ps))) nodes)"

definition future_capacity :: "group_entry list \<Rightarrow> int \<Rightarrow> string \<Rightarrow> int option" where
  "future_capacity groups blocked kind = do {
     counts \<leftarrow> map_opt (\<lambda>p.
        map_option (\<lambda>m. if policy_supports_job p kind \<and> m AND NOT blocked \<noteq> 0 then p_count p else 0)
          (if policy_supports_job p kind then group_weekly_mask (p_enabled p) (p_availability p)
           else Some 0))
        (member_policies groups);
     Some (sum_list counts)
   }"

end
