(* ===== verification/Worker_Capacity.thy ===== *)
theory Worker_Capacity
  imports Worker_Peak
begin

text \<open>
  What the sweep of \<open>Worker_Peak\<close> computes: the largest number of workers available at one
  minute.  The number at a minute is the level of the change points up to it.
\<close>

section \<open>Levels\<close>

definition level :: "(int \<times> int) list \<Rightarrow> int \<Rightarrow> int" where
  "level changes t = sum_list (map snd (filter (\<lambda>(k, v). k \<le> t) changes))"

lemma level_bump: "level (bump k v changes) t = level changes t + (if k \<le> t then v else 0)"
  by (induction k v changes rule: bump.induct) (auto simp: level_def)

lemma keys_bump: "set (map fst (bump k v changes)) = insert k (set (map fst changes))"
  by (induction k v changes rule: bump.induct) auto

lemma distinct_bump: "distinct (map fst changes) \<Longrightarrow> distinct (map fst (bump k v changes))"
proof (induction k v changes rule: bump.induct)
  case (2 k v k' v' xs)
  then show ?case using keys_bump [of k v xs] by auto
qed simp

lemma run_changes_facts:
  assumes "0 \<le> m" and "distinct (map fst changes)" and "\<forall>k \<in> set (map fst changes). 0 \<le> k"
  shows "level (run_changes m n changes) (int t) = level changes (int t) + (if bit m t then n else 0) \<and>
    distinct (map fst (run_changes m n changes)) \<and>
    (\<forall>k \<in> set (map fst (run_changes m n changes)). 0 \<le> k)"
  using assms
proof (induction m n changes rule: run_changes.induct)
  case (1 m n changes)
  show ?case
  proof (cases "m \<le> 0")
    case True
    with "1.prems" have "m = 0" by simp
    with "1.prems" show ?thesis by (simp add: run_changes.simps [of 0])
  next
    case False
    then have "0 < m" by simp
    then obtain s l where r: "lowest_bit m = int s" "run_length (drop_bit s m) = int l" "0 < l"
      "\<forall>t. s \<le> t \<and> t < s + l \<longrightarrow> bit m t" "\<not> bit m (s + l)" "\<forall>t < s. \<not> bit m t"
      by (rule lowest_run)
    let ?ch = "bump (int s + int l) (- n) (bump (int s) n changes)"
    let ?m = "clear_run m (int s) (int l)"
    have step: "run_changes m n changes = run_changes ?m n ?ch"
      using False r(1,2) by (subst run_changes.simps) (simp add: Let_def)
    have m0: "0 \<le> ?m" using clear_run_less(1) [OF \<open>0 < m\<close>] r(1,2) by simp
    have dist: "distinct (map fst ?ch)" using "1.prems"(2) by (intro distinct_bump)
    have keys: "\<forall>k \<in> set (map fst ?ch). 0 \<le> k" using "1.prems"(3) by (simp add: keys_bump del: set_map)
    have "level (run_changes ?m n ?ch) (int t) = level ?ch (int t) + (if bit ?m t then n else 0) \<and>
        distinct (map fst (run_changes ?m n ?ch)) \<and> (\<forall>k \<in> set (map fst (run_changes ?m n ?ch)). 0 \<le> k)"
      by (rule "1.IH" [OF False refl refl, unfolded r(1) nat_int r(2), OF m0 dist keys])
    moreover have "level ?ch (int t) + (if bit ?m t then n else 0) =
        level changes (int t) + (if bit m t then n else 0)"
      using r(4) by (auto simp: level_bump bit_clear_run)
    ultimately show ?thesis unfolding step by metis
  qed
qed

section \<open>The sweep finds the highest level\<close>

lemma level_eq_sum:
  "distinct (map fst changes) \<Longrightarrow>
     level changes t = (\<Sum>k \<in> {k \<in> set (map fst changes). k \<le> t}. change_at changes k)"
proof (induction changes)
  case Nil
  then show ?case by (simp add: level_def)
next
  case (Cons kv changes)
  obtain k v where kv: "kv = (k, v)" by (cases kv)
  from Cons.prems have k: "k \<notin> set (map fst changes)" and d: "distinct (map fst changes)"
    by (simp_all add: kv)
  have same: "(\<Sum>j \<in> {j \<in> set (map fst changes). j \<le> t}. change_at ((k, v) # changes) j) =
      (\<Sum>j \<in> {j \<in> set (map fst changes). j \<le> t}. change_at changes j)"
    using k by (intro sum.cong) (auto simp: change_at_def)
  have set: "{j \<in> set (map fst ((k, v) # changes)). j \<le> t} =
      (if k \<le> t then insert k {j \<in> set (map fst changes). j \<le> t} else {j \<in> set (map fst changes). j \<le> t})"
    by auto
  have "change_at ((k, v) # changes) k = v" by (simp add: change_at_def)
  then show ?case
    using Cons.IH [OF d] k same unfolding kv set
    by (simp add: level_def sum.insert_if)
qed

lemma Max_insert_max:
  "finite A \<Longrightarrow> Max (insert (max p c) A) = Max (insert p (insert (c::int) A))"
  by (cases "A = {}") (simp_all add: max.assoc)

lemma sweep_eq:
  "sorted_wrt (<) ks \<Longrightarrow> sweep f ks cur peak =
     Max (insert peak ((\<lambda>k. cur + (\<Sum>j \<in> {j \<in> set ks. j \<le> k}. f j)) ` set ks))"
proof (induction ks arbitrary: cur peak)
  case Nil
  then show ?case by simp
next
  case (Cons k ks)
  then have less: "\<forall>j \<in> set ks. k < j" and sorted: "sorted_wrt (<) ks" by simp_all
  have "{j \<in> set (k # ks). j \<le> i} = insert k {j \<in> set ks. j \<le> i}" if "i \<in> set ks" for i
    using that less by auto
  moreover have "k \<notin> {j \<in> set ks. j \<le> i}" for i using less by auto
  ultimately have tail: "cur + (\<Sum>j \<in> {j \<in> set (k # ks). j \<le> i}. f j) =
      (cur + f k) + (\<Sum>j \<in> {j \<in> set ks. j \<le> i}. f j)" if "i \<in> set ks" for i
    using that by simp
  have "{j \<in> set (k # ks). j \<le> k} = {k}" using less by auto
  then have head: "cur + (\<Sum>j \<in> {j \<in> set (k # ks). j \<le> k}. f j) = cur + f k" by simp
  have "(\<lambda>i. cur + (\<Sum>j \<in> {j \<in> set (k # ks). j \<le> i}. f j)) ` set (k # ks) =
      insert (cur + f k) ((\<lambda>i. (cur + f k) + (\<Sum>j \<in> {j \<in> set ks. j \<le> i}. f j)) ` set ks)"
    using head tail by (simp only: list.set image_insert cong: image_cong)
  then show ?case
    using Cons.IH [OF sorted, of "cur + f k" "max peak (cur + f k)"]
    by (simp only: sweep.simps Max_insert_max finite_imageI finite_set)
qed

section \<open>The peak\<close>

definition open_at :: "policy \<Rightarrow> nat \<Rightarrow> bool" where
  "open_at p t =
     (case group_weekly_mask (p_enabled p) (p_availability p) of None \<Rightarrow> False | Some m \<Rightarrow> bit m t)"

definition workers_at :: "policy list \<Rightarrow> nat \<Rightarrow> int" where
  "workers_at ps t = sum_list (map (\<lambda>p. if open_at p t then p_count p else 0) ps)"

lemma window_mask_nonneg: "0 \<le> m \<Longrightarrow> window_mask m w = Some m' \<Longrightarrow> 0 \<le> m'"
proof -
  assume "0 \<le> m" "window_mask m w = Some m'"
  have seg: "0 \<le> day_segment s d day" for s d day
    by (simp add: day_segment_def Let_def ALL_WEEK_def ones_eq_mask push_bit_nonnegative_int_iff
        drop_bit_nonnegative_int_iff or_nonnegative_int_iff)
  have "0 \<le> foldl (\<lambda>m day. m OR day_segment s d day) m days" if "0 \<le> m" for m s d days
    using that by (induction days arbitrary: m) (simp_all add: seg or_nonnegative_int_iff)
  with \<open>0 \<le> m\<close> \<open>window_mask m w = Some m'\<close> show "0 \<le> m'"
    by (auto simp: window_mask_def bind_eq_Some_conv split: if_splits)
qed

lemma weekly_mask_nonneg: "group_weekly_mask e a = Some m \<Longrightarrow> 0 \<le> m"
proof -
  have "windows_mask w ws = Some m' \<Longrightarrow> 0 \<le> w \<Longrightarrow> 0 \<le> m'" for w ws m'
    by (induction ws arbitrary: w) (auto simp: bind_eq_Some_conv dest: window_mask_nonneg)
  moreover have "0 \<le> ALL_WEEK" by (simp add: ALL_WEEK_def ones_eq_mask)
  ultimately show "group_weekly_mask e a = Some m \<Longrightarrow> 0 \<le> m"
    by (auto simp: group_weekly_mask_def split: if_splits)
qed

lemma policies_changes_facts:
  assumes "policies_changes ps changes = Some final" and "distinct (map fst changes)"
    and "\<forall>k \<in> set (map fst changes). 0 \<le> k"
  shows "level final (int t) = level changes (int t) + workers_at ps t \<and>
    distinct (map fst final) \<and> (\<forall>k \<in> set (map fst final). 0 \<le> k)"
  using assms
proof (induction ps arbitrary: changes)
  case Nil
  then show ?case by (simp add: workers_at_def)
next
  case (Cons p ps)
  then obtain m where m: "group_weekly_mask (p_enabled p) (p_availability p) = Some m"
    and rest: "policies_changes ps (run_changes m (p_count p) changes) = Some final"
    by (auto simp: bind_eq_Some_conv)
  note run = run_changes_facts [OF weekly_mask_nonneg [OF m] Cons.prems(2,3), of "p_count p" t]
  from Cons.IH [OF rest] run show ?case
    by (simp add: workers_at_def open_at_def m del: set_map)
qed

lemma level_at_key:
  assumes "distinct (map fst changes)" and "\<forall>k \<in> set (map fst changes). 0 \<le> k"
  shows "level changes t \<in> insert 0 ((\<lambda>k. level changes k) ` set (map fst changes))"
proof (cases "{k \<in> set (map fst changes). k \<le> t} = {}")
  case True
  show ?thesis unfolding level_eq_sum [OF assms(1), of t] True by simp
next
  case False
  let ?K = "{k \<in> set (map fst changes). k \<le> t}"
  have "Max ?K \<in> ?K" using False by (intro Max_in) auto
  moreover have "{k \<in> set (map fst changes). k \<le> Max ?K} = ?K"
    using False Max_ge [of ?K] calculation by fastforce
  then have "level changes (Max ?K) = level changes t"
    unfolding level_eq_sum [OF assms(1)] by simp
  ultimately show ?thesis by (metis (mono_tags, lifting) image_eqI insertI2 mem_Collect_eq)
qed

text \<open>The peak bounds every minute, and some minute reaches it unless it is zero.\<close>

lemma peak_is_max:
  assumes "peak_of ps = Some peak"
  shows "workers_at ps t \<le> peak" and "peak = 0 \<or> (\<exists>t. workers_at ps t = peak)"
proof -
  from assms obtain ch where ch: "policies_changes ps [] = Some ch"
    and peak: "peak = sweep (change_at ch) (sort (map fst ch)) 0 0"
    by (auto simp: peak_of_def bind_eq_Some_conv)
  have facts: "level ch (int t) = workers_at ps t" "distinct (map fst ch)"
    "\<forall>k \<in> set (map fst ch). 0 \<le> k" for t
    using policies_changes_facts [OF ch, of t] by (simp_all add: level_def)
  have "sorted_wrt (<) (sort (map fst ch))"
    using facts(2) by (simp add: strict_sorted_iff)
  then have "peak = Max (insert 0 ((\<lambda>k. level ch k) ` set (map fst ch)))"
    unfolding peak by (simp only: sweep_eq set_sort level_eq_sum [OF facts(2)] add_0)
  then have max: "peak \<in> insert 0 ((\<lambda>k. level ch k) ` set (map fst ch))"
    "\<And>x. x \<in> insert 0 ((\<lambda>k. level ch k) ` set (map fst ch)) \<Longrightarrow> x \<le> peak"
    by (simp_all only: Max_in Max_ge finite_insert finite_imageI finite_set insert_not_empty not_False_eq_True)
  show "workers_at ps t \<le> peak"
    using max(2) level_at_key [OF facts(2,3)] facts(1) by metis
  from max(1) show "peak = 0 \<or> (\<exists>t. workers_at ps t = peak)"
  proof
    assume "peak \<in> (\<lambda>k. level ch k) ` set (map fst ch)"
    then obtain k where k: "k \<in> set (map fst ch)" "peak = level ch k" by blast
    then have "0 \<le> k" using facts(3) by blast
    with facts(1) [of "nat k"] k(2) show ?thesis by auto
  qed simp
qed

end
