(* ===== verification/Worker_Validate.thy ===== *)
theory Worker_Validate
  imports Worker_Capacity Bytes
begin

text \<open>
  Validation of saved worker groups (\<open>validate_worker_groups\<close> and its helpers), the conversion
  of the settings of an older release (\<open>groups_from_legacy\<close>, \<open>effective_worker_groups\<close>).  Raw
  settings are JSON values; every ValueError is a constructor of \<open>group_error\<close> (its text, which
  names the group and device, is left out), \<open>Clock_Error\<close> the ValueErrors of the clock
  arithmetic.
\<close>

section \<open>Errors and patterns\<close>

datatype group_error =
    Not_A_Group_List | Group_Not_Object | Bad_Group_Id | Bad_Group_Name | Bad_Enabled
  | Bad_Node | Unknown_Node | Member_Not_Object | Bad_Member_Id | Bad_Resource | Bad_Gpu_Device
  | Cpu_With_Device | Device_Twice | Bad_Count | Bad_Job_Types | Gpu_Loudness
  | Conflicting_Flat_Field string | No_Devices | Too_Many_Devices | Bad_Availability
  | Too_Many_Windows | No_Windows | Window_Not_Object | Bad_Days | Bad_Times | Over_Capacity
  | Over_Node_Capacity string | Clock_Error | Bad_Cpu_Threads

definition is_alnum :: "char \<Rightarrow> bool" where
  "is_alnum c \<longleftrightarrow>
     is_digit c \<or> (65 \<le> code c \<and> code c \<le> 90) \<or> (97 \<le> code c \<and> code c \<le> 122)"

definition valid_id :: "string \<Rightarrow> bool" where
  "valid_id s \<longleftrightarrow>
     s \<noteq> [] \<and> is_alnum (hd s) \<and> (\<forall>c \<in> set (tl s). is_alnum c \<or> c = CHR ''_'' \<or> c = CHR ''-'') \<and>
     length s \<le> 80"

text \<open>\<open>(?:[01][0-9]|2[0-3]):[0-5][0-9]\<close>.\<close>

definition valid_time :: "string \<Rightarrow> bool" where
  "valid_time s =
     (case s of
        [h1, h2, c, m1, m2] \<Rightarrow>
          ((h1 = CHR ''0'' \<or> h1 = CHR ''1'') \<and> is_digit h2 \<or>
           h1 = CHR ''2'' \<and> is_digit h2 \<and> digit_value h2 \<le> 3) \<and>
          c = CHR '':'' \<and> is_digit m1 \<and> digit_value m1 \<le> 5 \<and> is_digit m2
      | _ \<Rightarrow> False)"

section \<open>Members\<close>

definition clean_node ::
  "(string \<times> json) list \<Rightarrow> (string \<times> string) list option \<Rightarrow> group_error + string option" where
  "clean_node raw nodes =
     (let node = get raw ''node'' in
      if node = JNull \<or> node = JStr [] then Inr None
      else case node of
             JStr s \<Rightarrow>
               if length s > 128 \<or> s \<noteq> strip s then Inl Bad_Node
               else if (case nodes of None \<Rightarrow> False | Some ns \<Rightarrow> s \<notin> fst ` set ns)
                 then Inl Unknown_Node
               else Inr (Some s)
           | _ \<Rightarrow> Inl Bad_Node)"

definition clean_id :: "json \<Rightarrow> string set \<Rightarrow> string option" where
  "clean_id v seen =
     (case v of JStr s \<Rightarrow> if valid_id s \<and> s \<notin> seen then Some s else None | _ \<Rightarrow> None)"

definition clean_resource :: "json \<Rightarrow> string option" where
  "clean_resource v =
     (case v of JStr s \<Rightarrow> if s = ''cpu'' \<or> s = ''gpu'' then Some s else None | _ \<Rightarrow> None)"

definition bad_gpu_device :: "json \<Rightarrow> bool" where
  "bad_gpu_device v =
     (case v of JStr s \<Rightarrow> strip s = [] \<or> length s > 256 \<or> s \<noteq> strip s | _ \<Rightarrow> True)"

definition clean_device :: "string \<Rightarrow> json \<Rightarrow> group_error + string option" where
  "clean_device resource v =
     (if resource = ''gpu'' \<and> bad_gpu_device v then Inl Bad_Gpu_Device
      else if resource = ''cpu'' \<and> v \<noteq> JNull \<and> v \<noteq> JStr [] then Inl Cpu_With_Device
      else Inr (if resource = ''gpu'' then (case v of JStr s \<Rightarrow> Some s | _ \<Rightarrow> None) else None))"

definition clean_count :: "string \<Rightarrow> json \<Rightarrow> int option" where
  "clean_count resource v =
     (let limit = (if resource = ''cpu'' then MAX_CPU_WORKERS else MAX_GPU_WORKERS) in
      case v of JInt n \<Rightarrow> if 1 \<le> n \<and> n \<le> limit then Some n else None | _ \<Rightarrow> None)"

definition clean_kinds :: "json \<Rightarrow> string list option" where
  "clean_kinds v =
     (case v of
        JList ks \<Rightarrow>
          if ks = [] \<or> (\<exists>k \<in> set ks. k \<notin> JStr ` set JOB_KINDS) then None
          else Some (filter (\<lambda>kind. JStr kind \<in> set ks) JOB_KINDS)
      | _ \<Rightarrow> None)"

definition clean_member ::
  "json \<Rightarrow> string set \<Rightarrow> string set \<Rightarrow> bool \<Rightarrow> (string \<times> string) list option \<Rightarrow>
     group_error + group_member" where
  "clean_member raw seen_ids seen_devices legacy nodes =
     (case raw of
        JObj obj \<Rightarrow>
          (case clean_id (if legacy then JStr LEGACY_MEMBER_ID else get obj ''id'') seen_ids of
             None \<Rightarrow> Inl Bad_Member_Id
           | Some member_id \<Rightarrow>
          (case clean_resource (get obj ''resource'') of
             None \<Rightarrow> Inl Bad_Resource
           | Some resource \<Rightarrow>
             bindE (clean_device resource (get obj ''device'')) (\<lambda>device.
             bindE (clean_node obj nodes) (\<lambda>node.
             if member_resource_key resource device node \<in> seen_devices then Inl Device_Twice
             else case clean_count resource (get obj ''count'') of
               None \<Rightarrow> Inl Bad_Count
             | Some n \<Rightarrow>
             (case clean_kinds (get obj ''job_types'') of
                None \<Rightarrow> Inl Bad_Job_Types
              | Some kinds \<Rightarrow>
                if resource = ''gpu'' \<and> JOB_KIND_LOUDNESS \<in> set kinds then Inl Gpu_Loudness
                else Inr \<lparr>gm_id = member_id, gm_resource = resource, gm_device = device,
                          gm_count = n, gm_job_types = kinds, gm_node = node\<rparr>)))))
      | _ \<Rightarrow> Inl Member_Not_Object)"

definition member_key :: "group_member \<Rightarrow> string" where
  "member_key m = member_resource_key (gm_resource m) (gm_device m) (gm_node m)"

fun clean_member_list ::
  "json list \<Rightarrow> string set \<Rightarrow> string set \<Rightarrow> (string \<times> string) list option \<Rightarrow>
     group_error + group_member list" where
  "clean_member_list [] ids devices nodes = Inr []"
| "clean_member_list (raw # raws) ids devices nodes =
     bindE (clean_member raw ids devices False nodes) (\<lambda>m.
     bindE (clean_member_list raws (insert (gm_id m) ids) (insert (member_key m) devices) nodes) (\<lambda>ms.
     Inr (m # ms)))"

definition none_if_falsy :: "json \<Rightarrow> json" where
  "none_if_falsy v = (if truthy v then v else JNull)"

definition flat_conflict :: "(string \<times> json) list \<Rightarrow> (string \<times> json) list \<Rightarrow> string \<Rightarrow> bool" where
  "flat_conflict raw member k \<longleftrightarrow>
     has_key raw k \<and>
     (let flat = get raw k; own = get member k in
      if k = ''device'' then \<not> py_eq (none_if_falsy flat) (none_if_falsy own)
      else \<not> py_eq flat own)"

definition conflicting_flat_field :: "(string \<times> json) list \<Rightarrow> json list \<Rightarrow> string option" where
  "conflicting_flat_field raw members =
     (case members of
        [JObj member] \<Rightarrow>
          find (flat_conflict raw member) [''resource'', ''device'', ''count'', ''job_types'']
      | _ \<Rightarrow> None)"

definition clean_members ::
  "(string \<times> json) list \<Rightarrow> (string \<times> string) list option \<Rightarrow> group_error + group_member list" where
  "clean_members raw nodes =
     (if \<not> has_key raw ''members'' then
        (if \<not> has_key raw ''resource'' then Inl No_Devices
         else bindE (clean_member (JObj raw) {} {} True nodes) (\<lambda>m. Inr [m]))
      else case get raw ''members'' of
             JList ms \<Rightarrow>
               if ms = [] then Inl No_Devices
               else (case conflicting_flat_field raw ms of
                       Some k \<Rightarrow> Inl (Conflicting_Flat_Field k)
                     | None \<Rightarrow>
                         if length ms > MAX_MEMBERS then Inl Too_Many_Devices
                         else clean_member_list ms {} {} nodes)
           | _ \<Rightarrow> Inl No_Devices)"

section \<open>Availability\<close>

definition clean_days :: "json \<Rightarrow> int list option" where
  "clean_days v =
     (case v of
        JList ds \<Rightarrow>
          if ds = [] \<or> (\<exists>d \<in> set ds. d \<notin> JInt ` {0..6}) then None
          else Some (sort (remdups (List.map_filter (\<lambda>d. case d of JInt i \<Rightarrow> Some i | _ \<Rightarrow> None) ds)))
      | _ \<Rightarrow> None)"

definition clean_window :: "json \<Rightarrow> group_error + window" where
  "clean_window raw =
     (case raw of
        JObj obj \<Rightarrow>
          (case clean_days (get obj ''days'') of
             None \<Rightarrow> Inl Bad_Days
           | Some days \<Rightarrow>
               (case (get obj ''start'', get obj ''end'') of
                  (JStr s, JStr e) \<Rightarrow>
                    if \<not> valid_time s \<or> \<not> valid_time e \<or> s = e then Inl Bad_Times
                    else Inr \<lparr>w_days = days, w_start = s, w_end = e\<rparr>
                | _ \<Rightarrow> Inl Bad_Times))
      | _ \<Rightarrow> Inl Window_Not_Object)"

fun clean_windows :: "json list \<Rightarrow> group_error + window list" where
  "clean_windows [] = Inr []"
| "clean_windows (raw # raws) =
     bindE (clean_window raw) (\<lambda>w. bindE (clean_windows raws) (\<lambda>ws. Inr (w # ws)))"

definition clean_availability :: "(string \<times> json) list \<Rightarrow> group_error + availability" where
  "clean_availability raw =
     (case get_default raw ''availability''
             (JObj [(''mode'', JStr ''always''), (''windows'', JList [])]) of
        JObj av \<Rightarrow>
          (case get av ''mode'' of
             JStr mode \<Rightarrow>
               if mode \<noteq> ''always'' \<and> mode \<noteq> ''scheduled'' then Inl Bad_Availability
               else (case get_default av ''windows'' (JList []) of
                       JList ws \<Rightarrow>
                         if length ws > 32 then Inl Too_Many_Windows
                         else if mode = ''scheduled'' \<and> ws = [] then Inl No_Windows
                         else bindE (clean_windows ws) (\<lambda>cs. Inr \<lparr>a_mode = mode, a_windows = cs\<rparr>)
                     | _ \<Rightarrow> Inl Too_Many_Windows)
           | _ \<Rightarrow> Inl Bad_Availability)
      | _ \<Rightarrow> Inl Bad_Availability)"

section \<open>Groups\<close>

definition clean_group ::
  "json \<Rightarrow> string set \<Rightarrow> (string \<times> string) list option \<Rightarrow> group_error + worker_group" where
  "clean_group raw ids nodes =
     (case raw of
        JObj obj \<Rightarrow>
          (case clean_id (get obj ''id'') ids of
             None \<Rightarrow> Inl Bad_Group_Id
           | Some gid \<Rightarrow>
             (case get obj ''name'' of
                JStr name \<Rightarrow>
                  if strip name = [] \<or> length (strip name) > 80 then Inl Bad_Group_Name
                  else (case get_default obj ''enabled'' (JBool True) of
                          JBool enabled \<Rightarrow>
                            bindE (clean_members obj nodes) (\<lambda>members.
                            bindE (clean_availability obj) (\<lambda>availability.
                            Inr \<lparr>g_id = gid, g_name = strip name, g_enabled = enabled,
                                 g_availability = availability, g_members = members\<rparr>))
                        | _ \<Rightarrow> Inl Bad_Enabled)
              | _ \<Rightarrow> Inl Bad_Group_Name))
      | _ \<Rightarrow> Inl Group_Not_Object)"

fun clean_groups ::
  "json list \<Rightarrow> string set \<Rightarrow> (string \<times> string) list option \<Rightarrow> group_error + worker_group list" where
  "clean_groups [] ids nodes = Inr []"
| "clean_groups (raw # raws) ids nodes =
     bindE (clean_group raw ids nodes) (\<lambda>g.
     bindE (clean_groups raws (insert (g_id g) ids) nodes) (\<lambda>gs. Inr (g # gs)))"

definition over_limit :: "int \<times> int \<Rightarrow> bool" where
  "over_limit t \<longleftrightarrow> snd t > MAX_CPU_WORKERS \<or> fst t > MAX_GPU_WORKERS"

definition check_capacity :: "worker_group list \<Rightarrow> group_error + worker_group list" where
  "check_capacity groups =
     (case configured_group_totals (map Saved groups) of
        None \<Rightarrow> Inl Clock_Error
      | Some totals \<Rightarrow>
          if over_limit totals then Inl Over_Capacity
          else (case configured_node_totals (map Saved groups) of
                  None \<Rightarrow> Inl Clock_Error
                | Some nodes \<Rightarrow>
                    (case find (\<lambda>(node, t). over_limit t) nodes of
                       Some (node, t) \<Rightarrow> Inl (Over_Node_Capacity node)
                     | None \<Rightarrow> Inr groups)))"

definition validate_worker_groups ::
  "json \<Rightarrow> (string \<times> string) list option \<Rightarrow> group_error + worker_group list" where
  "validate_worker_groups value nodes =
     (case value of
        JList raws \<Rightarrow>
          if length raws > MAX_GROUPS then Inl Not_A_Group_List
          else bindE (clean_groups raws {} nodes) check_capacity
      | _ \<Rightarrow> Inl Not_A_Group_List)"

section \<open>Settings of an older release\<close>

text \<open>\<open>str(value)\<close>: \<open>repr_of\<close> stands for the text of floats and containers.\<close>

definition py_str :: "(json \<Rightarrow> string) \<Rightarrow> json \<Rightarrow> string" where
  "py_str repr_of v =
     (case v of
        JStr s \<Rightarrow> s
      | JInt i \<Rightarrow> show_int i
      | JBool b \<Rightarrow> (if b then ''True'' else ''False'')
      | JNull \<Rightarrow> ''None''
      | _ \<Rightarrow> repr_of v)"

text \<open>\<open>int(value)\<close>; \<open>None\<close> is a ValueError or TypeError.\<close>

definition int_of_json :: "json \<Rightarrow> int option" where
  "int_of_json v =
     (case v of
        JInt i \<Rightarrow> Some i
      | JBool b \<Rightarrow> Some (if b then 1 else 0)
      | JFloat r \<Rightarrow> Some (if r < 0 then \<lceil>r\<rceil> else \<lfloor>r\<rfloor>)
      | JStr s \<Rightarrow> py_int s
      | _ \<Rightarrow> None)"

text \<open>What \<open>for x in v\<close> yields; \<open>None\<close> is the TypeError of a value that is no iterable.\<close>

definition items_of :: "json \<Rightarrow> json list option" where
  "items_of v =
     (case v of
        JList xs \<Rightarrow> Some xs
      | JStr s \<Rightarrow> Some (map (\<lambda>c. JStr [c]) s)
      | JObj kvs \<Rightarrow> Some (map (\<lambda>kv. JStr (fst kv)) kvs)
      | _ \<Rightarrow> None)"

record legacy_state =
  ls_groups :: "json list"
  ls_budget :: int
  ls_seen :: "string list"

definition legacy_group ::
  "string \<Rightarrow> string \<Rightarrow> string \<Rightarrow> int \<Rightarrow> string option \<Rightarrow> bool \<Rightarrow> json" where
  "legacy_group gid name resource n device enabled =
     JObj [(''id'', JStr gid), (''name'', JStr name), (''enabled'', JBool (enabled \<and> n > 0)),
           (''availability'', JObj [(''mode'', JStr ''always''), (''windows'', JList [])]),
           (''members'', JList [JObj
             [(''id'', JStr LEGACY_MEMBER_ID), (''resource'', JStr resource),
              (''device'', case device of None \<Rightarrow> JNull | Some d \<Rightarrow> JStr d),
              (''count'', JInt (max 1 n)),
              (''job_types'', JList (map JStr (filter
                 (\<lambda>kind. resource = ''cpu'' \<or> kind \<noteq> JOB_KIND_LOUDNESS) JOB_KINDS)))]])]"

definition legacy_gpu ::
  "(string \<Rightarrow> string) \<Rightarrow> string \<Rightarrow> string \<Rightarrow> int \<Rightarrow> bool \<Rightarrow> legacy_state \<Rightarrow> legacy_state" where
  "legacy_gpu sha256_hex device name workers enabled st =
     (let n = max 1 (min workers MAX_GPU_WORKERS);
          wanted = (enabled \<and> workers > 0);
          granted = (wanted \<and> \<not> ls_budget st \<le> 0);
          n' = (if granted then min n (ls_budget st) else n);
          gid = ''legacy-gpu-'' @ take 16 (sha256_hex device)
      in st\<lparr>ls_groups := ls_groups st @ [legacy_group gid (take 80 name) ''gpu'' n' (Some device) granted],
            ls_budget := (if granted then ls_budget st - n' else ls_budget st)\<rparr>)"

definition see :: "string \<Rightarrow> legacy_state \<Rightarrow> legacy_state" where
  "see device st = st\<lparr>ls_seen := device # ls_seen st\<rparr>"

definition legacy_entry ::
  "(string \<Rightarrow> string) \<Rightarrow> (json \<Rightarrow> string) \<Rightarrow> json \<Rightarrow> legacy_state \<Rightarrow> legacy_state" where
  "legacy_entry sha256_hex repr_of entry st =
     (case entry of
        JObj e \<Rightarrow>
          if \<not> truthy (get e ''device'') then st
          else
            (let device = py_str repr_of (get e ''device'');
                 workers = (case get_default e ''workers'' (JInt 1) of JInt w \<Rightarrow> w | _ \<Rightarrow> 1);
                 name = (if truthy (get e ''name'') then py_str repr_of (get e ''name'') else device)
             in if device \<in> set (ls_seen st) then st
                else legacy_gpu sha256_hex device name workers
                       (truthy (get_default e ''enabled'' (JBool True))) (see device st))
      | _ \<Rightarrow> st)"

definition legacy_detected ::
  "(string \<Rightarrow> string) \<Rightarrow> (json \<Rightarrow> string) \<Rightarrow> (string \<times> json) list \<Rightarrow> legacy_state \<Rightarrow>
     legacy_state" where
  "legacy_detected sha256_hex repr_of gpu st =
     (let device = (if truthy (get gpu ''device'') then py_str repr_of (get gpu ''device'') else []);
          name = (if truthy (get gpu ''name'') then py_str repr_of (get gpu ''name'') else device)
      in if device = [] \<or> device \<in> set (ls_seen st) then st
         else legacy_gpu sha256_hex device name 1 True (see device st))"

definition legacy_cpu_groups :: "int \<Rightarrow> json list" where
  "legacy_cpu_groups cpu =
     (if cpu > 0 then [legacy_group ''legacy-cpu'' ''CPU workers'' ''cpu'' cpu None True] else [])"

definition groups_from_legacy ::
  "(string \<Rightarrow> string) \<Rightarrow> (json \<Rightarrow> string) \<Rightarrow> (string \<times> json) list \<Rightarrow>
     (string \<times> json) list list \<Rightarrow> group_error + worker_group list" where
  "groups_from_legacy sha256_hex repr_of settings detected =
     (let cpu_raw = get_default settings ''cpu_threads'' (JInt 1);
          config = get settings ''gpu_config''
      in case (if cpu_raw = JNull \<or> cpu_raw = JStr [] then Some 1 else int_of_json cpu_raw) of
           None \<Rightarrow> Inl Bad_Cpu_Threads
         | Some cpu \<Rightarrow>
             (case (if truthy config then items_of config else Some []) of
                None \<Rightarrow> Inl Not_A_Group_List
              | Some entries \<Rightarrow>
                  (let st0 = \<lparr>ls_groups = legacy_cpu_groups cpu, ls_budget = MAX_GPU_WORKERS,
                              ls_seen = []\<rparr>;
                       st1 = fold (legacy_entry sha256_hex repr_of) entries st0;
                       st2 = fold (legacy_detected sha256_hex repr_of) detected st1
                   in validate_worker_groups (JList (ls_groups st2)) None)))"

definition effective_worker_groups ::
  "(string \<Rightarrow> string) \<Rightarrow> (json \<Rightarrow> string) \<Rightarrow> (string \<times> json) list \<Rightarrow>
     group_error + worker_group list" where
  "effective_worker_groups sha256_hex repr_of settings =
     (if has_key settings ''worker_groups''
      then validate_worker_groups (get settings ''worker_groups'') None
      else groups_from_legacy sha256_hex repr_of settings [])"

end
