(* ===== verification/Worker_Claims.thy ===== *)
theory Worker_Claims
  imports Worker_Validate
begin

text \<open>
  The properties of worker groups: what validation accepts stays inside the shape and capacity
  limits at every minute, availability is membership in a window, the peak is the maximum, and
  the next opening is the first.
\<close>

section \<open>Valid clock times\<close>

lemma digit_value_le: "is_digit c \<Longrightarrow> digit_value c \<le> 9"
  unfolding is_digit_def digit_value_def by linarith

lemma not_digit_colon [simp]: "\<not> is_digit (CHR '':'')"
  by (simp add: is_digit_def)

lemma py_int_two:
  "is_digit a \<Longrightarrow> is_digit b \<Longrightarrow> py_int [a, b] = Some (int (10 * digit_value a + digit_value b))"
  using py_int_digits [of "[a, b]"] by (simp add: read_nat_def)

lemma clock_bound: "h < 24 \<Longrightarrow> m < 60 \<Longrightarrow> h * 60 + m < (1440::nat)"
  by simp

lemma minute_of_valid:
  assumes "valid_time s"
  obtains m where "minute_of s = Some m" and "0 \<le> m" and "m < 1440"
proof -
  from assms obtain h1 h2 m1 m2 where s: "s = [h1, h2, CHR '':'', m1, m2]"
    and h: "(h1 = CHR ''0'' \<or> h1 = CHR ''1'') \<and> is_digit h2 \<or> h1 = CHR ''2'' \<and> is_digit h2 \<and> digit_value h2 \<le> 3"
    and m: "is_digit m1" "digit_value m1 \<le> 5" "is_digit m2"
    by (auto simp: valid_time_def split: list.splits)
  have h1: "is_digit h1" and h2: "is_digit h2" using h by (auto simp: is_digit_def)
  have hour: "10 * digit_value h1 + digit_value h2 < 24"
    using h digit_value_le [OF h2] by (auto simp: digit_value_def)
  have minute: "10 * digit_value m1 + digit_value m2 < 60"
    using m digit_value_le [OF m(3)] by linarith
  have "split_on CHR '':'' s = [[h1, h2], [m1, m2]]"
    using h1 h2 m s by (auto simp del: not_digit_colon) (use not_digit_colon in auto)
  then have "minute_of s = Some (int ((10 * digit_value h1 + digit_value h2) * 60 +
      (10 * digit_value m1 + digit_value m2)))"
    using h1 h2 m by (simp add: minute_of_def py_int_two)
  moreover have "(10 * digit_value h1 + digit_value h2) * 60 +
      (10 * digit_value m1 + digit_value m2) < 1440"
    using clock_bound [OF hour minute] .
  ultimately show thesis
    using that [of "int ((10 * digit_value h1 + digit_value h2) * 60 +
      (10 * digit_value m1 + digit_value m2))"] by fastforce
qed

section \<open>Valid windows and their masks\<close>

definition valid_window :: "window \<Rightarrow> bool" where
  "valid_window w \<longleftrightarrow>
     valid_time (w_start w) \<and> valid_time (w_end w) \<and> w_start w \<noteq> w_end w \<and>
     w_days w \<noteq> [] \<and> set (w_days w) \<subseteq> {0..6}"

text \<open>The minutes a window covers, counted from its start on each of its days.\<close>

definition covers :: "window \<Rightarrow> nat \<Rightarrow> bool" where
  "covers w t \<longleftrightarrow>
     (case (minute_of (w_start w), minute_of (w_end w)) of
        (Some s, Some e) \<Rightarrow> \<exists>day \<in> set (w_days w). in_window t s ((e - s) mod 1440) day
      | _ \<Rightarrow> False)"

lemma bit_days:
  assumes "set days \<subseteq> {0..6}" and "0 \<le> s" "s < 1440" and "0 \<le> d" "d < 1440"
  shows "bit (foldl (\<lambda>m day. m OR day_segment s d day) m days) t \<longleftrightarrow>
    bit m t \<or> (\<exists>day \<in> set days. in_window t s d day)"
  using assms(1)
proof (induction days arbitrary: m)
  case (Cons day days)
  then have "bit (day_segment s d day) t \<longleftrightarrow> in_window t s d day"
    using assms(2-5) by (intro bit_day_segment) auto
  with Cons show ?case by (simp add: bit_or_iff)
qed simp

lemma window_mask_valid:
  assumes "valid_window w"
  obtains m' where "window_mask m w = Some m'" and "\<And>t. bit m' t \<longleftrightarrow> bit m t \<or> covers w t"
proof -
  from assms have times: "valid_time (w_start w)" "valid_time (w_end w)"
    by (simp_all add: valid_window_def)
  obtain s where s: "minute_of (w_start w) = Some s" "0 \<le> s" "s < 1440"
    by (rule minute_of_valid [OF times(1)])
  obtain e where e: "minute_of (w_end w) = Some e" by (rule minute_of_valid [OF times(2)])
  have days: "set (w_days w) \<subseteq> {0..6}" using assms by (simp add: valid_window_def)
  then have pos: "\<not> (\<exists>day \<in> set (w_days w). day * 1440 + s < 0)" using s(2) by fastforce
  let ?m = "foldl (\<lambda>m day. m OR day_segment s ((e - s) mod 1440) day) m (w_days w)"
  have "bit ?m t \<longleftrightarrow> bit m t \<or> covers w t" for t
    using bit_days [OF days s(2,3), of "(e - s) mod 1440" m t] by (simp add: covers_def s e)
  moreover have "window_mask m w = Some ?m"
    by (simp only: window_mask_def s(1) e bind.bind_lunit pos if_False)
  ultimately show thesis using that by blast
qed

lemma windows_mask_valid:
  assumes "\<forall>w \<in> set ws. valid_window w"
  obtains m' where "windows_mask m ws = Some m'"
    and "\<And>t. bit m' t \<longleftrightarrow> bit m t \<or> (\<exists>w \<in> set ws. covers w t)"
proof -
  have "\<exists>m'. windows_mask m ws = Some m' \<and> (\<forall>t. bit m' t \<longleftrightarrow> bit m t \<or> (\<exists>w \<in> set ws. covers w t))"
    using assms
  proof (induction ws arbitrary: m)
    case (Cons w ws)
    obtain m1 where "window_mask m w = Some m1" "\<And>t. bit m1 t \<longleftrightarrow> bit m t \<or> covers w t"
      using window_mask_valid Cons.prems by (metis list.set_intros(1))
    with Cons.IH [of m1] Cons.prems show ?case by auto
  qed simp
  with that show thesis by blast
qed

definition valid_availability :: "availability \<Rightarrow> bool" where
  "valid_availability a \<longleftrightarrow>
     (a_mode a = ''always'' \<or> a_mode a = ''scheduled'' \<and> a_windows a \<noteq> []) \<and>
     (\<forall>w \<in> set (a_windows a). valid_window w)"

text \<open>The availability of a group at a minute, as the settings page describes it.\<close>

definition open_by_windows :: "bool \<Rightarrow> availability \<Rightarrow> nat \<Rightarrow> bool" where
  "open_by_windows enabled a t \<longleftrightarrow>
     enabled \<and> (a_mode a = ''always'' \<or> (\<exists>w \<in> set (a_windows a). covers w t))"

lemma weekly_mask_valid:
  assumes "valid_availability a"
  obtains m where "group_weekly_mask enabled a = Some m"
    and "\<And>t. bit m t \<longleftrightarrow> t < WEEK_MINUTES \<and> open_by_windows enabled a t"
proof -
  have ws: "\<forall>w \<in> set (a_windows a). valid_window w" using assms by (simp add: valid_availability_def)
  obtain m where m: "windows_mask 0 (a_windows a) = Some m"
    "\<And>t. bit m t \<longleftrightarrow> bit (0::int) t \<or> (\<exists>w \<in> set (a_windows a). covers w t)"
    using windows_mask_valid [OF ws] by blast
  have lt: "covers w t \<Longrightarrow> t < WEEK_MINUTES" for w t
    by (auto simp: covers_def in_window_def split: option.splits)
  have m': "bit m t \<longleftrightarrow> t < WEEK_MINUTES \<and> (\<exists>w \<in> set (a_windows a). covers w t)" for t
    using m(2) lt by auto
  show thesis
  proof (cases "enabled \<and> a_mode a \<noteq> ''always''")
    case True
    then show thesis using m(1) m' by (intro that [of m]) (auto simp: group_weekly_mask_def open_by_windows_def)
  next
    case False
    then show thesis
      by (intro that [of "if enabled then ALL_WEEK else 0"])
        (auto simp: group_weekly_mask_def open_by_windows_def)
  qed
qed

section \<open>What validation accepts\<close>

definition valid_member :: "group_member \<Rightarrow> bool" where
  "valid_member m \<longleftrightarrow>
     valid_id (gm_id m) \<and> 1 \<le> gm_count m \<and> gm_count m \<le> 64 \<and>
     (gm_resource m = ''cpu'' \<and> gm_device m = None \<or>
      gm_resource m = ''gpu'' \<and> gm_device m \<noteq> None \<and> JOB_KIND_LOUDNESS \<notin> set (gm_job_types m)) \<and>
     gm_job_types m \<noteq> [] \<and> set (gm_job_types m) \<subseteq> set JOB_KINDS"

definition valid_group :: "worker_group \<Rightarrow> bool" where
  "valid_group g \<longleftrightarrow>
     valid_id (g_id g) \<and> g_name g \<noteq> [] \<and> length (g_name g) \<le> 80 \<and>
     valid_availability (g_availability g) \<and>
     g_members g \<noteq> [] \<and> length (g_members g) \<le> MAX_MEMBERS \<and>
     (\<forall>m \<in> set (g_members g). valid_member m) \<and>
     distinct (map gm_id (g_members g)) \<and> distinct (map member_key (g_members g))"

lemma clean_id_Some: "clean_id v seen = Some s \<Longrightarrow> valid_id s \<and> s \<notin> seen"
  by (auto simp: clean_id_def split: json.splits if_splits)

lemma clean_kinds_Some:
  "clean_kinds v = Some ks \<Longrightarrow> ks \<noteq> [] \<and> set ks \<subseteq> set JOB_KINDS"
proof -
  assume "clean_kinds v = Some ks"
  then obtain js where js: "js \<noteq> []" "\<forall>k \<in> set js. k \<in> JStr ` set JOB_KINDS"
    and ks: "ks = filter (\<lambda>kind. JStr kind \<in> set js) JOB_KINDS"
    by (auto simp: clean_kinds_def split: json.splits if_splits)
  have "hd js \<in> set js" using js(1) by (rule hd_in_set)
  then obtain kind where "kind \<in> set JOB_KINDS" "JStr kind \<in> set js"
    using bspec [OF js(2), of "hd js"] by (metis imageE)
  then have "kind \<in> set ks" by (simp add: ks)
  then have "ks \<noteq> []" by auto
  moreover have "set ks \<subseteq> set JOB_KINDS" by (auto simp: ks)
  ultimately show ?thesis by blast
qed

lemma clean_member_valid:
  assumes "clean_member raw ids devices legacy nodes = Inr m"
  shows "valid_member m \<and> gm_id m \<notin> ids \<and> member_key m \<notin> devices"
proof -
  from assms obtain obj where raw: "raw = JObj obj" by (cases raw) (auto simp: clean_member_def)
  note run = assms [unfolded clean_member_def raw json.case]
  obtain mid where mid: "clean_id (if legacy then JStr LEGACY_MEMBER_ID else get obj ''id'') ids = Some mid"
    using run by (auto split: option.splits)
  note run = run [unfolded mid option.case]
  obtain res where res: "clean_resource (get obj ''resource'') = Some res"
    using run by (auto split: option.splits)
  note run = run [unfolded res option.case]
  obtain dev where dev: "clean_device res (get obj ''device'') = Inr dev"
    using run by (auto simp: bindE_eq_Inr)
  note run = run [unfolded dev bindE.simps]
  obtain node where node: "clean_node obj nodes = Inr node"
    using run by (auto simp: bindE_eq_Inr)
  note run = run [unfolded node bindE.simps]
  have key: "member_resource_key res dev node \<notin> devices" using run by (auto split: if_splits)
  note run = run [unfolded if_not_P [OF key]]
  obtain n where n: "clean_count res (get obj ''count'') = Some n"
    using run key by (auto split: option.splits)
  obtain kinds where kinds: "clean_kinds (get obj ''job_types'') = Some kinds"
    using run n key by (auto split: option.splits)
  have loud: "\<not> (res = ''gpu'' \<and> JOB_KIND_LOUDNESS \<in> set kinds)"
    and m: "m = \<lparr>gm_id = mid, gm_resource = res, gm_device = dev, gm_count = n,
      gm_job_types = kinds, gm_node = node\<rparr>"
    using run n kinds key by (auto split: if_splits)
  have "res = ''cpu'' \<and> dev = None \<or> res = ''gpu'' \<and> dev \<noteq> None"
    using res dev
    by (auto simp: clean_resource_def clean_device_def bad_gpu_device_def split: json.splits if_splits)
  moreover have "1 \<le> n \<and> n \<le> 64"
    using n by (auto simp: clean_count_def Let_def MAX_CPU_WORKERS_def MAX_GPU_WORKERS_def
        split: json.splits if_splits)
  ultimately show ?thesis
    using clean_id_Some [OF mid] clean_kinds_Some [OF kinds] key loud
    by (auto simp: valid_member_def member_key_def m)
qed

lemma clean_member_list_valid:
  "clean_member_list raws ids devices nodes = Inr ms \<Longrightarrow>
     length ms = length raws \<and> (\<forall>m \<in> set ms. valid_member m \<and> gm_id m \<notin> ids \<and> member_key m \<notin> devices) \<and>
     distinct (map gm_id ms) \<and> distinct (map member_key ms)"
proof (induction raws arbitrary: ids devices ms)
  case (Cons raw raws)
  then obtain m ms' where m: "clean_member raw ids devices False nodes = Inr m"
    and ms': "clean_member_list raws (insert (gm_id m) ids) (insert (member_key m) devices) nodes = Inr ms'"
    and ms: "ms = m # ms'"
    by (auto simp: bindE_eq_Inr)
  from Cons.IH [OF ms'] clean_member_valid [OF m] show ?case by (auto simp: ms)
qed simp

lemma clean_members_valid:
  assumes "clean_members obj nodes = Inr ms"
  shows "ms \<noteq> [] \<and> length ms \<le> MAX_MEMBERS \<and> (\<forall>m \<in> set ms. valid_member m) \<and>
    distinct (map gm_id ms) \<and> distinct (map member_key ms)"
proof (cases "has_key obj ''members''")
  case False
  with assms obtain m where "clean_member (JObj obj) {} {} True nodes = Inr m" "ms = [m]"
    by (auto simp: clean_members_def bindE_eq_Inr split: if_splits)
  with clean_member_valid show ?thesis by (auto simp: MAX_MEMBERS_def)
next
  case True
  with assms obtain raws where raws: "raws \<noteq> []" "length raws \<le> MAX_MEMBERS"
    "clean_member_list raws {} {} nodes = Inr ms"
    by (auto simp: clean_members_def not_less split: json.splits if_splits option.splits)
  from clean_member_list_valid [OF raws(3)] raws(1,2) show ?thesis by auto
qed

lemma clean_days_Some: "clean_days v = Some ds \<Longrightarrow> ds \<noteq> [] \<and> set ds \<subseteq> {0..6}"
proof -
  assume "clean_days v = Some ds"
  then obtain js where js: "js \<noteq> []" "\<forall>d \<in> set js. d \<in> JInt ` {0..6}"
    and ds: "ds = sort (remdups (List.map_filter (\<lambda>d. case d of JInt i \<Rightarrow> Some i | _ \<Rightarrow> None) js))"
    by (auto simp: clean_days_def split: json.splits if_splits)
  have "(case d of JInt i \<Rightarrow> Some i | _ \<Rightarrow> None) = Some i \<longleftrightarrow> d = JInt i" for d i by (cases d) auto
  then have eq: "JInt i \<in> set js \<longleftrightarrow> i \<in> set ds" for i
    unfolding ds by (auto simp: in_map_filter)
  have "hd js \<in> set js" using js(1) by (rule hd_in_set)
  then obtain i where "JInt i \<in> set js" using bspec [OF js(2), of "hd js"] by (metis imageE)
  then have "ds \<noteq> []" using eq by auto
  moreover have "set ds \<subseteq> {0..6}" using js(2) eq by (metis imageE json.inject(2) subsetI)
  ultimately show ?thesis by blast
qed

lemma clean_window_valid: "clean_window raw = Inr w \<Longrightarrow> valid_window w"
proof -
  assume "clean_window raw = Inr w"
  then obtain v s e days where "clean_days v = Some days" "valid_time s" "valid_time e" "s \<noteq> e"
    "w = \<lparr>w_days = days, w_start = s, w_end = e\<rparr>"
    by (auto simp: clean_window_def split: json.splits option.splits if_splits)
  with clean_days_Some show ?thesis by (simp add: valid_window_def)
qed

lemma clean_windows_valid:
  "clean_windows raws = Inr ws \<Longrightarrow> length ws = length raws \<and> (\<forall>w \<in> set ws. valid_window w)"
  by (induction raws arbitrary: ws) (auto simp: bindE_eq_Inr clean_window_valid)

lemma clean_availability_valid: "clean_availability obj = Inr a \<Longrightarrow> valid_availability a"
  by (auto simp: clean_availability_def valid_availability_def bindE_eq_Inr clean_windows_valid
      split: json.splits if_splits dest!: clean_windows_valid)

lemma clean_group_valid:
  "clean_group raw ids nodes = Inr g \<Longrightarrow> valid_group g \<and> g_id g \<notin> ids"
proof -
  assume "clean_group raw ids nodes = Inr g"
  then obtain obj gid name enabled ms a where
    "clean_id (get obj ''id'') ids = Some gid" "strip name \<noteq> []" "length (strip name) \<le> 80"
    "clean_members obj nodes = Inr ms" "clean_availability obj = Inr a"
    "g = \<lparr>g_id = gid, g_name = strip name, g_enabled = enabled, g_availability = a, g_members = ms\<rparr>"
    by (auto simp: clean_group_def bindE_eq_Inr not_less split: json.splits option.splits if_splits)
  then show ?thesis
    using clean_id_Some clean_members_valid clean_availability_valid by (simp add: valid_group_def)
qed

lemma clean_groups_valid:
  "clean_groups raws ids nodes = Inr gs \<Longrightarrow>
     length gs = length raws \<and> (\<forall>g \<in> set gs. valid_group g \<and> g_id g \<notin> ids) \<and> distinct (map g_id gs)"
proof (induction raws arbitrary: ids gs)
  case (Cons raw raws)
  then obtain g gs' where g: "clean_group raw ids nodes = Inr g"
    and gs': "clean_groups raws (insert (g_id g) ids) nodes = Inr gs'" and gs: "gs = g # gs'"
    by (auto simp: bindE_eq_Inr)
  from Cons.IH [OF gs'] clean_group_valid [OF g] show ?case by (auto simp: gs)
qed simp

section \<open>Capacity\<close>

text \<open>The workers of one family (\<open>cpu\<close> or \<open>gpu\<close>) open at a minute, here or on a node.\<close>

definition family_workers :: "worker_group list \<Rightarrow> string \<Rightarrow> string option \<Rightarrow> nat \<Rightarrow> int" where
  "family_workers gs resource node t =
     workers_at (filter (\<lambda>p. p_resource p = resource \<and>
        (case node of None \<Rightarrow> \<not> on_node p | Some n \<Rightarrow> on_node p \<and> p_node p = Some n))
       (member_policies (map Saved gs))) t"

lemma peaks_bound:
  assumes "peaks ps = Some tot" and "\<not> over_limit tot" and "resource = ''cpu'' \<or> resource = ''gpu''"
  shows "workers_at (filter (\<lambda>p. p_resource p = resource) ps) t \<le> 64"
proof -
  from assms(1) obtain gpu cpu where "tot = (gpu, cpu)"
    "peak_of (filter (\<lambda>p. p_resource p = ''gpu'') ps) = Some gpu"
    "peak_of (filter (\<lambda>p. p_resource p = ''cpu'') ps) = Some cpu"
    by (auto simp: peaks_def bind_eq_Some_conv)
  with assms(2,3) peak_is_max(1) [of "filter (\<lambda>p. p_resource p = ''gpu'') ps" gpu t]
    peak_is_max(1) [of "filter (\<lambda>p. p_resource p = ''cpu'') ps" cpu t]
  show ?thesis by (auto simp: over_limit_def MAX_CPU_WORKERS_def MAX_GPU_WORKERS_def)
qed

lemma find_None: "find P xs = None \<longleftrightarrow> (\<forall>x \<in> set xs. \<not> P x)"
  by (induction xs) auto

lemma map_opt_image: "map_opt f xs = Some ys \<Longrightarrow> x \<in> set xs \<Longrightarrow> \<exists>y \<in> set ys. f x = Some y"
  by (induction xs arbitrary: ys) (auto simp: bind_eq_Some_conv)

lemma workers_at_empty: "filter P ps = [] \<Longrightarrow> workers_at (filter P ps) t = 0"
  by (simp add: workers_at_def)

lemma check_capacity_bound:
  assumes ok: "check_capacity gs = Inr gs'" and res: "resource = ''cpu'' \<or> resource = ''gpu''"
  shows "gs' = gs \<and> family_workers gs resource node t \<le> 64"
proof -
  let ?ps = "member_policies (map Saved gs)"
  from ok obtain totals nodes where tot: "configured_group_totals (map Saved gs) = Some totals"
    "\<not> over_limit totals" "configured_node_totals (map Saved gs) = Some nodes"
    "find (\<lambda>(node, t). over_limit t) nodes = None" "gs' = gs"
    by (auto simp: check_capacity_def split: option.splits if_splits)
  show ?thesis
  proof (cases node)
    case None
    have "workers_at (filter (\<lambda>p. p_resource p = resource) (filter (\<lambda>p. \<not> on_node p) ?ps)) t \<le> 64"
      by (rule peaks_bound [OF tot(1) [unfolded configured_group_totals_def] tot(2) res])
    then show ?thesis using tot(5) by (simp add: family_workers_def None conj_commute)
  next
    case (Some n)
    let ?on = "filter (\<lambda>p. p_node p = Some n) (filter on_node ?ps)"
    show ?thesis
    proof (cases "?on = []")
      case True
      then have "filter (\<lambda>p. p_resource p = resource \<and> on_node p \<and> p_node p = Some n) ?ps = []"
        by (auto simp: filter_empty_conv)
      then show ?thesis using tot(5) by (simp add: family_workers_def Some workers_at_def)
    next
      case False
      then obtain p where p: "p \<in> set ?ps" "on_node p" "p_node p = Some n"
        by (auto simp: filter_empty_conv)
      then have "n \<in> set (dedupe (map (\<lambda>p. the (p_node p)) (filter on_node ?ps)))" by force
      from map_opt_image [OF tot(3) [unfolded configured_node_totals_def Let_def] this]
      obtain x where x: "x \<in> set nodes" "\<exists>z. peaks ?on = Some z \<and> x = (n, z)" by auto
      then obtain z where z: "peaks ?on = Some z" "(n, z) \<in> set nodes" by blast
      then have "\<not> over_limit z" using tot(4) by (auto simp: find_None)
      from peaks_bound [OF z(1) this res, of t]
      have "workers_at (filter (\<lambda>p. p_resource p = resource \<and> on_node p \<and> p_node p = Some n) ?ps) t \<le> 64"
        by (simp add: conj_commute conj_left_commute)
      then show ?thesis using tot(5) by (simp add: family_workers_def Some)
    qed
  qed
qed

section \<open>When the capacity check passes\<close>

definition enabled_count :: "policy \<Rightarrow> int" where
  "enabled_count p = (if p_enabled p then p_count p else 0)"

lemma not_open_disabled: "\<not> p_enabled p \<Longrightarrow> \<not> open_at p t"
  by (simp add: open_at_def group_weekly_mask_def)

lemma workers_at_le:
  "\<forall>p \<in> set ps. 0 \<le> p_count p \<Longrightarrow> workers_at ps t \<le> sum_list (map enabled_count ps)"
proof (induction ps)
  case (Cons p ps)
  then have "(if open_at p t then p_count p else 0) \<le> enabled_count p"
    using not_open_disabled by (auto simp: enabled_count_def)
  with Cons show ?case by (simp add: workers_at_def)
qed (simp add: workers_at_def)

lemma enabled_sum_nonneg:
  "\<forall>p \<in> set ps. 0 \<le> p_count p \<Longrightarrow> 0 \<le> sum_list (map enabled_count ps)"
  by (induction ps) (auto simp: enabled_count_def)

lemma peak_defined:
  assumes "\<forall>p \<in> set ps. valid_availability (p_availability p)"
  shows "\<exists>peak. peak_of ps = Some peak"
proof -
  have "\<exists>ch. policies_changes ps changes = Some ch" for changes
    using assms
  proof (induction ps arbitrary: changes)
    case (Cons p ps)
    obtain m where "group_weekly_mask (p_enabled p) (p_availability p) = Some m"
      using weekly_mask_valid Cons.prems by (metis list.set_intros(1))
    with Cons show ?case by simp
  qed simp
  then obtain ch where "policies_changes ps [] = Some ch" by blast
  then show ?thesis by (simp add: peak_of_def)
qed

definition fine_policies :: "policy list \<Rightarrow> bool" where
  "fine_policies ps \<longleftrightarrow>
     (\<forall>p \<in> set ps. valid_availability (p_availability p) \<and> 0 \<le> p_count p)"

lemma peak_le_total:
  assumes "fine_policies ps"
  obtains peak where "peak_of ps = Some peak" and "peak \<le> sum_list (map enabled_count ps)"
proof -
  obtain peak where peak: "peak_of ps = Some peak" using peak_defined assms by (auto simp: fine_policies_def)
  have pos: "\<forall>p \<in> set ps. 0 \<le> p_count p" using assms by (simp add: fine_policies_def)
  from peak_is_max(2) [OF peak] have "peak \<le> sum_list (map enabled_count ps)"
    using workers_at_le [OF pos] enabled_sum_nonneg [OF pos] by metis
  with peak that show thesis by blast
qed

lemma enabled_sum_filter:
  "fine_policies ps \<Longrightarrow> sum_list (map enabled_count (filter P ps)) \<le> sum_list (map enabled_count ps)"
  by (induction ps) (auto simp: fine_policies_def enabled_count_def)

lemma fine_filter: "fine_policies ps \<Longrightarrow> fine_policies (filter P ps)"
  by (simp add: fine_policies_def)

text \<open>Policies whose enabled workers fit the limits together fit them at every minute.\<close>

definition total_fits :: "policy list \<Rightarrow> bool" where
  "total_fits ps \<longleftrightarrow>
     sum_list (map enabled_count (filter (\<lambda>p. p_resource p = ''gpu'') ps)) \<le> MAX_GPU_WORKERS \<and>
     sum_list (map enabled_count (filter (\<lambda>p. p_resource p = ''cpu'') ps)) \<le> MAX_CPU_WORKERS"

lemma peaks_fit:
  assumes fine: "fine_policies ps" and fits: "total_fits ps"
  obtains tot where "peaks (filter P ps) = Some tot" and "\<not> over_limit tot"
proof -
  have swap: "filter (\<lambda>p. p_resource p = r) (filter P ps) = filter P (filter (\<lambda>p. p_resource p = r) ps)" for r
    by (simp add: conj_commute)
  have le: "\<exists>peak. peak_of (filter (\<lambda>p. p_resource p = r) (filter P ps)) = Some peak \<and>
      peak \<le> sum_list (map enabled_count (filter (\<lambda>p. p_resource p = r) ps))" for r
  proof -
    let ?qs = "filter (\<lambda>p. p_resource p = r) ps"
    obtain peak where "peak_of (filter P ?qs) = Some peak"
      "peak \<le> sum_list (map enabled_count (filter P ?qs))"
      by (rule peak_le_total [OF fine_filter [OF fine_filter [OF fine]]])
    then show ?thesis
      unfolding swap using enabled_sum_filter [OF fine_filter [OF fine], of P "\<lambda>p. p_resource p = r"]
      by (intro exI [of _ peak]) linarith
  qed
  from fits have lim: "sum_list (map enabled_count (filter (\<lambda>p. p_resource p = ''gpu'') ps)) \<le> MAX_GPU_WORKERS"
    "sum_list (map enabled_count (filter (\<lambda>p. p_resource p = ''cpu'') ps)) \<le> MAX_CPU_WORKERS"
    unfolding total_fits_def by blast+
  from le [of "''gpu''"] obtain gpu where
    gpu: "peak_of (filter (\<lambda>p. p_resource p = ''gpu'') (filter P ps)) = Some gpu"
    "gpu \<le> sum_list (map enabled_count (filter (\<lambda>p. p_resource p = ''gpu'') ps))" by blast
  from le [of "''cpu''"] obtain cpu where
    cpu: "peak_of (filter (\<lambda>p. p_resource p = ''cpu'') (filter P ps)) = Some cpu"
    "cpu \<le> sum_list (map enabled_count (filter (\<lambda>p. p_resource p = ''cpu'') ps))" by blast
  have "\<not> over_limit (gpu, cpu)" using order_trans [OF gpu(2) lim(1)] order_trans [OF cpu(2) lim(2)]
    by (simp add: over_limit_def)
  moreover have "peaks (filter P ps) = Some (gpu, cpu)"
    by (simp only: peaks_def gpu(1) cpu(1) bind.bind_lunit)
  ultimately show thesis using that by blast
qed

lemma check_capacity_ok:
  assumes fine: "fine_policies (member_policies (map Saved gs))"
    and fits: "total_fits (member_policies (map Saved gs))"
  shows "check_capacity gs = Inr gs"
proof -
  let ?ps = "member_policies (map Saved gs)"
  obtain tot where tot: "configured_group_totals (map Saved gs) = Some tot" "\<not> over_limit tot"
    unfolding configured_group_totals_def using peaks_fit [OF assms, of "\<lambda>p. \<not> on_node p"] by blast
  let ?f = "\<lambda>n. map_option (\<lambda>t. (n, t)) (peaks (filter (\<lambda>p. p_node p = Some n) (filter on_node ?ps)))"
  have each: "\<exists>t. ?f n = Some (n, t) \<and> \<not> over_limit t" for n
  proof -
    obtain t where "peaks (filter (\<lambda>p. on_node p \<and> p_node p = Some n) ?ps) = Some t" "\<not> over_limit t"
      by (rule peaks_fit [OF assms])
    then show ?thesis by (intro exI [of _ t]) (simp add: conj_commute)
  qed
  then have f: "?f n = Some (the (?f n))" for n by (metis option.sel)
  let ?nodes = "dedupe (map (\<lambda>p. the (p_node p)) (filter on_node ?ps))"
  have nodes: "configured_node_totals (map Saved gs) = Some (map (\<lambda>n. the (?f n)) ?nodes)"
    unfolding configured_node_totals_def Let_def using f by (intro map_opt_Some) blast
  have "find (\<lambda>(node, t). over_limit t) (map (\<lambda>n. the (?f n)) ?nodes) = None"
    unfolding find_None using each by (metis (no_types, lifting) imageE list.set_map option.sel prod.case)
  with tot nodes show ?thesis by (simp only: check_capacity_def option.case if_False)
qed

lemma valid_groups_fine: "\<forall>g \<in> set gs. valid_group g \<Longrightarrow> fine_policies (member_policies (map Saved gs))"
  by (fastforce simp: fine_policies_def member_policies_def policy_of_def valid_group_def valid_member_def)

lemma validated_groups:
  assumes "validate_worker_groups value nodes = Inr gs"
  shows "length gs \<le> MAX_GROUPS \<and> distinct (map g_id gs) \<and> {g \<in> set gs. \<not> valid_group g} = {} \<and>
    (\<forall>node t. family_workers gs ''cpu'' node t \<le> 64 \<and> family_workers gs ''gpu'' node t \<le> 64)"
proof -
  obtain raws gs0 where raws: "value = JList raws" "length raws \<le> MAX_GROUPS"
    and gs0: "clean_groups raws {} nodes = Inr gs0" and cap: "check_capacity gs0 = Inr gs"
    using assms by (auto simp: validate_worker_groups_def bindE_eq_Inr split: json.splits if_splits)
  have "gs = gs0" using check_capacity_bound [OF cap, of "''cpu''"] by simp
  then show ?thesis
    using clean_groups_valid [OF gs0] raws(2) check_capacity_bound [OF cap] by auto
qed

section \<open>Properties\<close>

text \<open>
  C14: whatever JSON is saved, the groups \<open>validate_worker_groups\<close> accepts have distinct ids, each
  is well formed (1 to 8 devices, distinct, with 1 to 64 workers each, real job kinds, Plex
  loudness on the CPU only, windows with real days and times), and at every minute of the week
  the CPU workers, and the GPU workers, of this app and of every node number at most 64.
\<close>

theorem validated_groups_fit_capacity:
  assumes "validate_worker_groups value nodes = Inr gs"
  shows "length gs \<le> MAX_GROUPS \<and> distinct (map g_id gs) \<and> {g \<in> set gs. \<not> valid_group g} = {} \<and>
    (\<forall>node t. family_workers gs ''cpu'' node t \<le> 64 \<and> family_workers gs ''gpu'' node t \<le> 64)"
  by (rule validated_groups [OF assms])

definition sample_groups :: json where
  "sample_groups = JList [JObj [(''id'', JStr ''night''), (''name'', JStr '' Night ''),
     (''availability'', JObj [(''mode'', JStr ''scheduled''), (''windows'', JList [JObj
        [(''days'', JList [JInt 6]), (''start'', JStr ''23:00''), (''end'', JStr ''06:00'')]])]),
     (''members'', JList [JObj [(''id'', JStr ''m1''), (''resource'', JStr ''cpu''), (''count'', JInt 4),
        (''job_types'', JList [JStr ''loudness'', JStr ''previews''])]])]]"

definition sample_group :: worker_group where
  "sample_group = \<lparr>g_id = ''night'', g_name = ''Night'', g_enabled = True,
     g_availability = \<lparr>a_mode = ''scheduled'',
       a_windows = [\<lparr>w_days = [6], w_start = ''23:00'', w_end = ''06:00''\<rparr>]\<rparr>,
     g_members = [\<lparr>gm_id = ''m1'', gm_resource = ''cpu'', gm_device = None, gm_count = 4,
       gm_job_types = [''previews'', ''loudness''], gm_node = None\<rparr>]\<rparr>"

lemma sample_groups_valid: "validate_worker_groups sample_groups None = Inr [sample_group]"
proof -
  obtain raws where raws: "sample_groups = JList raws" "length raws = 1" by (simp add: sample_groups_def)
  have clean: "(case sample_groups of JList raws \<Rightarrow> clean_groups raws {} None | _ \<Rightarrow> Inl Clock_Error) = Inr [sample_group]"
    by code_simp
  then have clean': "clean_groups raws {} None = Inr [sample_group]" by (simp add: raws)
  have "total_fits (member_policies (map Saved [sample_group]))" by code_simp
  moreover have "fine_policies (member_policies (map Saved [sample_group]))"
    using clean_groups_valid [OF clean'] by (intro valid_groups_fine) simp
  ultimately have "check_capacity [sample_group] = Inr [sample_group]" by (intro check_capacity_ok)
  then show ?thesis by (simp add: validate_worker_groups_def raws clean' MAX_GROUPS_def)
qed

theorem validated_groups_fit_capacity_witness:
  "family_workers [sample_group] ''cpu'' None 10000 \<le> 64"
  using validated_groups_fit_capacity [OF sample_groups_valid] by blast

text \<open>
  For an accepted group the mask arithmetic never raises and means what the settings page
  shows: at a minute of the week the group may start files exactly when it is enabled and is
  always available or inside one of its windows, each counted from its start on each of its
  days, past midnight and past the end of the week if it is that long.
\<close>

theorem group_is_available_exact:
  assumes "validate_worker_groups value nodes = Inr gs" and "g \<in> set gs" and "now < WEEK_MINUTES"
  shows "group_is_available (g_enabled g) (g_availability g) now =
    Some (open_by_windows (g_enabled g) (g_availability g) now)"
proof -
  obtain raws gs0 where gs0: "clean_groups raws {} nodes = Inr gs0" and cap: "check_capacity gs0 = Inr gs"
    using assms(1) by (auto simp: validate_worker_groups_def bindE_eq_Inr split: json.splits if_splits)
  have "gs = gs0" using check_capacity_bound [OF cap, of "''cpu''"] by simp
  then have "valid_availability (g_availability g)"
    using clean_groups_valid [OF gs0] assms(2) by (simp add: valid_group_def)
  then obtain m where "group_weekly_mask (g_enabled g) (g_availability g) = Some m"
    "\<forall>t. bit m t \<longleftrightarrow> t < WEEK_MINUTES \<and> open_by_windows (g_enabled g) (g_availability g) t"
    using weekly_mask_valid [where enabled = "g_enabled g"] by metis
  then show ?thesis using assms(3)
    by (cases "g_enabled g") (simp_all add: group_is_available_def test_bit_exp open_by_windows_def)
qed

text \<open>Sunday 23:00 to 06:00 is open on Monday at 00:10, across the end of the week.\<close>

theorem group_is_available_exact_witness:
  "group_is_available True (g_availability sample_group) 10 = Some True"
proof -
  have "open_by_windows True (g_availability sample_group) 10" by code_simp
  then show ?thesis
    using group_is_available_exact [OF sample_groups_valid, of sample_group 10]
    by (simp add: WEEK_MINUTES_def sample_group_def)
qed

text \<open>
  C38: the sweep over the runs of the masks gives the peak: no minute has more workers open, and
  unless the peak is zero some minute has exactly that many.
\<close>

theorem peak_is_maximum:
  assumes "peak_of ps = Some peak"
  shows "(\<forall>t. workers_at ps t \<le> peak) \<and> (peak = 0 \<or> (\<exists>t. workers_at ps t = peak))"
  using peak_is_max [OF assms] by blast

theorem peak_is_maximum_witness:
  "workers_at (member_policies [Saved (sample_group\<lparr>g_enabled := False\<rparr>)]) 5 \<le> 0"
proof -
  have "peak_of (member_policies [Saved (sample_group\<lparr>g_enabled := False\<rparr>)]) = Some 0" by code_simp
  from peak_is_maximum [OF this] show ?thesis by blast
qed

text \<open>
  The next opening is the first.  Whatever the clock does (hours skipped or repeated by
  daylight saving), the answer is the least number of elapsed minutes after which the wall
  clock is inside the mask, and there is none only when no minute of the next 15 days is.
\<close>

theorem next_mask_opening_first:
  "case next_mask_opening m clock of
     Some i \<Rightarrow> i \<le> 15 * 1440 \<and> bit m (clock i) \<and> {j. j < i \<and> bit m (clock j)} = {}
   | None \<Rightarrow> {j. j \<le> 15 * 1440 \<and> bit m (clock j)} = {}"
proof -
  have search: "(case search_opening m clock fuel i of
      Some k \<Rightarrow> i \<le> k \<and> k < i + fuel \<and> bit m (clock k) \<and> {j. i \<le> j \<and> j < k \<and> bit m (clock j)} = {}
    | None \<Rightarrow> {j. i \<le> j \<and> j < i + fuel \<and> bit m (clock j)} = {})" for fuel i
  proof (induction fuel arbitrary: i)
    case (Suc fuel)
    show ?case
    proof (cases "bit m (clock i)")
      case True
      then show ?thesis by (simp add: test_bit_exp)
    next
      case False
      then have "j = i \<Longrightarrow> \<not> bit m (clock j)" for j by simp
      with Suc.IH [of "i + 1"] False show ?thesis
        by (auto simp: test_bit_exp Suc_le_eq split: option.splits)
    qed
  qed simp
  show ?thesis
  proof (cases "m = 0 \<or> bit m (clock 0)")
    case True
    then show ?thesis by (auto simp: next_mask_opening_def test_bit_exp)
  next
    case False
    then have pos: "bit m (clock j) \<Longrightarrow> Suc 0 \<le> j" for j by (cases j) auto
    have none: "{j. j \<le> n \<and> bit m (clock j)} = {j. 1 \<le> j \<and> j < 1 + n \<and> bit m (clock j)}" for n
      by (auto dest: pos)
    have "next_mask_opening m clock = search_opening m clock (15 * 1440) 1"
      using False by (simp only: next_mask_opening_def test_bit) simp
    with search [where fuel = "15 * 1440" and i = 1] show ?thesis
      unfolding none by (auto dest: pos split: option.splits)
  qed
qed

end
