(* ===== verification/Quiet_Hours.thy ===== *)
theory Quiet_Hours
  imports Worker_Claims
begin

text \<open>
  Quiet hours (\<open>quiet_hours.py\<close>): the migration of the settings of an older release to windows
  counted from their start day, and the weekly mask of paused minutes.  The old settings meant
  both the morning and the evening of every chosen day.
\<close>

section \<open>The migration\<close>

text \<open>\<open>str(day)\<close> of a day that is no string is the name of no day.\<close>

definition DAYS :: "string list" where
  "DAYS = [''mon'', ''tue'', ''wed'', ''thu'', ''fri'', ''sat'', ''sun'']"

record quiet_window =
  q_start :: string
  q_end :: string
  q_days :: "string list"

record quiet_hours =
  q_enabled :: bool
  q_windows :: "quiet_window list"

text \<open>
  \<open>_time\<close>.  The text of a value that is no string is never two numbers around one colon, so
  such a value is refused.
\<close>

definition clean_time :: "json \<Rightarrow> string option" where
  "clean_time v =
     (case v of
        JStr s \<Rightarrow>
          (case split_on CHR '':'' s of
             [hour, minute] \<Rightarrow> do {
               h \<leftarrow> py_int hour;
               m \<leftarrow> py_int minute;
               if 0 \<le> h \<and> h < 24 \<and> 0 \<le> m \<and> m < 60 then Some (pad2 h @ '':'' @ pad2 m) else None
             }
           | _ \<Rightarrow> None)
      | _ \<Rightarrow> None)"

definition chosen_days :: "json \<Rightarrow> string list" where
  "chosen_days raw_days =
     (let chosen = (case raw_days of
                      JList ds \<Rightarrow> List.map_filter
                        (\<lambda>d. case d of JStr s \<Rightarrow> Some (lower (strip s)) | _ \<Rightarrow> None) ds
                    | _ \<Rightarrow> []);
          days = filter (\<lambda>day. day \<in> set chosen) DAYS
      in if days = [] then DAYS else days)"

text \<open>A window of the saved settings, where it is one: its times differ and are times.\<close>

definition read_window :: "json \<Rightarrow> quiet_window option" where
  "read_window w =
     (case w of
        JObj obj \<Rightarrow> do {
          start \<leftarrow> clean_time (get obj ''start'');
          end \<leftarrow> clean_time (get obj ''end'');
          if start = end then None
          else Some \<lparr>q_start = start, q_end = end, q_days = chosen_days (get obj ''days'')\<rparr>
        }
      | _ \<Rightarrow> None)"

definition split_legacy :: "bool \<Rightarrow> quiet_window \<Rightarrow> quiet_window list" where
  "split_legacy start_days w =
     (if \<not> start_days \<and> q_start w > q_end w
      then (if q_end w \<noteq> ''00:00'' then [w\<lparr>q_start := ''00:00''\<rparr>] else []) @ [w\<lparr>q_end := ''00:00''\<rparr>]
      else [w])"

text \<open>The list the code loops over: the windows, or one made of the top-level times.\<close>

definition quiet_source :: "(string \<times> json) list \<Rightarrow> json list" where
  "quiet_source raw =
     (case get raw ''windows'' of
        JList ws \<Rightarrow>
          if ws = [] \<and> get raw ''day_basis'' \<noteq> JStr ''start''
          then [JObj [(''start'', get raw ''start''), (''end'', get raw ''end'')]] else ws
      | _ \<Rightarrow> [JObj [(''start'', get raw ''start''), (''end'', get raw ''end'')]])"

definition migrate_quiet_hours :: "json \<Rightarrow> quiet_hours" where
  "migrate_quiet_hours value =
     (let raw = (case value of JObj obj \<Rightarrow> obj | _ \<Rightarrow> []);
          start_days = (get raw ''day_basis'' = JStr ''start'')
      in \<lparr>q_enabled = truthy (get raw ''enabled''),
          q_windows = concat (map (split_legacy start_days)
                        (List.map_filter read_window (quiet_source raw)))\<rparr>)"

text \<open>What is saved: the result as JSON, with its \<open>day_basis\<close>.\<close>

definition quiet_window_json :: "quiet_window \<Rightarrow> json" where
  "quiet_window_json w =
     JObj [(''start'', JStr (q_start w)), (''end'', JStr (q_end w)), (''days'', JList (map JStr (q_days w)))]"

definition quiet_json :: "quiet_hours \<Rightarrow> json" where
  "quiet_json q =
     JObj [(''enabled'', JBool (q_enabled q)), (''day_basis'', JStr ''start''),
           (''windows'', JList (map quiet_window_json (q_windows q)))]"

definition quiet_hours_weekly_mask :: "json \<Rightarrow> int option" where
  "quiet_hours_weekly_mask raw =
     (let quiet = migrate_quiet_hours raw
      in group_weekly_mask (q_enabled quiet)
           \<lparr>a_mode = ''scheduled'',
            a_windows = map (\<lambda>w. \<lparr>w_days = map (\<lambda>day. int (index_or_len day DAYS)) (q_days w),
                                  w_start = q_start w, w_end = q_end w\<rparr>) (q_windows quiet)\<rparr>)"

section \<open>Times of day as text\<close>

definition hhmm :: "int \<Rightarrow> int \<Rightarrow> string" where
  "hhmm h m = pad2 h @ '':'' @ pad2 m"

lemma pad2_two:
  assumes "0 \<le> n" "n < 100"
  shows "pad2 n = [digit_char (nat n div 10), digit_char (nat n mod 10)]"
proof -
  have "CHR ''0'' = digit_char 0" by code_simp
  with assms show ?thesis
    by (simp add: pad2_def show_nat.simps [of "nat n"] show_nat.simps [of "nat n div 10"] Let_def)
qed

lemma clean_time_Some:
  assumes "clean_time v = Some s"
  obtains h m where "0 \<le> h" "h < 24" "0 \<le> m" "m < 60" "s = hhmm h m"
  using assms that
  by (auto simp: clean_time_def hhmm_def bind_eq_Some_conv split: json.splits list.splits if_splits)

lemma split_hhmm: "split_on CHR '':'' (hhmm h m) = [pad2 h, pad2 m]"
proof -
  have "CHR '':'' \<notin> set (pad2 n)" for n using pad2_digits(1) [of n] not_digit_colon by blast
  then show ?thesis by (simp add: hhmm_def split_on_append_sep split_on_no_sep)
qed

lemma clean_time_hhmm:
  "0 \<le> h \<Longrightarrow> h < 24 \<Longrightarrow> 0 \<le> m \<Longrightarrow> m < 60 \<Longrightarrow> clean_time (JStr (hhmm h m)) = Some (hhmm h m)"
  unfolding clean_time_def json.case split_hhmm by (simp add: hhmm_def)

lemma minute_of_hhmm: "0 \<le> h \<Longrightarrow> 0 \<le> m \<Longrightarrow> minute_of (hhmm h m) = Some (h * 60 + m)"
  by (simp add: minute_of_def split_hhmm)

text \<open>Such texts compare as the times they show.\<close>

lemma digit_char_less: "a < 10 \<Longrightarrow> b < 10 \<Longrightarrow> digit_char a < digit_char b \<longleftrightarrow> a < b"
  by (simp add: less_char_def of_char_digit_char)

lemma digit_char_eq: "a < 10 \<Longrightarrow> b < 10 \<Longrightarrow> digit_char a = digit_char b \<longleftrightarrow> a = b"
  by (metis of_char_digit_char add_left_cancel)

lemma pad2_less:
  assumes "0 \<le> a" "a < 100" "0 \<le> b" "b < 100"
  shows "pad2 a @ s < pad2 b @ t \<longleftrightarrow> a < b \<or> a = b \<and> s < t"
proof -
  have d: "nat x div 10 < 10" "nat x mod 10 < 10" if "0 \<le> x" "x < 100" for x using that by auto
  have *: "nat a div 10 < nat b div 10 \<or> nat a div 10 = nat b div 10 \<and>
      (nat a mod 10 < nat b mod 10 \<or> nat a mod 10 = nat b mod 10 \<and> s < t) \<longleftrightarrow> a < b \<or> a = b \<and> s < t"
  proof -
    have "nat a = nat a div 10 * 10 + nat a mod 10" "nat b = nat b div 10 * 10 + nat b mod 10" by simp_all
    then have "nat a div 10 < nat b div 10 \<or> nat a div 10 = nat b div 10 \<and> nat a mod 10 < nat b mod 10 \<longleftrightarrow> nat a < nat b"
      using d(2) [OF assms(1,2)] d(2) [OF assms(3,4)] by linarith
    moreover have "nat a div 10 = nat b div 10 \<and> nat a mod 10 = nat b mod 10 \<longleftrightarrow> nat a = nat b"
      by (metis div_mult_mod_eq)
    moreover have "nat a < nat b \<longleftrightarrow> a < b" "nat a = nat b \<longleftrightarrow> a = b" using assms by auto
    ultimately show ?thesis by blast
  qed
  show ?thesis
    unfolding pad2_two [OF assms(1,2)] pad2_two [OF assms(3,4)]
    by (simp add: digit_char_less digit_char_eq d assms * del: nat_less_eq_zless)
qed

lemma hhmm_less:
  assumes "0 \<le> h" "h < 24" "0 \<le> m" "m < 60" "0 \<le> h'" "h' < 24" "0 \<le> m'" "m' < 60"
  shows "hhmm h m < hhmm h' m' \<longleftrightarrow> h * 60 + m < h' * 60 + m'"
proof -
  have "'':'' @ pad2 m < '':'' @ pad2 m' \<longleftrightarrow> m < m'"
    using pad2_less [of m m' "[]" "[]"] assms by simp
  then have "hhmm h m < hhmm h' m' \<longleftrightarrow> h < h' \<or> h = h' \<and> m < m'"
    unfolding hhmm_def using pad2_less [of h h'] assms by simp
  then show ?thesis using assms by auto
qed

lemma midnight: "''00:00'' = hhmm 0 0"
  by code_simp

section \<open>Windows read from settings\<close>

text \<open>A window as it is read: real times that differ, and some days of the week in order.\<close>

definition clean_quiet_window :: "quiet_window \<Rightarrow> bool" where
  "clean_quiet_window w \<longleftrightarrow>
     clean_time (JStr (q_start w)) = Some (q_start w) \<and> clean_time (JStr (q_end w)) = Some (q_end w) \<and>
     q_start w \<noteq> q_end w \<and> q_days w \<noteq> [] \<and> q_days w = filter (\<lambda>day. day \<in> set (q_days w)) DAYS"

lemma chosen_days_clean:
  "chosen_days v \<noteq> [] \<and> chosen_days v = filter (\<lambda>day. day \<in> set (chosen_days v)) DAYS"
proof -
  define P where "P = (\<lambda>day. day \<in> set (case v of
      JList ds \<Rightarrow> List.map_filter (\<lambda>d. case d of JStr s \<Rightarrow> Some (lower (strip s)) | _ \<Rightarrow> None) ds
    | _ \<Rightarrow> []))"
  have P: "chosen_days v = (if filter P DAYS = [] then DAYS else filter P DAYS)"
    by (simp only: chosen_days_def Let_def P_def)
  have "filter (\<lambda>day. day \<in> set (filter P DAYS)) DAYS = filter P DAYS"
    by (intro filter_cong) auto
  moreover have "filter (\<lambda>day. day \<in> set DAYS) DAYS = DAYS" by simp
  moreover have "DAYS \<noteq> []" by (simp add: DAYS_def)
  ultimately show ?thesis unfolding P by (simp del: set_filter)
qed

lemma clean_time_idem: "clean_time v = Some s \<Longrightarrow> clean_time (JStr s) = Some s"
  by (erule clean_time_Some) (simp add: clean_time_hhmm)

lemma read_window_clean: "read_window v = Some w \<Longrightarrow> clean_quiet_window w"
  using chosen_days_clean
  by (auto simp: read_window_def clean_quiet_window_def bind_eq_Some_conv clean_time_idem
      split: json.splits if_splits)

lemma lower_strip_days: "day \<in> set DAYS \<Longrightarrow> lower (strip day) = day"
  by (auto simp: DAYS_def) (code_simp+)

lemma chosen_days_again:
  assumes "ds \<noteq> []" and "ds = filter (\<lambda>day. day \<in> set ds) DAYS"
  shows "chosen_days (JList (map JStr ds)) = ds"
proof -
  have days: "set ds \<subseteq> set DAYS" by (subst assms(2)) auto
  have "List.map_filter (\<lambda>d. case d of JStr s \<Rightarrow> Some (lower (strip s)) | _ \<Rightarrow> None) (map JStr ds) =
      map (\<lambda>s. lower (strip s)) ds"
    by (simp add: List.map_filter_def comp_def)
  also have "\<dots> = ds" using days lower_strip_days by (intro map_idI) blast
  finally show ?thesis using assms by (simp add: chosen_days_def)
qed

lemma read_window_again: "clean_quiet_window w \<Longrightarrow> read_window (quiet_window_json w) = Some w"
  by (simp add: read_window_def quiet_window_json_def clean_quiet_window_def get_def chosen_days_again)

lemma quiet_midnight: "clean_time (JStr ''00:00'') = Some ''00:00''"
  by code_simp

lemma not_before_midnight:
  "clean_time (JStr s) = Some s \<Longrightarrow> \<not> s < ''00:00''"
proof (elim clean_time_Some)
  fix h m :: int
  assume hm: "0 \<le> h" "h < 24" "0 \<le> m" "m < 60" and s: "s = hhmm h m"
  show ?thesis unfolding s midnight using hhmm_less [OF hm, of 0 0] hm by simp
qed

lemma split_legacy_clean:
  assumes "clean_quiet_window w" and "x \<in> set (split_legacy start_days w)"
  shows "clean_quiet_window x"
proof -
  have "q_end w < q_start w \<Longrightarrow> q_start w \<noteq> ''00:00''"
    using assms(1) not_before_midnight [of "q_end w"] by (auto simp: clean_quiet_window_def)
  with assms quiet_midnight show ?thesis
    by (auto simp: split_legacy_def clean_quiet_window_def split: if_splits)
qed

lemma migrated_clean: "\<forall>w \<in> set (q_windows (migrate_quiet_hours v)). clean_quiet_window w"
proof
  fix w assume "w \<in> set (q_windows (migrate_quiet_hours v))"
  then obtain b x j where "w \<in> set (split_legacy b x)" "read_window j = Some x"
    by (auto simp: migrate_quiet_hours_def Let_def in_map_filter)
  then show "clean_quiet_window w" using read_window_clean split_legacy_clean by metis
qed

text \<open>
  The migration of quiet hours is idempotent: what it produced, saved with its
  \<open>day_basis\<close> and read again, comes out the same, whatever the settings were.
\<close>

theorem migrate_quiet_hours_idempotent:
  "migrate_quiet_hours (quiet_json (migrate_quiet_hours v)) = migrate_quiet_hours v"
proof -
  let ?q = "migrate_quiet_hours v"
  let ?ws = "q_windows ?q"
  have read: "List.map_filter read_window (map quiet_window_json ?ws) = ?ws"
  proof -
    have "\<forall>w \<in> set ws. clean_quiet_window w \<Longrightarrow> List.map_filter read_window (map quiet_window_json ws) = ws"
      for ws
      by (induction ws) (simp_all add: List.map_filter_simps read_window_again)
    then show ?thesis using migrated_clean .
  qed
  have "split_legacy True = (\<lambda>w. [w])" by (simp add: split_legacy_def fun_eq_iff)
  then have "q_windows (migrate_quiet_hours (quiet_json ?q)) = ?ws"
    using read by (subst migrate_quiet_hours_def) (simp add: quiet_json_def quiet_source_def get_def)
  moreover have "q_enabled (migrate_quiet_hours (quiet_json ?q)) = q_enabled ?q"
    by (subst migrate_quiet_hours_def) (simp add: quiet_json_def get_def)
  ultimately show ?thesis by simp
qed

section \<open>What the old settings meant\<close>

text \<open>
  The minutes an old window paused: on each chosen day, from its start to its end, or, over
  midnight, that day's minutes before the end and after the start.
\<close>

definition legacy_paused :: "quiet_window \<Rightarrow> nat \<Rightarrow> bool" where
  "legacy_paused w t \<longleftrightarrow>
     t < WEEK_MINUTES \<and> DAYS ! (t div 1440) \<in> set (q_days w) \<and>
     (case (minute_of (q_start w), minute_of (q_end w)) of
        (Some s, Some e) \<Rightarrow>
          (let m = int (t mod 1440) in if s < e then s \<le> m \<and> m < e else m < e \<or> s \<le> m)
      | _ \<Rightarrow> False)"

lemma in_window_one_day:
  assumes "0 \<le> s" "0 \<le> d" "s + d \<le> 1440" "k < 7"
  shows "in_window t s d (int k) \<longleftrightarrow>
    t < WEEK_MINUTES \<and> t div 1440 = k \<and> s \<le> int (t mod 1440) \<and> int (t mod 1440) < s + d"
proof (cases "t < 10080")
  case True
  define q r where "q = t div 1440" and "r = t mod 1440"
  have qr: "t = q * 1440 + r" by (simp add: q_def r_def)
  have r: "r < 1440" by (simp add: r_def)
  then have q: "q < 7" using True qr by linarith
  have "int t = int q * 1440 + int r" unfolding qr by simp
  note t = this r q
  let ?x = "int t - (int k * 1440 + s)"
  have x: "?x = (int q - int k) * 1440 + (int r - s)" using t(1) by (simp add: algebra_simps)
  have mod: "?x mod 10080 < d \<longleftrightarrow> q = k \<and> s \<le> int r \<and> int r < s + d"
  proof (cases "q = k \<and> s \<le> int r")
    case same: True
    then have "?x = int r - s" using x by simp
    moreover have "(int r - s) mod 10080 = int r - s"
      using same assms t(2) by (intro mod_pos_pos_trivial) auto
    ultimately show ?thesis using same by auto
  next
    case False
    have "d \<le> ?x mod 10080"
    proof (cases "0 \<le> ?x")
      case pos: True
      have "?x < 10080" using t assms by linarith
      then have eq: "?x mod 10080 = ?x" using pos by (intro mod_pos_pos_trivial) auto
      have "k < q"
      proof (rule ccontr)
        assume "\<not> k < q"
        then have "q = k \<or> int q - int k \<le> -1" by auto
        then have "q = k \<or> (int q - int k) * 1440 \<le> -1440" by auto
        then show False using False pos t(2) assms(1) unfolding x by auto
      qed
      then have "1 \<le> int q - int k" by simp
      then have "1440 \<le> (int q - int k) * 1440" by simp
      then have "d \<le> ?x" unfolding x using assms by linarith
      then show ?thesis unfolding eq .
    next
      case neg: False
      have "?x mod 10080 = (?x + 10080) mod 10080" by simp
      also have "\<dots> = ?x + 10080" using neg t assms by (intro mod_pos_pos_trivial) linarith+
      finally have eq: "?x mod 10080 = ?x + 10080" .
      have "int q - int k \<ge> -6" using assms(4) by linarith
      then have "(int q - int k) * 1440 \<ge> -8640" by simp
      then have "d \<le> ?x + 10080" unfolding x using assms by linarith
      then show ?thesis unfolding eq .
    qed
    with False show ?thesis by auto
  qed
  with True show ?thesis by (auto simp: in_window_def WEEK_MINUTES_def q_def r_def)
qed (simp add: in_window_def WEEK_MINUTES_def)

lemma day_index: "day \<in> set DAYS \<Longrightarrow> index_or_len day DAYS < 7 \<and> DAYS ! index_or_len day DAYS = day"
  by (auto simp: DAYS_def)

lemma index_of_day: "k < 7 \<Longrightarrow> index_or_len (DAYS ! k) DAYS = k"
proof -
  have "\<forall>k \<in> {..<7}. index_or_len (DAYS ! k) DAYS = k" by code_simp
  then show "k < 7 \<Longrightarrow> index_or_len (DAYS ! k) DAYS = k" by blast
qed

definition day_window :: "quiet_window \<Rightarrow> window" where
  "day_window w = \<lparr>w_days = map (\<lambda>day. int (index_or_len day DAYS)) (q_days w),
     w_start = q_start w, w_end = q_end w\<rparr>"

lemma minute_of_clean:
  assumes "clean_time (JStr s) = Some s"
  obtains h m where "0 \<le> h" "h < 24" "0 \<le> m" "m < 60" "s = hhmm h m" "minute_of s = Some (h * 60 + m)"
  using assms by (elim clean_time_Some) (metis minute_of_hhmm)

text \<open>A window that stays inside its day covers those minutes of its days.\<close>

lemma covers_inside:
  assumes w: "clean_quiet_window w" and s: "minute_of (q_start w) = Some s" "0 \<le> s" "s < 1440"
    and e: "minute_of (q_end w) = Some e" and d: "(e - s) mod 1440 = d" "0 \<le> d" "s + d \<le> 1440"
  shows "covers (day_window w) t \<longleftrightarrow> t < WEEK_MINUTES \<and> DAYS ! (t div 1440) \<in> set (q_days w) \<and>
    s \<le> int (t mod 1440) \<and> int (t mod 1440) < s + d"
proof -
  have days: "set (q_days w) \<subseteq> set DAYS" using w by (metis clean_quiet_window_def filter_is_subset)
  have "covers (day_window w) t \<longleftrightarrow> (\<exists>day \<in> set (q_days w). in_window t s d (int (index_or_len day DAYS)))"
    by (simp add: covers_def day_window_def s(1) e d(1))
  also have "\<dots> \<longleftrightarrow> (\<exists>day \<in> set (q_days w). t < WEEK_MINUTES \<and> t div 1440 = index_or_len day DAYS \<and>
      s \<le> int (t mod 1440) \<and> int (t mod 1440) < s + d)"
    using in_window_one_day [OF s(2) d(2,3)] day_index days by (intro bex_cong refl) blast
  also have "\<dots> \<longleftrightarrow> t < WEEK_MINUTES \<and> DAYS ! (t div 1440) \<in> set (q_days w) \<and>
      s \<le> int (t mod 1440) \<and> int (t mod 1440) < s + d"
  proof -
    have "(\<exists>day \<in> set (q_days w). t div 1440 = index_or_len day DAYS) \<longleftrightarrow> DAYS ! (t div 1440) \<in> set (q_days w)"
      if "t < WEEK_MINUTES"
    proof -
      have "t div 1440 < 7" using that by (simp add: WEEK_MINUTES_def)
      with index_of_day day_index days show ?thesis by (metis subsetD)
    qed
    then show ?thesis by blast
  qed
  finally show ?thesis .
qed

lemma split_covers:
  assumes w: "clean_quiet_window w"
  shows "(\<exists>x \<in> set (split_legacy False w). covers (day_window x) t) \<longleftrightarrow> legacy_paused w t"
proof -
  have ct: "clean_time (JStr (q_start w)) = Some (q_start w)" "clean_time (JStr (q_end w)) = Some (q_end w)"
    and ne: "q_start w \<noteq> q_end w" using w by (simp_all add: clean_quiet_window_def)
  obtain h m where s: "0 \<le> h" "h < 24" "0 \<le> m" "m < 60" "q_start w = hhmm h m"
    "minute_of (q_start w) = Some (h * 60 + m)" using ct(1) by (rule minute_of_clean)
  obtain h' m' where e: "0 \<le> h'" "h' < 24" "0 \<le> m'" "m' < 60" "q_end w = hhmm h' m'"
    "minute_of (q_end w) = Some (h' * 60 + m')" using ct(2) by (rule minute_of_clean)
  let ?s = "h * 60 + m" and ?e = "h' * 60 + m'"
  have less: "q_end w < q_start w \<longleftrightarrow> ?e < ?s" "q_start w < q_end w \<longleftrightarrow> ?s < ?e"
    unfolding s(5) e(5) using hhmm_less s e by metis+
  have range: "0 \<le> ?s" "?s < 1440" "0 \<le> ?e" "?e < 1440" using s e by linarith+
  have zero: "minute_of ''00:00'' = Some 0" by code_simp
  show ?thesis
  proof (cases "?e < ?s")
    case False
    then have "?s < ?e" using less ne by (metis less_linear)
    moreover have "(?e - ?s) mod 1440 = ?e - ?s" using \<open>?s < ?e\<close> range by (intro mod_pos_pos_trivial) auto
    moreover have "split_legacy False w = [w]" using False less by (simp add: split_legacy_def)
    ultimately show ?thesis
      using covers_inside [OF w s(6) range(1,2) e(6), of "?e - ?s" t] range
      by (auto simp: legacy_paused_def s(6) e(6) Let_def)
  next
    case True
    let ?am = "w\<lparr>q_start := ''00:00''\<rparr>" and ?pm = "w\<lparr>q_end := ''00:00''\<rparr>"
    have parts: "split_legacy False w = (if q_end w \<noteq> ''00:00'' then [?am] else []) @ [?pm]"
      using True less by (simp add: split_legacy_def)
    have clean: "x \<in> set (split_legacy False w) \<Longrightarrow> clean_quiet_window x" for x
      using w by (rule split_legacy_clean)
    have pm: "covers (day_window ?pm) t \<longleftrightarrow> t < WEEK_MINUTES \<and> DAYS ! (t div 1440) \<in> set (q_days w) \<and>
        ?s \<le> int (t mod 1440)"
    proof -
      have "(0 - ?s) mod 1440 = (0 - ?s + 1440) mod 1440" by simp
      also have "\<dots> = 1440 - ?s" using True range by (subst mod_pos_pos_trivial) auto
      finally have "(0 - ?s) mod 1440 = 1440 - ?s" .
      moreover have "int (t mod 1440) < 1440" by simp
      ultimately show ?thesis
        using covers_inside [of ?pm ?s 0 "1440 - ?s" t] clean parts s(6) zero range by auto
    qed
    show ?thesis
    proof (cases "q_end w = ''00:00''")
      case True
      then have "?e = 0" using e(6) zero by simp
      with pm parts True s(6) e(6) \<open>?e < ?s\<close> show ?thesis by (auto simp: legacy_paused_def Let_def)
    next
      case ne: False
      have "(?e - 0) mod 1440 = ?e" using range by (subst mod_pos_pos_trivial) auto
      then have "covers (day_window ?am) t \<longleftrightarrow> t < WEEK_MINUTES \<and> DAYS ! (t div 1440) \<in> set (q_days w) \<and>
          int (t mod 1440) < ?e"
        using covers_inside [of ?am 0 ?e ?e t] clean parts ne e(6) zero range by auto
      with pm parts ne s(6) e(6) True show ?thesis by (auto simp: legacy_paused_def Let_def)
    qed
  qed
qed

lemma valid_time_hhmm:
  assumes "0 \<le> h" "h < 24" "0 \<le> m" "m < 60"
  shows "valid_time (hhmm h m)"
proof -
  have chars: "CHR ''0'' = digit_char 0" "CHR ''1'' = digit_char 1" "CHR ''2'' = digit_char 2"
    by code_simp+
  have "nat h < 24" "nat m < 60" using assms by auto
  moreover have "n < 24 \<Longrightarrow> n div 10 < 2 \<or> n div 10 = 2 \<and> n mod 10 \<le> 3" "n < 60 \<Longrightarrow> n div 10 \<le> 5"
    for n :: nat
    by presburger+
  ultimately have "nat h div 10 < 2 \<or> nat h div 10 = 2 \<and> nat h mod 10 \<le> 3" "nat m div 10 \<le> 5"
    by blast+
  then show ?thesis
    using assms unfolding hhmm_def
    by (auto simp: pad2_two valid_time_def chars digit_char_eq less_2_cases_iff)
qed

lemma day_window_valid: "clean_quiet_window w \<Longrightarrow> valid_window (day_window w)"
proof -
  assume w: "clean_quiet_window w"
  have time: "clean_time (JStr s) = Some s \<Longrightarrow> valid_time s" for s
    by (elim clean_time_Some) (simp add: valid_time_hhmm)
  have "index_or_len day DAYS \<le> 6" if "day \<in> set (q_days w)" for day
  proof -
    have "day \<in> set DAYS" using that w by (metis clean_quiet_window_def filter_is_subset subsetD)
    then show ?thesis using day_index by fastforce
  qed
  then show ?thesis using w time by (auto simp: valid_window_def day_window_def clean_quiet_window_def)
qed

text \<open>
  The mask of quiet hours never raises and means what the settings mean.  Settings that
  already count windows from their start day pause the minutes of those windows; older
  settings pause, on every chosen day, that day's own minutes of the window, the morning and
  the evening of one over midnight.
\<close>

theorem quiet_hours_mask_meaning:
  "\<exists>m. quiet_hours_weekly_mask v = Some m \<and>
     (\<forall>t. bit m t \<longleftrightarrow>
        (let raw = (case v of JObj obj \<Rightarrow> obj | _ \<Rightarrow> []);
             ws = List.map_filter read_window (quiet_source raw)
         in truthy (get raw ''enabled'') \<and>
            (if get raw ''day_basis'' = JStr ''start''
             then \<exists>w \<in> set ws. covers (day_window w) t
             else \<exists>w \<in> set ws. legacy_paused w t)))"
proof -
  define raw where "raw = (case v of JObj obj \<Rightarrow> obj | _ \<Rightarrow> [])"
  define ws where "ws = List.map_filter read_window (quiet_source raw)"
  let ?start = "get raw ''day_basis'' = JStr ''start''"
  let ?qs = "q_windows (migrate_quiet_hours v)"
  have qs: "?qs = concat (map (split_legacy ?start) ws)"
    and en: "q_enabled (migrate_quiet_hours v) = truthy (get raw ''enabled'')"
    by (simp_all add: migrate_quiet_hours_def raw_def ws_def Let_def)
  have clean: "\<forall>w \<in> set ws. clean_quiet_window w" by (auto simp: ws_def in_map_filter read_window_clean)
  have windows: "map (\<lambda>w. \<lparr>w_days = map (\<lambda>day. int (index_or_len day DAYS)) (q_days w),
      w_start = q_start w, w_end = q_end w\<rparr>) ?qs = map day_window ?qs"
    by (simp add: day_window_def)
  have "\<forall>w \<in> set (map day_window ?qs). valid_window w" using migrated_clean day_window_valid by auto
  then obtain m where m: "windows_mask 0 (map day_window ?qs) = Some m"
    "\<And>t. bit m t \<longleftrightarrow> bit (0::int) t \<or> (\<exists>w \<in> set (map day_window ?qs). covers w t)"
    using windows_mask_valid by blast
  have bits: "bit m t \<longleftrightarrow> (if ?start then \<exists>w \<in> set ws. covers (day_window w) t
      else \<exists>w \<in> set ws. legacy_paused w t)" for t
  proof (cases ?start)
    case True
    then show ?thesis using m(2) by (simp add: qs split_legacy_def)
  next
    case False
    have "bit m t \<longleftrightarrow> (\<exists>w \<in> set ws. \<exists>x \<in> set (split_legacy False w). covers (day_window x) t)"
      using m(2) False by (auto simp: qs)
    then show ?thesis using False split_covers clean by auto
  qed
  have "quiet_hours_weekly_mask v = Some (if truthy (get raw ''enabled'') then m else 0)"
    unfolding quiet_hours_weekly_mask_def Let_def windows
    by (simp add: group_weekly_mask_def en m(1))
  moreover have "bit (if truthy (get raw ''enabled'') then m else 0) t \<longleftrightarrow>
      truthy (get raw ''enabled'') \<and> (if ?start then \<exists>w \<in> set ws. covers (day_window w) t
      else \<exists>w \<in> set ws. legacy_paused w t)" for t
    using bits by simp
  ultimately show ?thesis unfolding Let_def raw_def [symmetric] ws_def [symmetric] by blast
qed

end
