(* ===== verification/Job_Gate.thy ===== *)
theory Job_Gate
  imports Py_Values
begin

text \<open>
  The priority gate on job start-up (\<open>web/job_gate.py\<close>).  The gate's methods run under one
  condition lock, so each critical section is one atomic operation on the state here;
  \<open>acquire\<close> and \<open>_refresh_requests_once\<close>, which give the lock up in between, are several:
  \<open>enqueue\<close>, \<open>try_admit\<close>, \<open>leave\<close>, and \<open>refresh_begin\<close>, \<open>refresh_commit\<close>.  Python object
  identities (request tokens, owners) are numbers handed out by a counter.  \<open>heapq\<close>'s layout is
  not modelled: the code only ever asks the list for its least entry.  The callbacks, the kind's
  capacity and a request's policy, are parameters; either may raise.
\<close>

section \<open>State\<close>

definition STARTUP_SLOTS :: int where "STARTUP_SLOTS = 3"

record request =
  r_token :: nat
  r_order :: "string \<times> string"
  r_priority :: int
  r_kind :: string
  r_owner :: "nat option"
  r_revision :: nat
  r_ready :: bool
  r_preflight_complete :: bool
  r_preflight_waiting :: bool

record heap_entry =
  e_priority :: int
  e_order :: "string \<times> string"
  e_token :: nat

text \<open>
  \<open>g_refreshing\<close> holds the locals of the one thread inside \<open>_refresh_lock\<close> between its two
  critical sections: the epoch and the snapshots.  \<open>g_fresh\<close> is the next object identity.
\<close>

record gate =
  g_kind_limits :: "string \<rightharpoonup> int option"
  g_waiter_kinds :: "nat \<rightharpoonup> string option"
  g_active :: int
  g_heap :: "heap_entry list"
  g_seq :: nat
  g_requests :: "(string \<times> request) list"
  g_policy_epoch :: int
  g_refreshed_epoch :: int
  g_refresh_at :: rat
  g_refreshing :: "(int \<times> (request \<times> nat) list) option"
  g_fresh :: nat

definition new_gate :: gate where
  "new_gate =
     \<lparr>g_kind_limits = Map.empty, g_waiter_kinds = Map.empty, g_active = 0, g_heap = [], g_seq = 0,
      g_requests = [], g_policy_epoch = 0, g_refreshed_epoch = -1, g_refresh_at = 0,
      g_refreshing = None, g_fresh = 0\<rparr>"

text \<open>The entries of every token but one: \<open>[entry for entry in self._heap if entry[2] is not token]\<close>.\<close>

definition without_token :: "nat \<Rightarrow> heap_entry list \<Rightarrow> heap_entry list" where
  "without_token tok = filter (\<lambda>e. e_token e \<noteq> tok)"

definition bump_epoch :: "gate \<Rightarrow> gate" where
  "bump_epoch g = g\<lparr>g_policy_epoch := g_policy_epoch g + 1\<rparr>"

text \<open>A registered request changed in place, as the code mutates the object its dictionary holds.\<close>

definition change_request :: "string \<Rightarrow> (request \<Rightarrow> request) \<Rightarrow> gate \<Rightarrow> gate" where
  "change_request job f g =
     g\<lparr>g_requests := map (\<lambda>(j, r). (j, if j = job then f r else r)) (g_requests g)\<rparr>"

section \<open>Registered requests\<close>

definition register_request :: "string \<Rightarrow> string \<Rightarrow> int \<Rightarrow> string \<Rightarrow> gate \<Rightarrow> gate" where
  "register_request job created_at priority kind g =
     (if map_of (g_requests g) job \<noteq> None then g
      else let tok = g_fresh g;
               r = \<lparr>r_token = tok, r_order = (created_at, job), r_priority = priority, r_kind = kind,
                    r_owner = None, r_revision = 0, r_ready = False,
                    r_preflight_complete = False, r_preflight_waiting = False\<rparr>
           in bump_epoch (g\<lparr>g_fresh := tok + 1,
                g_requests := g_requests g @ [(job, r)],
                g_waiter_kinds := (g_waiter_kinds g)(tok \<mapsto> Some kind),
                g_heap := g_heap g @
                  [\<lparr>e_priority = priority, e_order = r_order r, e_token = tok\<rparr>]\<rparr>))"

definition claim_request :: "string \<Rightarrow> gate \<Rightarrow> nat option \<times> gate" where
  "claim_request job g =
     (case map_of (g_requests g) job of
        None \<Rightarrow> (None, g)
      | Some r \<Rightarrow>
          if r_owner r \<noteq> None then (None, g)
          else (Some (g_fresh g),
                change_request job (\<lambda>r. r\<lparr>r_owner := Some (g_fresh g)\<rparr>) (g\<lparr>g_fresh := g_fresh g + 1\<rparr>)))"

definition finish_request :: "string \<Rightarrow> nat option \<Rightarrow> gate \<Rightarrow> gate" where
  "finish_request job owner g =
     (case map_of (g_requests g) job of
        None \<Rightarrow> g
      | Some r \<Rightarrow>
          if r_owner r \<noteq> owner then g
          else bump_epoch (g\<lparr>g_requests := filter (\<lambda>(j, _). j \<noteq> job) (g_requests g),
                 g_heap := without_token (r_token r) (g_heap g),
                 g_waiter_kinds := (g_waiter_kinds g)(r_token r := None)\<rparr>))"

definition has_request :: "string \<Rightarrow> gate \<Rightarrow> bool" where
  "has_request job g \<longleftrightarrow> map_of (g_requests g) job \<noteq> None"

definition complete_preflight :: "string \<Rightarrow> gate \<Rightarrow> gate" where
  "complete_preflight job g =
     (if \<not> has_request job g then g
      else bump_epoch (change_request job
             (\<lambda>r. r\<lparr>r_preflight_complete := True, r_preflight_waiting := False,
                   r_revision := r_revision r + 1\<rparr>) g))"

definition defer_preflight :: "string \<Rightarrow> gate \<Rightarrow> gate" where
  "defer_preflight job g =
     (if \<not> has_request job g then g
      else bump_epoch (change_request job
             (\<lambda>r. r\<lparr>r_preflight_waiting := True, r_ready := False,
                   r_revision := r_revision r + 1\<rparr>) g))"

definition reprioritize :: "string \<Rightarrow> int \<Rightarrow> gate \<Rightarrow> gate" where
  "reprioritize job priority g =
     (case map_of (g_requests g) job of
        None \<Rightarrow> g
      | Some req \<Rightarrow>
          bump_epoch ((change_request job
             (\<lambda>r. r\<lparr>r_priority := priority, r_revision := r_revision r + 1\<rparr>) g)
               \<lparr>g_heap := map (\<lambda>e. if e_token e = r_token req then e\<lparr>e_priority := priority\<rparr> else e)
                           (g_heap g)\<rparr>))"

section \<open>Refreshing priorities and readiness\<close>

text \<open>What the provider of a kind's capacity does: raise, or answer (\<open>None\<close> is unlimited).\<close>

datatype capacity_answer = Capacity_Raises | Capacity "int option"

definition kind_limit :: "(string \<Rightarrow> capacity_answer) option \<Rightarrow> string option \<Rightarrow> int option" where
  "kind_limit provider kind =
     (case (kind, provider) of
        (Some k, Some ask) \<Rightarrow>
          (case ask k of
             Capacity_Raises \<Rightarrow> Some 0
           | Capacity value \<Rightarrow> map_option (max 0) value)
      | _ \<Rightarrow> None)"

text \<open>What a request's policy does: raise, report the job ended, or give its priority and readiness.\<close>

datatype policy_answer = Policy_Raises | Policy_None | Policy int bool

record policy_update =
  u_token :: nat
  u_revision :: nat
  u_priority :: int
  u_ready :: bool
  u_terminal :: bool

definition refresh_begin :: "rat \<Rightarrow> gate \<Rightarrow> gate" where
  "refresh_begin now g =
     (if g_refreshing g \<noteq> None then g
      else if now < g_refresh_at g \<and> g_refreshed_epoch g = g_policy_epoch g then g
      else g\<lparr>g_refreshing := Some (g_policy_epoch g,
             map (\<lambda>(_, r). (r, r_revision r))
               (filter (\<lambda>(_, r). r_token r \<in> e_token ` set (g_heap g)) (g_requests g)))\<rparr>)"

text \<open>
  The callbacks run without the lock.  They read the request as the snapshot has it: whatever
  changed a request's priority or preflight since also raised its revision, and such an update
  is dropped.
\<close>

definition policy_update_of :: "(nat \<Rightarrow> bool \<Rightarrow> policy_answer) \<Rightarrow> request \<times> nat \<Rightarrow> policy_update" where
  "policy_update_of policy snap =
     (let r = fst snap; a = policy (r_token r) (r_preflight_complete r)
      in \<lparr>u_token = r_token r, u_revision = snd snap,
          u_priority = (case a of Policy p _ \<Rightarrow> p | _ \<Rightarrow> r_priority r),
          u_ready = (case a of Policy _ ready \<Rightarrow> ready | _ \<Rightarrow> False),
          u_terminal = (a = Policy_None)\<rparr>)"

definition retires :: "policy_update \<Rightarrow> request \<Rightarrow> bool" where
  "retires u r \<longleftrightarrow>
     u_token u = r_token r \<and> u_terminal u \<and> r_owner r = None \<and> r_revision r = u_revision u"

definition apply_update :: "policy_update \<Rightarrow> request \<Rightarrow> request" where
  "apply_update u r =
     (if u_token u = r_token r \<and> r_revision r = u_revision u
      then r\<lparr>r_priority := u_priority u, r_ready := u_ready u \<and> \<not> r_preflight_waiting r\<rparr>
      else r)"

text \<open>\<open>current[token].priority if token in current\<close>.\<close>

definition current_priority :: "(string \<times> request) list \<Rightarrow> heap_entry \<Rightarrow> heap_entry" where
  "current_priority rs e =
     (case find (\<lambda>(_, r). r_token r = e_token e) rs of
        Some (_, r) \<Rightarrow> e\<lparr>e_priority := r_priority r\<rparr>
      | None \<Rightarrow> e)"

definition refresh_commit ::
  "rat \<Rightarrow> (string \<Rightarrow> capacity_answer) option \<Rightarrow> (nat \<Rightarrow> bool \<Rightarrow> policy_answer) \<Rightarrow> gate \<Rightarrow> gate" where
  "refresh_commit now provider policy g =
     (case g_refreshing g of
        None \<Rightarrow> g
      | Some (epoch, snaps) \<Rightarrow>
          (let updates = map (policy_update_of policy) snaps;
               limits = map (\<lambda>(r, _). (r_kind r, kind_limit provider (Some (r_kind r)))) snaps;
               retired = map (\<lambda>(_, r). r_token r)
                 (filter (\<lambda>(_, r). \<exists>u \<in> set updates. retires u r) (g_requests g));
               rs = map (\<lambda>(j, r). (j, fold apply_update updates r)) (g_requests g)
           in g\<lparr>g_kind_limits := g_kind_limits g ++ map_of limits,
                g_waiter_kinds := (g_waiter_kinds g) |` (- set retired),
                g_heap := map (current_priority rs)
                  (filter (\<lambda>e. e_token e \<notin> set retired) (g_heap g)),
                g_requests := filter (\<lambda>(_, r). r_token r \<notin> set retired) rs,
                g_refreshed_epoch := epoch,
                g_refresh_at := now + 1 / 10,
                g_refreshing := None\<rparr>))"

section \<open>Admission\<close>

definition kind_can_admit :: "gate \<Rightarrow> string option \<Rightarrow> bool" where
  "kind_can_admit g kind =
     (case kind of
        None \<Rightarrow> True
      | Some k \<Rightarrow>
          (case g_kind_limits g k of
             None \<Rightarrow> False
           | Some None \<Rightarrow> True
           | Some (Some limit) \<Rightarrow> limit > 0))"

definition token_ready :: "gate \<Rightarrow> nat \<Rightarrow> bool" where
  "token_ready g tok =
     (case find (\<lambda>(_, r). r_token r = tok) (g_requests g) of
        Some (_, r) \<Rightarrow> r_ready r
      | None \<Rightarrow> True)"

definition eligible :: "gate \<Rightarrow> heap_entry \<Rightarrow> bool" where
  "eligible g e \<longleftrightarrow>
     token_ready g (e_token e) \<and>
     (case g_waiter_kinds g (e_token e) of None \<Rightarrow> False | Some kind \<Rightarrow> kind_can_admit g kind)"

definition entry_key :: "heap_entry \<Rightarrow> int \<times> string \<times> string" where
  "entry_key e = (e_priority e, e_order e)"

text \<open>
  \<open>None\<close> is the \<open>KeyError\<close> of \<open>self._waiter_kinds[entry[2]]\<close>, \<open>Some None\<close> that nobody is next.
  Equal keys would go on to compare the tokens, which raises too; the orders of the entries are
  shown to differ.
\<close>

definition next_eligible :: "gate \<Rightarrow> nat option option" where
  "next_eligible g =
     (if g_active g \<ge> STARTUP_SLOTS then Some None
      else if \<exists>e \<in> set (g_heap g). token_ready g (e_token e) \<and> g_waiter_kinds g (e_token e) = None
      then None
      else Some (map_option e_token (py_min entry_key (filter (eligible g) (g_heap g)))))"

text \<open>\<open>f"{n:020}"\<close>.\<close>

definition pad20 :: "nat \<Rightarrow> string" where
  "pad20 n = replicate (20 - length (show_nat n)) CHR ''0'' @ show_nat n"

text \<open>The start of \<open>acquire\<close>: the caller's token, and whether it is a registered request's.\<close>

definition enqueue :: "string option \<Rightarrow> int \<Rightarrow> string option \<Rightarrow> gate \<Rightarrow> (nat \<times> bool) \<times> gate" where
  "enqueue request_id priority kind g =
     (case Option.bind request_id (map_of (g_requests g)) of
        Some r \<Rightarrow>
          ((r_token r, True),
           (if \<exists>e \<in> set (g_heap g). e_token e = r_token r then g
            else bump_epoch (g\<lparr>g_heap := g_heap g @
                   [\<lparr>e_priority = priority, e_order = r_order r, e_token = r_token r\<rparr>]\<rparr>))
             \<lparr>g_waiter_kinds := (g_waiter_kinds g)(r_token r \<mapsto> kind)\<rparr>)
      | None \<Rightarrow>
          ((g_fresh g, False),
           bump_epoch (g\<lparr>g_fresh := g_fresh g + 1, g_seq := g_seq g + 1,
             g_heap := g_heap g @
               [\<lparr>e_priority = priority, e_order = ([], pad20 (g_seq g)), e_token = g_fresh g\<rparr>],
             g_waiter_kinds := (g_waiter_kinds g)(g_fresh g \<mapsto> kind)\<rparr>)))"

text \<open>
  One turn of \<open>acquire\<close>'s loop under the lock: \<open>limit\<close> is what \<open>_kind_limit\<close> just answered, kept
  only for a caller without a registered request.
\<close>

definition try_admit :: "nat \<Rightarrow> bool \<Rightarrow> string option \<Rightarrow> int option \<Rightarrow> gate \<Rightarrow> bool \<times> gate" where
  "try_admit tok registered kind limit g =
     (let g1 = (case kind of
                  Some k \<Rightarrow> if registered then g
                            else g\<lparr>g_kind_limits := (g_kind_limits g)(k \<mapsto> limit)\<rparr>
                | None \<Rightarrow> g)
      in if next_eligible g1 = Some (Some tok)
         then (True, g1\<lparr>g_heap := without_token tok (g_heap g1), g_active := g_active g1 + 1\<rparr>)
         else (False, g1))"

text \<open>\<open>acquire\<close>'s \<open>finally\<close>.\<close>

definition leave :: "nat \<Rightarrow> gate \<Rightarrow> gate" where
  "leave tok g = g\<lparr>g_heap := without_token tok (g_heap g),
                   g_waiter_kinds := (g_waiter_kinds g)(tok := None)\<rparr>"

definition release :: "gate \<Rightarrow> gate" where
  "release g = g\<lparr>g_active := max 0 (g_active g - 1)\<rparr>"

definition release_slot :: "bool \<Rightarrow> gate \<Rightarrow> bool \<times> gate" where
  "release_slot held g = (if \<not> held then (held, g) else (False, release g))"

definition snapshot :: "gate \<Rightarrow> int \<times> nat \<times> int" where
  "snapshot g = (g_active g, length (g_heap g), STARTUP_SLOTS)"

section \<open>Interleavings\<close>

text \<open>The threads' critical sections, in any order the lock lets them run.\<close>

datatype gate_event =
    Register string string int string
  | Claim string
  | Finish string "nat option"
  | Complete_Preflight string
  | Defer_Preflight string
  | Reprioritize string int
  | Refresh_Begin rat
  | Refresh_Commit rat "(string \<Rightarrow> capacity_answer) option" "nat \<Rightarrow> bool \<Rightarrow> policy_answer"
  | Enqueue "string option" int "string option"
  | Try_Admit nat bool "string option" "int option"
  | Leave nat
  | Release

fun gate_apply :: "gate_event \<Rightarrow> gate \<Rightarrow> gate" where
  "gate_apply (Register job created_at priority kind) g = register_request job created_at priority kind g"
| "gate_apply (Claim job) g = snd (claim_request job g)"
| "gate_apply (Finish job owner) g = finish_request job owner g"
| "gate_apply (Complete_Preflight job) g = complete_preflight job g"
| "gate_apply (Defer_Preflight job) g = defer_preflight job g"
| "gate_apply (Reprioritize job priority) g = reprioritize job priority g"
| "gate_apply (Refresh_Begin now) g = refresh_begin now g"
| "gate_apply (Refresh_Commit now provider policy) g = refresh_commit now provider policy g"
| "gate_apply (Enqueue request_id priority kind) g = snd (enqueue request_id priority kind g)"
| "gate_apply (Try_Admit tok registered kind limit) g = snd (try_admit tok registered kind limit g)"
| "gate_apply (Leave tok) g = leave tok g"
| "gate_apply Release g = release g"

text \<open>
  Job ids are UUIDs: none is a bare number, the shape of the order a caller without a request
  gets.
\<close>

fun legal_event :: "gate_event \<Rightarrow> bool" where
  "legal_event (Register job _ _ _) = (\<not> list_all is_digit job)"
| "legal_event _ = True"

end
