(* ===== verification/State_Machine.thy ===== *)
theory State_Machine
  imports Main
begin

text \<open>
  Programs whose operations run one at a time under a lock, as state machines: the states any
  sequence of permitted operations reaches, and the interface through which a component shows
  that all of them satisfy its invariant.
\<close>

inductive reachable ::
  "'s \<Rightarrow> ('e \<Rightarrow> bool) \<Rightarrow> ('e \<Rightarrow> 's \<Rightarrow> 's) \<Rightarrow> 's \<Rightarrow> bool"
  for start :: 's and legal :: "'e \<Rightarrow> bool" and run :: "'e \<Rightarrow> 's \<Rightarrow> 's" where
  at_start: "reachable start legal run start"
| after_step: "reachable start legal run s \<Longrightarrow> legal e \<Longrightarrow> reachable start legal run (run e s)"

inductive_cases reachable_cases: "reachable start legal run s"

lemma reachable_steps:
  "reachable start legal run s \<Longrightarrow> list_all legal es \<Longrightarrow> reachable start legal run (fold run es s)"
  by (induction es arbitrary: s) (simp_all add: after_step)

lemma reachable_runs: "list_all legal es \<Longrightarrow> reachable start legal run (fold run es start)"
  by (rule reachable_steps [OF at_start])

locale invariant_machine =
  fixes start :: 's and legal :: "'e \<Rightarrow> bool" and run :: "'e \<Rightarrow> 's \<Rightarrow> 's" and inv :: "'s \<Rightarrow> bool"
  assumes inv_start: "inv start" and inv_step: "inv s \<Longrightarrow> legal e \<Longrightarrow> inv (run e s)"
begin

lemma always: "reachable start legal run s \<Longrightarrow> inv s"
  by (induction rule: reachable.induct) (simp_all add: inv_start inv_step)

lemma always_after:
  "reachable start legal run s \<Longrightarrow> list_all legal es \<Longrightarrow> inv (fold run es s)"
  by (rule always) (rule reachable_steps)

end

end
