(* ===== verification/Gate_Invariant.thy ===== *)
theory Gate_Invariant
  imports Job_Gate State_Machine
begin

text \<open>
  What holds of the start-up gate whatever its threads do: never more slots taken than there
  are, every queued entry has its kind, at most one entry per token, no two entries with the same
  place in line, and a refresh that is under way never holds a revision newer than its request.
\<close>

section \<open>The heap and the requests agree\<close>

type_synonym ident = "string \<times> nat \<times> string \<times> string"

definition idents :: "gate \<Rightarrow> ident list" where
  "idents g = map (\<lambda>(j, r). (j, r_token r, r_order r)) (g_requests g)"

definition queued :: "gate \<Rightarrow> (nat \<times> string \<times> string) list" where
  "queued g = map (\<lambda>e. (e_token e, e_order e)) (g_heap g)"

definition in_step ::
  "ident list \<Rightarrow> nat \<Rightarrow> nat \<Rightarrow> (nat \<times> string \<times> string) list \<Rightarrow> (nat \<rightharpoonup> string option) \<Rightarrow> bool" where
  "in_step ids fresh n ks kinds \<longleftrightarrow>
     distinct (map fst ids) \<and> distinct (map (\<lambda>i. fst (snd i)) ids) \<and>
     (\<forall>(j, t, o') \<in> set ids. t < fresh \<and> snd o' = j \<and> \<not> list_all is_digit j) \<and>
     distinct (map fst ks) \<and> distinct (map snd ks) \<and>
     (\<forall>(t, o') \<in> set ks. t < fresh \<and> kinds t \<noteq> None \<and>
        ((\<exists>j. (j, t, o') \<in> set ids) \<or> (\<exists>m < n. o' = ([], pad20 m))))"

lemma pad20_digits: "list_all is_digit (pad20 n)"
  using show_nat_digits [of n] by (auto simp: pad20_def list_all_iff) (simp add: is_digit_def)

lemma pad20_inj: "pad20 a = pad20 b \<Longrightarrow> a = b"
  by (metis pad20_def read_nat_zeros read_show_nat)

lemma in_stepI:
  assumes "distinct (map fst ids)" and "distinct (map (\<lambda>i. fst (snd i)) ids)"
    and "\<And>j t o'. (j, t, o') \<in> set ids \<Longrightarrow> t < fresh \<and> snd o' = j \<and> \<not> list_all is_digit j"
    and "distinct (map fst ks)" and "distinct (map snd ks)"
    and "\<And>t o'. (t, o') \<in> set ks \<Longrightarrow> t < fresh"
    and "\<And>t o'. (t, o') \<in> set ks \<Longrightarrow> kinds t \<noteq> None"
    and "\<And>t o'. (t, o') \<in> set ks \<Longrightarrow> (\<exists>j. (j, t, o') \<in> set ids) \<or> (\<exists>m < n. o' = ([], pad20 m))"
  shows "in_step ids fresh n ks kinds"
  unfolding in_step_def using assms by blast

lemma in_stepD:
  assumes "in_step ids fresh n ks kinds"
  shows "distinct (map fst ids)" and "distinct (map (\<lambda>i. fst (snd i)) ids)"
    and "(j, t, o') \<in> set ids \<Longrightarrow> t < fresh"
    and "(j, t, o') \<in> set ids \<Longrightarrow> snd o' = j"
    and "(j, t, o') \<in> set ids \<Longrightarrow> \<not> list_all is_digit j"
    and "distinct (map fst ks)" and "distinct (map snd ks)"
    and "(t, o') \<in> set ks \<Longrightarrow> t < fresh"
    and "(t, o') \<in> set ks \<Longrightarrow> kinds t \<noteq> None"
    and "(t, o') \<in> set ks \<Longrightarrow> (\<exists>j. (j, t, o') \<in> set ids) \<or> (\<exists>m < n. o' = ([], pad20 m))"
  using assms unfolding in_step_def by blast+

lemma numeral_not_job: "in_step ids fresh n ks kinds \<Longrightarrow> (j, t, c, pad20 m) \<notin> set ids"
  using in_stepD(4,5) pad20_digits by (metis snd_conv)

lemma in_step_register:
  assumes s: "in_step ids fresh n ks kinds" and new: "job \<notin> fst ` set ids"
    and job: "\<not> list_all is_digit job"
  shows "in_step (ids @ [(job, fresh, c, job)]) (fresh + 1) n (ks @ [(fresh, c, job)])
           (kinds(fresh \<mapsto> k))"
proof (rule in_stepI)
  have "(t, c, job) \<notin> set ks" for t
  proof
    assume "(t, c, job) \<in> set ks"
    from in_stepD(10) [OF s this] show False
    proof
      assume "\<exists>j. (j, t, c, job) \<in> set ids"
      then obtain j where j: "(j, t, c, job) \<in> set ids" ..
      with in_stepD(4) [OF s j] new show False by force
    qed (use job pad20_digits in auto)
  qed
  then show "distinct (map snd (ks @ [(fresh, c, job)]))" using in_stepD(7) [OF s] by force
  show "distinct (map fst (ks @ [(fresh, c, job)]))"
    using in_stepD(6) [OF s] in_stepD(8) [OF s] by force
  show "distinct (map fst (ids @ [(job, fresh, c, job)]))" using in_stepD(1) [OF s] new by simp
  show "distinct (map (\<lambda>i. fst (snd i)) (ids @ [(job, fresh, c, job)]))"
    using in_stepD(2) [OF s] in_stepD(3) [OF s] by force
next
  fix j t o' assume "(j, t, o') \<in> set (ids @ [(job, fresh, c, job)])"
  then show "t < fresh + 1 \<and> snd o' = j \<and> \<not> list_all is_digit j"
    using in_stepD(3-5) [OF s, of j t o'] job by auto
next
  fix t o' assume *: "(t, o') \<in> set (ks @ [(fresh, c, job)])"
  show "t < fresh + 1" using * in_stepD(8) [OF s, of t o'] by auto
  show "(kinds(fresh \<mapsto> k)) t \<noteq> None" using * in_stepD(9) [OF s, of t o'] by auto
  show "(\<exists>j. (j, t, o') \<in> set (ids @ [(job, fresh, c, job)])) \<or> (\<exists>m < n. o' = ([], pad20 m))"
    using * in_stepD(10) [OF s, of t o'] by auto
qed

lemma in_step_retire:
  assumes s: "in_step ids fresh n ks kinds"
  shows "in_step (filter (\<lambda>i. fst (snd i) \<notin> T) ids) fresh n (filter (\<lambda>k. fst k \<notin> T) ks)
           (kinds |` (- T))"
proof (rule in_stepI)
  fix t o' assume "(t, o') \<in> set (filter (\<lambda>k. fst k \<notin> T) ks)"
  then have *: "(t, o') \<in> set ks" "t \<notin> T" by auto
  then show "t < fresh" using in_stepD(8) [OF s] by blast
  show "(kinds |` (- T)) t \<noteq> None" using * in_stepD(9) [OF s] by auto
  show "(\<exists>j. (j, t, o') \<in> set (filter (\<lambda>i. fst (snd i) \<notin> T) ids)) \<or> (\<exists>m < n. o' = ([], pad20 m))"
    using * in_stepD(10) [OF s] by auto
qed (use in_stepD(1-7) [OF s] in \<open>auto simp: distinct_map_filter\<close>)

lemma in_step_drop:
  assumes s: "in_step ids fresh n ks kinds"
  shows "in_step ids fresh n (filter (\<lambda>k. fst k \<noteq> tok) ks) kinds"
proof (rule in_stepI)
  fix t o' assume "(t, o') \<in> set (filter (\<lambda>k. fst k \<noteq> tok) ks)"
  then have *: "(t, o') \<in> set ks" by auto
  then show "t < fresh" "kinds t \<noteq> None" using in_stepD(8,9) [OF s] by blast+
  show "(\<exists>j. (j, t, o') \<in> set ids) \<or> (\<exists>m < n. o' = ([], pad20 m))"
    by (rule in_stepD(10) [OF s *])
qed (use in_stepD(1-7) [OF s] in \<open>auto simp: distinct_map_filter\<close>)

lemma in_step_kinds:
  assumes s: "in_step ids fresh n ks kinds"
    and k: "\<And>t o'. (t, o') \<in> set ks \<Longrightarrow> kinds' t \<noteq> None" and f: "fresh \<le> fresh'"
  shows "in_step ids fresh' n ks kinds'"
proof (rule in_stepI)
  fix t o' assume *: "(t, o') \<in> set ks"
  show "kinds' t \<noteq> None" by (rule k [OF *])
  show "t < fresh'" using in_stepD(8) [OF s *] f by simp
  show "(\<exists>j. (j, t, o') \<in> set ids) \<or> (\<exists>m < n. o' = ([], pad20 m))"
    by (rule in_stepD(10) [OF s *])
next
  fix j t o' assume *: "(j, t, o') \<in> set ids"
  show "t < fresh' \<and> snd o' = j \<and> \<not> list_all is_digit j"
    using in_stepD(3-5) [OF s *] f by simp
qed (rule in_stepD [OF s])+

lemma in_step_push:
  assumes s: "in_step ids fresh n ks kinds" and mem: "(j, t, o') \<in> set ids" and t: "t \<notin> fst ` set ks"
  shows "in_step ids fresh n (ks @ [(t, o')]) (kinds(t \<mapsto> k))"
proof (rule in_stepI)
  have "(t', o') \<notin> set ks" for t'
  proof
    assume t': "(t', o') \<in> set ks"
    from in_stepD(10) [OF s t'] show False
    proof
      assume "\<exists>j. (j, t', o') \<in> set ids"
      then obtain j' where j': "(j', t', o') \<in> set ids" ..
      with in_stepD(4) [OF s j'] in_stepD(4) [OF s mem] have "j' = j" by simp
      with j' mem in_stepD(1) [OF s] have "t' = t" by (auto dest: eq_key_imp_eq_value)
      with t' t show False by force
    qed (use mem numeral_not_job [OF s] in auto)
  qed
  then show "distinct (map snd (ks @ [(t, o')]))" using in_stepD(7) [OF s] by force
  show "distinct (map fst (ks @ [(t, o')]))" using in_stepD(6) [OF s] t by force
next
  fix t1 o1 assume *: "(t1, o1) \<in> set (ks @ [(t, o')])"
  show "t1 < fresh" using * in_stepD(8) [OF s, of t1 o1] in_stepD(3) [OF s mem] by auto
  show "(kinds(t \<mapsto> k)) t1 \<noteq> None" using * in_stepD(9) [OF s, of t1 o1] by auto
  show "(\<exists>j. (j, t1, o1) \<in> set ids) \<or> (\<exists>m < n. o1 = ([], pad20 m))"
    using * in_stepD(10) [OF s, of t1 o1] mem by auto
qed (use in_stepD(1-5) [OF s] in auto)

lemma in_step_push_plain:
  assumes s: "in_step ids fresh n ks kinds"
  shows "in_step ids (fresh + 1) (n + 1) (ks @ [(fresh, [], pad20 n)]) (kinds(fresh \<mapsto> k))"
proof (rule in_stepI)
  have "(t, [], pad20 n) \<notin> set ks" for t
  proof
    assume t: "(t, [], pad20 n) \<in> set ks"
    from in_stepD(10) [OF s t] numeral_not_job [OF s] have "\<exists>m < n. pad20 n = pad20 m" by auto
    then show False using pad20_inj by blast
  qed
  then show "distinct (map snd (ks @ [(fresh, [], pad20 n)]))" using in_stepD(7) [OF s] by force
  show "distinct (map fst (ks @ [(fresh, [], pad20 n)]))"
    using in_stepD(6) [OF s] in_stepD(8) [OF s] by force
next
  fix t o' assume *: "(t, o') \<in> set (ks @ [(fresh, [], pad20 n)])"
  show "t < fresh + 1" using * in_stepD(8) [OF s, of t o'] by auto
  show "(kinds(fresh \<mapsto> k)) t \<noteq> None" using * in_stepD(9) [OF s, of t o'] by auto
  show "(\<exists>j. (j, t, o') \<in> set ids) \<or> (\<exists>m < n + 1. o' = ([], pad20 m))"
  proof (cases "(t, o') \<in> set ks")
    case True
    from in_stepD(10) [OF s True] show ?thesis by (blast intro: trans_less_add1)
  next
    case False
    with * have "o' = ([], pad20 n)" by simp
    then show ?thesis by (intro disjI2 exI [of _ n]) simp
  qed
next
  fix j t o' assume *: "(j, t, o') \<in> set ids"
  show "t < fresh + 1 \<and> snd o' = j \<and> \<not> list_all is_digit j"
    using in_stepD(3-5) [OF s *] by simp
qed (rule in_stepD [OF s])+

section \<open>The invariant\<close>

definition snaps_behind :: "gate \<Rightarrow> bool" where
  "snaps_behind g \<longleftrightarrow>
     (case g_refreshing g of
        None \<Rightarrow> True
      | Some (_, snaps) \<Rightarrow>
          \<forall>(r', rev') \<in> set snaps. r_token r' < g_fresh g \<and>
            (\<forall>(j, r) \<in> set (g_requests g). r_token r = r_token r' \<longrightarrow> rev' \<le> r_revision r))"

definition gate_inv :: "gate \<Rightarrow> bool" where
  "gate_inv g \<longleftrightarrow>
     0 \<le> g_active g \<and> g_active g \<le> STARTUP_SLOTS \<and>
     in_step (idents g) (g_fresh g) (g_seq g) (queued g) (g_waiter_kinds g) \<and> snaps_behind g"

lemma gate_invI:
  assumes "0 \<le> g_active g" and "g_active g \<le> STARTUP_SLOTS"
    and "in_step (idents g) (g_fresh g) (g_seq g) (queued g) (g_waiter_kinds g)" and "snaps_behind g"
  shows "gate_inv g"
  using assms by (simp add: gate_inv_def)

lemma gate_invD:
  assumes "gate_inv g"
  shows "0 \<le> g_active g" and "g_active g \<le> STARTUP_SLOTS"
    and "in_step (idents g) (g_fresh g) (g_seq g) (queued g) (g_waiter_kinds g)" and "snaps_behind g"
  using assms by (simp_all add: gate_inv_def)

lemma snaps_behindI:
  assumes "\<And>epoch snaps r' rev'. g_refreshing g = Some (epoch, snaps) \<Longrightarrow> (r', rev') \<in> set snaps \<Longrightarrow>
      r_token r' < g_fresh g \<and>
      (\<forall>(j, r) \<in> set (g_requests g). r_token r = r_token r' \<longrightarrow> rev' \<le> r_revision r)"
  shows "snaps_behind g"
proof (cases "g_refreshing g")
  case (Some p)
  then obtain epoch snaps where p: "g_refreshing g = Some (epoch, snaps)" by (cases p) auto
  have "\<forall>s \<in> set snaps. r_token (fst s) < g_fresh g \<and>
      (\<forall>(j, r) \<in> set (g_requests g). r_token r = r_token (fst s) \<longrightarrow> snd s \<le> r_revision r)"
    using assms [OF p] by (metis prod.collapse)
  then show ?thesis unfolding snaps_behind_def p option.case prod.case by (simp add: split_beta)
qed (simp add: snaps_behind_def)

lemma snaps_behindD:
  assumes "snaps_behind g" and "g_refreshing g = Some (epoch, snaps)" and "(r', rev') \<in> set snaps"
  shows "r_token r' < g_fresh g"
    and "(j, r) \<in> set (g_requests g) \<Longrightarrow> r_token r = r_token r' \<Longrightarrow> rev' \<le> r_revision r"
  using assms unfolding snaps_behind_def by fastforce+

text \<open>A later state with the same snapshots, whose requests are new or at least as far on.\<close>

lemma snaps_behind_mono:
  assumes "snaps_behind g" and "g_refreshing g' = g_refreshing g" and "g_fresh g \<le> g_fresh g'"
    and later: "\<And>j r. (j, r) \<in> set (g_requests g') \<Longrightarrow> r_token r < g_fresh g \<Longrightarrow>
      \<exists>j0 r0. (j0, r0) \<in> set (g_requests g) \<and> r_token r0 = r_token r \<and> r_revision r0 \<le> r_revision r"
  shows "snaps_behind g'"
proof (rule snaps_behindI)
  fix epoch snaps r' rev'
  assume "g_refreshing g' = Some (epoch, snaps)" and mem: "(r', rev') \<in> set snaps"
  with assms(2) have now: "g_refreshing g = Some (epoch, snaps)" by simp
  note old = snaps_behindD [OF assms(1) now mem]
  have "rev' \<le> r_revision r" if "(j, r) \<in> set (g_requests g')" "r_token r = r_token r'" for j r
  proof -
    from later [OF that(1)] that(2) old(1) obtain j0 r0
      where "(j0, r0) \<in> set (g_requests g)" "r_token r0 = r_token r" "r_revision r0 \<le> r_revision r"
      by auto
    with old(2) [of j0 r0] that(2) show ?thesis by simp
  qed
  then show "r_token r' < g_fresh g' \<and>
      (\<forall>(j, r) \<in> set (g_requests g'). r_token r = r_token r' \<longrightarrow> rev' \<le> r_revision r)"
    using old(1) assms(3) by auto
qed

lemma snaps_behind_same:
  "snaps_behind g \<Longrightarrow> g_refreshing g' = g_refreshing g \<Longrightarrow> g_fresh g \<le> g_fresh g' \<Longrightarrow>
     set (g_requests g') \<subseteq> set (g_requests g) \<Longrightarrow> snaps_behind g'"
  by (rule snaps_behind_mono) (assumption+, blast)

lemma gate_parts [simp]:
  "idents (bump_epoch g) = idents g" "queued (bump_epoch g) = queued g"
  "snaps_behind (bump_epoch g) = snaps_behind g" "gate_inv (bump_epoch g) = gate_inv g"
  by (simp_all add: idents_def queued_def snaps_behind_def gate_inv_def bump_epoch_def
      split: option.split)

lemma queued_without_token:
  "map (\<lambda>e. (e_token e, e_order e)) (without_token tok h) =
     filter (\<lambda>k. fst k \<noteq> tok) (map (\<lambda>e. (e_token e, e_order e)) h)"
  by (simp add: without_token_def filter_map comp_def)

text \<open>A request's own fields change, never its token or its place in line.\<close>

definition keeps_ident :: "(request \<Rightarrow> request) \<Rightarrow> bool" where
  "keeps_ident f \<longleftrightarrow> (\<forall>r. r_token (f r) = r_token r \<and> r_order (f r) = r_order r \<and>
     r_revision r \<le> r_revision (f r))"

lemma keeps_ident_maps:
  assumes "\<And>j. keeps_ident (f j)"
  shows "map (\<lambda>(j, r). (j, r_token r, r_order r)) (map (\<lambda>(j, r). (j, f j r)) rs) =
      map (\<lambda>(j, r). (j, r_token r, r_order r)) rs"
  using assms by (simp add: keeps_ident_def split_beta comp_def)

lemma gate_inv_requests:
  assumes inv: "gate_inv g" and f: "\<And>j. keeps_ident (f j)"
    and g': "g_requests g' = map (\<lambda>(j, r). (j, f j r)) (g_requests g)" "queued g' = queued g"
      "g_fresh g \<le> g_fresh g'" "g_seq g' = g_seq g" "g_active g' = g_active g"
      "g_waiter_kinds g' = g_waiter_kinds g" "g_refreshing g' = g_refreshing g"
  shows "gate_inv g'"
proof (rule gate_invI)
  have "idents g' = idents g" unfolding idents_def g'(1) by (rule keeps_ident_maps [OF f])
  then show "in_step (idents g') (g_fresh g') (g_seq g') (queued g') (g_waiter_kinds g')"
    using in_step_kinds [OF gate_invD(3) [OF inv]] in_stepD(9) [OF gate_invD(3) [OF inv]] g'
    by metis
  show "snaps_behind g'"
  proof (rule snaps_behind_mono [OF gate_invD(4) [OF inv] g'(7) g'(3)])
    fix j r assume "(j, r) \<in> set (g_requests g')"
    then obtain r0 where "(j, r0) \<in> set (g_requests g)" "r = f j r0" unfolding g'(1) by auto
    with f show "\<exists>j0 r0. (j0, r0) \<in> set (g_requests g) \<and> r_token r0 = r_token r \<and>
        r_revision r0 \<le> r_revision r"
      unfolding keeps_ident_def by metis
  qed
qed (use gate_invD(1,2) [OF inv] g'(5) in simp_all)

lemma change_request_requests:
  "g_requests (change_request job f g) =
     map (\<lambda>(j, r). (j, (if j = job then f else id) r)) (g_requests g)"
  by (simp add: change_request_def) (auto simp: split_beta)

lemma change_request_inv:
  assumes "gate_inv g" and "keeps_ident f"
  shows "gate_inv (change_request job f g)"
proof (rule gate_inv_requests [OF assms(1) _ change_request_requests])
  show "keeps_ident (if j = job then f else id)" for j
    using assms(2) by (simp add: keeps_ident_def)
qed (simp_all add: change_request_def queued_def)

section \<open>Every operation keeps the invariant\<close>

lemma register_request_inv:
  assumes inv: "gate_inv g" and job: "\<not> list_all is_digit job"
  shows "gate_inv (register_request job created_at priority kind g)"
proof (cases "map_of (g_requests g) job")
  case None
  let ?r = "\<lparr>r_token = g_fresh g, r_order = (created_at, job), r_priority = priority, r_kind = kind,
    r_owner = None, r_revision = 0, r_ready = False, r_preflight_complete = False,
    r_preflight_waiting = False\<rparr>"
  let ?g = "g\<lparr>g_fresh := g_fresh g + 1, g_requests := g_requests g @ [(job, ?r)],
    g_waiter_kinds := (g_waiter_kinds g)(g_fresh g \<mapsto> Some kind),
    g_heap := g_heap g @ [\<lparr>e_priority = priority, e_order = r_order ?r, e_token = g_fresh g\<rparr>]\<rparr>"
  from None have "job \<notin> fst ` set (idents g)"
    by (force simp: idents_def map_of_eq_None_iff)
  note push = in_step_register [OF gate_invD(3) [OF inv] this job]
  have "gate_inv ?g"
  proof (rule gate_invI)
    show "in_step (idents ?g) (g_fresh ?g) (g_seq ?g) (queued ?g) (g_waiter_kinds ?g)"
      using push [of created_at "Some kind"] by (simp add: idents_def queued_def)
    show "snaps_behind ?g"
      by (rule snaps_behind_mono [OF gate_invD(4) [OF inv]]) auto
  qed (use gate_invD(1,2) [OF inv] in simp_all)
  then show ?thesis using None by (simp add: register_request_def Let_def)
qed (simp add: register_request_def inv)

lemma claim_request_inv:
  assumes inv: "gate_inv g" shows "gate_inv (snd (claim_request job g))"
proof -
  have "gate_inv (g\<lparr>g_fresh := g_fresh g + 1\<rparr>)"
    by (rule gate_inv_requests [OF inv, where f = "\<lambda>_. id"])
      (simp_all add: keeps_ident_def queued_def split_beta)
  then have "gate_inv (change_request job (\<lambda>r. r\<lparr>r_owner := Some (g_fresh g)\<rparr>) (g\<lparr>g_fresh := g_fresh g + 1\<rparr>))"
    by (rule change_request_inv) (simp add: keeps_ident_def)
  then show ?thesis using inv by (simp add: claim_request_def split: option.split)
qed

lemma finish_request_inv:
  assumes inv: "gate_inv g" shows "gate_inv (finish_request job owner g)"
proof (cases "map_of (g_requests g) job")
  case (Some r)
  let ?g = "g\<lparr>g_requests := filter (\<lambda>(j, _). j \<noteq> job) (g_requests g),
    g_heap := without_token (r_token r) (g_heap g),
    g_waiter_kinds := (g_waiter_kinds g)(r_token r := None)\<rparr>"
  note s = gate_invD(3) [OF inv]
  from Some have mem: "(job, r_token r, r_order r) \<in> set (idents g)"
    by (force simp: idents_def dest: map_of_SomeD)
  have same: "fst i = job \<longleftrightarrow> fst (snd i) \<in> {r_token r}" if "i \<in> set (idents g)" for i
  proof
    assume "fst i = job"
    with that mem in_stepD(1) [OF s] show "fst (snd i) \<in> {r_token r}"
      by (metis eq_key_imp_eq_value fst_conv prod.collapse singletonI)
  next
    assume "fst (snd i) \<in> {r_token r}"
    then show "fst i = job"
      using inj_onD [OF _ _ that mem, of "\<lambda>i. fst (snd i)"] in_stepD(2) [OF s]
      by (auto simp: distinct_map)
  qed
  have "idents ?g = filter (\<lambda>i. fst i \<noteq> job) (idents g)"
    by (simp add: idents_def filter_map comp_def case_prod_unfold)
  also have "\<dots> = filter (\<lambda>i. fst (snd i) \<notin> {r_token r}) (idents g)"
    using same by (intro filter_cong) (simp_all del: split_paired_All)
  finally have ids: "idents ?g = \<dots>" .
  have ks: "queued ?g = filter (\<lambda>k. fst k \<notin> {r_token r}) (queued g)"
    by (simp add: queued_def queued_without_token)
  have kinds: "g_waiter_kinds ?g = g_waiter_kinds g |` (- {r_token r})"
    by (auto simp: restrict_map_def)
  have "gate_inv ?g"
  proof (rule gate_invI)
    show "in_step (idents ?g) (g_fresh ?g) (g_seq ?g) (queued ?g) (g_waiter_kinds ?g)"
      using in_step_retire [OF s, of "{r_token r}"] unfolding ids ks kinds by simp
    show "snaps_behind ?g" by (rule snaps_behind_same [OF gate_invD(4) [OF inv]]) auto
  qed (use gate_invD(1,2) [OF inv] in simp_all)
  then show ?thesis using inv Some by (simp add: finish_request_def)
qed (simp add: finish_request_def inv)

lemma complete_preflight_inv: "gate_inv g \<Longrightarrow> gate_inv (complete_preflight job g)"
  by (simp add: complete_preflight_def change_request_inv keeps_ident_def)

lemma defer_preflight_inv: "gate_inv g \<Longrightarrow> gate_inv (defer_preflight job g)"
  by (simp add: defer_preflight_def change_request_inv keeps_ident_def)

lemma reprioritize_inv:
  assumes "gate_inv g" shows "gate_inv (reprioritize job priority g)"
proof (cases "map_of (g_requests g) job")
  case (Some req)
  let ?f = "\<lambda>r. r\<lparr>r_priority := priority, r_revision := r_revision r + 1\<rparr>"
  let ?h = "map (\<lambda>e. if e_token e = r_token req then e\<lparr>e_priority := priority\<rparr> else e) (g_heap g)"
  have "gate_inv ((change_request job ?f g)\<lparr>g_heap := ?h\<rparr>)"
    by (rule gate_inv_requests [OF assms, where f = "\<lambda>j. if j = job then ?f else id"])
      (auto simp: keeps_ident_def change_request_requests queued_def change_request_def)
  then show ?thesis using Some by (simp add: reprioritize_def)
qed (simp add: reprioritize_def assms)

lemma release_inv:
  assumes inv: "gate_inv g" shows "gate_inv (release g)"
proof (rule gate_invI)
  show "snaps_behind (release g)"
    by (rule snaps_behind_same [OF gate_invD(4) [OF inv]]) (auto simp: release_def)
qed (use gate_invD(1-3) [OF inv] in
    \<open>simp_all add: release_def idents_def queued_def STARTUP_SLOTS_def\<close>)

lemma leave_inv:
  assumes inv: "gate_inv g" shows "gate_inv (leave tok g)"
proof (rule gate_invI)
  have "in_step (idents g) (g_fresh g) (g_seq g) (filter (\<lambda>k. fst k \<noteq> tok) (queued g))
      ((g_waiter_kinds g)(tok := None))"
    using in_stepD(9) [OF gate_invD(3) [OF inv]]
    by (intro in_step_kinds [OF in_step_drop [OF gate_invD(3) [OF inv]]]) auto
  then show "in_step (idents (leave tok g)) (g_fresh (leave tok g)) (g_seq (leave tok g))
      (queued (leave tok g)) (g_waiter_kinds (leave tok g))"
    by (simp add: leave_def idents_def queued_def queued_without_token)
  show "snaps_behind (leave tok g)"
    by (rule snaps_behind_same [OF gate_invD(4) [OF inv]]) (auto simp: leave_def)
qed (use gate_invD(1,2) [OF inv] in \<open>simp_all add: leave_def\<close>)

lemma limits_inv: "gate_inv (g\<lparr>g_kind_limits := l\<rparr>) = gate_inv g"
  by (simp add: gate_inv_def idents_def queued_def snaps_behind_def split: option.split)

lemma admitted_inv:
  assumes inv: "gate_inv g" and room: "g_active g < STARTUP_SLOTS"
  shows "gate_inv (g\<lparr>g_heap := without_token tok (g_heap g), g_active := g_active g + 1\<rparr>)"
    (is "gate_inv ?g")
proof (rule gate_invI)
  show "in_step (idents ?g) (g_fresh ?g) (g_seq ?g) (queued ?g) (g_waiter_kinds ?g)"
    using in_step_drop [OF gate_invD(3) [OF inv], of tok]
    by (simp add: idents_def queued_def queued_without_token)
  show "snaps_behind ?g"
    by (rule snaps_behind_same [OF gate_invD(4) [OF inv]]) auto
qed (use gate_invD(1,2) [OF inv] room in simp_all)

lemma next_eligible_room: "next_eligible g = Some (Some tok) \<Longrightarrow> g_active g < STARTUP_SLOTS"
  by (simp add: next_eligible_def split: if_splits)

lemma try_admit_inv:
  assumes inv: "gate_inv g" shows "gate_inv (snd (try_admit tok registered kind limit g))"
proof -
  let ?g = "case kind of
      Some k \<Rightarrow> if registered then g else g\<lparr>g_kind_limits := (g_kind_limits g)(k \<mapsto> limit)\<rparr>
    | None \<Rightarrow> g"
  have "gate_inv ?g" using inv by (simp add: limits_inv split: option.split)
  then show ?thesis
    unfolding try_admit_def Let_def
    by (simp add: admitted_inv next_eligible_room)
qed

lemma enqueue_inv:
  assumes inv: "gate_inv g" shows "gate_inv (snd (enqueue request_id priority kind g))"
proof (cases "Option.bind request_id (map_of (g_requests g))")
  case None
  let ?g = "g\<lparr>g_fresh := g_fresh g + 1, g_seq := g_seq g + 1,
    g_heap := g_heap g @ [\<lparr>e_priority = priority, e_order = ([], pad20 (g_seq g)), e_token = g_fresh g\<rparr>],
    g_waiter_kinds := (g_waiter_kinds g)(g_fresh g \<mapsto> kind)\<rparr>"
  have "gate_inv ?g"
  proof (rule gate_invI)
    show "in_step (idents ?g) (g_fresh ?g) (g_seq ?g) (queued ?g) (g_waiter_kinds ?g)"
      using in_step_push_plain [OF gate_invD(3) [OF inv]] by (simp add: idents_def queued_def)
    show "snaps_behind ?g" by (rule snaps_behind_same [OF gate_invD(4) [OF inv]]) auto
  qed (use gate_invD(1,2) [OF inv] in simp_all)
  then show ?thesis using None by (simp add: enqueue_def)
next
  case (Some r)
  then obtain j where "(j, r) \<in> set (g_requests g)" by (auto simp: bind_eq_Some_conv dest: map_of_SomeD)
  then have mem: "(j, r_token r, r_order r) \<in> set (idents g)" by (force simp: idents_def)
  note s = gate_invD(3) [OF inv]
  show ?thesis
  proof (cases "\<exists>e \<in> set (g_heap g). e_token e = r_token r")
    case True
    let ?g = "g\<lparr>g_waiter_kinds := (g_waiter_kinds g)(r_token r \<mapsto> kind)\<rparr>"
    have "in_step (idents g) (g_fresh g) (g_seq g) (queued g) ((g_waiter_kinds g)(r_token r \<mapsto> kind))"
      by (rule in_step_kinds [OF s]) (use in_stepD(9) [OF s] in auto)
    moreover have "snaps_behind ?g" by (rule snaps_behind_same [OF gate_invD(4) [OF inv]]) auto
    ultimately have "gate_inv ?g"
      using gate_invD(1,2) [OF inv] by (simp add: gate_inv_def idents_def queued_def)
    then show ?thesis using Some True by (simp add: enqueue_def)
  next
    case False
    let ?g = "g\<lparr>g_heap := g_heap g @ [\<lparr>e_priority = priority, e_order = r_order r, e_token = r_token r\<rparr>],
      g_waiter_kinds := (g_waiter_kinds g)(r_token r \<mapsto> kind)\<rparr>"
    from False have new: "r_token r \<notin> fst ` set (queued g)" by (auto simp: queued_def)
    have "gate_inv ?g"
    proof (rule gate_invI)
      show "in_step (idents ?g) (g_fresh ?g) (g_seq ?g) (queued ?g) (g_waiter_kinds ?g)"
        using in_step_push [OF s mem new] by (simp add: idents_def queued_def)
      show "snaps_behind ?g" by (rule snaps_behind_same [OF gate_invD(4) [OF inv]]) auto
    qed (use gate_invD(1,2) [OF inv] in simp_all)
    then have "gate_inv (bump_epoch ?g)" by simp
    moreover have "bump_epoch ?g = (bump_epoch (g\<lparr>g_heap := g_heap g @
        [\<lparr>e_priority = priority, e_order = r_order r, e_token = r_token r\<rparr>]\<rparr>))
        \<lparr>g_waiter_kinds := (g_waiter_kinds g)(r_token r \<mapsto> kind)\<rparr>"
      by (simp add: bump_epoch_def)
    ultimately show ?thesis using Some False by (simp add: enqueue_def)
  qed
qed

lemma refresh_begin_inv:
  assumes inv: "gate_inv g" shows "gate_inv (refresh_begin now g)"
proof -
  let ?snaps = "map (\<lambda>(_, r). (r, r_revision r))
    (filter (\<lambda>(_, r). r_token r \<in> e_token ` set (g_heap g)) (g_requests g))"
  let ?g = "g\<lparr>g_refreshing := Some (g_policy_epoch g, ?snaps)\<rparr>"
  note s = gate_invD(3) [OF inv]
  have unique: "r = r'" if "(j, r) \<in> set (g_requests g)" "(j', r') \<in> set (g_requests g)"
      "r_token r = r_token r'" for j j' r r'
  proof -
    have "distinct (map (\<lambda>(j, r). r_token r) (g_requests g))"
      using in_stepD(2) [OF s] by (simp add: idents_def comp_def case_prod_unfold)
    then have "inj_on (\<lambda>(j, r). r_token r) (set (g_requests g))" by (simp add: distinct_map)
    from inj_onD [OF this _ that(1,2)] that(3) show ?thesis by simp
  qed
  have "snaps_behind ?g"
  proof (rule snaps_behindI)
    fix epoch snaps r' rev'
    assume "g_refreshing ?g = Some (epoch, snaps)" "(r', rev') \<in> set snaps"
    then obtain j' where r': "(j', r') \<in> set (g_requests g)" "rev' = r_revision r'" by auto
    then have "r_token r' < g_fresh g" using in_stepD(3) [OF s, of j' "r_token r'" "r_order r'"]
      by (force simp: idents_def)
    with r' unique show "r_token r' < g_fresh ?g \<and>
        (\<forall>(j, r) \<in> set (g_requests ?g). r_token r = r_token r' \<longrightarrow> rev' \<le> r_revision r)"
      by fastforce
  qed
  then have "gate_inv ?g" using gate_invD [OF inv] by (simp add: gate_inv_def idents_def queued_def)
  then show ?thesis using inv by (simp add: refresh_begin_def)
qed

lemma apply_update_keeps: "keeps_ident (apply_update u)"
  by (simp add: keeps_ident_def apply_update_def)

lemma fold_keeps: "(\<And>u. u \<in> set us \<Longrightarrow> keeps_ident (f u)) \<Longrightarrow> keeps_ident (fold f us)"
proof (induction us)
  case (Cons u us)
  then have "keeps_ident (fold f us)" "keeps_ident (f u)" by simp_all
  then show ?case unfolding keeps_ident_def by (simp add: le_trans)  (metis le_trans)
qed (simp add: keeps_ident_def)

lemma current_priority_key [simp]:
  "e_token (current_priority rs e) = e_token e" "e_order (current_priority rs e) = e_order e"
  by (simp_all add: current_priority_def split: option.split)

lemma refresh_commit_inv:
  assumes inv: "gate_inv g" shows "gate_inv (refresh_commit now provider policy g)"
proof (cases "g_refreshing g")
  case (Some p)
  obtain epoch snaps where p: "g_refreshing g = Some (epoch, snaps)" using Some by (cases p) auto
  define updates where "updates = map (policy_update_of policy) snaps"
  define retired where "retired = map (\<lambda>(_, r). r_token r)
    (filter (\<lambda>(_, r). \<exists>u \<in> set updates. retires u r) (g_requests g))"
  define rs where "rs = map (\<lambda>(j, r). (j, fold apply_update updates r)) (g_requests g)"
  let ?g = "refresh_commit now provider policy g"
  note g' = refresh_commit_def [of now provider policy g, unfolded p option.case prod.case Let_def,
      folded updates_def, folded retired_def rs_def]
  have ids: "idents ?g = filter (\<lambda>i. fst (snd i) \<notin> set retired) (idents g)"
  proof -
    have "idents ?g = filter (\<lambda>i. fst (snd i) \<notin> set retired)
        (map (\<lambda>(j, r). (j, r_token r, r_order r)) rs)"
      by (simp add: g' idents_def filter_map comp_def case_prod_unfold)
    also have "map (\<lambda>(j, r). (j, r_token r, r_order r)) rs = idents g"
      unfolding rs_def idents_def
      by (rule keeps_ident_maps [where f = "\<lambda>_. fold apply_update updates"])
        (rule fold_keeps, rule apply_update_keeps)
    finally show ?thesis .
  qed
  have ks: "queued ?g = filter (\<lambda>k. fst k \<notin> set retired) (queued g)"
    by (simp add: g' queued_def filter_map comp_def)
  show ?thesis
  proof (rule gate_invI)
    show "in_step (idents ?g) (g_fresh ?g) (g_seq ?g) (queued ?g) (g_waiter_kinds ?g)"
      using in_step_retire [OF gate_invD(3) [OF inv], of "set retired"] unfolding ids ks by (simp add: g')
    show "snaps_behind ?g" by (simp add: g' snaps_behind_def)
  qed (use gate_invD(1,2) [OF inv] in \<open>simp_all add: g'\<close>)
qed (simp add: refresh_commit_def inv)

lemma gate_apply_inv: "gate_inv g \<Longrightarrow> legal_event e \<Longrightarrow> gate_inv (gate_apply e g)"
  by (cases e) (simp_all add: register_request_inv claim_request_inv finish_request_inv
      complete_preflight_inv defer_preflight_inv reprioritize_inv refresh_begin_inv
      refresh_commit_inv enqueue_inv try_admit_inv leave_inv release_inv)

lemma new_gate_inv: "gate_inv new_gate"
  by (rule gate_invI) (simp_all add: new_gate_def STARTUP_SLOTS_def in_step_def idents_def queued_def
      snaps_behind_def)

interpretation gate: invariant_machine new_gate legal_event gate_apply gate_inv
  by unfold_locales (rule new_gate_inv, rule gate_apply_inv)

abbreviation gate_reachable :: "gate \<Rightarrow> bool" where
  "gate_reachable \<equiv> reachable new_gate legal_event gate_apply"

end
