(* ===== verification/Gate_Claims.thy ===== *)
theory Gate_Claims
  imports Gate_Invariant
begin

text \<open>
  The start-up gate's properties: the bound on slots and the absence of a \<open>KeyError\<close>, which
  waiter is admitted, that a freed slot is taken, who may end a request, and that a refresh never
  undoes a change made while it ran.
\<close>

section \<open>What the invariant gives\<close>

lemma entry_unique:
  assumes "gate_inv g" and "e \<in> set (g_heap g)" and "e' \<in> set (g_heap g)" and "e_token e = e_token e'"
  shows "e = e'"
proof -
  have "distinct (map e_token (g_heap g))"
    using in_stepD(6) [OF gate_invD(3) [OF assms(1)]] by (simp add: queued_def comp_def)
  then have "inj_on e_token (set (g_heap g))" by (simp add: distinct_map)
  from inj_onD [OF this assms(4,2,3)] show ?thesis .
qed

lemma order_unique:
  assumes "gate_inv g" and "e \<in> set (g_heap g)" and "e' \<in> set (g_heap g)" and "e_order e = e_order e'"
  shows "e = e'"
proof -
  have "distinct (map e_order (g_heap g))"
    using in_stepD(7) [OF gate_invD(3) [OF assms(1)]] by (simp add: queued_def comp_def)
  then have "inj_on e_order (set (g_heap g))" by (simp add: distinct_map)
  from inj_onD [OF this assms(4,2,3)] show ?thesis .
qed

lemma entry_has_kind: "gate_inv g \<Longrightarrow> e \<in> set (g_heap g) \<Longrightarrow> g_waiter_kinds g (e_token e) \<noteq> None"
  using in_stepD(9) [OF gate_invD(3), of g "e_token e" "e_order e"] by (force simp: queued_def)

lemma distinct_jobs: "gate_inv g \<Longrightarrow> distinct (map fst (g_requests g))"
  using in_stepD(1) [OF gate_invD(3)] by (force simp: idents_def comp_def case_prod_unfold)

lemma distinct_tokens: "gate_inv g \<Longrightarrow> distinct (map (\<lambda>(_, r). r_token r) (g_requests g))"
  using in_stepD(2) [OF gate_invD(3)] by (force simp: idents_def comp_def case_prod_unfold)

lemma request_found:
  "gate_inv g \<Longrightarrow> (j, r) \<in> set (g_requests g) \<Longrightarrow> map_of (g_requests g) j = Some r"
  using distinct_jobs by (simp add: map_of_eq_Some_iff)

lemma token_unique:
  assumes "gate_inv g" and "(j, r) \<in> set (g_requests g)" and "(j', r') \<in> set (g_requests g)"
    and "r_token r = r_token r'"
  shows "j = j' \<and> r = r'"
proof -
  have "inj_on (\<lambda>(_, r). r_token r) (set (g_requests g))"
    using distinct_tokens [OF assms(1)] by (simp add: distinct_map)
  from inj_onD [OF this _ assms(2,3)] assms(4) show ?thesis by simp
qed

lemma next_eligible_result:
  assumes "gate_inv g"
  shows "next_eligible g = (if g_active g \<ge> STARTUP_SLOTS then Some None
    else Some (map_option e_token (py_min entry_key (filter (eligible g) (g_heap g)))))"
proof -
  have "\<not> (\<exists>e \<in> set (g_heap g). token_ready g (e_token e) \<and> g_waiter_kinds g (e_token e) = None)"
    using entry_has_kind [OF assms] by blast
  then show ?thesis unfolding next_eligible_def by (simp only: if_False)
qed

section \<open>Slots and failures\<close>

definition sample_run :: "gate_event list" where
  "sample_run =
     [Register ''a1'' ''2026-01-02'' 2 ''previews'', Register ''b2'' ''2026-01-01'' 2 ''loudness'',
      Refresh_Begin 0,
      Refresh_Commit 0 None (\<lambda>t _. if t = 1 then Policy 1 True else Policy 2 True),
      Enqueue (Some ''a1'') 2 (Some ''previews''), Enqueue (Some ''b2'') 2 (Some ''loudness''),
      Enqueue None 3 None]"

definition sample_gate :: gate where "sample_gate = fold gate_apply sample_run new_gate"

lemma sample_gate_reachable: "gate_reachable sample_gate"
  unfolding sample_gate_def by (rule reachable_runs) (simp add: sample_run_def is_digit_def)

text \<open>
  C6: whatever the runner threads, cancellations and refreshes do, and in any order, at most
  three jobs hold a start-up slot, looking for the next one never raises, and no two waiters
  share a token or a place in line, so the comparison of entries never reaches their tokens.
\<close>

theorem gate_slots_bounded:
  assumes "gate_reachable g"
  shows "0 \<le> g_active g \<and> g_active g \<le> STARTUP_SLOTS \<and> next_eligible g \<noteq> None \<and>
    distinct (map e_token (g_heap g)) \<and> distinct (map e_order (g_heap g))"
proof -
  note inv = gate.always [OF assms]
  have "distinct (map e_token (g_heap g))" "distinct (map e_order (g_heap g))"
    using in_stepD(6,7) [OF gate_invD(3) [OF inv]] by (simp_all add: queued_def comp_def)
  then show ?thesis using gate_invD(1,2) [OF inv] next_eligible_result [OF inv] by simp
qed

theorem gate_slots_bounded_witness:
  "g_active sample_gate \<le> STARTUP_SLOTS \<and> next_eligible sample_gate \<noteq> None \<and>
   length (g_heap sample_gate) = 3"
  using gate_slots_bounded [OF sample_gate_reachable]
  by (intro conjI) (blast, blast, code_simp)

section \<open>Who is admitted\<close>

text \<open>
  C18: the next token is exactly the one of the waiter that comes first by priority and then by
  its place in line among those that are ready and whose kind has open workers, and there is one
  only while a slot is free.
\<close>

theorem next_eligible_exact:
  assumes "gate_reachable g"
  shows "next_eligible g = Some (Some tok) \<longleftrightarrow>
    g_active g < STARTUP_SLOTS \<and>
    (\<exists>e \<in> set (g_heap g). e_token e = tok \<and> eligible g e \<and>
       {e' \<in> set (g_heap g). eligible g e' \<and> e' \<noteq> e \<and> entry_key e' \<le> entry_key e} = {})"
proof -
  note inv = gate.always [OF assms]
  let ?es = "filter (eligible g) (g_heap g)"
  show ?thesis
  proof (cases "g_active g < STARTUP_SLOTS")
    case False
    then show ?thesis by (simp add: next_eligible_result [OF inv])
  next
    case True
    have least: "py_min entry_key ?es = Some e \<longleftrightarrow> e \<in> set ?es \<and>
        {e' \<in> set (g_heap g). eligible g e' \<and> e' \<noteq> e \<and> entry_key e' \<le> entry_key e} = {}" for e
    proof
      assume m: "py_min entry_key ?es = Some e"
      then have e: "e \<in> set ?es" by (rule py_min_in)
      have "e' = e" if e': "e' \<in> set (g_heap g)" "eligible g e'" "entry_key e' \<le> entry_key e" for e'
      proof -
        have "entry_key e \<le> entry_key e'" using py_min_le [OF m] e' by simp
        then have "entry_key e' = entry_key e" using e'(3) by (rule antisym [rotated])
        then have "e_order e' = e_order e" by (simp add: entry_key_def)
        then show ?thesis using order_unique [OF inv] e e' by simp
      qed
      with e show "e \<in> set ?es \<and>
        {e' \<in> set (g_heap g). eligible g e' \<and> e' \<noteq> e \<and> entry_key e' \<le> entry_key e} = {}" by auto
    next
      assume e: "e \<in> set ?es \<and>
        {e' \<in> set (g_heap g). eligible g e' \<and> e' \<noteq> e \<and> entry_key e' \<le> entry_key e} = {}"
      then obtain b where b: "py_min entry_key ?es = Some b"
        using py_min_Some [of ?es entry_key] by (metis empty_iff list.set(1))
      have "b \<in> set ?es" "entry_key b \<le> entry_key e"
        using py_min_in [OF b] py_min_le [OF b] e by blast+
      with e have "b = e" by auto
      with b show "py_min entry_key ?es = Some e" by simp
    qed
    have "next_eligible g = Some (Some tok) \<longleftrightarrow> (\<exists>e. py_min entry_key ?es = Some e \<and> e_token e = tok)"
      using True by (auto simp: next_eligible_result [OF inv])
    then show ?thesis unfolding least using True by auto
  qed
qed

theorem next_eligible_exact_witness:
  "next_eligible sample_gate = Some (Some 1) \<and>
   (\<exists>e \<in> set (g_heap sample_gate). e_token e = 1 \<and> eligible sample_gate e)"
proof
  show "next_eligible sample_gate = Some (Some 1)" by code_simp
  then show "\<exists>e \<in> set (g_heap sample_gate). e_token e = 1 \<and> eligible sample_gate e"
    using next_eligible_exact [OF sample_gate_reachable, of 1] by blast
qed

section \<open>Who may end a request\<close>

lemma map_of_pairs: "map_of (map (\<lambda>(j, r). (j, f j r)) rs) k = map_option (f k) (map_of rs k)"
  by (induction rs) auto

lemma map_of_change:
  "map_of (g_requests (change_request job f g)) j =
     map_option (if j = job then f else id) (map_of (g_requests g) j)"
  unfolding change_request_requests by (rule map_of_pairs)

lemma map_of_filter_job: "j \<noteq> job \<Longrightarrow> map_of (filter (\<lambda>(j, _). j \<noteq> job) rs) j = map_of rs j"
  by (induction rs) auto

lemma bump_epoch_requests [simp]: "g_requests (bump_epoch g) = g_requests g"
  by (simp add: bump_epoch_def)

text \<open>The request a job holds, as the dictionary has it.\<close>

definition request_of :: "gate \<Rightarrow> string \<rightharpoonup> request" where
  "request_of g job = map_of (g_requests g) job"

definition held_by :: "nat \<Rightarrow> request \<Rightarrow> request option \<Rightarrow> bool" where
  "held_by o' r found \<longleftrightarrow>
     (case found of None \<Rightarrow> False
      | Some r' \<Rightarrow> r_owner r' = Some o' \<and> r_token r' = r_token r \<and> r_order r' = r_order r)"

lemma held_by_self [simp]: "r_owner r = Some o' \<Longrightarrow> held_by o' r (Some r)"
  by (simp add: held_by_def)

lemma held_by_change:
  "r_owner (f r) = r_owner r \<Longrightarrow> r_token (f r) = r_token r \<Longrightarrow> r_order (f r) = r_order r \<Longrightarrow>
     map_of (g_requests g) job = Some r \<Longrightarrow> r_owner r = Some o' \<Longrightarrow>
     held_by o' r (map_of (g_requests (change_request job' f g)) job)"
  by (simp add: map_of_change held_by_def)

lemma apply_updates_owner: "r_owner (fold apply_update us r) = r_owner r"
proof (induction us arbitrary: r)
  case (Cons u us)
  have "r_owner (apply_update u r) = r_owner r" by (simp add: apply_update_def)
  with Cons show ?case by simp
qed simp

lemma apply_updates_ident:
  "r_token (fold apply_update us r) = r_token r \<and> r_order (fold apply_update us r) = r_order r"
  using fold_keeps [of us apply_update] apply_update_keeps by (simp add: keeps_ident_def)

lemma refresh_commit_requests:
  assumes inv: "gate_inv g" and p: "g_refreshing g = Some (epoch, snaps)"
    and r: "map_of (g_requests g) job = Some r"
    and kept: "\<And>u. u \<in> set (map (policy_update_of policy) snaps) \<Longrightarrow> \<not> retires u r"
  shows "map_of (g_requests (refresh_commit now provider policy g)) job =
    Some (fold apply_update (map (policy_update_of policy) snaps) r)"
proof -
  define updates where "updates = map (policy_update_of policy) snaps"
  define retired where "retired = map (\<lambda>(_, r). r_token r)
    (filter (\<lambda>(_, r). \<exists>u \<in> set updates. retires u r) (g_requests g))"
  define rs where "rs = map (\<lambda>(j, r). (j, fold apply_update updates r)) (g_requests g)"
  let ?g = "refresh_commit now provider policy g"
  have g': "g_requests ?g = filter (\<lambda>(_, r). r_token r \<notin> set retired) rs"
    by (simp add: refresh_commit_def p Let_def updates_def retired_def rs_def)
  have mem: "(job, r) \<in> set (g_requests g)" using r by (rule map_of_SomeD)
  have "r_token r \<notin> set retired"
  proof
    assume "r_token r \<in> set retired"
    then obtain j r' u where "(j, r') \<in> set (g_requests g)" "r_token r' = r_token r"
        "u \<in> set updates" "retires u r'"
      unfolding retired_def by auto
    with token_unique [OF inv this(1) mem] kept show False unfolding updates_def by auto
  qed
  then have "(job, fold apply_update updates r) \<in> set (g_requests ?g)"
    using mem apply_updates_ident unfolding g' rs_def by force
  moreover have "gate_inv ?g" by (rule refresh_commit_inv [OF inv])
  ultimately show ?thesis using request_found unfolding updates_def by blast
qed

text \<open>
  C16: once a runner has claimed a job's request it stays that runner's, with its token and its
  place in line, through every operation of every thread but the runner's own \<open>finish_request\<close>:
  no duplicate start can claim, end or replace it, and no refresh retires it.
\<close>

theorem claimed_request_survives:
  assumes "gate_reachable g" and "request_of g job = Some r" and "r_owner r = Some o'"
    and "legal_event e" and "e \<noteq> Finish job (Some o')"
  shows "held_by o' r (request_of (gate_apply e g) job) \<and>
    fst (claim_request job (gate_apply e g)) = None"
proof -
  note inv = gate.always [OF assms(1)]
  note r = assms(2)[unfolded request_of_def]
  have held: "held_by o' r (map_of (g_requests (gate_apply e g)) job)"
  proof (cases e)
    case (Register j c p k)
    then show ?thesis using r assms(3)
      by (cases "map_of (g_requests g) j")
        (auto simp: register_request_def Let_def map_add_def)
  next
    case (Claim j)
    then show ?thesis using r assms(3)
      by (cases "j = job") (auto simp: claim_request_def map_of_change split: option.split)
  next
    case (Finish j owner)
    then show ?thesis using r assms(3,5)
      by (cases "j = job") (auto simp: finish_request_def map_of_filter_job split: option.split)
  next
    case (Complete_Preflight j)
    then show ?thesis using r assms(3) by (simp add: complete_preflight_def held_by_change)
  next
    case (Defer_Preflight j)
    then show ?thesis using r assms(3) by (simp add: defer_preflight_def held_by_change)
  next
    case (Reprioritize j p)
    then show ?thesis using r assms(3)
      by (auto simp: reprioritize_def held_by_change split: option.split)
  next
    case (Refresh_Begin now)
    then show ?thesis using r assms(3) by (simp add: refresh_begin_def)
  next
    case (Refresh_Commit now provider policy)
    show ?thesis
    proof (cases "g_refreshing g")
      case None
      then show ?thesis using r assms(3) Refresh_Commit by (simp add: refresh_commit_def)
    next
      case (Some es)
      then obtain epoch snaps where p: "g_refreshing g = Some (epoch, snaps)" by (cases es) auto
      have "\<not> retires u r" for u using assms(3) by (simp add: retires_def)
      from refresh_commit_requests [OF inv p r this] show ?thesis
        using Refresh_Commit assms(3)
        by (simp add: held_by_def apply_updates_owner apply_updates_ident)
    qed
  next
    case (Enqueue i p k)
    then show ?thesis using r assms(3) by (simp add: enqueue_def split: option.split)
  next
    case (Try_Admit t b k l)
    then show ?thesis using r assms(3) by (simp add: try_admit_def Let_def split: option.split)
  qed (use r assms(3) in \<open>simp_all add: leave_def release_def\<close>)
  then have "fst (claim_request job (gate_apply e g)) = None"
    by (auto simp: claim_request_def held_by_def split: option.splits)
  with held show ?thesis by (simp add: request_of_def)
qed

definition claimed_gate :: gate where
  "claimed_gate = fold gate_apply [Claim ''b2'', Refresh_Begin 1] sample_gate"

lemma claimed_gate_reachable: "gate_reachable claimed_gate"
  unfolding claimed_gate_def by (rule reachable_steps [OF sample_gate_reachable]) simp

theorem claimed_request_survives_witness:
  "map_option r_owner (request_of claimed_gate ''b2'') = Some (Some 3) \<and>
   fst (claim_request ''b2'' (gate_apply (Refresh_Commit 1 None (\<lambda>_ _. Policy_None)) claimed_gate)) = None"
proof
  show owner: "map_option r_owner (request_of claimed_gate ''b2'') = Some (Some 3)" by code_simp
  then obtain r where r: "request_of claimed_gate ''b2'' = Some r" "r_owner r = Some 3" by auto
  show "fst (claim_request ''b2'' (gate_apply (Refresh_Commit 1 None (\<lambda>_ _. Policy_None)) claimed_gate)) = None"
    using claimed_request_survives [OF claimed_gate_reachable r, of "Refresh_Commit 1 None (\<lambda>_ _. Policy_None)"]
    by simp
qed

section \<open>A change made during a refresh\<close>

lemma fold_same: "(\<And>u. u \<in> set us \<Longrightarrow> f u x = x) \<Longrightarrow> fold f us x = x"
  by (induction us) simp_all

lemma refreshed_priority:
  assumes inv: "gate_inv g" and p: "g_refreshing g = Some (epoch, snaps)"
    and r: "map_of (g_requests g) job = Some r"
    and e: "e \<in> set (g_heap (refresh_commit now provider policy g))" "e_token e = r_token r"
  shows "e_priority e = r_priority (fold apply_update (map (policy_update_of policy) snaps) r)"
proof -
  let ?us = "map (policy_update_of policy) snaps"
  let ?rs = "map (\<lambda>(j, r). (j, fold apply_update ?us r)) (g_requests g)"
  from e(1) obtain e0 where e0: "e = current_priority ?rs e0"
    by (auto simp: refresh_commit_def p Let_def)
  with e(2) have tok: "e_token e0 = r_token r" by simp
  let ?P = "\<lambda>(_ :: string, r). r_token r = e_token e0"
  have "(job, fold apply_update ?us r) \<in> set ?rs" using map_of_SomeD [OF r] by force
  moreover have "?P (job, fold apply_update ?us r)" by (simp add: tok apply_updates_ident)
  ultimately have "find ?P ?rs \<noteq> None" unfolding find_None_iff by blast
  then obtain j r2 where found: "find ?P ?rs = Some (j, r2)" by auto
  then have "(j, r2) \<in> set ?rs" "?P (j, r2)" unfolding find_Some_iff by (metis nth_mem)+
  then have "(j, r2) \<in> set ?rs" "r_token r2 = r_token r" by (simp_all add: tok)
  then obtain r0 where r0: "(j, r0) \<in> set (g_requests g)" "r2 = fold apply_update ?us r0" by auto
  with \<open>r_token r2 = r_token r\<close> have "r_token r0 = r_token r" using apply_updates_ident by metis
  with token_unique [OF inv r0(1) map_of_SomeD [OF r]] have "r0 = r" by simp
  then show ?thesis using e0 found r0(2) by (simp add: current_priority_def)
qed

text \<open>
  C17: \<open>reprioritize\<close> moves a waiting job at once, and a refresh that took its snapshot before
  and commits after, whatever the job's policy answered in between, puts back neither the old
  priority nor another readiness, and does not drop the request.
\<close>

theorem reprioritize_outlasts_refresh:
  assumes "gate_reachable g" and "request_of g job = Some r"
  shows "\<exists>r'. request_of (refresh_commit now provider policy (reprioritize job priority g)) job = Some r' \<and>
    r_priority r' = priority \<and> r_ready r' = r_ready r \<and> r_token r' = r_token r \<and>
    {e \<in> set (g_heap (refresh_commit now provider policy (reprioritize job priority g))).
       e_token e = r_token r \<and> e_priority e \<noteq> priority} = {}"
proof -
  note inv = gate.always [OF assms(1)]
  note r = assms(2)[unfolded request_of_def]
  let ?g = "reprioritize job priority g"
  let ?r = "r\<lparr>r_priority := priority, r_revision := r_revision r + 1\<rparr>"
  have inv': "gate_inv ?g" by (rule reprioritize_inv [OF inv])
  have r': "map_of (g_requests ?g) job = Some ?r"
    using r by (simp add: reprioritize_def map_of_change)
  have heap: "e_priority e = priority" if "e \<in> set (g_heap ?g)" "e_token e = r_token r" for e
    using that r by (auto simp: reprioritize_def bump_epoch_def split: if_splits)
  show ?thesis
  proof (cases "g_refreshing ?g")
    case None
    then show ?thesis using r' heap by (auto simp: refresh_commit_def request_of_def)
  next
    case (Some es)
    then obtain epoch snaps where p: "g_refreshing ?g = Some (epoch, snaps)" by (cases es) auto
    have old: "g_refreshing g = Some (epoch, snaps)"
      using p r by (simp add: reprioritize_def bump_epoch_def change_request_def)
    let ?us = "map (policy_update_of policy) snaps"
    have stale: "u_token u = r_token r \<Longrightarrow> u_revision u \<le> r_revision r" if "u \<in> set ?us" for u
    proof -
      assume t: "u_token u = r_token r"
      from that obtain s where s: "s \<in> set snaps" "u = policy_update_of policy s" by auto
      then have "r_token (fst s) = r_token r" "u_revision u = snd s"
        using t by (simp_all add: policy_update_of_def Let_def)
      then show ?thesis
        using snaps_behindD(2) [OF gate_invD(4) [OF inv] old, of "fst s" "snd s" job r] s(1)
          map_of_SomeD [OF r] by simp
    qed
    then have none: "\<not> retires u ?r" if "u \<in> set ?us" for u
      using that by (force simp: retires_def)
    have "apply_update u ?r = ?r" if "u \<in> set ?us" for u
      using stale [OF that] by (auto simp: apply_update_def)
    then have same: "fold apply_update ?us ?r = ?r"
      by (rule fold_same)
    have found: "map_of (g_requests (refresh_commit now provider policy ?g)) job = Some ?r"
      using refresh_commit_requests [OF inv' p r', where policy = policy] none unfolding same by blast
    have "e_priority e = priority"
      if "e \<in> set (g_heap (refresh_commit now provider policy ?g))" "e_token e = r_token r" for e
      using refreshed_priority [OF inv' p r' that(1), unfolded same] that(2) by simp
    then show ?thesis using found by (auto simp: request_of_def)
  qed
qed

theorem reprioritize_outlasts_refresh_witness:
  "\<exists>r'. request_of (refresh_commit 1 None (\<lambda>_ _. Policy 5 True)
      (reprioritize ''b2'' 9 claimed_gate)) ''b2'' = Some r' \<and> r_priority r' = 9"
proof -
  have "request_of claimed_gate ''b2'' \<noteq> None" by code_simp
  then obtain r where "request_of claimed_gate ''b2'' = Some r" by auto
  from reprioritize_outlasts_refresh [OF claimed_gate_reachable this] show ?thesis by blast
qed

section \<open>First in, first out\<close>

lemma read_nat_from: "foldl (\<lambda>n c. 10 * n + digit_value c) n s = n * 10 ^ length s + read_nat s"
proof (induction s arbitrary: n)
  case (Cons c s)
  have "read_nat (c # s) = digit_value c * 10 ^ length s + read_nat s"
    using Cons [of "digit_value c"] by (simp add: read_nat_def)
  then show ?case using Cons [of "10 * n + digit_value c"] by (simp add: algebra_simps)
qed (simp add: read_nat_def)

lemma read_nat_Cons: "read_nat (c # s) = digit_value c * 10 ^ length s + read_nat s"
  using read_nat_from [of "digit_value c" s] by (simp add: read_nat_def)

lemma read_nat_bound: "list_all is_digit s \<Longrightarrow> read_nat s < 10 ^ length s"
proof (induction s)
  case (Cons c s)
  then have "is_digit c" "read_nat s < 10 ^ length s" by simp_all
  then have "digit_value c \<le> 9" unfolding is_digit_def digit_value_def by linarith
  note * = this \<open>read_nat s < 10 ^ length s\<close>
  then have "digit_value c * 10 ^ length s + read_nat s < 9 * 10 ^ length s + 10 ^ length s"
    using * by (intro add_le_less_mono mult_le_mono1)
  then show ?case by (simp add: read_nat_Cons)
qed (simp add: read_nat_def)

lemma digit_value_less: "is_digit a \<Longrightarrow> is_digit b \<Longrightarrow> digit_value a < digit_value b \<Longrightarrow> a < b"
  by (simp add: is_digit_def digit_value_def less_char_def)

lemma digit_value_eq: "is_digit a \<Longrightarrow> is_digit b \<Longrightarrow> digit_value a = digit_value b \<Longrightarrow> a = b"
proof -
  assume "is_digit a" "is_digit b" "digit_value a = digit_value b"
  then have "(of_char a :: nat) = of_char b" unfolding is_digit_def digit_value_def by linarith
  then show "a = b" by simp
qed

lemma numerals_less:
  "length s = length t \<Longrightarrow> list_all is_digit s \<Longrightarrow> list_all is_digit t \<Longrightarrow> read_nat s < read_nat t \<Longrightarrow> s < t"
proof (induction s t rule: list_induct2)
  case (Cons a s b t)
  then have digits: "is_digit a" "is_digit b" "list_all is_digit s" "list_all is_digit t" by simp_all
  have less: "digit_value a * 10 ^ length s + read_nat s < digit_value b * 10 ^ length s + read_nat t"
    using Cons.prems(3) Cons.hyps by (simp add: read_nat_Cons)
  consider "digit_value a < digit_value b" | "digit_value a = digit_value b"
    | "digit_value b + 1 \<le> digit_value a" by linarith
  then show ?case
  proof cases
    case 1
    then show ?thesis using digit_value_less digits by simp
  next
    case 2
    with less Cons.IH digits have "s < t" by simp
    with 2 digit_value_eq digits show ?thesis by auto
  next
    case 3
    have "(digit_value b + 1) * 10 ^ length s \<le> digit_value a * 10 ^ length s"
      using 3 by (rule mult_le_mono1)
    moreover have "read_nat t < 10 ^ length s" using read_nat_bound [OF digits(4)] Cons.hyps by simp
    ultimately show ?thesis using less by (simp add: algebra_simps)
  qed
qed (simp add: read_nat_def)

lemma show_nat_length: "n < 10 ^ k \<Longrightarrow> 0 < k \<Longrightarrow> length (show_nat n) \<le> k"
proof (induction k arbitrary: n)
  case (Suc k)
  show ?case
  proof (cases "n < 10")
    case True
    then show ?thesis by (subst show_nat.simps) simp
  next
    case False
    with Suc.prems have "n div 10 < 10 ^ k" "0 < k"
      by (simp add: div_less_iff_less_mult mult.commute, cases k) simp_all
    with Suc.IH have "length (show_nat (n div 10)) \<le> k" by blast
    with False show ?thesis by (subst show_nat.simps) simp
  qed
qed simp

lemma pad20_length: "n < 10 ^ 20 \<Longrightarrow> length (pad20 n) = 20"
  using show_nat_length [of n 20] by (simp add: pad20_def)

lemma pad20_less: "m < n \<Longrightarrow> n < 10 ^ 20 \<Longrightarrow> pad20 m < pad20 n"
  by (rule numerals_less) (simp_all add: pad20_length pad20_digits, simp add: pad20_def read_nat_zeros)

lemma gate_apply_seq: "g_seq g \<le> g_seq (gate_apply e g)"
  by (cases e) (simp_all add: register_request_def claim_request_def finish_request_def
      complete_preflight_def defer_preflight_def reprioritize_def refresh_begin_def
      refresh_commit_def enqueue_def try_admit_def leave_def release_def bump_epoch_def
      change_request_def Let_def split: option.split prod.split)

lemma run_seq: "g_seq g \<le> g_seq (fold gate_apply es g)"
proof (induction es arbitrary: g)
  case (Cons e es)
  then show ?case using gate_apply_seq le_trans by (metis comp_apply fold_simps(2))
qed simp

text \<open>
  Two callers without a registered request and of one priority are served in the order they
  arrived, whatever happened between them (for the first 10^20 of them: the sequence number is
  compared as a twenty-digit text).
\<close>

theorem plain_waiters_fifo:
  assumes "g' = fold gate_apply es (snd (enqueue None priority kind g))" and "g_seq g' < 10 ^ 20"
  shows "entry_key (last (g_heap (snd (enqueue None priority kind g)))) <
    entry_key (last (g_heap (snd (enqueue None priority kind' g'))))"
proof -
  have "g_seq (snd (enqueue None priority kind g)) = g_seq g + 1" by (simp add: enqueue_def bump_epoch_def)
  then have "g_seq g < g_seq g'"
    using run_seq [of "snd (enqueue None priority kind g)" es] assms(1) by simp
  then have "pad20 (g_seq g) < pad20 (g_seq g')" using assms(2) by (rule pad20_less)
  then show ?thesis by (simp add: enqueue_def bump_epoch_def entry_key_def less_prod_simp)
qed

theorem plain_waiters_fifo_witness:
  "entry_key (last (g_heap (snd (enqueue None 2 None sample_gate)))) <
   entry_key (last (g_heap (snd (enqueue None 2 (Some ''previews'')
     (fold gate_apply [Release, Leave 2] (snd (enqueue None 2 None sample_gate)))))))"
proof (rule plain_waiters_fifo [OF refl])
  have "g_seq (fold gate_apply [Release, Leave 2] (snd (enqueue None 2 None sample_gate))) = 2"
    by code_simp
  then show "g_seq (fold gate_apply [Release, Leave 2] (snd (enqueue None 2 None sample_gate))) < 10 ^ 20"
    by simp
qed

end
