(* ===== verification/Rate_Limiter.thy ===== *)
theory Rate_Limiter
  imports Py_Values Speed State_Machine
begin

text \<open>
  Pacing of one online source (\<open>markers/sources/ratelimit.py\<close>).  Each critical section under
  \<open>_lock\<close> is one operation on the limiter; a thread inside \<open>_wait_for\<close> is a \<open>waiting\<close> record (its
  slot, its deadline and what it reserved).  Clock readings, the UTC day and the parser of HTTP
  dates are inputs.  A float is the rational it stands for: numbers read from headers are
  rounded to a double, sums of clock readings are not.
\<close>

section \<open>Numbers in headers\<close>

text \<open>\<open>digit (["_"] digit)*\<close> at the start of a text, and the rest.\<close>

fun digit_run :: "string \<Rightarrow> string \<times> string" where
  "digit_run [] = ([], [])"
| "digit_run [c] = (if is_digit c then ([c], []) else ([], [c]))"
| "digit_run (c # d # cs) =
     (if \<not> is_digit c then ([], c # d # cs)
      else if d = CHR ''_'' \<and> (case cs of e # _ \<Rightarrow> is_digit e | [] \<Rightarrow> False)
        then (let (a, b) = digit_run cs in (c # a, b))
      else (let (a, b) = digit_run (d # cs) in (c # a, b)))"

definition exponent_part :: "string \<Rightarrow> int option" where
  "exponent_part s =
     (case s of
        [] \<Rightarrow> Some 0
      | c # r \<Rightarrow>
          if c = CHR ''e'' \<or> c = CHR ''E'' then
            (let (neg, ds) = (case r of
                 x # y \<Rightarrow> if x = CHR ''-'' then (True, y) else if x = CHR ''+'' then (False, y) else (False, r)
               | [] \<Rightarrow> (False, r));
                 (run, left) = digit_run ds
             in if run = [] \<or> left \<noteq> [] then None
                else Some (if neg then - int (read_nat run) else int (read_nat run)))
          else None)"

definition decimal :: "string \<Rightarrow> rat option" where
  "decimal s =
     (let (whole, r) = digit_run s;
          (frac, left) = (case r of c # y \<Rightarrow> if c = CHR ''.'' then digit_run y else ([], r) | [] \<Rightarrow> ([], r))
      in if whole = [] \<and> frac = [] then None
         else case exponent_part left of
                None \<Rightarrow> None
              | Some e \<Rightarrow>
                  (let m = of_nat (read_nat (whole @ frac)) / 10 ^ length frac :: rat
                   in Some (if e \<ge> 0 then m * 10 ^ nat e else m / 10 ^ nat (- e))))"

text \<open>
  \<open>float(text)\<close>: \<open>None\<close> is the ValueError, \<open>Some None\<close> an infinity or a NaN.
\<close>

definition py_float :: "string \<Rightarrow> rat option option" where
  "py_float text =
     (let t = strip text;
          (neg, b) = (case t of
             x # y \<Rightarrow> if x = CHR ''-'' then (True, y) else if x = CHR ''+'' then (False, y) else (False, t)
           | [] \<Rightarrow> (False, t))
      in if lower b \<in> {''inf'', ''infinity'', ''nan''} then Some None
         else case decimal b of
                None \<Rightarrow> None
              | Some r \<Rightarrow>
                  (let v = fl r in
                   if v \<ge> 2 ^ 1024 then Some None else Some (Some (if neg then - v else v))))"

definition header_number :: "string option \<Rightarrow> rat option" where
  "header_number value =
     (case value of
        None \<Rightarrow> None
      | Some text \<Rightarrow> (case py_float text of Some (Some v) \<Rightarrow> Some v | _ \<Rightarrow> None))"

definition EPOCH_THRESHOLD_S :: rat where "EPOCH_THRESHOLD_S = 1000000000"

text \<open>\<open>http_date\<close> reads an HTTP date as Unix time, \<open>None\<close> where \<open>parsedate_to_datetime\<close> raises.\<close>

definition delay_s :: "(string \<Rightarrow> rat option) \<Rightarrow> string option \<Rightarrow> rat \<Rightarrow> rat option" where
  "delay_s http_date value wall_now =
     (case (case header_number value of
              Some n \<Rightarrow> Some n
            | None \<Rightarrow> (case value of None \<Rightarrow> None | Some text \<Rightarrow> if text = [] then None else http_date text))
      of None \<Rightarrow> None
       | Some n \<Rightarrow> Some (max 0 (if n \<ge> EPOCH_THRESHOLD_S then n - wall_now else n)))"

section \<open>The limiter\<close>

definition PRIORITY_LOW :: int where "PRIORITY_LOW = 3"
definition MAX_BLOCK_S :: rat where "MAX_BLOCK_S = 3600"
definition DEFAULT_429_S :: rat where "DEFAULT_429_S = 300"
definition MIN_RETRY_S :: rat where "MIN_RETRY_S = 1"
definition WAIT_POLL_S :: rat where "WAIT_POLL_S = 1 / 2"

datatype acquire_result = ALLOWED | BUDGET_EXHAUSTED | BLOCKED | CANCELLED

record limiter =
  l_min_interval_s :: rat
  l_reserve_fraction :: rat
  l_failure_threshold :: int
  l_circuit_open_s :: rat
  l_next_slot :: rat
  l_blocked_until :: rat
  l_failures :: int
  l_day :: string
  l_used :: int
  l_limit :: "int option"
  l_remaining :: "int option"
  l_remaining_gen :: nat
  l_usage_seq :: nat

definition new_limiter :: "rat \<Rightarrow> rat \<Rightarrow> int \<Rightarrow> rat \<Rightarrow> string \<Rightarrow> limiter" where
  "new_limiter interval reserve threshold circuit_open today =
     \<lparr>l_min_interval_s = interval, l_reserve_fraction = reserve, l_failure_threshold = threshold,
      l_circuit_open_s = circuit_open, l_next_slot = 0, l_blocked_until = 0, l_failures = 0,
      l_day = today, l_used = 0, l_limit = None, l_remaining = None, l_remaining_gen = 0,
      l_usage_seq = 0\<rparr>"

text \<open>\<open>get_limiter\<close>: the process-wide limiter of a source, before today's stored usage is seeded.\<close>

definition DEFAULT_RESERVE_FRACTION :: rat where "DEFAULT_RESERVE_FRACTION = fl (2 / 10)"

definition min_interval_of :: "string \<Rightarrow> rat" where
  "min_interval_of source_id =
     (if source_id = ''theintrodb'' then fl (fl (10 / 30) + fl (1 / 100))
      else if source_id = ''introdb'' \<or> source_id = ''skipdb'' then 1 / 2 else 1)"

definition source_limiter :: "string \<Rightarrow> string \<Rightarrow> limiter" where
  "source_limiter source_id today =
     new_limiter (min_interval_of source_id) DEFAULT_RESERVE_FRACTION 5 600 today"

definition low_priority_exhausted :: "int option \<Rightarrow> int option \<Rightarrow> rat \<Rightarrow> bool" where
  "low_priority_exhausted limit remaining reserve_fraction =
     (case remaining of
        None \<Rightarrow> False
      | Some left \<Rightarrow> left \<le> 0 \<or>
          (case limit of None \<Rightarrow> False | Some n \<Rightarrow> of_int left \<le> reserve_fraction * of_int n))"

definition replace_remaining :: "int option \<Rightarrow> limiter \<Rightarrow> limiter" where
  "replace_remaining value l =
     l\<lparr>l_remaining := value, l_remaining_gen := l_remaining_gen l + 1\<rparr>"

definition roll_day :: "string \<Rightarrow> limiter \<Rightarrow> limiter" where
  "roll_day today l =
     (if today \<noteq> l_day l then replace_remaining None (l\<lparr>l_day := today, l_used := 0\<rparr>) else l)"

text \<open>What a slot was reserved against: the day and the generation of the server's count.\<close>

type_synonym ticket = "string \<times> nat"

definition refund_slot :: "ticket \<Rightarrow> limiter \<Rightarrow> limiter" where
  "refund_slot ticket l =
     (let l1 = (if fst ticket = l_day l \<and> l_used l > 0 then l\<lparr>l_used := l_used l - 1\<rparr> else l)
      in case l_remaining l1 of
           Some left \<Rightarrow> if snd ticket = l_remaining_gen l1 then l1\<lparr>l_remaining := Some (left + 1)\<rparr> else l1
         | None \<Rightarrow> l1)"

record waiting =
  w_slot :: rat
  w_deadline :: rat
  w_ticket :: ticket

definition budget_refused :: "int \<Rightarrow> limiter \<Rightarrow> bool" where
  "budget_refused priority l =
     (case l_remaining l of
        None \<Rightarrow> False
      | Some left \<Rightarrow> left \<le> 0 \<or>
          (priority \<ge> PRIORITY_LOW \<and>
           (case l_limit l of None \<Rightarrow> False
            | Some n \<Rightarrow> of_int left \<le> l_reserve_fraction l * of_int n)))"

text \<open>\<open>acquire\<close> up to \<open>_wait_for\<close>: an answer at once, or a reserved slot to wait for.\<close>

definition reserve_slot ::
  "int \<Rightarrow> bool \<Rightarrow> rat \<Rightarrow> rat option \<Rightarrow> string \<Rightarrow> rat \<Rightarrow> limiter \<Rightarrow> (acquire_result + waiting) \<times> limiter" where
  "reserve_slot priority cancelled max_wait_s cap today now l0 =
     (if cancelled then (Inl CANCELLED, l0)
      else
        (let wait_s = (case cap of None \<Rightarrow> max_wait_s | Some c \<Rightarrow> min max_wait_s c);
             l = roll_day today l0;
             deadline = now + wait_s;
             slot = max now (max (l_next_slot l) (l_blocked_until l))
         in if budget_refused priority l
            then (Inl BUDGET_EXHAUSTED, l)
            else if slot > deadline then (Inl BLOCKED, l)
            else (let l1 = l\<lparr>l_next_slot := slot + l_min_interval_s l, l_used := l_used l + 1,
                             l_remaining := map_option (\<lambda>left. left - 1) (l_remaining l)\<rparr>
                  in (Inr \<lparr>w_slot = slot, w_deadline = deadline,
                           w_ticket = (l_day l1, l_remaining_gen l1)\<rparr>, l1))))"

text \<open>
  One turn of \<open>_wait_for\<close>: under the lock the slot moves behind a block that came up; then the
  thread is let go, gives up, or sleeps.  A cancelled thread takes the lock again to refund.
\<close>

definition wait_turn ::
  "rat \<Rightarrow> bool \<Rightarrow> waiting \<Rightarrow> limiter \<Rightarrow> (acquire_result + waiting) \<times> limiter" where
  "wait_turn now cancelled w l =
     (let moved = l_blocked_until l > w_slot w;
          slot = (if moved then max now (max (l_next_slot l) (l_blocked_until l)) else w_slot w)
      in if moved \<and> slot > w_deadline w then (Inl BLOCKED, refund_slot (w_ticket w) l)
         else (let l1 = (if moved then l\<lparr>l_next_slot := slot + l_min_interval_s l\<rparr> else l)
               in if slot - now \<le> 0 then (Inl ALLOWED, l1)
                  else if cancelled then (Inl CANCELLED, refund_slot (w_ticket w) l1)
                  else (Inr (w\<lparr>w_slot := slot\<rparr>), l1)))"

definition sleep_s :: "rat \<Rightarrow> waiting \<Rightarrow> rat" where
  "sleep_s now w = min (w_slot w - now) WAIT_POLL_S"

text \<open>\<open>refund()\<close>: the thread's last allowed slot, once.\<close>

definition refund :: "ticket option \<Rightarrow> limiter \<Rightarrow> ticket option \<times> limiter" where
  "refund held l = (case held of None \<Rightarrow> (None, l) | Some ticket \<Rightarrow> (None, refund_slot ticket l))"

section \<open>Responses\<close>

definition block_for :: "rat \<Rightarrow> rat \<Rightarrow> limiter \<Rightarrow> limiter" where
  "block_for now seconds l =
     l\<lparr>l_blocked_until := max (l_blocked_until l) (now + min seconds MAX_BLOCK_S)\<rparr>"

text \<open>\<open>int(x)\<close> of a float: towards zero.\<close>

definition truncate :: "rat \<Rightarrow> int" where
  "truncate r = (if r < 0 then \<lceil>r\<rceil> else \<lfloor>r\<rfloor>)"

definition usage_headers :: "(string \<rightharpoonup> string) \<Rightarrow> limiter \<Rightarrow> limiter" where
  "usage_headers headers l =
     (let l1 = (case header_number (headers ''x-usagelimit-limit'') of
                  Some n \<Rightarrow> if n > 0 then l\<lparr>l_limit := Some (truncate n)\<rparr> else l
                | None \<Rightarrow> l)
      in case header_number (headers ''x-usagelimit-remaining'') of
           Some n \<Rightarrow> replace_remaining (Some (max 0 (truncate n))) l1
         | None \<Rightarrow> l1)"

definition rate_window_block :: "rat option \<Rightarrow> rat option \<Rightarrow> rat \<Rightarrow> limiter \<Rightarrow> limiter" where
  "rate_window_block rate_remaining rate_reset now l =
     (case (rate_remaining, rate_reset) of
        (Some left, Some reset) \<Rightarrow> if left \<le> 0 \<and> reset \<noteq> 0 then block_for now reset l else l
      | _ \<Rightarrow> l)"

definition retry_block :: "int \<Rightarrow> rat option \<Rightarrow> rat option \<Rightarrow> rat \<Rightarrow> limiter \<Rightarrow> limiter" where
  "retry_block status retry_after rate_reset now l =
     (if status = 429 then
        (let wait = (case retry_after of
               Some s \<Rightarrow> s
             | None \<Rightarrow> (case rate_reset of Some r \<Rightarrow> if r \<noteq> 0 then r else DEFAULT_429_S
                       | None \<Rightarrow> DEFAULT_429_S))
         in block_for now (max wait MIN_RETRY_S) l)
      else if status \<ge> 500 then
        (case retry_after of Some s \<Rightarrow> block_for now (max s MIN_RETRY_S) l | None \<Rightarrow> l)
      else l)"

definition apply_headers ::
  "(string \<Rightarrow> rat option) \<Rightarrow> int \<Rightarrow> (string \<rightharpoonup> string) \<Rightarrow> rat \<Rightarrow> rat \<Rightarrow> limiter \<Rightarrow> limiter" where
  "apply_headers http_date status headers now wall_now l =
     (let rate_reset = delay_s http_date (headers ''x-ratelimit-reset'') wall_now
      in retry_block status (delay_s http_date (headers ''retry-after'') wall_now) rate_reset now
           (rate_window_block (header_number (headers ''x-ratelimit-remaining'')) rate_reset now
             (usage_headers headers l)))"

text \<open>The run of failures and the circuit: \<open>status = None\<close> is a network error.\<close>

definition count_failure :: "int option \<Rightarrow> rat \<Rightarrow> limiter \<Rightarrow> limiter" where
  "count_failure status now l =
     (if (case status of None \<Rightarrow> True | Some c \<Rightarrow> c \<ge> 500) then
        (let l1 = l\<lparr>l_failures := l_failures l + 1\<rparr>
         in if l_failures l1 \<ge> l_failure_threshold l1
            then l1\<lparr>l_blocked_until := max (l_blocked_until l1) (now + l_circuit_open_s l1),
                    l_failures := l_failure_threshold l1 - 1\<rparr>
            else l1)
      else l\<lparr>l_failures := 0\<rparr>)"

definition record_response ::
  "(string \<Rightarrow> rat option) \<Rightarrow> int option \<Rightarrow> (string \<rightharpoonup> string) \<Rightarrow> string \<Rightarrow> rat \<Rightarrow> rat \<Rightarrow> limiter \<Rightarrow>
     limiter" where
  "record_response http_date status headers today now wall_now l =
     (let l1 = count_failure status now (roll_day today l);
          l2 = (case status of None \<Rightarrow> l1
                | Some c \<Rightarrow> apply_headers http_date c headers now wall_now l1)
      in l2\<lparr>l_usage_seq := l_usage_seq l2 + 1\<rparr>)"

text \<open>Whether \<open>record\<close> logs that the circuit opened.\<close>

definition circuit_opened :: "int option \<Rightarrow> string \<Rightarrow> rat \<Rightarrow> limiter \<Rightarrow> bool" where
  "circuit_opened status today now l \<longleftrightarrow>
     (let l1 = roll_day today l in
      (case status of None \<Rightarrow> True | Some c \<Rightarrow> c \<ge> 500) \<and>
      l_failures l1 + 1 \<ge> l_failure_threshold l1 \<and> l_blocked_until l1 \<le> now)"

section \<open>Usage\<close>

definition seed_usage ::
  "string \<Rightarrow> int option \<Rightarrow> int option \<Rightarrow> int option \<Rightarrow> string \<Rightarrow> limiter \<Rightarrow> limiter" where
  "seed_usage day used limit remaining today l0 =
     (let l = roll_day today l0 in
      if day \<noteq> l_day l \<or> l_used l \<noteq> 0 \<or> l_usage_seq l \<noteq> 0 then l
      else (let l1 = l\<lparr>l_used := max 0 (case used of None \<Rightarrow> 0 | Some n \<Rightarrow> n)\<rparr>;
                l2 = (case limit of
                        Some n \<Rightarrow> if n > 0 then l1\<lparr>l_limit := Some n\<rparr> else l1
                      | None \<Rightarrow> l1)
            in case remaining of
                 Some n \<Rightarrow> replace_remaining (Some (max 0 n)) l2
               | None \<Rightarrow> l2))"

record usage_view =
  v_day :: string
  v_used :: int
  v_limit :: "int option"
  v_remaining :: "int option"
  v_blocked_until_s :: rat
  v_low_priority_exhausted :: bool

definition usage :: "string \<Rightarrow> rat \<Rightarrow> limiter \<Rightarrow> usage_view \<times> limiter" where
  "usage today now l0 =
     (let l = roll_day today l0 in
      (\<lparr>v_day = l_day l, v_used = l_used l, v_limit = l_limit l, v_remaining = l_remaining l,
        v_blocked_until_s = max 0 (l_blocked_until l - now),
        v_low_priority_exhausted =
          low_priority_exhausted (l_limit l) (l_remaining l) (l_reserve_fraction l)\<rparr>, l))"

text \<open>
  \<open>_publish_usage\<close>: the newest snapshot handed on, by its sequence number, and what \<open>on_usage\<close> is
  called with.
\<close>

definition publish_usage :: "nat \<Rightarrow> 'a \<Rightarrow> nat \<Rightarrow> 'a option \<times> nat" where
  "publish_usage seq snapshot published =
     (if seq \<le> published then (None, published) else (Some snapshot, seq))"

end
