(* ===== verification/Rate_Claims.thy ===== *)
theory Rate_Claims
  imports Rate_Limiter Bytes
begin

text \<open>
  The limiter's properties, over any interleaving of the threads that share it: requests are
  spaced and never fall into a block, the counts stay sane, a slot that sends nothing costs
  nothing, the reserve is kept from backfill jobs, and the circuit opens when it should.
\<close>

section \<open>The threads that share a limiter\<close>

text \<open>
  \<open>p_waiting\<close> are the threads inside \<open>_wait_for\<close>; \<open>p_fired\<close> is the history of the slots whose
  threads were let go, kept only to state what holds of it.
\<close>

record pacing =
  p_limiter :: limiter
  p_waiting :: "waiting list"
  p_fired :: "rat list"

datatype pacing_event =
    Reserve int bool rat "rat option" string rat
  | Turn waiting rat bool
  | Respond "string \<Rightarrow> rat option" "int option" "string \<rightharpoonup> string" string rat rat
  | Refund "ticket option"
  | Seed string "int option" "int option" "int option" string
  | View string rat

text \<open>The slot a thread was let go with: where a block moved it to, or its own.\<close>

definition slot_now :: "rat \<Rightarrow> waiting \<Rightarrow> limiter \<Rightarrow> rat" where
  "slot_now now w l =
     (if l_blocked_until l > w_slot w then max now (max (l_next_slot l) (l_blocked_until l)) else w_slot w)"

fun pacing_run :: "pacing_event \<Rightarrow> pacing \<Rightarrow> pacing" where
  "pacing_run (Reserve priority cancelled max_wait cap today now) p =
     (case reserve_slot priority cancelled max_wait cap today now (p_limiter p) of
        (Inl _, l) \<Rightarrow> p\<lparr>p_limiter := l\<rparr>
      | (Inr w, l) \<Rightarrow> p\<lparr>p_limiter := l, p_waiting := w # p_waiting p\<rparr>)"
| "pacing_run (Turn w now cancelled) p =
     (if w \<notin> set (p_waiting p) then p
      else case wait_turn now cancelled w (p_limiter p) of
             (Inl r, l) \<Rightarrow> p\<lparr>p_limiter := l, p_waiting := remove1 w (p_waiting p),
                 p_fired := (if r = ALLOWED then slot_now now w (p_limiter p) # p_fired p else p_fired p)\<rparr>
           | (Inr w', l) \<Rightarrow> p\<lparr>p_limiter := l, p_waiting := w' # remove1 w (p_waiting p)\<rparr>)"
| "pacing_run (Respond http_date status headers today now wall) p =
     p\<lparr>p_limiter := record_response http_date status headers today now wall (p_limiter p)\<rparr>"
| "pacing_run (Refund held) p = p\<lparr>p_limiter := snd (refund held (p_limiter p))\<rparr>"
| "pacing_run (Seed day used limit remaining today) p =
     p\<lparr>p_limiter := seed_usage day used limit remaining today (p_limiter p)\<rparr>"
| "pacing_run (View today now) p = p\<lparr>p_limiter := snd (usage today now (p_limiter p))\<rparr>"

definition new_pacing :: "limiter \<Rightarrow> pacing" where
  "new_pacing l = \<lparr>p_limiter = l, p_waiting = [], p_fired = []\<rparr>"

text \<open>Every slot given out and not given back: those still waited for and those used.\<close>

definition slots_of :: "pacing \<Rightarrow> rat multiset" where
  "slots_of p = mset (map w_slot (p_waiting p)) + mset (p_fired p)"

definition spaced :: "rat \<Rightarrow> rat multiset \<Rightarrow> bool" where
  "spaced d M \<longleftrightarrow> (\<forall>x y. {#x, y#} \<subseteq># M \<longrightarrow> d \<le> \<bar>x - y\<bar>)"

lemma spaced_empty [simp]: "spaced d {#}"
  by (simp add: spaced_def)

lemma spaced_subset: "spaced d M \<Longrightarrow> N \<subseteq># M \<Longrightarrow> spaced d N"
  unfolding spaced_def using subset_mset.order_trans by blast

lemma spaced_add:
  assumes "spaced d M" and new: "\<And>y. y \<in># M \<Longrightarrow> y + d \<le> x"
  shows "spaced d (add_mset x M)"
  unfolding spaced_def
proof (intro allI impI)
  fix a b assume sub: "{#a, b#} \<subseteq># add_mset x M"
  consider "x = a" | "x = b" | "x \<noteq> a" "x \<noteq> b" by blast
  then show "d \<le> \<bar>a - b\<bar>"
  proof cases
    case 1
    with sub have "b \<in># M" by simp
    with 1 new [of b] show ?thesis by linarith
  next
    case 2
    with sub have "a \<in># M" by (simp add: add_mset_commute [of a])
    with 2 new [of a] show ?thesis by linarith
  next
    case 3
    with sub have "{#a, b#} \<subseteq># M" by (auto simp: subseteq_mset_def split: if_splits)
    then show ?thesis using assms(1) by (simp add: spaced_def)
  qed
qed

section \<open>What the operations on the limiter keep\<close>

lemma roll_day_keeps [simp]:
  "l_next_slot (roll_day t l) = l_next_slot l" "l_blocked_until (roll_day t l) = l_blocked_until l"
  "l_min_interval_s (roll_day t l) = l_min_interval_s l" "l_failures (roll_day t l) = l_failures l"
  "l_failure_threshold (roll_day t l) = l_failure_threshold l"
  "l_circuit_open_s (roll_day t l) = l_circuit_open_s l"
  "l_reserve_fraction (roll_day t l) = l_reserve_fraction l"
  "l_limit (roll_day t l) = l_limit l" "l_usage_seq (roll_day t l) = l_usage_seq l"
  by (simp_all add: roll_day_def replace_remaining_def)

lemma refund_slot_keeps [simp]:
  "l_next_slot (refund_slot k l) = l_next_slot l" "l_blocked_until (refund_slot k l) = l_blocked_until l"
  "l_min_interval_s (refund_slot k l) = l_min_interval_s l"
  by (simp_all add: refund_slot_def Let_def split: option.split)

lemma usage_headers_keeps [simp]:
  "l_next_slot (usage_headers h l) = l_next_slot l" "l_blocked_until (usage_headers h l) = l_blocked_until l"
  "l_min_interval_s (usage_headers h l) = l_min_interval_s l"
  by (simp_all add: usage_headers_def replace_remaining_def Let_def split: option.split)

lemma block_for_keeps [simp]:
  "l_next_slot (block_for n s l) = l_next_slot l" "l_min_interval_s (block_for n s l) = l_min_interval_s l"
  "l_used (block_for n s l) = l_used l" "l_remaining (block_for n s l) = l_remaining l"
  "l_blocked_until l \<le> l_blocked_until (block_for n s l)"
  by (simp_all add: block_for_def)

lemma rate_window_keeps [simp]:
  "l_next_slot (rate_window_block a b n l) = l_next_slot l"
  "l_min_interval_s (rate_window_block a b n l) = l_min_interval_s l"
  "l_used (rate_window_block a b n l) = l_used l" "l_remaining (rate_window_block a b n l) = l_remaining l"
  by (simp_all add: rate_window_block_def split: option.split)

lemma retry_block_keeps [simp]:
  "l_next_slot (retry_block c a b n l) = l_next_slot l"
  "l_min_interval_s (retry_block c a b n l) = l_min_interval_s l"
  "l_used (retry_block c a b n l) = l_used l" "l_remaining (retry_block c a b n l) = l_remaining l"
  by (simp_all add: retry_block_def Let_def split: option.split)

lemma apply_headers_keeps [simp]:
  "l_next_slot (apply_headers f c h n w l) = l_next_slot l"
  "l_min_interval_s (apply_headers f c h n w l) = l_min_interval_s l"
  by (simp_all add: apply_headers_def Let_def)

lemma count_failure_keeps [simp]:
  "l_next_slot (count_failure c n l) = l_next_slot l"
  "l_min_interval_s (count_failure c n l) = l_min_interval_s l"
  "l_used (count_failure c n l) = l_used l" "l_remaining (count_failure c n l) = l_remaining l"
  by (simp_all add: count_failure_def Let_def)

lemma record_response_keeps [simp]:
  "l_next_slot (record_response f c h t n w l) = l_next_slot l"
  "l_min_interval_s (record_response f c h t n w l) = l_min_interval_s l"
  by (simp_all add: record_response_def Let_def split: option.split)

lemma seed_usage_keeps [simp]:
  "l_next_slot (seed_usage d u m r t l) = l_next_slot l"
  "l_min_interval_s (seed_usage d u m r t l) = l_min_interval_s l"
  "l_blocked_until (seed_usage d u m r t l) = l_blocked_until l"
  by (simp_all add: seed_usage_def replace_remaining_def Let_def split: option.split)

section \<open>The invariant\<close>

text \<open>Counts never fall below zero, and every slot given out ends before the next free one.\<close>

definition counts_sane :: "limiter \<Rightarrow> bool" where
  "counts_sane l \<longleftrightarrow> 0 \<le> l_used l \<and> (case l_remaining l of None \<Rightarrow> True | Some n \<Rightarrow> 0 \<le> n)"

definition pacing_inv :: "rat \<Rightarrow> pacing \<Rightarrow> bool" where
  "pacing_inv d p \<longleftrightarrow>
     l_min_interval_s (p_limiter p) = d \<and> spaced d (slots_of p) \<and>
     (\<forall>s \<in># slots_of p. s + d \<le> l_next_slot (p_limiter p)) \<and> counts_sane (p_limiter p)"

lemma counts_sane_roll [simp]: "counts_sane l \<Longrightarrow> counts_sane (roll_day t l)"
  by (simp add: counts_sane_def roll_day_def replace_remaining_def)

lemma counts_sane_refund [simp]: "counts_sane l \<Longrightarrow> counts_sane (refund_slot k l)"
  by (auto simp: counts_sane_def refund_slot_def Let_def split: option.splits)

lemma counts_sane_usage_headers [simp]: "counts_sane l \<Longrightarrow> counts_sane (usage_headers h l)"
  by (auto simp: counts_sane_def usage_headers_def replace_remaining_def Let_def split: option.splits)

lemma counts_sane_block [simp]: "counts_sane (block_for n s l) = counts_sane l"
  by (simp add: counts_sane_def)

lemma counts_sane_count_failure [simp]: "counts_sane (count_failure c n l) = counts_sane l"
  by (simp add: counts_sane_def)

lemma counts_sane_apply_headers [simp]: "counts_sane l \<Longrightarrow> counts_sane (apply_headers f c h n w l)"
  using counts_sane_usage_headers [of l h] by (simp add: apply_headers_def Let_def counts_sane_def)

lemma counts_sane_seq [simp]: "counts_sane (l\<lparr>l_usage_seq := k\<rparr>) = counts_sane l"
  "counts_sane (l\<lparr>l_next_slot := s\<rparr>) = counts_sane l"
  by (simp_all add: counts_sane_def)

lemma counts_sane_record [simp]: "counts_sane l \<Longrightarrow> counts_sane (record_response f c h t n w l)"
  by (simp add: record_response_def Let_def split: option.split)

lemma counts_sane_seed [simp]: "counts_sane l \<Longrightarrow> counts_sane (seed_usage d u m r t l)"
  using counts_sane_roll [of l t]
  by (auto simp: seed_usage_def counts_sane_def replace_remaining_def Let_def split: option.splits)

text \<open>\<open>reserve_slot\<close> and \<open>wait_turn\<close>, case by case.\<close>

lemma reserve_slot_cases:
  assumes "reserve_slot priority cancelled mw cap today now l = (r, l')"
  obtains (no) e where "r = Inl e" "l' = l \<or> l' = roll_day today l"
  | (slot) w where "r = Inr w"
      "w_slot w = max now (max (l_next_slot l) (l_blocked_until l))"
      "w_ticket w = (l_day (roll_day today l), l_remaining_gen (roll_day today l))"
      "l' = (roll_day today l)\<lparr>l_next_slot := w_slot w + l_min_interval_s l,
               l_used := l_used (roll_day today l) + 1,
               l_remaining := map_option (\<lambda>left. left - 1) (l_remaining (roll_day today l))\<rparr>"
      "case l_remaining (roll_day today l) of None \<Rightarrow> True | Some left \<Rightarrow> 0 < left"
proof (cases r)
  case (Inl e)
  with assms show ?thesis
    by (intro no) (auto simp: reserve_slot_def Let_def split: if_splits)
next
  case (Inr w)
  then have c: "\<not> cancelled" using assms by (auto simp: reserve_slot_def)
  let ?l = "roll_day today l"
  from assms Inr have b: "\<not> budget_refused priority ?l" unfolding reserve_slot_def Let_def
    by (cases "budget_refused priority ?l") (simp_all add: c)
  then have left: "case l_remaining ?l of None \<Rightarrow> True | Some left \<Rightarrow> 0 < left"
    by (auto simp: budget_refused_def split: option.splits)
  show ?thesis
    using assms Inr left unfolding reserve_slot_def Let_def if_not_P [OF c] if_not_P [OF b]
    by (intro slot [of w]) (simp_all split: if_split_asm, auto)
qed

lemma wait_turn_cases:
  assumes "wait_turn now cancelled w l = (r, l')"
  obtains (blocked) "r = Inl BLOCKED" "l' = refund_slot (w_ticket w) l"
  | (allowed) "r = Inl ALLOWED" "slot_now now w l \<le> now" "l_blocked_until l \<le> slot_now now w l"
      "l' = l \<and> slot_now now w l = w_slot w \<or>
       l' = l\<lparr>l_next_slot := slot_now now w l + l_min_interval_s l\<rparr> \<and> l_next_slot l \<le> slot_now now w l"
  | (cancelled) "r = Inl CANCELLED" "l' = refund_slot (w_ticket w) l \<or>
       l' = refund_slot (w_ticket w) (l\<lparr>l_next_slot := slot_now now w l + l_min_interval_s l\<rparr>) \<and>
         l_next_slot l \<le> slot_now now w l"
  | (waits) "r = Inr (w\<lparr>w_slot := slot_now now w l\<rparr>)"
      "l' = l \<and> slot_now now w l = w_slot w \<or>
       l' = l\<lparr>l_next_slot := slot_now now w l + l_min_interval_s l\<rparr> \<and> l_next_slot l \<le> slot_now now w l"
proof (cases "l_blocked_until l > w_slot w")
  case True
  define s where "s = slot_now now w l"
  have slot: "s = max now (max (l_next_slot l) (l_blocked_until l))" using True by (simp add: s_def slot_now_def)
  let ?l = "l\<lparr>l_next_slot := s + l_min_interval_s l\<rparr>"
  have turn: "wait_turn now cancelled w l =
      (if w_deadline w < s then (Inl BLOCKED, refund_slot (w_ticket w) l)
       else if s \<le> now then (Inl ALLOWED, ?l)
       else if cancelled then (Inl CANCELLED, refund_slot (w_ticket w) ?l)
       else (Inr (w\<lparr>w_slot := s\<rparr>), ?l))"
    unfolding wait_turn_def Let_def slot using True by simp
  have behind: "l_next_slot l \<le> s" "l_blocked_until l \<le> s" by (simp_all add: slot)
  show ?thesis
    using assms behind unfolding turn
    by (auto split: if_split_asm intro: blocked allowed cancelled waits simp flip: s_def)
next
  case False
  then have s: "slot_now now w l = w_slot w" by (simp add: slot_now_def)
  have turn: "wait_turn now cancelled w l =
      (if w_slot w \<le> now then (Inl ALLOWED, l)
       else if cancelled then (Inl CANCELLED, refund_slot (w_ticket w) l)
       else (Inr (w\<lparr>w_slot := w_slot w\<rparr>), l))"
    unfolding wait_turn_def Let_def using False by simp
  show ?thesis
  proof (cases "w_slot w \<le> now")
    case True
    then have "r = Inl ALLOWED" "l' = l" using assms unfolding turn by simp_all
    then show ?thesis using True False by (intro allowed) (simp_all add: s)
  next
    case late: False
    show ?thesis
    proof (cases cancelled)
      case True
      then show ?thesis using assms late unfolding turn by (intro cancelled) simp_all
    next
      case False
      then have "r = Inr (w\<lparr>w_slot := w_slot w\<rparr>)" "l' = l" using assms late unfolding turn by simp_all
      then show ?thesis by (intro waits) (simp_all add: s)
    qed
  qed
qed

lemma pacing_inv_limiter:
  assumes "pacing_inv d p" and "l_min_interval_s l = l_min_interval_s (p_limiter p)"
    and "l_next_slot l = l_next_slot (p_limiter p)" and "counts_sane l"
  shows "pacing_inv d (p\<lparr>p_limiter := l\<rparr>)"
  using assms by (simp add: pacing_inv_def slots_of_def)

lemma slots_without:
  "w \<in> set (p_waiting p) \<Longrightarrow>
     slots_of p = add_mset (w_slot w) (mset (map w_slot (remove1 w (p_waiting p))) + mset (p_fired p))"
proof -
  assume "w \<in> set (p_waiting p)"
  then have "mset (p_waiting p) = add_mset w (mset (remove1 w (p_waiting p)))" by simp
  then show ?thesis unfolding slots_of_def mset_map by (metis image_mset_add_mset union_mset_add_mset_left)
qed

text \<open>A thread's slot replaced by a later one, or dropped.\<close>

lemma pacing_inv_moved:
  assumes inv: "pacing_inv d p" and w: "w \<in> set (p_waiting p)"
    and l: "l_min_interval_s l = d" "counts_sane l"
    and slot: "l_next_slot l = l_next_slot (p_limiter p) \<and> s = w_slot w \<or>
      l_next_slot l = s + d \<and> l_next_slot (p_limiter p) \<le> s" and d: "0 \<le> d"
    and slots: "slots_of p' = add_mset s (mset (map w_slot (remove1 w (p_waiting p))) + mset (p_fired p))"
    and p': "p_limiter p' = l"
  shows "pacing_inv d p'"
proof -
  let ?rest = "mset (map w_slot (remove1 w (p_waiting p))) + mset (p_fired p)"
  note old = slots_without [OF w]
  have rest: "spaced d ?rest" using inv unfolding pacing_inv_def old by (auto intro: spaced_subset)
  have below: "y + d \<le> l_next_slot (p_limiter p)" if "y \<in># ?rest" for y
    using inv that unfolding pacing_inv_def old by auto
  from slot show ?thesis
  proof
    assume "l_next_slot l = l_next_slot (p_limiter p) \<and> s = w_slot w"
    then show ?thesis using inv l unfolding pacing_inv_def slots p' old by simp
  next
    assume s: "l_next_slot l = s + d \<and> l_next_slot (p_limiter p) \<le> s"
    then have "y + d \<le> s" if "y \<in># ?rest" for y using below [OF that] by linarith
    then have "spaced d (add_mset s ?rest)" by (intro spaced_add [OF rest])
    moreover have "y + d \<le> l_next_slot l" if "y \<in># add_mset s ?rest" for y
      using that below [of y] s d by auto
    ultimately show ?thesis using l unfolding pacing_inv_def slots p' by blast
  qed
qed

lemma pacing_inv_dropped:
  assumes inv: "pacing_inv d p" and w: "w \<in> set (p_waiting p)"
    and l: "l_min_interval_s l = d" "counts_sane l" "l_next_slot (p_limiter p) \<le> l_next_slot l"
    and p': "p' = p\<lparr>p_limiter := l, p_waiting := remove1 w (p_waiting p)\<rparr>"
  shows "pacing_inv d p'"
proof -
  let ?rest = "mset (map w_slot (remove1 w (p_waiting p))) + mset (p_fired p)"
  note old = slots_without [OF w]
  have "slots_of p' = ?rest" by (simp add: slots_of_def p')
  moreover have "spaced d ?rest" using inv unfolding pacing_inv_def old by (auto intro: spaced_subset)
  moreover have "y + d \<le> l_next_slot l" if "y \<in># ?rest" for y
    using inv that l(3) unfolding pacing_inv_def old by (auto intro: order_trans)
  ultimately show ?thesis using l p' unfolding pacing_inv_def by auto
qed

lemma pacing_inv_reserve:
  assumes inv: "pacing_inv d p" and d: "0 \<le> d"
  shows "pacing_inv d (pacing_run (Reserve priority cancelled mw cap today now) p)"
proof -
  obtain r l where res: "reserve_slot priority cancelled mw cap today now (p_limiter p) = (r, l)"
    by (cases "reserve_slot priority cancelled mw cap today now (p_limiter p)")
  have counts: "counts_sane (p_limiter p)" using inv by (simp add: pacing_inv_def)
  show ?thesis
  proof (rule reserve_slot_cases [OF res])
    fix e assume *: "r = Inl e" "l = p_limiter p \<or> l = roll_day today (p_limiter p)"
    then have "pacing_inv d (p\<lparr>p_limiter := l\<rparr>)" using counts by (intro pacing_inv_limiter [OF inv]) auto
    then show ?thesis using * by (simp add: res)
  next
    fix w assume r: "r = Inr w"
      and slot: "w_slot w = max now (max (l_next_slot (p_limiter p)) (l_blocked_until (p_limiter p)))"
      and l: "l = (roll_day today (p_limiter p))\<lparr>l_next_slot := w_slot w + l_min_interval_s (p_limiter p),
           l_used := l_used (roll_day today (p_limiter p)) + 1,
           l_remaining := map_option (\<lambda>left. left - 1) (l_remaining (roll_day today (p_limiter p)))\<rparr>"
      and left: "case l_remaining (roll_day today (p_limiter p)) of None \<Rightarrow> True | Some left \<Rightarrow> 0 < left"
    let ?p = "p\<lparr>p_limiter := l, p_waiting := w # p_waiting p\<rparr>"
    have next_d: "l_min_interval_s (p_limiter p) = d" using inv by (simp add: pacing_inv_def)
    have "counts_sane l"
      using counts_sane_roll [OF counts, of today] left unfolding l counts_sane_def
      by (auto split: option.splits)
    moreover have slots: "slots_of ?p = add_mset (w_slot w) (slots_of p)" by (simp add: slots_of_def)
    have below: "y + d \<le> w_slot w" if "y \<in># slots_of p" for y
    proof -
      have "y + d \<le> l_next_slot (p_limiter p)" using inv that by (simp add: pacing_inv_def)
      then show ?thesis using slot by simp
    qed
    then have "spaced d (slots_of ?p)" unfolding slots
      using inv by (intro spaced_add) (simp_all add: pacing_inv_def)
    moreover have "y + d \<le> l_next_slot l" if "y \<in># slots_of ?p" for y
    proof -
      have "y = w_slot w \<or> y \<in># slots_of p" using that unfolding slots by auto
      then show ?thesis using below [of y] d by (auto simp: l next_d)
    qed
    ultimately have "pacing_inv d ?p" unfolding pacing_inv_def by (simp add: l next_d)
    then show ?thesis using r by (simp add: res)
  qed
qed

lemma pacing_inv_turn:
  assumes inv: "pacing_inv d p" and d: "0 \<le> d"
  shows "pacing_inv d (pacing_run (Turn w now cancelled) p)"
proof (cases "w \<in> set (p_waiting p)")
  case True
  obtain r l where res: "wait_turn now cancelled w (p_limiter p) = (r, l)"
    by (cases "wait_turn now cancelled w (p_limiter p)")
  have counts: "counts_sane (p_limiter p)" and same: "l_min_interval_s (p_limiter p) = d"
    using inv by (simp_all add: pacing_inv_def)
  show ?thesis
  proof (rule wait_turn_cases [OF res])
    assume *: "r = Inl BLOCKED" "l = refund_slot (w_ticket w) (p_limiter p)"
    show ?thesis
      by (rule pacing_inv_dropped [OF inv True, where l = l]) (use * counts same True in \<open>simp_all add: res\<close>)
  next
    assume *: "r = Inl ALLOWED" "l = p_limiter p \<and> slot_now now w (p_limiter p) = w_slot w \<or>
       l = (p_limiter p)\<lparr>l_next_slot := slot_now now w (p_limiter p) + l_min_interval_s (p_limiter p)\<rparr> \<and>
         l_next_slot (p_limiter p) \<le> slot_now now w (p_limiter p)"
    show ?thesis
      by (rule pacing_inv_moved [OF inv True, where l = l and s = "slot_now now w (p_limiter p)"])
        (use * counts same d True in \<open>auto simp: res slots_of_def\<close>)
  next
    assume *: "r = Inl CANCELLED" "l = refund_slot (w_ticket w) (p_limiter p) \<or>
       l = refund_slot (w_ticket w)
         ((p_limiter p)\<lparr>l_next_slot := slot_now now w (p_limiter p) + l_min_interval_s (p_limiter p)\<rparr>) \<and>
         l_next_slot (p_limiter p) \<le> slot_now now w (p_limiter p)"
    show ?thesis
      by (rule pacing_inv_dropped [OF inv True, where l = l]) (use * counts same d True in \<open>auto simp: res\<close>)
  next
    assume *: "r = Inr (w\<lparr>w_slot := slot_now now w (p_limiter p)\<rparr>)"
      "l = p_limiter p \<and> slot_now now w (p_limiter p) = w_slot w \<or>
       l = (p_limiter p)\<lparr>l_next_slot := slot_now now w (p_limiter p) + l_min_interval_s (p_limiter p)\<rparr> \<and>
         l_next_slot (p_limiter p) \<le> slot_now now w (p_limiter p)"
    show ?thesis
      by (rule pacing_inv_moved [OF inv True, where l = l and s = "slot_now now w (p_limiter p)"])
        (use * counts same d True in \<open>auto simp: res slots_of_def\<close>)
  qed
qed (simp add: inv)

lemma pacing_inv_run: "pacing_inv d p \<Longrightarrow> 0 \<le> d \<Longrightarrow> pacing_inv d (pacing_run e p)"
proof (cases e)
  case (Refund held)
  then show "pacing_inv d p \<Longrightarrow> ?thesis"
    by (cases held) (auto simp: refund_def pacing_inv_def slots_of_def)
next
  case (View today now)
  then show "pacing_inv d p \<Longrightarrow> ?thesis"
    by (simp add: usage_def Let_def pacing_inv_def slots_of_def)
next
  case (Respond f c h t n w)
  then show "pacing_inv d p \<Longrightarrow> ?thesis" by (simp add: pacing_inv_def slots_of_def)
next
  case (Seed a b c m t)
  then show "pacing_inv d p \<Longrightarrow> ?thesis" by (simp add: pacing_inv_def slots_of_def)
qed (simp_all add: pacing_inv_reserve pacing_inv_turn del: pacing_run.simps)

lemma new_pacing_inv: "pacing_inv d (new_pacing (new_limiter d reserve threshold open_s today))"
  by (simp add: pacing_inv_def new_pacing_def slots_of_def counts_sane_def new_limiter_def)

lemma round_half_even_nonneg: "0 \<le> x \<Longrightarrow> 0 \<le> round_half_even x"
  by (simp add: round_half_even_def Let_def)

lemma fl_nonneg: "0 \<le> x \<Longrightarrow> 0 \<le> fl x"
  using round_half_even_nonneg by (simp add: fl_def Let_def pow2_def)

lemma min_interval_positive: "0 \<le> min_interval_of source_id"
  by (simp add: min_interval_of_def fl_nonneg)

interpretation pace: invariant_machine "new_pacing (source_limiter source_id today)" "\<lambda>_. True"
  pacing_run "pacing_inv (min_interval_of source_id)" for source_id today :: string
  by unfold_locales (simp_all add: source_limiter_def new_pacing_inv pacing_inv_run min_interval_positive)

abbreviation pacing_reachable :: "string \<Rightarrow> string \<Rightarrow> pacing \<Rightarrow> bool" where
  "pacing_reachable source_id today \<equiv>
     reachable (new_pacing (source_limiter source_id today)) (\<lambda>_. True) pacing_run"

section \<open>Spacing\<close>

definition sample_pacing :: pacing where
  "sample_pacing =
     fold pacing_run
       [Reserve 1 False 60 None ''2026-01-02'' 10,
        Turn \<lparr>w_slot = 10, w_deadline = 70, w_ticket = (''2026-01-02'', 0)\<rparr> 10 False,
        Reserve 3 False 60 None ''2026-01-02'' 10,
        Refund None,
        Turn \<lparr>w_slot = 21 / 2, w_deadline = 70, w_ticket = (''2026-01-02'', 0)\<rparr> 11 False]
       (new_pacing (source_limiter ''introdb'' ''2026-01-02''))"

lemma sample_pacing_reachable: "pacing_reachable ''introdb'' ''2026-01-02'' sample_pacing"
  unfolding sample_pacing_def by (rule reachable_runs) simp

text \<open>
  C13: whatever the threads, responses and day rolls do, any two request slots a source's limiter
  has given out, used or still waited for, also when a block moved one, are at least the
  source's interval apart; and its counts never fall below zero.
\<close>

theorem requests_are_spaced:
  assumes "pacing_reachable source_id today p"
  shows "spaced (min_interval_of source_id) (slots_of p) \<and> 0 \<le> l_used (p_limiter p) \<and>
    (case l_remaining (p_limiter p) of None \<Rightarrow> True | Some left \<Rightarrow> 0 \<le> left)"
  using pace.always [OF assms] by (simp add: pacing_inv_def counts_sane_def)

theorem requests_are_spaced_witness:
  "spaced (1 / 2) (slots_of sample_pacing) \<and> slots_of sample_pacing = {#10, 21 / 2#}"
proof
  show "spaced (1 / 2) (slots_of sample_pacing)"
    using requests_are_spaced [OF sample_pacing_reachable] by (simp add: min_interval_of_def)
  have "map w_slot (p_waiting sample_pacing) = []" "p_fired sample_pacing = [21 / 2, 10]" by code_simp+
  then show "slots_of sample_pacing = {#10, 21 / 2#}" by (simp add: slots_of_def)
qed

section \<open>Blocks\<close>

lemma count_failure_blocks: "l_blocked_until l \<le> l_blocked_until (count_failure c n l)"
  by (simp add: count_failure_def Let_def)

lemma rate_window_blocks: "l_blocked_until l \<le> l_blocked_until (rate_window_block a b n l)"
  by (simp add: rate_window_block_def split: option.split)

lemma retry_blocks: "l_blocked_until l \<le> l_blocked_until (retry_block c a b n l)"
  by (simp add: retry_block_def Let_def split: option.split)

lemma apply_headers_blocks: "l_blocked_until l \<le> l_blocked_until (apply_headers f c h n w l)"
proof -
  let ?reset = "delay_s f (h ''x-ratelimit-reset'') w"
  let ?l = "rate_window_block (header_number (h ''x-ratelimit-remaining'')) ?reset n (usage_headers h l)"
  have "l_blocked_until l \<le> l_blocked_until ?l" using rate_window_blocks usage_headers_keeps(2) by metis
  also have "\<dots> \<le> l_blocked_until (apply_headers f c h n w l)"
    unfolding apply_headers_def Let_def by (rule retry_blocks)
  finally show ?thesis .
qed

lemma record_response_blocks: "l_blocked_until l \<le> l_blocked_until (record_response f c h t n w l)"
proof -
  let ?l = "count_failure c n (roll_day t l)"
  have 1: "l_blocked_until l \<le> l_blocked_until ?l"
    using count_failure_blocks [of "roll_day t l" c n] by simp
  show ?thesis
  proof (cases c)
    case None
    with 1 show ?thesis by (simp add: record_response_def Let_def)
  next
    case (Some code)
    have "l_blocked_until ?l \<le> l_blocked_until (apply_headers f code h n w ?l)"
      by (rule apply_headers_blocks)
    with 1 Some show ?thesis by (simp add: record_response_def Let_def)
  qed
qed

lemma reserve_slot_blocks:
  "l_blocked_until (snd (reserve_slot priority cancelled mw cap today now l)) = l_blocked_until l"
  by (simp add: reserve_slot_def Let_def)

lemma wait_turn_blocks: "l_blocked_until (snd (wait_turn now cancelled w l)) = l_blocked_until l"
  by (simp add: wait_turn_def Let_def)

lemma blocked_until_mono: "l_blocked_until (p_limiter p) \<le> l_blocked_until (p_limiter (pacing_run e p))"
proof (cases e)
  case (Reserve priority cancelled mw cap today now)
  then show ?thesis using reserve_slot_blocks [of priority cancelled mw cap today now "p_limiter p"]
    by (cases "reserve_slot priority cancelled mw cap today now (p_limiter p)") (simp split: sum.split)
next
  case (Turn w now cancelled)
  then show ?thesis using wait_turn_blocks [of now cancelled w "p_limiter p"]
    by (cases "wait_turn now cancelled w (p_limiter p)") (simp split: sum.split)
next
  case (Refund held)
  then show ?thesis by (cases held) (simp_all add: refund_def)
qed (simp_all add: record_response_blocks usage_def Let_def)

lemma blocked_until_run: "l_blocked_until (p_limiter p) \<le> l_blocked_until (p_limiter (fold pacing_run es p))"
proof (induction es arbitrary: p)
  case (Cons e es)
  then show ?case using blocked_until_mono [of p e] order_trans by fastforce
qed simp

lemma allowed_after_block:
  assumes "fst (wait_turn now cancelled w l) = Inl ALLOWED" shows "l_blocked_until l \<le> now"
proof -
  obtain r l' where res: "wait_turn now cancelled w l = (r, l')" by fastforce
  with assms have "r = Inl ALLOWED" by simp
  then show ?thesis by (cases rule: wait_turn_cases [OF res]) auto
qed

text \<open>
  C15: after a source answered 429 with a \<open>Retry-After\<close> of s seconds at time t, no thread that shares
  its limiter, whenever it reserved its slot and whatever happened in between, is let go before
  t + s (at least one second, at most an hour).
\<close>

theorem no_request_before_retry_after:
  assumes "p' = fold pacing_run (Respond http_date (Some 429) headers today now wall # es) p"
    and "delay_s http_date (headers ''retry-after'') wall = Some s"
    and "fst (wait_turn later cancelled w (p_limiter p')) = Inl ALLOWED"
  shows "now + min (max s 1) 3600 \<le> later"
proof -
  let ?l = "record_response http_date (Some 429) headers today now wall (p_limiter p)"
  have "now + min (max s 1) 3600 \<le> l_blocked_until ?l"
    by (simp add: record_response_def apply_headers_def retry_block_def Let_def assms(2) MIN_RETRY_S_def MAX_BLOCK_S_def
        block_for_def)
  also have "\<dots> \<le> l_blocked_until (p_limiter p')"
    using blocked_until_run [of "p\<lparr>p_limiter := ?l\<rparr>" es] assms(1) by simp
  also have "\<dots> \<le> later" by (rule allowed_after_block [OF assms(3)])
  finally show ?thesis .
qed

theorem no_request_before_retry_after_witness:
  "fst (wait_turn 15 False \<lparr>w_slot = 15, w_deadline = 70, w_ticket = (''2026-01-02'', 0)\<rparr>
     (p_limiter (fold pacing_run
       [Respond (\<lambda>_. None) (Some 429) [''retry-after'' \<mapsto> ''5''] ''2026-01-02'' 10 1700000000]
       (new_pacing (source_limiter ''introdb'' ''2026-01-02''))))) = Inl ALLOWED \<and>
   (10::rat) + min (max 5 1) 3600 \<le> 15"
proof
  have "fl 5 = 5" using fl_whole [of 5] by simp
  moreover have "decimal ''5'' = Some 5"
    by (simp add: decimal_def exponent_part_def is_digit_def read_nat_def digit_value_def)
  moreover have "strip ''5'' = ''5''" "lower ''5'' = ''5''" by code_simp+
  ultimately have "py_float ''5'' = Some (Some 5)" by (simp add: py_float_def)
  then have delay: "delay_s (\<lambda>_. None) (Some ''5'') 1700000000 = Some 5"
    by (simp add: delay_s_def header_number_def EPOCH_THRESHOLD_S_def)
  have none: "header_number None = None" "delay_s (\<lambda>_. None) None 1700000000 = None"
    by (simp_all add: header_number_def delay_s_def)
  show allowed: "fst (wait_turn 15 False \<lparr>w_slot = 15, w_deadline = 70, w_ticket = (''2026-01-02'', 0)\<rparr>
     (p_limiter (fold pacing_run
       [Respond (\<lambda>_. None) (Some 429) [''retry-after'' \<mapsto> ''5''] ''2026-01-02'' 10 1700000000]
       (new_pacing (source_limiter ''introdb'' ''2026-01-02''))))) = Inl ALLOWED"
    by (simp add: wait_turn_def record_response_def apply_headers_def usage_headers_def rate_window_block_def
        retry_block_def count_failure_def roll_day_def block_for_def none delay new_pacing_def
        source_limiter_def new_limiter_def MIN_RETRY_S_def MAX_BLOCK_S_def)
  have "delay_s (\<lambda>_. None) ([''retry-after'' \<mapsto> ''5''] ''retry-after'') 1700000000 = Some 5"
    using delay by simp
  from no_request_before_retry_after [OF refl this allowed] show "(10::rat) + min (max 5 1) 3600 \<le> 15" .
qed

section \<open>The daily budget\<close>

text \<open>
  What the Settings page shows as used up for backfill is exactly when a backfill lookup is
  refused: both look at the same day, count, limit and reserve.
\<close>

theorem usage_mirrors_acquire:
  "v_low_priority_exhausted (fst (usage today now l)) \<longleftrightarrow>
   fst (reserve_slot PRIORITY_LOW False max_wait_s cap today now l) = Inl BUDGET_EXHAUSTED"
  by (simp add: usage_def reserve_slot_def budget_refused_def low_priority_exhausted_def Let_def
      split: option.split)

lemma refund_reserved:
  assumes "l_day l = fst k" "l_used l = used + 1" "0 \<le> used" "l_remaining_gen l = snd k"
    and "l_remaining l = map_option (\<lambda>n. n - 1) left"
  shows "l_used (refund_slot k l) = used \<and> l_remaining (refund_slot k l) = left"
  using assms by (cases left) (simp_all add: refund_slot_def)

text \<open>
  A slot that is reserved and then given up, because its job was cancelled or a block would
  move it past its deadline, leaves the day's count of requests and of what remains as they were.
\<close>

theorem reserve_then_give_up:
  assumes "reserve_slot priority False mw cap today now l = (Inr w, l1)" and "0 \<le> l_used (roll_day today l)"
    and "wait_turn later cancelled w l1 = (Inl r, l2)" and "r \<noteq> ALLOWED"
  shows "l_used l2 = l_used (roll_day today l) \<and> l_remaining l2 = l_remaining (roll_day today l)"
proof -
  let ?l = "roll_day today l"
  have l1: "l_day l1 = fst (w_ticket w) \<and> l_used l1 = l_used ?l + 1 \<and> l_remaining_gen l1 = snd (w_ticket w) \<and>
      l_remaining l1 = map_option (\<lambda>n. n - 1) (l_remaining ?l)"
    by (rule reserve_slot_cases [OF assms(1)]) simp_all
  then have refunded: "l_used (refund_slot (w_ticket w) (l1\<lparr>l_next_slot := n\<rparr>)) = l_used ?l \<and>
      l_remaining (refund_slot (w_ticket w) (l1\<lparr>l_next_slot := n\<rparr>)) = l_remaining ?l" for n
    using assms(2) by (intro refund_reserved) simp_all
  have kept: "l_used (refund_slot (w_ticket w) l1) = l_used ?l \<and>
      l_remaining (refund_slot (w_ticket w) l1) = l_remaining ?l"
    using l1 assms(2) by (intro refund_reserved) simp_all
  show ?thesis
    by (rule wait_turn_cases [OF assms(3)]) (use assms(4) refunded kept in auto)
qed

definition counted_limiter :: limiter where
  "counted_limiter = seed_usage ''2026-01-02'' (Some 4) (Some 500) (Some 173) ''2026-01-02''
     (source_limiter ''introdb'' ''2026-01-02'')"

theorem reserve_then_give_up_witness:
  "\<exists>w l1 l2. reserve_slot 1 False 60 None ''2026-01-02'' 10
       (counted_limiter\<lparr>l_blocked_until := 12\<rparr>) = (Inr w, l1) \<and>
     wait_turn 10 True w l1 = (Inl CANCELLED, l2) \<and> l_used l1 = 5 \<and> l_used l2 = 4 \<and> l_remaining l2 = Some 173"
proof -
  let ?l = "counted_limiter\<lparr>l_blocked_until := 12\<rparr>"
  let ?w = "\<lparr>w_slot = 12, w_deadline = 70, w_ticket = (''2026-01-02'', 1)\<rparr> :: waiting"
  let ?l1 = "snd (reserve_slot 1 False 60 None ''2026-01-02'' 10 ?l)"
  have "fst (reserve_slot 1 False 60 None ''2026-01-02'' 10 ?l) = Inr ?w" by code_simp
  then have res: "reserve_slot 1 False 60 None ''2026-01-02'' 10 ?l = (Inr ?w, ?l1)"
    by (metis prod.collapse)
  have "fst (wait_turn 10 True ?w ?l1) = Inl CANCELLED" by code_simp
  then have turn: "wait_turn 10 True ?w ?l1 = (Inl CANCELLED, snd (wait_turn 10 True ?w ?l1))"
    by (metis prod.collapse)
  have used: "l_used ?l1 = 5" by code_simp
  have start: "l_used (roll_day ''2026-01-02'' ?l) = 4" "l_remaining (roll_day ''2026-01-02'' ?l) = Some 173"
    by code_simp+
  from reserve_then_give_up [OF res _ turn] start
  have "l_used (snd (wait_turn 10 True ?w ?l1)) = 4 \<and>
      l_remaining (snd (wait_turn 10 True ?w ?l1)) = Some 173" by simp
  with res turn used show ?thesis by blast
qed

section \<open>The circuit\<close>

definition network_errors :: "string \<Rightarrow> rat list \<Rightarrow> limiter \<Rightarrow> limiter" where
  "network_errors today moments l =
     fold (\<lambda>now. record_response (\<lambda>_. None) None Map.empty today now 0) moments l"

lemma network_errors_below:
  assumes "l_failures l = 0" and "int (length moments) < l_failure_threshold l"
  shows "l_failures (network_errors today moments l) = int (length moments) \<and>
    l_blocked_until (network_errors today moments l) = l_blocked_until l \<and>
    l_failure_threshold (network_errors today moments l) = l_failure_threshold l \<and>
    l_circuit_open_s (network_errors today moments l) = l_circuit_open_s l"
  using assms(2)
proof (induction moments rule: rev_induct)
  case (snoc now moments)
  then show ?case
    by (simp add: network_errors_def record_response_def count_failure_def Let_def)
qed (simp add: network_errors_def assms(1))

text \<open>
  It takes exactly as many failures in a row as the threshold to open the circuit: up to the
  last of them nothing is blocked, and that one blocks the source for the whole pause.
\<close>

theorem circuit_opens_at_threshold:
  assumes "l_failures l = 0" and "l_failure_threshold l = int (length earlier) + 1"
  shows "l_blocked_until (network_errors today earlier l) = l_blocked_until l \<and>
    l_blocked_until (network_errors today (earlier @ [now]) l) =
      max (l_blocked_until l) (now + l_circuit_open_s l)"
proof -
  have below: "l_failures (network_errors today earlier l) = int (length earlier) \<and>
    l_blocked_until (network_errors today earlier l) = l_blocked_until l \<and>
    l_failure_threshold (network_errors today earlier l) = l_failure_threshold l \<and>
    l_circuit_open_s (network_errors today earlier l) = l_circuit_open_s l"
    by (rule network_errors_below) (use assms in simp_all)
  have "network_errors today (earlier @ [now]) l =
      record_response (\<lambda>_. None) None Map.empty today now 0 (network_errors today earlier l)"
    by (simp add: network_errors_def)
  then show ?thesis using below assms(2)
    by (simp add: record_response_def count_failure_def Let_def)
qed

theorem circuit_opens_at_threshold_witness:
  "l_blocked_until (network_errors ''2026-01-02'' [1, 2, 3, 4] (source_limiter ''skipdb'' ''2026-01-02'')) = 0 \<and>
   l_blocked_until (network_errors ''2026-01-02'' [1, 2, 3, 4, 5] (source_limiter ''skipdb'' ''2026-01-02'')) = 605"
  using circuit_opens_at_threshold [of "source_limiter ''skipdb'' ''2026-01-02''" "[1, 2, 3, 4]" "''2026-01-02''" 5]
  by (simp add: source_limiter_def new_limiter_def)

end
