(* ===== verification/Paths.thy ===== *)
theory Paths
  imports Bif Py_Values
begin

text \<open>
  Path mappings, exclude rules and library selectors (\<open>config/paths.py\<close>).  Unicode
  normalisation, \<open>unicodedata.normalize("NFC", _)\<close>, is the parameter \<open>nfc\<close> of every
  definition whose code calls it; nothing is assumed of it, so what is proved holds for the real
  tables whatever they are.  A mapping row as the resolvers read it is the record \<open>path_row\<close>; the raw settings are
  JSON values.  \<open>None\<close> is the exception of an attribute a value does not have.
\<close>

section \<open>Text helpers\<close>

definition SLASH :: char where "SLASH = CHR ''/''"
definition BACKSLASH :: char where "BACKSLASH = char_of (92 :: nat)"

text \<open>\<open>s.replace(a, b)\<close> for single characters, \<open>s.rstrip("/")\<close>, \<open>s.lstrip("/")\<close>, \<open>s.startswith(p)\<close>.\<close>

definition replace_char :: "char \<Rightarrow> char \<Rightarrow> string \<Rightarrow> string" where
  "replace_char a b = map (\<lambda>c. if c = a then b else c)"

definition forward :: "string \<Rightarrow> string" where
  "forward = replace_char BACKSLASH SLASH"

definition rstrip_slash :: "string \<Rightarrow> string" where
  "rstrip_slash s = rev (dropWhile (\<lambda>c. c = SLASH) (rev s))"

definition lstrip_slash :: "string \<Rightarrow> string" where
  "lstrip_slash s = dropWhile (\<lambda>c. c = SLASH) s"

definition starts_with :: "string \<Rightarrow> string \<Rightarrow> bool" where
  "starts_with s p \<longleftrightarrow> take (length p) s = p"

definition or_empty :: "string option \<Rightarrow> string" where
  "or_empty x = (case x of None \<Rightarrow> [] | Some s \<Rightarrow> s)"

section \<open>Mapping rows\<close>

record path_row =
  pr_remote :: "string option"
  pr_plex :: "string option"
  pr_local :: "string option"
  pr_webhook :: "string list"

text \<open>\<open>row.get("remote_prefix") or row.get("plex_prefix") or ""\<close>.\<close>

definition server_prefix :: "path_row \<Rightarrow> string" where
  "server_prefix row =
     (if or_empty (pr_remote row) \<noteq> [] then or_empty (pr_remote row) else or_empty (pr_plex row))"

definition local_prefix_of :: "path_row \<Rightarrow> string" where
  "local_prefix_of row = or_empty (pr_local row)"

text \<open>\<open>[s.strip() for s in x.split(";") if s.strip()]\<close>.\<close>

definition split_roots :: "string \<Rightarrow> string list" where
  "split_roots s = filter (\<lambda>x. x \<noteq> []) (map strip (split_on CHR '';'' s))"

definition get_path_mapping_pairs :: "string \<Rightarrow> string \<Rightarrow> (string \<times> string) list" where
  "get_path_mapping_pairs plex_mapping local_mapping =
     (let plex_list = split_roots plex_mapping; local_list = split_roots local_mapping in
      case (plex_list, local_list) of
        ([], _) \<Rightarrow> []
      | (_, []) \<Rightarrow> []
      | (p # ps, l # ls) \<Rightarrow>
          if ls = [] then map (\<lambda>root. (root, l)) plex_list
          else if length plex_list = length local_list then zip plex_list local_list
          else [(p, l)])"

definition legacy_settings_to_path_mappings :: "string \<Rightarrow> string \<Rightarrow> path_row list" where
  "legacy_settings_to_path_mappings plex_mapping local_mapping =
     map (\<lambda>(p, l). \<lparr>pr_remote = None, pr_plex = Some p, pr_local = Some l, pr_webhook = []\<rparr>)
       (get_path_mapping_pairs plex_mapping local_mapping)"

text \<open>\<open>(a or b or "").strip()\<close> on JSON values: a truthy value that is no text has no \<open>strip\<close>.\<close>

fun first_text :: "json list \<Rightarrow> string option" where
  "first_text [] = Some []"
| "first_text (v # vs) =
     (if \<not> truthy v then first_text vs
      else case v of JStr s \<Rightarrow> Some (strip s) | _ \<Rightarrow> None)"

text \<open>\<open>[s.strip() for s in web if s and str(s).strip()]\<close>.\<close>

fun webhook_texts :: "json list \<Rightarrow> string list option" where
  "webhook_texts [] = Some []"
| "webhook_texts (v # vs) =
     (if \<not> truthy v then webhook_texts vs
      else case v of
             JStr s \<Rightarrow> (if strip s = [] then webhook_texts vs
                        else map_option (Cons (strip s)) (webhook_texts vs))
           | _ \<Rightarrow> None)"

definition clean_row :: "(string \<times> json) list \<Rightarrow> path_row option option" where
  "clean_row row = do {
     plex \<leftarrow> first_text [get row ''remote_prefix'', get row ''plex_prefix''];
     local \<leftarrow> first_text [get row ''local_prefix''];
     if plex = [] \<or> local = [] then Some None
     else do {
       web \<leftarrow> (case get row ''webhook_prefixes'' of JList vs \<Rightarrow> webhook_texts vs | _ \<Rightarrow> Some []);
       Some (Some \<lparr>pr_remote = None, pr_plex = Some plex, pr_local = Some local, pr_webhook = web\<rparr>)
     }
   }"

fun clean_rows :: "json list \<Rightarrow> path_row list option" where
  "clean_rows [] = Some []"
| "clean_rows (JObj row # rows) = do {
     cleaned \<leftarrow> clean_row row;
     rest \<leftarrow> clean_rows rows;
     Some (case cleaned of None \<Rightarrow> rest | Some r \<Rightarrow> r # rest)
   }"
| "clean_rows (_ # rows) = clean_rows rows"

definition normalize_path_mappings :: "(string \<times> json) list \<Rightarrow> path_row list option" where
  "normalize_path_mappings settings = do {
     out \<leftarrow> (case get settings ''path_mappings'' of JList rows \<Rightarrow> clean_rows rows | _ \<Rightarrow> Some []);
     if out \<noteq> [] then Some out
     else do {
       plex_str \<leftarrow> first_text [get settings ''plex_videos_path_mapping''];
       local_str \<leftarrow> first_text [get settings ''plex_local_videos_path_mapping''];
       Some (if plex_str \<noteq> [] \<and> local_str \<noteq> []
             then legacy_settings_to_path_mappings plex_str local_str else [])
     }
   }"

section \<open>Prefixes\<close>

definition normalize_prefix :: "(string \<Rightarrow> string) \<Rightarrow> string \<Rightarrow> string" where
  "normalize_prefix nfc p =
     (if p = [] then p
      else (let r = nfc (rstrip_slash (forward p)) in if r = [] then [SLASH] else r))"

definition path_matches_prefix :: "(string \<Rightarrow> string) \<Rightarrow> string \<Rightarrow> string \<Rightarrow> bool" where
  "path_matches_prefix nfc path prefix =
     (let norm = normalize_prefix nfc prefix; p = nfc (forward (strip path))
      in norm \<noteq> [] \<and> (p = norm \<or> starts_with p (norm @ [SLASH])))"

definition is_letter :: "char \<Rightarrow> bool" where
  "is_letter c \<longleftrightarrow> (65 \<le> code c \<and> code c \<le> 90) \<or> (97 \<le> code c \<and> code c \<le> 122)"

text \<open>The expression \<open>_WINDOWS_PATH_RE\<close>, matched at the start of a stripped text.\<close>

definition windows_path :: "string \<Rightarrow> bool" where
  "windows_path s =
     (case s of
        c # d # rest \<Rightarrow>
          (is_letter c \<and> d = CHR '':'' \<and>
             (case rest of [] \<Rightarrow> True | e # _ \<Rightarrow> e = BACKSLASH \<or> e = SLASH)) \<or>
          (c = BACKSLASH \<and> d = BACKSLASH \<and>
             (case rest of [] \<Rightarrow> False | e # _ \<Rightarrow> e \<noteq> BACKSLASH \<and> e \<noteq> SLASH))
      | _ \<Rightarrow> False)"

fun collapse_backslashes :: "string \<Rightarrow> string" where
  "collapse_backslashes (c # d # s) =
     (if c = BACKSLASH \<and> d = BACKSLASH then collapse_backslashes (d # s)
      else c # collapse_backslashes (d # s))"
| "collapse_backslashes s = s"

definition windows_native_path :: "string \<Rightarrow> string \<Rightarrow> string option" where
  "windows_native_path prefix path =
     (if \<not> windows_path (strip prefix) then None
      else (let native = replace_char SLASH BACKSLASH path;
                head = (if starts_with native [BACKSLASH, BACKSLASH] then [BACKSLASH, BACKSLASH] else [])
            in Some (head @ collapse_backslashes (drop (length head) native))))"

section \<open>Exclude rules\<close>

datatype exclude_kind = Exclude_Path | Exclude_Regex

text \<open>\<open>normalize_exclude_paths\<close>: the value and the kind of every rule that has a value.\<close>

definition clean_rule :: "json \<Rightarrow> (string \<times> exclude_kind) option option" where
  "clean_rule entry =
     (case entry of
        JObj row \<Rightarrow> do {
          value \<leftarrow> first_text [get row ''value''];
          kind \<leftarrow> first_text [get row ''type'', JStr ''path''];
          Some (if value = [] then None
                else Some (value, if lower kind = ''regex'' then Exclude_Regex else Exclude_Path))
        }
      | JStr s \<Rightarrow> Some (if strip s = [] then None else Some (strip s, Exclude_Path))
      | _ \<Rightarrow> Some None)"

fun clean_rules :: "json list \<Rightarrow> (string \<times> exclude_kind) list option" where
  "clean_rules [] = Some []"
| "clean_rules (e # es) = do {
     rule \<leftarrow> clean_rule e;
     rest \<leftarrow> clean_rules es;
     Some (case rule of None \<Rightarrow> rest | Some r \<Rightarrow> r # rest)
   }"

definition normalize_exclude_paths :: "json \<Rightarrow> (string \<times> exclude_kind) list option" where
  "normalize_exclude_paths raw = (case raw of JList es \<Rightarrow> clean_rules es | _ \<Rightarrow> Some [])"

text \<open>\<open>posixpath.normpath\<close>: the components kept so far are in reverse.\<close>

definition norm_step :: "bool \<Rightarrow> string \<Rightarrow> string list \<Rightarrow> string list" where
  "norm_step rooted part kept =
     (if part = [] \<or> part = ''.'' then kept
      else if part \<noteq> ''..'' \<or> (\<not> rooted \<and> kept = []) \<or> (kept \<noteq> [] \<and> hd kept = ''..'') then part # kept
      else if kept \<noteq> [] then tl kept
      else kept)"

definition normpath :: "string \<Rightarrow> string" where
  "normpath path =
     (if path = [] then ''.''
      else (let root = (if starts_with path ''//'' \<and> \<not> starts_with path ''///'' then ''//''
                        else if starts_with path ''/'' then ''/'' else []);
                kept = fold (norm_step (root \<noteq> [])) (split_on SLASH (drop (length root) path)) [];
                out = root @ join ''/'' (rev kept)
            in if out = [] then ''.'' else out))"

text \<open>
  \<open>regex_search value path\<close> is \<open>re.search\<close>: \<open>None\<close> where the expression is invalid, which skips
  the rule.
\<close>

definition rule_excludes ::
  "(string \<Rightarrow> string \<Rightarrow> bool option) \<Rightarrow> string \<Rightarrow> string \<times> exclude_kind \<Rightarrow> bool" where
  "rule_excludes regex_search path rule =
     (let value = strip (fst rule) in
      if value = [] then False
      else if snd rule = Exclude_Regex then regex_search value path = Some True
      else (let prefix = rstrip_slash (forward (normpath value))
            in prefix \<noteq> [] \<and> (path = prefix \<or> starts_with path (prefix @ [SLASH]))))"

definition is_path_excluded ::
  "(string \<Rightarrow> string \<Rightarrow> bool option) \<Rightarrow> string \<Rightarrow> (string \<times> exclude_kind) list \<Rightarrow> bool" where
  "is_path_excluded regex_search local_path rules =
     (if local_path = [] then False
      else (let path = forward (normpath (strip local_path))
            in \<exists>rule \<in> set rules. rule_excludes regex_search path rule))"

section \<open>Mapping a path\<close>

text \<open>The part of \<open>path\<close> below \<open>prefix\<close> put under \<open>target\<close>.\<close>

definition under_prefix :: "string \<Rightarrow> string \<Rightarrow> string \<Rightarrow> string" where
  "under_prefix path prefix target =
     (let rest = lstrip_slash (drop (length prefix) path)
      in if rest \<noteq> [] then rstrip_slash target @ [SLASH] @ rest
         else if target = [] then [SLASH] else target)"

definition row_to_local :: "(string \<Rightarrow> string) \<Rightarrow> string \<Rightarrow> path_row \<Rightarrow> string option" where
  "row_to_local nfc path row =
     (let local = normalize_prefix nfc (local_prefix_of row);
          tried = normalize_prefix nfc (server_prefix row) # map (normalize_prefix nfc) (pr_webhook row)
      in map_option (\<lambda>p. under_prefix (nfc path) p local)
           (find (\<lambda>p. p \<noteq> [] \<and> path_matches_prefix nfc path p) tried))"

fun first_mapped :: "(string \<Rightarrow> string) \<Rightarrow> string \<Rightarrow> path_row list \<Rightarrow> string option" where
  "first_mapped nfc path [] = None"
| "first_mapped nfc path (row # rows) =
     (case row_to_local nfc path row of Some p \<Rightarrow> Some p | None \<Rightarrow> first_mapped nfc path rows)"

definition path_to_canonical_local :: "(string \<Rightarrow> string) \<Rightarrow> string \<Rightarrow> path_row list \<Rightarrow> string" where
  "path_to_canonical_local nfc path rows =
     (if path = [] \<or> rows = [] then path
      else (let p = forward (strip path)
            in case first_mapped nfc p rows of Some q \<Rightarrow> q | None \<Rightarrow> p))"

text \<open>\<open>expand_path_mapping_candidates\<close>: \<open>seen\<close> holds what the list holds.\<close>

definition add_form :: "string option \<Rightarrow> string list \<Rightarrow> string list" where
  "add_form form candidates =
     (case form of
        None \<Rightarrow> candidates
      | Some f \<Rightarrow> if f \<noteq> [] \<and> f \<notin> set candidates then candidates @ [f] else candidates)"

definition add_mapped_candidate :: "(string \<Rightarrow> string) \<Rightarrow> string \<Rightarrow> string \<Rightarrow> string \<Rightarrow> string list \<Rightarrow> string list" where
  "add_mapped_candidate nfc cleaned source_prefix target_prefix candidates =
     (let source = normalize_prefix nfc source_prefix; target = normalize_prefix nfc target_prefix in
      if source = [] \<or> target = [] \<or> \<not> path_matches_prefix nfc cleaned source then candidates
      else (let candidate = under_prefix (nfc cleaned) source target
            in add_form (windows_native_path target_prefix candidate)
                 (add_form (Some candidate) candidates)))"

definition add_webhook_candidates :: "(string \<Rightarrow> string) \<Rightarrow> string \<Rightarrow> string \<Rightarrow> string \<Rightarrow> string \<Rightarrow> string list \<Rightarrow> string list" where
  "add_webhook_candidates nfc cleaned plex local wp candidates =
     add_mapped_candidate nfc cleaned plex wp
       (add_mapped_candidate nfc cleaned local wp
         (add_mapped_candidate nfc cleaned wp plex
           (add_mapped_candidate nfc cleaned wp local candidates)))"

definition add_row_candidates :: "(string \<Rightarrow> string) \<Rightarrow> string \<Rightarrow> path_row \<Rightarrow> string list \<Rightarrow> string list" where
  "add_row_candidates nfc cleaned row candidates =
     (let plex = server_prefix row; local = local_prefix_of row
      in fold (add_webhook_candidates nfc cleaned plex local) (pr_webhook row)
           (add_mapped_candidate nfc cleaned local plex
             (add_mapped_candidate nfc cleaned plex local candidates)))"

definition expand_path_mapping_candidates :: "(string \<Rightarrow> string) \<Rightarrow> string \<Rightarrow> path_row list \<Rightarrow> string list" where
  "expand_path_mapping_candidates nfc path rows =
     (let cleaned = forward (strip path) in
      if path = [] \<or> cleaned = [] then []
      else fold (add_row_candidates nfc cleaned) rows [cleaned])"

definition local_path_to_webhook_aliases :: "(string \<Rightarrow> string) \<Rightarrow> string \<Rightarrow> path_row list \<Rightarrow> string list" where
  "local_path_to_webhook_aliases nfc path rows =
     (if path = [] \<or> rows = [] then []
      else (let p = nfc (forward (strip path))
            in concat (map (\<lambda>row.
                 let local = normalize_prefix nfc (local_prefix_of row) in
                 if local = [] \<or> \<not> path_matches_prefix nfc p local then []
                 else map (\<lambda>wp. under_prefix p local wp)
                        (filter (\<lambda>wp. wp \<noteq> [] \<and> wp \<noteq> local) (map (normalize_prefix nfc) (pr_webhook row)))) rows)))"

section \<open>Library selectors\<close>

text \<open>\<open>str.isdigit\<close> in Latin-1 also holds for the superscripts.\<close>

definition unicode_digit :: "char \<Rightarrow> bool" where
  "unicode_digit c \<longleftrightarrow> is_digit c \<or> code c \<in> {178, 179, 185}"

definition hex_digit :: "char \<Rightarrow> bool" where
  "hex_digit c \<longleftrightarrow> is_digit c \<or> (65 \<le> code c \<and> code c \<le> 70) \<or> (97 \<le> code c \<and> code c \<le> 102)"

definition is_library_id_value :: "string \<Rightarrow> bool" where
  "is_library_id_value value \<longleftrightarrow>
     value \<noteq> [] \<and>
     (list_all unicode_digit value \<or>
      (let stripped = filter (\<lambda>c. c \<noteq> CHR ''-'') value
       in length stripped = 32 \<and> list_all hex_digit stripped))"

definition add_new :: "'a \<Rightarrow> 'a list \<Rightarrow> 'a list" where
  "add_new x xs = (if x \<in> set xs then xs else xs @ [x])"

text \<open>\<open>str_of\<close> is \<open>str(value)\<close>.\<close>

definition split_selector ::
  "(json \<Rightarrow> string) \<Rightarrow> json \<Rightarrow> string list \<times> string list \<Rightarrow> string list \<times> string list" where
  "split_selector str_of raw acc =
     (if raw = JNull then acc
      else (let value = strip (str_of raw) in
            if value = [] then acc
            else if is_library_id_value value then (add_new value (fst acc), snd acc)
            else (fst acc, add_new (lower value) (snd acc))))"

definition split_library_selectors :: "(json \<Rightarrow> string) \<Rightarrow> json \<Rightarrow> string list \<times> string list" where
  "split_library_selectors str_of values =
     (case values of JList vs \<Rightarrow> fold (split_selector str_of) vs ([], []) | _ \<Rightarrow> ([], []))"

end
