(* ===== verification/Ownership.thy ===== *)
theory Ownership
  imports Paths
begin

text \<open>
  Which servers and libraries a file belongs to (\<open>servers/ownership.py\<close>): the translation of paths
  between a webhook's, a server's and this app's view, and the folder-bounded match of a local
  path against every library.  \<open>nfc\<close> is Unicode normalisation, as in \<open>Paths\<close>.
\<close>

section \<open>Data\<close>

record library =
  lib_id :: string
  lib_name :: string
  lib_remote_paths :: "string list"
  lib_enabled :: bool

record server_config =
  srv_id :: string
  srv_enabled :: bool
  srv_libraries :: "library list"
  srv_path_mappings :: "path_row list"

record ownership_match =
  om_server_id :: string
  om_library_id :: string
  om_library_name :: string
  om_local_prefix :: string

section \<open>Swapping prefixes\<close>

definition normalize_folder :: "(string \<Rightarrow> string) \<Rightarrow> string \<Rightarrow> string" where
  "normalize_folder nfc path = nfc (rstrip_slash (forward path)) @ [SLASH]"

text \<open>
  The comparison is of the normalised texts, the cut is at the length of the prefix as it is
  written: where the two forms differ in length the cut is in the wrong place
  (\<open>swap_prefix_cuts_raw\<close> in \<open>Path_Claims\<close>).
\<close>

definition swap_prefix :: "(string \<Rightarrow> string) \<Rightarrow> string \<Rightarrow> string \<Rightarrow> string \<Rightarrow> string option" where
  "swap_prefix nfc path_fwd from_prefix to_prefix =
     (let from_fwd = forward from_prefix in
      if \<not> starts_with (normalize_folder nfc path_fwd) (normalize_folder nfc from_fwd) then None
      else Some (rstrip_slash to_prefix @ drop (length (rstrip_slash from_fwd)) path_fwd))"

definition apply_webhook_prefixes :: "(string \<Rightarrow> string) \<Rightarrow> string \<Rightarrow> path_row list \<Rightarrow> string list" where
  "apply_webhook_prefixes nfc webhook_path mappings =
     (if mappings = [] then [webhook_path]
      else (let fwd = forward webhook_path;
                candidates = concat (map (\<lambda>row.
                  if local_prefix_of row = [] then []
                  else List.map_filter (\<lambda>wp. if wp = [] then None else swap_prefix nfc fwd wp (local_prefix_of row))
                         (pr_webhook row)) mappings)
            in if candidates = [] then [webhook_path] else candidates))"

definition path_mapping_candidates :: "(string \<Rightarrow> string) \<Rightarrow> string \<Rightarrow> path_row list \<Rightarrow> (string \<times> string option) list" where
  "path_mapping_candidates nfc remote_path mappings =
     (if mappings = [] then [(remote_path, None)]
      else (let fwd = forward remote_path;
                candidates = List.map_filter (\<lambda>row.
                  if server_prefix row = [] \<or> local_prefix_of row = [] then None
                  else map_option (\<lambda>p.
                         (p, Some (let l = rstrip_slash (local_prefix_of row) in if l = [] then [SLASH] else l)))
                         (swap_prefix nfc fwd (server_prefix row) (local_prefix_of row))) mappings
            in if candidates = [] then [(remote_path, None)] else candidates))"

definition apply_path_mappings :: "(string \<Rightarrow> string) \<Rightarrow> string \<Rightarrow> path_row list \<Rightarrow> string list" where
  "apply_path_mappings nfc remote_path mappings = map fst (path_mapping_candidates nfc remote_path mappings)"

definition inverse_forms :: "(string \<Rightarrow> string) \<Rightarrow> string \<Rightarrow> path_row \<Rightarrow> string list \<Rightarrow> string list" where
  "inverse_forms nfc local_fwd row candidates =
     (if server_prefix row = [] \<or> local_prefix_of row = [] then candidates
      else case swap_prefix nfc local_fwd (local_prefix_of row) (server_prefix row) of
             None \<Rightarrow> candidates
           | Some swapped \<Rightarrow>
               add_form (Some swapped)
                 (add_form (windows_native_path (server_prefix row) swapped) candidates))"

definition apply_inverse_path_mappings :: "(string \<Rightarrow> string) \<Rightarrow> string \<Rightarrow> path_row list \<Rightarrow> string list" where
  "apply_inverse_path_mappings nfc local_path mappings =
     (if mappings = [] then [local_path]
      else (let candidates = fold (inverse_forms nfc (forward local_path)) mappings []
            in if candidates = [] then [local_path] else candidates))"

definition webhook_path_candidates :: "(string \<Rightarrow> string) \<Rightarrow> string \<Rightarrow> server_config list \<Rightarrow> string list" where
  "webhook_path_candidates nfc path configs =
     fold (\<lambda>cfg candidates.
       fold add_new (apply_path_mappings nfc path (srv_path_mappings cfg))
         (fold add_new (apply_webhook_prefixes nfc path (srv_path_mappings cfg)) candidates)) configs [path]"

section \<open>Matching a file against libraries\<close>

definition blank :: "string \<Rightarrow> bool" where
  "blank s \<longleftrightarrow> strip s = []"

text \<open>\<open>norm_path\<close>: the folder normalized, the file name as it is.\<close>

definition folder_bounded_path :: "(string \<Rightarrow> string) \<Rightarrow> string \<Rightarrow> string" where
  "folder_bounded_path nfc canonical_path =
     (let (folder, name) = path_split (forward (nfc canonical_path)) in normalize_folder nfc folder @ name)"

definition matched_folder :: "(string \<Rightarrow> string) \<Rightarrow> string \<Rightarrow> path_row list \<Rightarrow> string \<Rightarrow> string option" where
  "matched_folder nfc norm_path mappings remote_path =
     find (\<lambda>candidate. \<not> blank candidate \<and> starts_with norm_path (normalize_folder nfc candidate))
       (apply_path_mappings nfc remote_path mappings)"

text \<open>The first remote path of a library whose mapped folder covers the file.\<close>

fun library_match :: "(string \<Rightarrow> string) \<Rightarrow> string \<Rightarrow> path_row list \<Rightarrow> string list \<Rightarrow> string option" where
  "library_match nfc norm_path mappings [] = None"
| "library_match nfc norm_path mappings (remote # remotes) =
     (if blank remote then library_match nfc norm_path mappings remotes
      else case matched_folder nfc norm_path mappings remote of
             Some folder \<Rightarrow> Some folder
           | None \<Rightarrow> library_match nfc norm_path mappings remotes)"

definition library_matches :: "(string \<Rightarrow> string) \<Rightarrow> string \<Rightarrow> server_config \<Rightarrow> library list \<Rightarrow> ownership_match list" where
  "library_matches nfc canonical_path server libraries =
     List.map_filter (\<lambda>lib.
       map_option (\<lambda>folder. \<lparr>om_server_id = srv_id server, om_library_id = lib_id lib,
                             om_library_name = lib_name lib, om_local_prefix = folder\<rparr>)
         (library_match nfc (folder_bounded_path nfc canonical_path) (srv_path_mappings server)
           (lib_remote_paths lib))) libraries"

definition enabled_libraries :: "server_config \<Rightarrow> library list" where
  "enabled_libraries server = filter lib_enabled (srv_libraries server)"

definition server_owns_path :: "(string \<Rightarrow> string) \<Rightarrow> string \<Rightarrow> server_config \<Rightarrow> ownership_match option" where
  "server_owns_path nfc canonical_path server =
     (if \<not> srv_enabled server then None
      else (case library_matches nfc canonical_path server (enabled_libraries server) of
              [] \<Rightarrow> None
            | m # _ \<Rightarrow> Some m))"

definition find_library_matches :: "(string \<Rightarrow> string) \<Rightarrow> string \<Rightarrow> server_config list \<Rightarrow> ownership_match list" where
  "find_library_matches nfc canonical_path servers =
     concat (map (\<lambda>server. library_matches nfc canonical_path server (srv_libraries server))
       (filter srv_enabled servers))"

definition find_owning_servers :: "(string \<Rightarrow> string) \<Rightarrow> string \<Rightarrow> server_config list \<Rightarrow> ownership_match list" where
  "find_owning_servers nfc canonical_path servers = List.map_filter (server_owns_path nfc canonical_path) servers"

end
