(* ===== verification/Path_Claims.thy ===== *)
theory Path_Claims
  imports Ownership
begin

text \<open>
  The properties of path mapping and ownership: translations undo each other, a match is bounded
  by folders, the resolver's answer is among the matcher's candidates, and selectors are split
  without loss.
\<close>

section \<open>Text\<close>

lemma SLASH_not_BACKSLASH [simp]: "SLASH \<noteq> BACKSLASH" "BACKSLASH \<noteq> SLASH"
proof -
  show "SLASH \<noteq> BACKSLASH" by (simp add: SLASH_def BACKSLASH_def) code_simp
  then show "BACKSLASH \<noteq> SLASH" by simp
qed

lemma forward_id: "BACKSLASH \<notin> set s \<Longrightarrow> forward s = s"
  by (auto simp: forward_def replace_char_def intro: map_idI)

lemma forward_forward [simp]: "forward (forward s) = forward s"
  by (simp add: forward_def replace_char_def)

lemma rstrip_slash_snoc [simp]: "rstrip_slash (s @ [SLASH]) = rstrip_slash s"
  by (simp add: rstrip_slash_def)

lemma rstrip_slash_last [simp]: "c \<noteq> SLASH \<Longrightarrow> rstrip_slash (s @ [c]) = s @ [c]"
  by (simp add: rstrip_slash_def)

lemma rstrip_slash_Nil [simp]: "rstrip_slash [] = []"
  by (simp add: rstrip_slash_def)

lemma rstrip_slash_split: "\<exists>k. s = rstrip_slash s @ replicate k SLASH"
proof (induction s rule: rev_induct)
  case (snoc c s)
  then obtain k where k: "s = rstrip_slash s @ replicate k SLASH" ..
  show ?case
  proof (cases "c = SLASH")
    case True
    have "s @ [c] = rstrip_slash (s @ [c]) @ replicate (Suc k) SLASH"
    proof -
      have "s @ [SLASH] = rstrip_slash s @ replicate k SLASH @ [SLASH]" using k by (metis append_assoc)
      then show ?thesis unfolding True rstrip_slash_snoc replicate_Suc replicate_append_same .
    qed
    then show ?thesis ..
  next
    case False
    then show ?thesis by (intro exI [of _ 0]) simp
  qed
qed simp

lemma rstrip_slash_no_end: "rstrip_slash s = [] \<or> last (rstrip_slash s) \<noteq> SLASH"
  by (induction s rule: rev_induct) (metis rstrip_slash_Nil, metis last_snoc rstrip_slash_last rstrip_slash_snoc)

lemma rstrip_slash_fixed: "s = [] \<or> last s \<noteq> SLASH \<Longrightarrow> rstrip_slash s = s"
  by (cases s rule: rev_cases) auto

lemma rstrip_slash_idem [simp]: "rstrip_slash (rstrip_slash s) = rstrip_slash s"
  by (rule rstrip_slash_fixed) (rule rstrip_slash_no_end)

lemma rstrip_slash_set: "set (rstrip_slash s) \<subseteq> set s"
  unfolding rstrip_slash_def using set_dropWhileD by fastforce

text \<open>Stripping a text behind a stripped folder strips only what comes after the folder.\<close>

lemma rstrip_slash_append:
  assumes "f = [] \<or> last f \<noteq> SLASH"
  shows "rstrip_slash (f @ rest) = f @ rstrip_slash rest"
proof (induction rest rule: rev_induct)
  case Nil
  then show ?case using rstrip_slash_fixed [OF assms] by simp
next
  case (snoc c rest)
  then show ?case by (cases "c = SLASH") (simp_all flip: append_assoc)
qed

lemma starts_with_iff: "starts_with s p \<longleftrightarrow> (\<exists>rest. s = p @ rest)"
  by (auto simp: starts_with_def) (metis append_take_drop_id)

section \<open>Adding candidates\<close>






section \<open>Ownership\<close>

text \<open>A file lies in a folder, not in one whose name only starts the same.\<close>

definition lies_in :: "(string \<Rightarrow> string) \<Rightarrow> string \<Rightarrow> string \<Rightarrow> bool" where
  "lies_in nfc folder file_path \<longleftrightarrow>
     (\<exists>rest. folder_bounded_path nfc file_path = nfc (rstrip_slash (forward folder)) @ SLASH # rest)"

definition covers_file :: "(string \<Rightarrow> string) \<Rightarrow> path_row list \<Rightarrow> string \<Rightarrow> string \<Rightarrow> bool" where
  "covers_file nfc mappings remote file_path \<longleftrightarrow>
     \<not> blank remote \<and>
     (\<exists>folder \<in> set (apply_path_mappings nfc remote mappings). \<not> blank folder \<and> lies_in nfc folder file_path)"

lemma starts_with_folder: "starts_with (folder_bounded_path nfc c) (normalize_folder nfc folder) \<longleftrightarrow> lies_in nfc folder c"
  by (simp add: starts_with_iff normalize_folder_def lies_in_def)

lemma matched_folder_None:
  "\<not> blank remote \<Longrightarrow>
     matched_folder nfc (folder_bounded_path nfc c) mappings remote = None \<longleftrightarrow> \<not> covers_file nfc mappings remote c"
  by (auto simp: matched_folder_def find_None_iff covers_file_def starts_with_folder)

lemma library_match_None:
  "library_match nfc (folder_bounded_path nfc c) mappings remotes = None \<longleftrightarrow>
     \<not> (\<exists>remote \<in> set remotes. covers_file nfc mappings remote c)"
proof (induction remotes)
  case (Cons remote remotes)
  show ?case
  proof (cases "blank remote")
    case True
    with Cons show ?thesis by (simp add: covers_file_def)
  next
    case False
    show ?thesis
    proof (cases "matched_folder nfc (folder_bounded_path nfc c) mappings remote")
      case None
      then have "\<not> covers_file nfc mappings remote c" using matched_folder_None [OF False] by blast
      with None Cons False show ?thesis by simp
    next
      case (Some folder)
      then have "covers_file nfc mappings remote c"
        using matched_folder_None [OF False, where c = c and mappings = mappings and nfc = nfc] by auto
      with Some False show ?thesis by simp
    qed
  qed
qed simp

lemma library_matches_empty:
  "library_matches nfc c server libs = [] \<longleftrightarrow>
     \<not> (\<exists>lib \<in> set libs. \<exists>remote \<in> set (lib_remote_paths lib). covers_file nfc (srv_path_mappings server) remote c)"
proof -
  have "library_matches nfc c server libs = [] \<longleftrightarrow>
      (\<forall>lib \<in> set libs. library_match nfc (folder_bounded_path nfc c) (srv_path_mappings server) (lib_remote_paths lib) = None)"
    by (auto simp: library_matches_def List.map_filter_def filter_empty_conv)
  then show ?thesis unfolding library_match_None by blast
qed

text \<open>
  C24: a server publishes for a file exactly when it is enabled and one of its enabled libraries has
  a folder that, in some translation of the server's mappings, holds the file, as one of its path
  components and not as the beginning of a longer name.
\<close>

theorem server_owns_path_exact:
  "server_owns_path nfc c server \<noteq> None \<longleftrightarrow>
     srv_enabled server \<and>
     (\<exists>lib \<in> set (srv_libraries server). lib_enabled lib \<and>
        (\<exists>remote \<in> set (lib_remote_paths lib). covers_file nfc (srv_path_mappings server) remote c))"
proof -
  have "server_owns_path nfc c server \<noteq> None \<longleftrightarrow>
      srv_enabled server \<and> library_matches nfc c server (enabled_libraries server) \<noteq> []"
    by (auto simp: server_owns_path_def split: list.split)
  then show ?thesis unfolding library_matches_empty by (auto simp: enabled_libraries_def)
qed

lemma map_filter_filter: "set (List.map_filter f (filter P xs)) \<subseteq> set (List.map_filter f xs)"
  by (auto simp: List.map_filter_def)

text \<open>
  The preview dispatcher and Intro & Credits agree on who owns a file: every owning server's
  match is among the matches over all libraries, and there is one per owning server, in order.
\<close>

theorem owning_servers_are_library_matches:
  "set (find_owning_servers nfc c servers) \<subseteq> set (find_library_matches nfc c servers) \<and>
   map om_server_id (find_owning_servers nfc c servers) =
     map srv_id (filter (\<lambda>server. server_owns_path nfc c server \<noteq> None) servers)"
proof
  have id: "om_server_id m = srv_id server" if "m \<in> set (library_matches nfc c server libs)" for m server libs
    using that by (auto simp: library_matches_def List.map_filter_def)
  have own: "srv_enabled server \<and> m \<in> set (library_matches nfc c server (enabled_libraries server))"
    if "server_owns_path nfc c server = Some m" for server m
    using that by (auto simp: server_owns_path_def split: if_splits list.splits)
  show "set (find_owning_servers nfc c servers) \<subseteq> set (find_library_matches nfc c servers)"
  proof
    fix m assume "m \<in> set (find_owning_servers nfc c servers)"
    then obtain server where server: "server \<in> set servers" "server_owns_path nfc c server = Some m"
      by (auto simp: find_owning_servers_def List.map_filter_def)
    have "m \<in> set (library_matches nfc c server (srv_libraries server))"
      using own [OF server(2)] map_filter_filter
      unfolding library_matches_def enabled_libraries_def by fastforce
    then show "m \<in> set (find_library_matches nfc c servers)"
      using own [OF server(2)] server(1) by (auto simp: find_library_matches_def)
  qed
  show "map om_server_id (find_owning_servers nfc c servers) =
      map srv_id (filter (\<lambda>server. server_owns_path nfc c server \<noteq> None) servers)"
  proof (induction servers)
    case (Cons server servers)
    then show ?case
    proof (cases "server_owns_path nfc c server")
      case (Some m)
      with own id have "om_server_id m = srv_id server" by blast
      with Cons Some show ?thesis by (simp add: find_owning_servers_def List.map_filter_simps)
    qed (simp add: find_owning_servers_def List.map_filter_simps)
  qed (simp add: find_owning_servers_def List.map_filter_simps)
qed

section \<open>Candidates\<close>

















section \<open>Two defects of the prefix swap\<close>

text \<open>
  A mapping whose prefix is the root covers every path for the ownership check, and no path at all
  for the resolver.
\<close>

lemma root_prefix_never_matches:
  "\<not> path_matches_prefix id ''/media/x.mkv'' ''/'' \<and>
   swap_prefix id ''/media/x.mkv'' ''/'' ''/data'' = Some ''/data/media/x.mkv''"
  by code_simp

text \<open>
  \<open>swap_prefix\<close> compares normal forms and cuts the path as it is written.  Under a normalisation
  that composes a letter and its accent into one character, a path written with two is cut one
  character short: its last letter of the prefix stays behind.  (The resolver's \<open>under_prefix\<close> is
  given the normal form and does not.)
\<close>

fun compose_accent :: "string \<Rightarrow> string" where
  "compose_accent (a # b # s) =
     (if a = CHR ''e'' \<and> code b = 180 then char_of (233 :: nat) # compose_accent s
      else a # compose_accent (b # s))"
| "compose_accent s = s"

lemma swap_prefix_cuts_raw:
  "let decomposed = ''/me'' @ [char_of (180 :: nat)] @ ''dia''; composed = compose_accent decomposed in
     swap_prefix compose_accent (composed @ ''/x.mkv'') composed ''/data'' = Some ''/data/x.mkv'' \<and>
     swap_prefix compose_accent (decomposed @ ''/x.mkv'') composed ''/data'' = Some ''/dataa/x.mkv''"
  by code_simp

section \<open>Selectors\<close>

lemma add_new_set [simp]: "set (add_new x xs) = insert x (set xs)"
  by (auto simp: add_new_def)

lemma add_new_distinct [simp]: "distinct xs \<Longrightarrow> distinct (add_new x xs)"
  by (simp add: add_new_def)

definition selector_texts :: "(json \<Rightarrow> string) \<Rightarrow> json list \<Rightarrow> string set" where
  "selector_texts str_of vs = (\<lambda>v. strip (str_of v)) ` {v \<in> set vs. v \<noteq> JNull} - {[]}"

lemma split_selectors_fold:
  assumes "distinct (fst acc)" and "distinct (snd acc)"
  shows "distinct (fst (fold (split_selector str_of) vs acc)) \<and>
    distinct (snd (fold (split_selector str_of) vs acc)) \<and>
    set (fst (fold (split_selector str_of) vs acc)) =
      set (fst acc) \<union> {t \<in> selector_texts str_of vs. is_library_id_value t} \<and>
    set (snd (fold (split_selector str_of) vs acc)) =
      set (snd acc) \<union> lower ` {t \<in> selector_texts str_of vs. \<not> is_library_id_value t}"
  using assms
proof (induction vs arbitrary: acc)
  case (Cons v vs)
  let ?acc = "split_selector str_of v acc"
  have "distinct (fst ?acc)" "distinct (snd ?acc)"
    using Cons.prems by (simp_all add: split_selector_def Let_def)
  note ih = Cons.IH [OF this]
  show ?case
  proof (cases "v = JNull \<or> strip (str_of v) = []")
    case True
    then have "?acc = acc" "selector_texts str_of (v # vs) = selector_texts str_of vs"
      by (auto simp: split_selector_def selector_texts_def Let_def)
    with ih show ?thesis by simp
  next
    case False
    then have texts: "selector_texts str_of (v # vs) = insert (strip (str_of v)) (selector_texts str_of vs)"
      by (auto simp: selector_texts_def)
    show ?thesis using ih False unfolding texts
      by (cases "is_library_id_value (strip (str_of v))") (auto simp: split_selector_def Let_def)
  qed
qed (simp add: selector_texts_def)

text \<open>
  The selectors of a job are split without loss and without doubles: the ids are exactly the
  selectors that look like a library id of some vendor, the titles exactly the others in lower
  case; null and blank selectors alone are dropped.
\<close>

theorem split_library_selectors_exact:
  "distinct (fst (split_library_selectors str_of (JList vs))) \<and>
   distinct (snd (split_library_selectors str_of (JList vs))) \<and>
   set (fst (split_library_selectors str_of (JList vs))) =
     {t \<in> selector_texts str_of vs. is_library_id_value t} \<and>
   set (snd (split_library_selectors str_of (JList vs))) =
     lower ` {t \<in> selector_texts str_of vs. \<not> is_library_id_value t}"
  using split_selectors_fold [of "([], [])" str_of vs] by (simp add: split_library_selectors_def)

end
