(* ===== verification/Keyed_Locks.thy ===== *)
theory Keyed_Locks
  imports State_Machine
begin

text \<open>
  One lock per key, kept only while a caller holds or waits for it (\<open>markers/locks.py\<close>).  A caller
  is one activation of a \<open>hold\<close> or \<open>try_hold\<close> block, so a thread that nests blocks is several.
  A table entry (the list of a lock and its count) is an object of its own here, known by a number:
  a caller goes on using the object it got, while the last one to leave deletes by key.  Every
  guarded section and every operation of the lock is one step; \<open>None\<close> is the KeyError of \<open>del\<close> or
  the RuntimeError of releasing a lock that is not taken.
\<close>

section \<open>State\<close>

record lock_entry =
  le_taken :: bool
  le_callers :: int

datatype 'k stage =
    Outside
  | Waiting 'k nat
  | Holding 'k nat
  | Refused 'k nat
  | Leaving 'k nat

record 'k keyed_locks =
  kl_table :: "'k \<rightharpoonup> nat"
  kl_entries :: "nat \<Rightarrow> lock_entry"
  kl_fresh :: nat
  kl_at :: "nat \<Rightarrow> 'k stage"

definition new_locks :: "'k keyed_locks" where
  "new_locks = \<lparr>kl_table = Map.empty, kl_entries = \<lambda>_. \<lparr>le_taken = False, le_callers = 0\<rparr>,
                kl_fresh = 0, kl_at = \<lambda>_. Outside\<rparr>"

section \<open>Operations\<close>

definition move :: "nat \<Rightarrow> 'k stage \<Rightarrow> 'k keyed_locks \<Rightarrow> 'k keyed_locks" where
  "move c stage s = s\<lparr>kl_at := (kl_at s)(c := stage)\<rparr>"

definition change_entry :: "nat \<Rightarrow> (lock_entry \<Rightarrow> lock_entry) \<Rightarrow> 'k keyed_locks \<Rightarrow> 'k keyed_locks" where
  "change_entry e f s = s\<lparr>kl_entries := (kl_entries s)(e := f (kl_entries s e))\<rparr>"

text \<open>The entry of a key, made when there is none.\<close>

definition entry_for :: "'k \<Rightarrow> 'k keyed_locks \<Rightarrow> nat \<times> 'k keyed_locks" where
  "entry_for key s =
     (case kl_table s key of
        Some e \<Rightarrow> (e, s)
      | None \<Rightarrow> (kl_fresh s,
          s\<lparr>kl_table := (kl_table s)(key \<mapsto> kl_fresh s),
            kl_entries := (kl_entries s)(kl_fresh s := \<lparr>le_taken = False, le_callers = 0\<rparr>),
            kl_fresh := kl_fresh s + 1\<rparr>))"

definition enter_key :: "nat \<Rightarrow> 'k \<Rightarrow> 'k keyed_locks \<Rightarrow> 'k keyed_locks" where
  "enter_key c key s =
     (if kl_at s c \<noteq> Outside then s
      else (let (e, s1) = entry_for key s
            in move c (Waiting key e) (change_entry e (\<lambda>n. n\<lparr>le_callers := le_callers n + 1\<rparr>) s1)))"

text \<open>\<open>entry[0].acquire\<close>: whether the lock was free; a caller that finds it taken goes on waiting.\<close>

definition take_lock :: "nat \<Rightarrow> 'k keyed_locks \<Rightarrow> bool \<times> 'k keyed_locks" where
  "take_lock c s =
     (case kl_at s c of
        Waiting key e \<Rightarrow>
          if le_taken (kl_entries s e) then (False, s)
          else (True, move c (Holding key e) (change_entry e (\<lambda>n. n\<lparr>le_taken := True\<rparr>) s))
      | _ \<Rightarrow> (False, s))"

text \<open>\<open>while_waiting\<close> raised, or \<open>try_hold\<close>'s time is over: its block then runs without the lock.\<close>

definition give_up :: "nat \<Rightarrow> 'k keyed_locks \<Rightarrow> 'k keyed_locks" where
  "give_up c s = (case kl_at s c of Waiting key e \<Rightarrow> move c (Leaving key e) s | _ \<Rightarrow> s)"

definition time_out :: "nat \<Rightarrow> 'k keyed_locks \<Rightarrow> 'k keyed_locks" where
  "time_out c s = (case kl_at s c of Waiting key e \<Rightarrow> move c (Refused key e) s | _ \<Rightarrow> s)"

definition end_block :: "nat \<Rightarrow> 'k keyed_locks \<Rightarrow> 'k keyed_locks option" where
  "end_block c s =
     (case kl_at s c of
        Holding key e \<Rightarrow>
          if le_taken (kl_entries s e)
          then Some (move c (Leaving key e) (change_entry e (\<lambda>n. n\<lparr>le_taken := False\<rparr>) s))
          else None
      | Refused key e \<Rightarrow> Some (move c (Leaving key e) s)
      | _ \<Rightarrow> Some s)"

definition leave_key :: "nat \<Rightarrow> 'k keyed_locks \<Rightarrow> 'k keyed_locks option" where
  "leave_key c s =
     (case kl_at s c of
        Leaving key e \<Rightarrow>
          (let s1 = move c Outside (change_entry e (\<lambda>n. n\<lparr>le_callers := le_callers n - 1\<rparr>) s)
           in if le_callers (kl_entries s1 e) = 0
              then (case kl_table s1 key of
                      None \<Rightarrow> None
                    | Some _ \<Rightarrow> Some (s1\<lparr>kl_table := (kl_table s1)(key := None)\<rparr>))
              else Some s1)
      | _ \<Rightarrow> Some s)"

section \<open>Any interleaving\<close>

datatype 'k lock_event =
    Enter nat 'k
  | Take nat
  | Give_Up nat
  | Time_Out nat
  | End_Block nat
  | Leave_Key nat

fun locks_step :: "'k lock_event \<Rightarrow> 'k keyed_locks \<Rightarrow> 'k keyed_locks option" where
  "locks_step (Enter c key) s = Some (enter_key c key s)"
| "locks_step (Take c) s = Some (snd (take_lock c s))"
| "locks_step (Give_Up c) s = Some (give_up c s)"
| "locks_step (Time_Out c) s = Some (time_out c s)"
| "locks_step (End_Block c) s = end_block c s"
| "locks_step (Leave_Key c) s = leave_key c s"

definition locks_run :: "'k lock_event \<Rightarrow> 'k keyed_locks option \<Rightarrow> 'k keyed_locks option" where
  "locks_run e s = Option.bind s (locks_step e)"

abbreviation locks_reachable :: "'k keyed_locks option \<Rightarrow> bool" where
  "locks_reachable \<equiv> reachable (Some new_locks) (\<lambda>_. True) locks_run"

section \<open>The invariant\<close>

text \<open>The key and the entry object a caller works with.\<close>

fun place :: "'k stage \<Rightarrow> ('k \<times> nat) option" where
  "place Outside = None"
| "place (Waiting key e) = Some (key, e)"
| "place (Holding key e) = Some (key, e)"
| "place (Refused key e) = Some (key, e)"
| "place (Leaving key e) = Some (key, e)"

definition users :: "'k keyed_locks \<Rightarrow> 'k \<Rightarrow> nat set" where
  "users s key = {c. \<exists>e. place (kl_at s c) = Some (key, e)}"

definition holders :: "'k keyed_locks \<Rightarrow> 'k \<Rightarrow> nat set" where
  "holders s key = {c. \<exists>e. kl_at s c = Holding key e}"

text \<open>
  Every caller's entry is the one the table has for its key, no entry serves two keys, an entry
  counts its users, and it is taken exactly while one of them holds it.
\<close>

definition key_ok :: "'k keyed_locks \<Rightarrow> 'k \<Rightarrow> bool" where
  "key_ok s key \<longleftrightarrow>
     finite (users s key) \<and>
     (case kl_table s key of
        None \<Rightarrow> users s key = {}
      | Some e \<Rightarrow>
          e < kl_fresh s \<and> users s key \<noteq> {} \<and>
          (\<forall>c \<in> users s key. place (kl_at s c) = Some (key, e)) \<and>
          le_callers (kl_entries s e) = int (card (users s key)) \<and>
          card (holders s key) = (if le_taken (kl_entries s e) then 1 else 0))"

definition locks_inv :: "'k keyed_locks \<Rightarrow> bool" where
  "locks_inv s \<longleftrightarrow>
     inj_on (kl_table s) (dom (kl_table s)) \<and> (\<forall>key. key_ok s key)"

lemma holders_users: "holders s key \<subseteq> users s key"
  by (auto simp: holders_def users_def)

lemma users_at: "kl_at s' = (kl_at s)(c := stage) \<Longrightarrow>
    users s' key = (if \<exists>e. place stage = Some (key, e) then insert c (users s key) else users s key - {c})"
  by (auto simp: users_def)

lemma holders_at: "kl_at s' = (kl_at s)(c := stage) \<Longrightarrow>
    holders s' key = (if \<exists>e. stage = Holding key e then insert c (holders s key) else holders s key - {c})"
  by (auto simp: holders_def)

lemma holding_user: "c \<in> holders s key \<Longrightarrow> c \<in> users s key"
  by (rule subsetD [OF holders_users])

text \<open>A step of one caller at one key leaves the other keys as they were.\<close>

lemma key_ok_elsewhere:
  assumes ok: "key_ok s key'" and other: "key' \<noteq> key"
    and at': "kl_at s' = (kl_at s)(c := stage)"
    and before: "place (kl_at s c) = None \<or> place (kl_at s c) = Some (key, e)"
    and after: "place stage = None \<or> place stage = Some (key, e)"
    and same: "kl_table s' key' = kl_table s key'" "kl_fresh s \<le> kl_fresh s'"
    and entries: "\<And>e'. kl_table s key' = Some e' \<Longrightarrow> kl_entries s' e' = kl_entries s e'"
  shows "key_ok s' key'"
proof -
  have c: "c \<notin> users s key'" using before other by (auto simp: users_def)
  have "\<not> (\<exists>e. place stage = Some (key', e))" "\<not> (\<exists>e. stage = Holding key' e)"
    using after other by auto
  then have users': "users s' key' = users s key'" and holders': "holders s' key' = holders s key'"
    using c holding_user [of c s key'] by (auto simp: users_at [OF at'] holders_at [OF at'])
  have stay: "kl_at s' x = kl_at s x" if "x \<in> users s key'" for x
    using that c at' by auto
  show ?thesis
    using ok same entries stay unfolding key_ok_def users' holders'
    by (auto split: option.splits)
qed

lemma locks_inv_step:
  assumes inv: "locks_inv s"
    and at': "kl_at s' = (kl_at s)(c := stage)"
    and before: "place (kl_at s c) = None \<or> place (kl_at s c) = Some (key, e)"
    and after: "place stage = None \<or> place stage = Some (key, e)"
    and table: "\<And>key'. key' \<noteq> key \<Longrightarrow> kl_table s' key' = kl_table s key'"
      "kl_table s' key = None \<or> kl_table s' key = Some e"
    and own: "\<And>key'. key' \<noteq> key \<Longrightarrow> kl_table s key' \<noteq> Some e"
    and fresh: "kl_fresh s \<le> kl_fresh s'"
    and entries: "\<And>e'. e' \<noteq> e \<Longrightarrow> kl_entries s' e' = kl_entries s e'"
    and here: "key_ok s' key"
  shows "locks_inv s'"
  unfolding locks_inv_def
proof (intro conjI allI)
  have inj: "inj_on (kl_table s) (dom (kl_table s))" using inv by (simp add: locks_inv_def)
  show "inj_on (kl_table s') (dom (kl_table s'))"
  proof (rule inj_onI)
    fix x y assume xy: "x \<in> dom (kl_table s')" "y \<in> dom (kl_table s')" "kl_table s' x = kl_table s' y"
    show "x = y"
    proof (cases "x = key \<or> y = key")
      case True
      with xy table own show ?thesis by (metis domIff)
    next
      case False
      with xy table(1) inj show ?thesis by (metis domIff inj_onD)
    qed
  qed
  fix key'
  show "key_ok s' key'"
  proof (cases "key' = key")
    case False
    have "key_ok s key'" using inv by (simp add: locks_inv_def)
    from key_ok_elsewhere [OF this False at' before after table(1) [OF False] fresh] own [OF False] entries
    show ?thesis by metis
  qed (simp add: here)
qed

lemma inv_key_ok: "locks_inv s \<Longrightarrow> key_ok s key"
  by (simp add: locks_inv_def)

lemma inv_table_inj: "locks_inv s \<Longrightarrow> kl_table s k = Some e \<Longrightarrow> kl_table s k' = Some e \<Longrightarrow> k = k'"
  unfolding locks_inv_def by (metis domI inj_onD)

text \<open>What the invariant says of a caller inside a block.\<close>

lemma at_place:
  assumes "locks_inv s" and "place (kl_at s c) = Some (key, e)"
  shows "kl_table s key = Some e" "finite (users s key)" "c \<in> users s key" "e < kl_fresh s"
    "\<forall>x \<in> users s key. place (kl_at s x) = Some (key, e)"
    "le_callers (kl_entries s e) = int (card (users s key))"
    "card (holders s key) = (if le_taken (kl_entries s e) then 1 else 0)"
    "\<And>key'. key' \<noteq> key \<Longrightarrow> kl_table s key' \<noteq> Some e"
proof -
  show c: "c \<in> users s key" using assms(2) by (auto simp: users_def)
  have ok: "key_ok s key" using assms(1) by (rule inv_key_ok)
  obtain e' where e': "kl_table s key = Some e'"
    using ok c unfolding key_ok_def by (cases "kl_table s key") auto
  have "place (kl_at s c) = Some (key, e')" using ok c e' by (auto simp: key_ok_def)
  then have "e' = e" using assms(2) by simp
  with e' show t: "kl_table s key = Some e" by simp
  show "finite (users s key)" "e < kl_fresh s" "\<forall>x \<in> users s key. place (kl_at s x) = Some (key, e)"
    "le_callers (kl_entries s e) = int (card (users s key))"
    "card (holders s key) = (if le_taken (kl_entries s e) then 1 else 0)"
    using ok t by (auto simp: key_ok_def)
  show "\<And>key'. key' \<noteq> key \<Longrightarrow> kl_table s key' \<noteq> Some e"
    using inv_table_inj [OF assms(1) t] by metis
qed

text \<open>A caller that moves on with its key keeps the count; only its hold on the lock may change.\<close>

lemma stay_inv:
  assumes inv: "locks_inv s" and c: "place (kl_at s c) = Some (key, e)" "place stage = Some (key, e)"
    and s': "kl_at s' = (kl_at s)(c := stage)" "kl_table s' = kl_table s" "kl_fresh s' = kl_fresh s"
      "\<And>e'. e' \<noteq> e \<Longrightarrow> kl_entries s' e' = kl_entries s e'"
      "le_callers (kl_entries s' e) = le_callers (kl_entries s e)"
    and held: "card (holders s' key) = (if le_taken (kl_entries s' e) then 1 else 0)"
  shows "locks_inv s'"
proof (rule locks_inv_step [OF inv s'(1)])
  note at = at_place [OF inv c(1)]
  show "place (kl_at s c) = None \<or> place (kl_at s c) = Some (key, e)"
    "place stage = None \<or> place stage = Some (key, e)"
    using c by simp_all
  show "\<And>key'. key' \<noteq> key \<Longrightarrow> kl_table s' key' = kl_table s key'"
    "kl_table s' key = None \<or> kl_table s' key = Some e"
    using at(1) s' by simp_all
  show "\<And>key'. key' \<noteq> key \<Longrightarrow> kl_table s key' \<noteq> Some e" by (rule at(8))
  have users': "users s' key = users s key"
    using users_at [OF s'(1)] c(2) at(3) by (simp add: insert_absorb)
  have places: "place (kl_at s' x) = Some (key, e)" if "x \<in> users s key" for x
    using that at(5) c(2) s'(1) by simp
  show "key_ok s' key"
    using at s' held places by (auto simp: key_ok_def users')
qed (use s' in simp_all)

lemma move_at: "kl_at (move c stage s) = (kl_at s)(c := stage)"
  and move_rest: "kl_table (move c stage s) = kl_table s" "kl_fresh (move c stage s) = kl_fresh s"
    "kl_entries (move c stage s) = kl_entries s"
  by (simp_all add: move_def)

lemma change_entry_rest: "kl_table (change_entry e f s) = kl_table s"
  "kl_fresh (change_entry e f s) = kl_fresh s" "kl_at (change_entry e f s) = kl_at s"
  "kl_entries (change_entry e f s) = (kl_entries s)(e := f (kl_entries s e))"
  by (simp_all add: change_entry_def)

lemmas step_fields = move_at move_rest change_entry_rest

lemma no_holder: "locks_inv s \<Longrightarrow> place (kl_at s c) = Some (key, e) \<Longrightarrow> \<not> le_taken (kl_entries s e) \<Longrightarrow>
    holders s key = {}"
  using at_place(2,7) [of s c key e] finite_subset [OF holders_users [of s key]] by simp

lemma holder_alone:
  assumes "locks_inv s" and "kl_at s c = Holding key e"
  shows "holders s key = {c}" "le_taken (kl_entries s e)"
proof -
  have p: "place (kl_at s c) = Some (key, e)" using assms(2) by simp
  have c: "c \<in> holders s key" using assms(2) by (auto simp: holders_def)
  moreover have "finite (holders s key)"
    by (rule finite_subset [OF holders_users at_place(2) [OF assms(1) p]])
  ultimately have "card (holders s key) \<noteq> 0" by auto
  then show "le_taken (kl_entries s e)" using at_place(7) [OF assms(1) p] by (simp split: if_splits)
  then have "card (holders s key) = 1" using at_place(7) [OF assms(1) p] by simp
  with c show "holders s key = {c}" by (auto simp: card_1_singleton_iff)
qed

lemma take_lock_inv:
  assumes inv: "locks_inv s"
  shows "locks_inv (snd (take_lock c s))"
proof (cases "kl_at s c")
  case (Waiting key e)
  show ?thesis
  proof (cases "le_taken (kl_entries s e)")
    case False
    let ?s = "move c (Holding key e) (change_entry e (\<lambda>n. n\<lparr>le_taken := True\<rparr>) s)"
    have p: "place (kl_at s c) = Some (key, e)" using Waiting by simp
    have "locks_inv ?s"
    proof (rule stay_inv [OF inv p, of "Holding key e"])
      have "holders ?s key = {c}"
        using holders_at [of ?s s c "Holding key e"] no_holder [OF inv p False] by (simp add: step_fields)
      then show "card (holders ?s key) = (if le_taken (kl_entries ?s e) then 1 else 0)"
        by (simp add: step_fields)
    qed (simp_all add: step_fields)
    with Waiting False show ?thesis by (simp add: take_lock_def)
  qed (use Waiting inv in \<open>simp add: take_lock_def\<close>)
qed (use inv in \<open>simp_all add: take_lock_def\<close>)

lemma move_waiting_inv:
  assumes inv: "locks_inv s" and at: "kl_at s c = Waiting key e \<or> kl_at s c = Refused key e"
    and stage: "place stage = Some (key, e)" "\<And>k e. stage \<noteq> Holding k e"
  shows "locks_inv (move c stage s)"
proof (rule stay_inv [OF inv _ stage(1)])
  show p: "place (kl_at s c) = Some (key, e)" using at by auto
  have "c \<notin> holders s key" using at by (auto simp: holders_def)
  then have "holders (move c stage s) key = holders s key"
    using holders_at [of "move c stage s" s c stage] stage(2) by (simp add: step_fields)
  then show "card (holders (move c stage s) key) = (if le_taken (kl_entries (move c stage s) e) then 1 else 0)"
    using at_place(7) [OF inv p] by (simp add: step_fields)
qed (simp_all add: step_fields)

lemma end_block_inv:
  assumes inv: "locks_inv s"
  shows "\<exists>s'. end_block c s = Some s' \<and> locks_inv s'"
proof (cases "kl_at s c")
  case (Holding key e)
  let ?s = "move c (Leaving key e) (change_entry e (\<lambda>n. n\<lparr>le_taken := False\<rparr>) s)"
  note alone = holder_alone [OF inv Holding]
  have p: "place (kl_at s c) = Some (key, e)" using Holding by simp
  have "locks_inv ?s"
  proof (rule stay_inv [OF inv p, of "Leaving key e"])
    have "holders ?s key = {}"
      using holders_at [of ?s s c "Leaving key e"] alone(1) by (simp add: step_fields)
    then show "card (holders ?s key) = (if le_taken (kl_entries ?s e) then 1 else 0)"
      by (simp add: step_fields)
  qed (simp_all add: step_fields)
  with Holding alone(2) show ?thesis by (simp add: end_block_def)
next
  case (Refused key e)
  then show ?thesis using move_waiting_inv [OF inv] by (simp add: end_block_def)
qed (use inv in \<open>simp_all add: end_block_def\<close>)

lemma entry_for_fields:
  "kl_at (snd (entry_for key s)) = kl_at s"
  "kl_table (snd (entry_for key s)) = (kl_table s)(key \<mapsto> fst (entry_for key s))"
  "kl_fresh s \<le> kl_fresh (snd (entry_for key s))"
  "e' \<noteq> fst (entry_for key s) \<Longrightarrow> kl_entries (snd (entry_for key s)) e' = kl_entries s e'"
  by (auto simp: entry_for_def split: option.split)

lemma entry_for_ok:
  assumes inv: "locks_inv s" and "entry_for key s = (e, s1)"
  shows "e < kl_fresh s1" "finite (users s key)" "le_callers (kl_entries s1 e) = int (card (users s key))"
    "card (holders s key) = (if le_taken (kl_entries s1 e) then 1 else 0)"
    "\<forall>x \<in> users s key. place (kl_at s x) = Some (key, e)"
    "\<And>key'. key' \<noteq> key \<Longrightarrow> kl_table s key' \<noteq> Some e"
proof -
  have ok: "key_ok s key" by (rule inv_key_ok [OF inv])
  have none: "holders s key = {}" if "users s key = {}" using holders_users [of s key] that by simp
  have all: "e < kl_fresh s1 \<and> (\<forall>x \<in> users s key. place (kl_at s x) = Some (key, e)) \<and>
    finite (users s key) \<and> le_callers (kl_entries s1 e) = int (card (users s key)) \<and>
    card (holders s key) = (if le_taken (kl_entries s1 e) then 1 else 0)"
  proof (cases "kl_table s key")
    case None
    with ok have u: "users s key = {}" by (simp add: key_ok_def)
    with None none assms(2) show ?thesis by (auto simp: entry_for_def)
  next
    case (Some e')
    with assms(2) have "e = e'" "s1 = s" by (simp_all add: entry_for_def)
    with ok Some show ?thesis by (simp add: key_ok_def)
  qed
  then show "e < kl_fresh s1" "finite (users s key)" "le_callers (kl_entries s1 e) = int (card (users s key))"
    "card (holders s key) = (if le_taken (kl_entries s1 e) then 1 else 0)"
    by blast+
  show "\<forall>x \<in> users s key. place (kl_at s x) = Some (key, e)" using all by blast
  show "kl_table s key' \<noteq> Some e" if "key' \<noteq> key" for key'
  proof (cases "kl_table s key")
    case None
    have "key_ok s key'" by (rule inv_key_ok [OF inv])
    with None assms(2) show ?thesis by (auto simp: entry_for_def key_ok_def)
  next
    case (Some e')
    with assms(2) have "e = e'" by (simp add: entry_for_def)
    with that inv_table_inj [OF inv Some] show ?thesis by blast
  qed
qed

lemma enter_key_inv:
  assumes inv: "locks_inv s"
  shows "locks_inv (enter_key c key s)"
proof (cases "kl_at s c = Outside")
  case True
  let ?e = "fst (entry_for key s)" and ?s1 = "snd (entry_for key s)"
  let ?s = "move c (Waiting key ?e) (change_entry ?e (\<lambda>n. n\<lparr>le_callers := le_callers n + 1\<rparr>) ?s1)"
  note fields = entry_for_fields [where key = key and s = s]
  note ok = entry_for_ok [OF inv prod.collapse [symmetric], where key = key]
  have c: "c \<notin> users s key" using True by (simp add: users_def)
  have at': "kl_at ?s = (kl_at s)(c := Waiting key ?e)" by (simp add: step_fields fields)
  have users': "users ?s key = insert c (users s key)" using users_at [OF at', of key] by simp
  have holders': "holders ?s key = holders s key"
    using holders_at [OF at', of key] c holding_user [of c s key] by auto
  have places: "place (kl_at ?s x) = Some (key, ?e)" if "x \<in> insert c (users s key)" for x
    using that ok(5) by (auto simp: at')
  have "locks_inv ?s"
  proof (rule locks_inv_step [OF inv at'])
    show "key_ok ?s key"
      using ok(1-4) c places by (auto simp: key_ok_def users' holders' step_fields fields)
    show "\<And>key'. key' \<noteq> key \<Longrightarrow> kl_table s key' \<noteq> Some ?e" by (rule ok(6))
  qed (use True in \<open>simp_all add: step_fields fields\<close>)
  with True show ?thesis by (simp add: enter_key_def split_beta)
qed (simp add: enter_key_def inv)

lemma leave_key_inv:
  assumes inv: "locks_inv s"
  shows "\<exists>s'. leave_key c s = Some s' \<and> locks_inv s'"
proof (cases "kl_at s c")
  case (Leaving key e)
  let ?s1 = "move c Outside (change_entry e (\<lambda>n. n\<lparr>le_callers := le_callers n - 1\<rparr>) s)"
  have p: "place (kl_at s c) = Some (key, e)" using Leaving by simp
  note at = at_place [OF inv p]
  have result: "leave_key c s =
      Some (if le_callers (kl_entries s e) = 1 then ?s1\<lparr>kl_table := (kl_table s)(key := None)\<rparr> else ?s1)"
    using Leaving at(1) by (simp add: leave_key_def Let_def step_fields)
  then obtain s' where s': "leave_key c s = Some s'" "kl_at s' = (kl_at s)(c := Outside)"
    "kl_table s' = (if le_callers (kl_entries s e) = 1 then (kl_table s)(key := None) else kl_table s)"
    "kl_fresh s' = kl_fresh s"
    "kl_entries s' = (kl_entries s)(e := (kl_entries s e)\<lparr>le_callers := le_callers (kl_entries s e) - 1\<rparr>)"
    by (intro that [of "if le_callers (kl_entries s e) = 1 then ?s1\<lparr>kl_table := (kl_table s)(key := None)\<rparr> else ?s1"])
      (simp_all add: step_fields)
  have users': "users s' key = users s key - {c}" using users_at [OF s'(2), of key] by simp
  have "c \<notin> holders s key" using Leaving by (simp add: holders_def)
  then have holders': "holders s' key = holders s key" using holders_at [OF s'(2), of key] by simp
  have count: "le_callers (kl_entries s e) - 1 = int (card (users s key - {c}))"
    using at(2,3,6) card_Suc_Diff1 [of "users s key" c] by simp
  have "le_callers (kl_entries s e) = 1 \<longleftrightarrow> card (users s key - {c}) = 0" using count by linarith
  also have "\<dots> \<longleftrightarrow> users s key - {c} = {}" by (rule card_0_eq) (simp add: at(2))
  finally have empty: "le_callers (kl_entries s e) = 1 \<longleftrightarrow> users s key - {c} = {}" .
  have places: "place (kl_at s' x) = Some (key, e)" if "x \<in> users s key - {c}" for x
    using that at(5) by (simp add: s'(2))
  have "locks_inv s'"
  proof (rule locks_inv_step [OF inv s'(2)])
    show "key_ok s' key"
    proof (cases "users s key - {c} = {}")
      case True
      with empty s'(3) show ?thesis unfolding key_ok_def users' True by simp
    next
      case False
      then have "kl_table s' key = Some e" using empty at(1) s'(3) by simp
      with at(2,4,7) False places count s'(4,5) show ?thesis by (simp add: key_ok_def users' holders')
    qed
    show "\<And>key'. key' \<noteq> key \<Longrightarrow> kl_table s key' \<noteq> Some e" by (rule at(8))
  qed (use p at(1) s' in \<open>auto split: if_splits\<close>)
  with s'(1) show ?thesis by blast
qed (use inv in \<open>simp_all add: leave_key_def\<close>)

lemma new_locks_inv: "locks_inv new_locks"
  by (simp add: locks_inv_def key_ok_def new_locks_def users_def)

definition locks_good :: "'k keyed_locks option \<Rightarrow> bool" where
  "locks_good s \<longleftrightarrow> (\<exists>t. s = Some t \<and> locks_inv t)"

lemma locks_run_good:
  assumes "locks_good s"
  shows "locks_good (locks_run e s)"
proof -
  obtain t where t: "s = Some t" "locks_inv t" using assms by (auto simp: locks_good_def)
  have waiting: "locks_inv (give_up c t)" "locks_inv (time_out c t)" for c
    using move_waiting_inv [OF t(2)] t(2)
    by (cases "kl_at t c"; simp add: give_up_def time_out_def)+
  show ?thesis
    using t enter_key_inv take_lock_inv end_block_inv leave_key_inv waiting
    by (cases e) (simp_all add: locks_run_def locks_good_def)
qed

interpretation locks: invariant_machine "Some new_locks :: 'k keyed_locks option" "\<lambda>_. True" locks_run locks_good
  by unfold_locales (simp add: locks_good_def new_locks_inv, rule locks_run_good)

section \<open>What callers rely on\<close>

definition busy :: "'k keyed_locks \<Rightarrow> 'k set" where
  "busy s = {key. \<exists>c e. place (kl_at s c) = Some (key, e)}"

text \<open>
  C21: whatever callers do, no operation raises (neither the KeyError of \<open>del\<close> nor the RuntimeError of
  releasing a free lock), at most one caller holds a key at a time, also across deletions and new
  entries of the same key, and the table keeps an entry for exactly the keys somebody holds, waits
  for or is leaving.
\<close>

theorem keyed_locks_exclusive:
  assumes "locks_reachable s"
  shows "\<exists>t. s = Some t \<and> dom (kl_table t) = busy t \<and>
    {(a, b). \<exists>key ea eb. a \<noteq> b \<and> kl_at t a = Holding key ea \<and> kl_at t b = Holding key eb} = {}"
proof -
  obtain t where t: "s = Some t" "locks_inv t"
    using locks.always [OF assms] by (auto simp: locks_good_def)
  have "dom (kl_table t) = busy t"
  proof (intro set_eqI)
    fix key
    have "key_ok t key" by (rule inv_key_ok [OF t(2)])
    then have "kl_table t key = None \<longleftrightarrow> users t key = {}"
      by (auto simp: key_ok_def split: option.splits)
    then show "key \<in> dom (kl_table t) \<longleftrightarrow> key \<in> busy t"
      by (auto simp: busy_def users_def)
  qed
  moreover have "a = b" if "kl_at t a = Holding key ea" "kl_at t b = Holding key eb" for a b key ea eb
    using holder_alone(1) [OF t(2) that(1)] holder_alone(1) [OF t(2) that(2)] by simp
  ultimately show ?thesis using t(1) by blast
qed

text \<open>Two callers at one key: the second waits, gives up its turn to a third, and the entry goes.\<close>

definition sample_events :: "string lock_event list" where
  "sample_events = [Enter 1 ''a'', Take 1, Enter 2 ''a'', Take 2, Enter 3 ''b'', Take 3, End_Block 1,
     Leave_Key 1, Take 2]"

lemma sample_locks_reachable: "locks_reachable (fold locks_run sample_events (Some new_locks))"
  by (rule reachable_runs) (simp add: list_all_iff)

lemma sample_locks_end: "map_option (\<lambda>t. (kl_at t 2, kl_table t ''a'', kl_table t ''b'', kl_at t 3))
    (fold locks_run sample_events (Some new_locks)) = Some (Holding ''a'' 0, Some 0, Some 1, Holding ''b'' 1)"
  by code_simp

theorem keyed_locks_exclusive_witness:
  "(\<exists>t. fold locks_run sample_events (Some new_locks) = Some t \<and> dom (kl_table t) = busy t) \<and>
   map_option (\<lambda>t. kl_at t 2) (fold locks_run sample_events (Some new_locks)) = Some (Holding ''a'' 0)"
  using keyed_locks_exclusive [OF sample_locks_reachable] sample_locks_end by auto

text \<open>
  Nobody waits for a key nobody holds: when no caller holds the key, the next attempt of any
  caller waiting for it takes the lock, and one that comes while it is held is turned away.
\<close>

theorem waiting_caller_takes_free_key:
  assumes "locks_reachable (Some s)" and "kl_at s c = Waiting key e"
  shows "fst (take_lock c s) \<longleftrightarrow> holders s key = {}"
proof -
  have inv: "locks_inv s" using locks.always [OF assms(1)] by (simp add: locks_good_def)
  have p: "place (kl_at s c) = Some (key, e)" using assms(2) by simp
  have "finite (holders s key)" by (rule finite_subset [OF holders_users at_place(2) [OF inv p]])
  then have "le_taken (kl_entries s e) \<longleftrightarrow> holders s key \<noteq> {}"
    using at_place(7) [OF inv p] by (auto split: if_splits)
  with assms(2) show ?thesis by (simp add: take_lock_def)
qed

theorem waiting_caller_takes_free_key_witness:
  "\<exists>s. fold locks_run (butlast sample_events) (Some new_locks) = Some s \<and>
     kl_at s 2 = Waiting ''a'' 0 \<and> fst (take_lock 2 s) \<and> holders s ''a'' = {}"
proof -
  have run: "map_option (\<lambda>t. (kl_at t 2, fst (take_lock 2 t)))
      (fold locks_run (butlast sample_events) (Some new_locks)) = Some (Waiting ''a'' 0, True)"
    by code_simp
  then obtain s where s: "fold locks_run (butlast sample_events) (Some new_locks) = Some s"
    and at: "kl_at s 2 = Waiting ''a'' 0" "fst (take_lock 2 s)"
    by auto
  have "locks_reachable (Some s)"
    unfolding s [symmetric] by (rule reachable_runs) (simp add: list_all_iff)
  from waiting_caller_takes_free_key [OF this at(1)] at s show ?thesis by blast
qed

end
