(* ===== verification/Worker_Pool.thy ===== *)
theory Worker_Pool
  imports Worker_Groups "HOL-Library.AList"
begin

text \<open>
  The shared pool of workers (\<open>WorkerPool\<close>, \<open>jobs/worker.py\<close>) and what the node registry says of members on
  nodes (\<open>jobs/node_members.py\<close>).  A worker object is its number; its names, ffmpeg threads, progress and its
  place in the list of GPUs are left out.  A dictionary is the list of its pairs.  The current minute of the week
  and the monotonic clock are arguments; an exception is \<open>None\<close>.
\<close>

section \<open>Nodes\<close>

record node_gpu =
  ng_device :: "string option"
  ng_status :: string

record node_view =
  nv_name :: string
  nv_state :: string
  nv_gpus :: "node_gpu list"

record node_capacity =
  nc_cpu :: bool
  nc_gpu :: bool
  nc_reason :: string

record node_hardware =
  nh_views :: "(string \<times> node_view option) list"
  nh_capacities :: "(string \<times> node_capacity) list"

record member_hardware =
  mh_available :: bool
  mh_reason :: string
  mh_node_name :: string
  mh_gpu :: "nat option"

definition REASON_NODE_REMOVED :: string where "REASON_NODE_REMOVED = ''node removed''"
definition REASON_NODE_UNKNOWN :: string where "REASON_NODE_UNKNOWN = ''node status unavailable''"
definition REASON_GPU_MISSING :: string where "REASON_GPU_MISSING = ''GPU not found on this node''"

definition EMPTY_NODE_HARDWARE :: node_hardware where
  "EMPTY_NODE_HARDWARE = \<lparr>nh_views = [], nh_capacities = []\<rparr>"

text \<open>\<open>if policy.get("node")\<close>: an empty name is no node.\<close>

definition node_of_policy :: "policy \<Rightarrow> string option" where
  "node_of_policy p = (case p_node p of Some (c # cs) \<Rightarrow> Some (c # cs) | _ \<Rightarrow> None)"

definition node_name :: "node_hardware \<Rightarrow> string \<Rightarrow> string" where
  "node_name nodes n =
     (case map_of (nh_views nodes) n of
        Some (Some v) \<Rightarrow> if nv_name v = [] then n else nv_name v
      | _ \<Rightarrow> n)"

definition listed_gpu :: "string option \<Rightarrow> node_gpu \<Rightarrow> bool" where
  "listed_gpu device g \<longleftrightarrow> ng_device g = device \<and> ng_status g \<noteq> ''failed''"

definition node_member :: "node_hardware \<Rightarrow> string \<Rightarrow> policy \<Rightarrow> member_hardware" where
  "node_member nodes n p =
     (let name = node_name nodes n
      in case map_of (nh_capacities nodes) n of
           None \<Rightarrow> \<lparr>mh_available = False, mh_reason = REASON_NODE_REMOVED, mh_node_name = name, mh_gpu = None\<rparr>
         | Some capacity \<Rightarrow>
             let reason = (if nc_reason capacity = [] then REASON_NODE_UNKNOWN else nc_reason capacity);
                 gpus = (case map_of (nh_views nodes) n of Some (Some v) \<Rightarrow> nv_gpus v | _ \<Rightarrow> [])
             in if p_resource p = ''cpu''
                then \<lparr>mh_available = nc_cpu capacity, mh_reason = (if nc_cpu capacity then [] else reason),
                       mh_node_name = name, mh_gpu = None\<rparr>
                else if \<not> nc_gpu capacity
                then \<lparr>mh_available = False, mh_reason = reason, mh_node_name = name, mh_gpu = None\<rparr>
                else (case find (\<lambda>i. listed_gpu (p_device p) (gpus ! i)) [0..<length gpus] of
                        Some i \<Rightarrow> \<lparr>mh_available = True, mh_reason = [], mh_node_name = name, mh_gpu = Some i\<rparr>
                      | None \<Rightarrow> \<lparr>mh_available = False, mh_reason = REASON_GPU_MISSING, mh_node_name = name, mh_gpu = None\<rparr>))"

definition member_can_come_back :: "node_hardware \<Rightarrow> string \<Rightarrow> policy \<Rightarrow> bool" where
  "member_can_come_back nodes n p =
     (case map_of (nh_views nodes) n of
        None \<Rightarrow> False
      | Some None \<Rightarrow>
          (case map_of (nh_capacities nodes) n of
             None \<Rightarrow> False
           | Some capacity \<Rightarrow> nc_reason capacity = REASON_NODE_UNKNOWN)
      | Some (Some v) \<Rightarrow>
          mh_available (node_member nodes n p) \<or> nv_state v \<in> {''offline'', ''connecting'', ''gpu_lost''})"

text \<open>\<open>view\<close> and \<open>capacity\<close> are the registry's answers, \<open>None\<close> when it fails.\<close>

definition read_node_hardware ::
  "(string \<Rightarrow> node_view option option) \<Rightarrow> (string \<Rightarrow> node_capacity option) \<Rightarrow> policy list \<Rightarrow> node_hardware" where
  "read_node_hardware view capacity policies =
     (let node_ids = dedupe (List.map_filter node_of_policy policies);
          answer = (\<lambda>n. case (view n, capacity n) of
             (Some v, Some c) \<Rightarrow> (v, c)
           | _ \<Rightarrow> (None, \<lparr>nc_cpu = False, nc_gpu = False, nc_reason = REASON_NODE_UNKNOWN\<rparr>))
      in if node_ids = [] then EMPTY_NODE_HARDWARE
         else \<lparr>nh_views = map (\<lambda>n. (n, fst (answer n))) node_ids,
               nh_capacities = map (\<lambda>n. (n, snd (answer n))) node_ids\<rparr>)"

definition member_detected :: "policy \<Rightarrow> string list \<Rightarrow> node_hardware \<Rightarrow> bool" where
  "member_detected p devices nodes =
     (case node_of_policy p of
        Some n \<Rightarrow> mh_available (node_member nodes n p)
      | None \<Rightarrow> p_resource p = ''cpu'' \<or> (case p_device p of None \<Rightarrow> False | Some d \<Rightarrow> d \<in> set devices))"

section \<open>Workers\<close>

record pool_worker =
  wk_id :: nat
  wk_gpu :: bool
  wk_node :: "string option"
  wk_device :: "string option"
  wk_busy :: bool
  wk_job :: string
  wk_retiring :: bool
  wk_policy :: string
  wk_resource :: string
  wk_kinds :: "string list option"

record selected_gpu =
  sg_device :: string
  sg_workers :: int

text \<open>\<open>wp_pending\<close> counts the removals put off, of GPU workers (\<open>True\<close>) and of CPU workers.\<close>

record worker_pool =
  wp_workers :: "pool_worker list"
  wp_gpus :: "selected_gpu list"
  wp_next_gpu :: nat
  wp_next_id :: nat
  wp_pending :: "bool \<Rightarrow> int"
  wp_policies :: "(string \<times> policy) list option"
  wp_targets :: "(string \<times> int) list"
  wp_resources :: "(string \<times> int) list"
  wp_revision :: "int option"
  wp_nodes :: node_hardware
  wp_suspects :: "(string \<times> rat) list"

definition new_worker :: "nat \<Rightarrow> bool \<Rightarrow> string option \<Rightarrow> string option \<Rightarrow> pool_worker" where
  "new_worker n gpu node device =
     \<lparr>wk_id = n, wk_gpu = gpu, wk_node = node, wk_device = device, wk_busy = False, wk_job = [], wk_retiring = False,
      wk_policy = [], wk_resource = member_resource_key (if gpu then ''gpu'' else ''cpu'') device node, wk_kinds = None\<rparr>"

definition is_available :: "pool_worker \<Rightarrow> bool" where
  "is_available w \<longleftrightarrow> \<not> wk_busy w \<and> \<not> wk_retiring w"

text \<open>\<open>_create_worker\<close>: a GPU worker takes the next GPU of the list; \<open>None\<close> when there is none.\<close>

definition create_worker :: "bool \<Rightarrow> worker_pool \<Rightarrow> (pool_worker \<times> worker_pool) option" where
  "create_worker gpu pool =
     (let n = wp_next_id pool; pool = pool\<lparr>wp_next_id := n + 1\<rparr>
      in if \<not> gpu then Some (new_worker n False None None, pool)
         else if wp_gpus pool = [] then None
         else
           (let g = wp_gpus pool ! (wp_next_gpu pool mod length (wp_gpus pool))
            in Some (new_worker n True None (Some (sg_device g)), pool\<lparr>wp_next_gpu := wp_next_gpu pool + 1\<rparr>)))"

definition create_node_worker :: "policy \<Rightarrow> string \<Rightarrow> worker_pool \<Rightarrow> pool_worker \<times> worker_pool" where
  "create_node_worker p n pool =
     (let gpu = (p_resource p = ''gpu'')
      in (new_worker (wp_next_id pool) gpu (Some n) (if gpu then p_device p else None),
          pool\<lparr>wp_next_id := wp_next_id pool + 1\<rparr>))"

section \<open>Members' targets\<close>

definition policy_key :: "policy \<Rightarrow> string" where
  "policy_key p = member_resource_key (p_resource p) (p_device p) (p_node p)"

definition policies_by_id :: "group_entry list \<Rightarrow> (string \<times> policy) list" where
  "policies_by_id groups = fold (\<lambda>p. AList.update (p_id p) p) (member_policies groups) []"

definition policy_open :: "nat \<Rightarrow> policy \<Rightarrow> bool option" where
  "policy_open now p = group_is_available (p_enabled p) (p_availability p) now"

definition target_of :: "nat \<Rightarrow> string list \<Rightarrow> node_hardware \<Rightarrow> policy \<Rightarrow> int" where
  "target_of now devices nodes p =
     (if policy_open now p = Some True \<and> member_detected p devices nodes then p_count p else 0)"

definition dict_add :: "string \<Rightarrow> int \<Rightarrow> (string \<times> int) list \<Rightarrow> (string \<times> int) list" where
  "dict_add k n d = AList.update k ((case map_of d k of None \<Rightarrow> 0 | Some m \<Rightarrow> m) + n) d"

definition resource_targets :: "(string \<times> policy) list \<Rightarrow> (policy \<Rightarrow> int) \<Rightarrow> (string \<times> int) list" where
  "resource_targets by_id target = fold (\<lambda>(pid, p). dict_add (policy_key p) (target p)) by_id []"

definition target_in :: "(string \<times> int) list \<Rightarrow> string \<Rightarrow> int" where
  "target_in targets k = (case map_of targets k of None \<Rightarrow> 0 | Some n \<Rightarrow> n)"

section \<open>Reconciling with the saved groups\<close>

text \<open>A worker whose member is gone, or has another resource now, goes at once or when it has finished.\<close>

definition drop_unowned :: "(string \<times> policy) list \<Rightarrow> pool_worker list \<Rightarrow> pool_worker list" where
  "drop_unowned by_id ws = List.map_filter (\<lambda>w.
     if (case map_of by_id (wk_policy w) of None \<Rightarrow> False | Some p \<Rightarrow> wk_resource w = policy_key p) then Some w
     else if wk_busy w then Some (w\<lparr>wk_retiring := True\<rparr>) else None) ws"

definition owned_by :: "string \<Rightarrow> string \<Rightarrow> pool_worker \<Rightarrow> bool" where
  "owned_by pid key w \<longleftrightarrow> wk_policy w = pid \<and> wk_resource w = key"

text \<open>The order \<open>(retiring, not busy)\<close>, False before True.\<close>

definition keep_order :: "pool_worker \<Rightarrow> nat" where
  "keep_order w = 2 * of_bool (wk_retiring w) + of_bool (\<not> wk_busy w)"

definition settle_owned :: "string \<Rightarrow> policy \<Rightarrow> nat \<Rightarrow> pool_worker list \<Rightarrow> pool_worker list" where
  "settle_owned pid p desired ws =
     (let owned = filter (owned_by pid (policy_key p)) ws;
          kept = map wk_id (take desired (sort_key keep_order owned))
      in List.map_filter (\<lambda>w.
           if \<not> owned_by pid (policy_key p) w then Some w
           else
             (let w = w\<lparr>wk_kinds := Some (p_job_types p)\<rparr>
              in if wk_id w \<in> set kept then Some (w\<lparr>wk_retiring := False\<rparr>)
                 else if wk_busy w then Some (w\<lparr>wk_retiring := True\<rparr>) else None)) ws)"

text \<open>A new slot of a member; \<open>None\<close> when its GPU is not in the list.\<close>

definition gpu_position :: "selected_gpu list \<Rightarrow> string option \<Rightarrow> nat option" where
  "gpu_position gpus device = find (\<lambda>i. Some (sg_device (gpus ! i)) = device) [0..<length gpus]"

definition add_member_slot :: "string \<Rightarrow> policy \<Rightarrow> worker_pool \<Rightarrow> worker_pool option" where
  "add_member_slot pid p pool =
     map_option (\<lambda>(w, pool). pool\<lparr>wp_workers := wp_workers pool @
         [w\<lparr>wk_policy := pid, wk_resource := policy_key p, wk_kinds := Some (p_job_types p)\<rparr>]\<rparr>)
       (case node_of_policy p of
          Some n \<Rightarrow> Some (create_node_worker p n pool)
        | None \<Rightarrow>
            if p_resource p = ''gpu''
            then (case gpu_position (wp_gpus pool) (p_device p) of
                    None \<Rightarrow> None
                  | Some i \<Rightarrow> create_worker True (pool\<lparr>wp_next_gpu := i\<rparr>))
            else create_worker (p_resource p \<noteq> ''cpu'') pool)"

fun add_member_slots :: "nat \<Rightarrow> string \<Rightarrow> policy \<Rightarrow> worker_pool \<Rightarrow> worker_pool option" where
  "add_member_slots 0 pid p pool = Some pool"
| "add_member_slots (Suc n) pid p pool =
     (case add_member_slot pid p pool of None \<Rightarrow> None | Some pool \<Rightarrow> add_member_slots n pid p pool)"

definition reconcile_member :: "string \<Rightarrow> policy \<Rightarrow> nat \<Rightarrow> worker_pool \<Rightarrow> worker_pool option" where
  "reconcile_member pid p desired pool =
     (let owned = length (filter (owned_by pid (policy_key p)) (wp_workers pool))
      in add_member_slots (desired - owned) pid p
           (pool\<lparr>wp_workers := settle_owned pid p desired (wp_workers pool)\<rparr>))"

fun reconcile_members :: "(string \<times> policy) list \<Rightarrow> (string \<times> int) list \<Rightarrow> worker_pool \<Rightarrow> worker_pool option" where
  "reconcile_members [] targets pool = Some pool"
| "reconcile_members ((pid, p) # rest) targets pool =
     (case reconcile_member pid p (nat (target_in targets pid)) pool of
        None \<Rightarrow> None
      | Some pool \<Rightarrow> reconcile_members rest targets pool)"

text \<open>
  \<open>reconcile_groups\<close>: a revision older than the pool's changes nothing.  The answer is \<open>None\<close> when a window of a
  group cannot be read or a slot cannot be made.
\<close>

definition reconcile_groups ::
  "group_entry list \<Rightarrow> node_hardware \<Rightarrow> selected_gpu list option \<Rightarrow> nat \<Rightarrow> int option \<Rightarrow> worker_pool
    \<Rightarrow> worker_pool option" where
  "reconcile_groups groups nodes gpus now revision pool =
     (let by_id = policies_by_id groups
      in if (case (revision, wp_revision pool) of (Some new, Some old) \<Rightarrow> new < old | _ \<Rightarrow> False) then Some pool
         else
           (let gpus = (case gpus of None \<Rightarrow> wp_gpus pool | Some gs \<Rightarrow> gs);
                devices = map sg_device gpus;
                targets = map (\<lambda>(pid, p). (pid, target_of now devices nodes p)) by_id
            in if \<exists>(pid, p) \<in> set by_id. policy_open now p = None then None
               else reconcile_members by_id targets
                 (pool\<lparr>wp_revision := (case revision of None \<Rightarrow> wp_revision pool | Some r \<Rightarrow> Some r),
                    wp_policies := Some by_id, wp_targets := targets,
                    wp_resources := resource_targets by_id (target_of now devices nodes), wp_nodes := nodes,
                    wp_gpus := gpus, wp_pending := (\<lambda>_. 0), wp_workers := drop_unowned by_id (wp_workers pool)\<rparr>)))"

section \<open>Which worker may take a file\<close>

definition busy_on :: "string \<Rightarrow> worker_pool \<Rightarrow> int" where
  "busy_on resource pool = int (length (filter (\<lambda>w. wk_busy w \<and> wk_resource w = resource) (wp_workers pool)))"

definition member_open :: "nat \<Rightarrow> worker_pool \<Rightarrow> pool_worker \<Rightarrow> bool" where
  "member_open now pool w \<longleftrightarrow>
     (case wp_policies pool of
        None \<Rightarrow> True
      | Some by_id \<Rightarrow>
          wk_policy w \<noteq> [] \<and> target_in (wp_targets pool) (wk_policy w) > 0 \<and>
          (case map_of by_id (wk_policy w) of None \<Rightarrow> False | Some p \<Rightarrow> policy_open now p = Some True))"

definition worker_supports_kind :: "nat \<Rightarrow> string \<Rightarrow> bool \<Rightarrow> worker_pool \<Rightarrow> pool_worker \<Rightarrow> bool" where
  "worker_supports_kind now kind budget pool w \<longleftrightarrow>
     \<not> (kind = JOB_KIND_LOUDNESS \<and> wk_gpu w) \<and>
     (case wk_kinds w of None \<Rightarrow> True | Some kinds \<Rightarrow> kind \<in> set kinds) \<and>
     member_open now pool w \<and>
     (wp_policies pool = None \<or> \<not> budget \<or> busy_on (wk_resource w) pool < target_in (wp_resources pool) (wk_resource w))"

definition is_suspect :: "worker_pool \<Rightarrow> rat \<Rightarrow> string \<Rightarrow> bool" where
  "is_suspect pool clock n = (case map_of (wp_suspects pool) n of None \<Rightarrow> False | Some until \<Rightarrow> clock < until)"

definition by_type :: "pool_worker list \<Rightarrow> pool_worker list" where
  "by_type ws = filter wk_gpu ws @ filter (\<lambda>w. \<not> wk_gpu w) ws"

definition may_take ::
  "nat \<Rightarrow> rat \<Rightarrow> bool \<Rightarrow> string \<Rightarrow> string set \<Rightarrow> string set \<Rightarrow> worker_pool \<Rightarrow> pool_worker \<Rightarrow> bool" where
  "may_take now clock cpu_only kind exclude_nodes exclude_gpus pool w \<longleftrightarrow>
     \<not> (cpu_only \<and> wk_gpu w) \<and>
     (case wk_node w of None \<Rightarrow> True | Some n \<Rightarrow> n \<notin> exclude_nodes \<and> \<not> is_suspect pool clock n) \<and>
     \<not> (exclude_gpus \<noteq> {} \<and> (\<not> wk_gpu w \<or> wk_resource w \<in> exclude_gpus)) \<and>
     is_available w \<and> worker_supports_kind now kind True pool w"

definition find_available_worker ::
  "nat \<Rightarrow> rat \<Rightarrow> bool \<Rightarrow> string \<Rightarrow> string set \<Rightarrow> string set \<Rightarrow> worker_pool \<Rightarrow> pool_worker option" where
  "find_available_worker now clock cpu_only kind exclude_nodes exclude_gpus pool =
     find (may_take now clock cpu_only kind exclude_nodes exclude_gpus pool) (by_type (wp_workers pool))"

definition change_worker :: "nat \<Rightarrow> (pool_worker \<Rightarrow> pool_worker) \<Rightarrow> worker_pool \<Rightarrow> worker_pool" where
  "change_worker n f pool = pool\<lparr>wp_workers := map (\<lambda>w. if wk_id w = n then f w else w) (wp_workers pool)\<rparr>"

text \<open>\<open>claim=True\<close>: the worker is busy before another caller may look.\<close>

definition claim_worker_of :: "pool_worker \<Rightarrow> worker_pool \<Rightarrow> worker_pool" where
  "claim_worker_of w = change_worker (wk_id w) (\<lambda>w. w\<lparr>wk_busy := True\<rparr>)"

definition give_worker_back :: "pool_worker \<Rightarrow> worker_pool \<Rightarrow> worker_pool" where
  "give_worker_back w = change_worker (wk_id w) (\<lambda>w. w\<lparr>wk_busy := False\<rparr>)"

definition assign_job :: "pool_worker \<Rightarrow> string \<Rightarrow> worker_pool \<Rightarrow> worker_pool" where
  "assign_job w job = change_worker (wk_id w) (\<lambda>w. w\<lparr>wk_busy := True, wk_job := job\<rparr>)"

definition can_run_outside :: "string \<Rightarrow> string set \<Rightarrow> worker_pool \<Rightarrow> bool" where
  "can_run_outside kind exclude_nodes pool =
     (case wp_policies pool of
        None \<Rightarrow>
          let nodes = map wk_node (filter (\<lambda>w. \<not> wk_retiring w \<and> \<not> (kind = JOB_KIND_LOUDNESS \<and> wk_gpu w) \<and>
                (case wk_kinds w of None \<Rightarrow> True | Some kinds \<Rightarrow> kind \<in> set kinds)) (wp_workers pool))
          in nodes = [] \<or> list_ex (\<lambda>n. case n of None \<Rightarrow> True | Some n \<Rightarrow> n \<notin> exclude_nodes) nodes
      | Some by_id \<Rightarrow>
          let configured = filter (\<lambda>p. p_enabled p \<and> p_count p > 0 \<and> policy_supports_job p kind) (map snd by_id);
              devices = map sg_device (wp_gpus pool);
              coming = filter (\<lambda>p. case node_of_policy p of
                   Some n \<Rightarrow> member_can_come_back (wp_nodes pool) n p
                 | None \<Rightarrow> member_detected p devices (wp_nodes pool)) configured
          in configured = [] \<or>
             list_ex (\<lambda>p. case p_node p of None \<Rightarrow> True | Some n \<Rightarrow> n \<notin> exclude_nodes) coming)"

definition runs_kind_outside :: "nat \<Rightarrow> string \<Rightarrow> string set \<Rightarrow> worker_pool \<Rightarrow> bool" where
  "runs_kind_outside now kind exclude_nodes pool =
     list_ex (\<lambda>w. \<not> wk_retiring w \<and> (case wk_node w of None \<Rightarrow> True | Some n \<Rightarrow> n \<notin> exclude_nodes) \<and>
       worker_supports_kind now kind False pool w) (wp_workers pool)"

definition runs_kind_on_other_gpu ::
  "nat \<Rightarrow> string \<Rightarrow> string set \<Rightarrow> string set \<Rightarrow> string set \<Rightarrow> worker_pool \<Rightarrow> bool" where
  "runs_kind_on_other_gpu now kind exclude_gpus exclude_nodes frozen_jobs pool =
     list_ex (\<lambda>w. wk_gpu w \<and> \<not> wk_retiring w \<and> wk_resource w \<notin> exclude_gpus \<and>
       (case wk_node w of None \<Rightarrow> True | Some n \<Rightarrow> n \<notin> exclude_nodes) \<and>
       \<not> (wk_busy w \<and> wk_job w \<in> frozen_jobs) \<and> worker_supports_kind now kind False pool w) (wp_workers pool)"

definition has_capacity_for :: "nat \<Rightarrow> string \<Rightarrow> worker_pool \<Rightarrow> bool" where
  "has_capacity_for now kind pool =
     (case wp_policies pool of
        None \<Rightarrow> True
      | Some by_id \<Rightarrow> list_ex (\<lambda>(pid, p). target_in (wp_targets pool) pid > 0 \<and> policy_supports_job p kind \<and>
            policy_open now p = Some True) by_id)"

definition stuck_node_members :: "string \<Rightarrow> string set \<Rightarrow> worker_pool \<Rightarrow> string list" where
  "stuck_node_members kind exclude_nodes pool =
     dedupe (List.map_filter (\<lambda>(pid, p). case node_of_policy p of
        None \<Rightarrow> None
      | Some n \<Rightarrow>
          if n \<notin> exclude_nodes \<and> p_enabled p \<and> p_count p > 0 \<and> policy_supports_job p kind \<and>
             \<not> member_can_come_back (wp_nodes pool) n p
          then Some (node_name (wp_nodes pool) n @ '' ('' @ mh_reason (node_member (wp_nodes pool) n p) @ '')'')
          else None) (case wp_policies pool of None \<Rightarrow> [] | Some by_id \<Rightarrow> by_id))"

definition not_visible_failure :: "string \<Rightarrow> (string \<times> string) list \<Rightarrow> worker_pool \<Rightarrow> string" where
  "not_visible_failure kind excluded pool =
     (let failure = ''not visible on '' @ join '', '' (map snd excluded);
          stuck = stuck_node_members kind (fst ` set excluded) pool
      in if stuck = [] then failure else failure @ ''; no other worker can take it: '' @ join '', '' stuck)"

section \<open>Suspect nodes\<close>

definition SUSPECT_NODE_S :: rat where "SUSPECT_NODE_S = 300"

definition mark_node_suspect :: "string \<Rightarrow> rat \<Rightarrow> worker_pool \<Rightarrow> worker_pool" where
  "mark_node_suspect n clock pool =
     pool\<lparr>wp_suspects := AList.update n (clock + SUSPECT_NODE_S) (wp_suspects pool)\<rparr>"

text \<open>\<open>suspects\<close> is the copy made before the registry was asked; a drop marked meanwhile stays.\<close>

definition clear_suspects ::
  "(string \<times> rat) list \<Rightarrow> rat \<Rightarrow> (string \<Rightarrow> bool) \<Rightarrow> worker_pool \<Rightarrow> worker_pool" where
  "clear_suspects suspects clock checked_ready pool =
     pool\<lparr>wp_suspects := filter (\<lambda>(n, until).
       \<not> (map_of suspects n = Some until \<and> (clock \<ge> until \<or> checked_ready n))) (wp_suspects pool)\<rparr>"

section \<open>Finished and retired workers\<close>

text \<open>\<open>check_completion\<close> of a worker whose thread has ended.\<close>

definition reap_worker :: "nat \<Rightarrow> worker_pool \<Rightarrow> worker_pool" where
  "reap_worker n = change_worker n (\<lambda>w. w\<lparr>wk_busy := False\<rparr>)"

definition without_worker :: "nat \<Rightarrow> worker_pool \<Rightarrow> worker_pool" where
  "without_worker n pool = pool\<lparr>wp_workers := filter (\<lambda>w. wk_id w \<noteq> n) (wp_workers pool)\<rparr>"

definition retire_idle :: "nat \<Rightarrow> worker_pool \<Rightarrow> bool \<times> worker_pool" where
  "retire_idle n pool =
     (case find (\<lambda>w. wk_id w = n) (wp_workers pool) of
        None \<Rightarrow> (False, pool)
      | Some w \<Rightarrow>
          if wk_busy w then (False, pool)
          else if wk_retiring w then (True, without_worker n pool)
          else if wp_pending pool (wk_gpu w) \<le> 0 then (False, pool)
          else (True, (without_worker n pool)\<lparr>wp_pending := (wp_pending pool)(wk_gpu w := wp_pending pool (wk_gpu w) - 1)\<rparr>))"

definition apply_deferred_removals :: "worker_pool \<Rightarrow> worker_pool" where
  "apply_deferred_removals pool = fold (\<lambda>w pool. snd (retire_idle (wk_id w) pool)) (wp_workers pool) pool"

section \<open>Pools without worker groups\<close>

fun append_workers :: "nat \<Rightarrow> bool \<Rightarrow> worker_pool \<Rightarrow> worker_pool option" where
  "append_workers 0 gpu pool = Some pool"
| "append_workers (Suc n) gpu pool =
     (case create_worker gpu pool of
        None \<Rightarrow> None
      | Some (w, pool) \<Rightarrow> append_workers n gpu (pool\<lparr>wp_workers := wp_workers pool @ [w]\<rparr>))"

definition add_workers :: "bool \<Rightarrow> int \<Rightarrow> worker_pool \<Rightarrow> worker_pool option" where
  "add_workers gpu n pool = (if wp_policies pool \<noteq> None then None else append_workers (nat n) gpu pool)"

record removal =
  rm_removed :: int
  rm_scheduled :: int
  rm_unavailable :: int

definition remove_workers :: "bool \<Rightarrow> int \<Rightarrow> worker_pool \<Rightarrow> (removal \<times> worker_pool) option" where
  "remove_workers gpu n pool =
     (if wp_policies pool \<noteq> None then None
      else if n \<le> 0 then Some (\<lparr>rm_removed = 0, rm_scheduled = 0, rm_unavailable = 0\<rparr>, pool)
      else
        (let matches = filter (\<lambda>w. wk_gpu w = gpu) (wp_workers pool);
             idle = take (nat n) (filter (\<lambda>w. \<not> wk_busy w) matches);
             busy = filter wk_busy matches;
             removed = int (length idle);
             scheduled = min (n - removed) (int (length busy));
             gone = set (map wk_id idle)
         in Some (\<lparr>rm_removed = removed, rm_scheduled = scheduled, rm_unavailable = max 0 (n - int (length matches))\<rparr>,
              pool\<lparr>wp_workers := filter (\<lambda>w. wk_id w \<notin> gone) (wp_workers pool),
                   wp_pending := (wp_pending pool)(gpu := wp_pending pool gpu + scheduled)\<rparr>)))"

text \<open>
  With worker groups, both reconcile the groups saved now (\<open>current\<close>, the answer of \<open>current_group_policy\<close>), or the
  pool's own policies when there are none saved.
\<close>

definition groups_now :: "group_entry list option \<Rightarrow> (string \<times> policy) list \<Rightarrow> group_entry list" where
  "groups_now current by_id = (case current of None \<Rightarrow> map (\<lambda>(pid, p). Already p) by_id | Some groups \<Rightarrow> groups)"

definition reconcile_cpu_workers ::
  "group_entry list option \<Rightarrow> node_hardware \<Rightarrow> nat \<Rightarrow> int \<Rightarrow> worker_pool \<Rightarrow> worker_pool option" where
  "reconcile_cpu_workers current nodes now desired pool =
     (case wp_policies pool of
        Some by_id \<Rightarrow> reconcile_groups (groups_now current by_id) nodes (Some (wp_gpus pool)) now None pool
      | None \<Rightarrow>
        (let desired = max 0 desired;
             cpus = int (length (filter (\<lambda>w. \<not> wk_gpu w) (wp_workers pool)));
             pending = wp_pending pool False;
             effective = cpus - pending
         in if desired > effective
            then (let cancelled = min pending (desired - effective)
                  in add_workers False (desired - effective - cancelled)
                       (pool\<lparr>wp_pending := (wp_pending pool)(False := pending - cancelled)\<rparr>))
            else if desired < effective then map_option snd (remove_workers False (effective - desired) pool)
            else Some pool))"

text \<open>\<open>reconcile_gpu_workers\<close>, one device after the other.\<close>

definition on_device :: "string \<Rightarrow> pool_worker \<Rightarrow> bool" where
  "on_device d w \<longleftrightarrow> wk_gpu w \<and> wk_device w = Some d \<and> d \<noteq> []"

definition retire_device :: "string set \<Rightarrow> pool_worker list \<Rightarrow> pool_worker list" where
  "retire_device devices ws = List.map_filter (\<lambda>w.
     if wk_gpu w \<and> (case wk_device w of None \<Rightarrow> False | Some d \<Rightarrow> d \<noteq> [] \<and> d \<notin> devices)
     then (if wk_busy w then Some (w\<lparr>wk_retiring := True\<rparr>) else None) else Some w) ws"

definition shrink_device :: "string \<Rightarrow> nat \<Rightarrow> pool_worker list \<Rightarrow> pool_worker list" where
  "shrink_device d excess ws =
     (let staying = filter (\<lambda>w. on_device d w \<and> \<not> wk_retiring w) ws;
          gone = set (map wk_id (take excess (sort_key (\<lambda>w. of_bool (wk_busy w) :: nat) staying)))
      in List.map_filter (\<lambda>w. if wk_id w \<notin> gone then Some w
           else if wk_busy w then Some (w\<lparr>wk_retiring := True\<rparr>) else None) ws)"

definition revive_device :: "string \<Rightarrow> nat \<Rightarrow> pool_worker list \<Rightarrow> pool_worker list" where
  "revive_device d n ws =
     (let kept = set (map wk_id (take n (filter (\<lambda>w. on_device d w \<and> wk_retiring w) ws)))
      in map (\<lambda>w. if wk_id w \<in> kept then w\<lparr>wk_retiring := False\<rparr> else w) ws)"

definition put_gpu :: "selected_gpu \<Rightarrow> selected_gpu list \<Rightarrow> selected_gpu list" where
  "put_gpu g gpus =
     (case gpu_position gpus (Some (sg_device g)) of None \<Rightarrow> gpus @ [g] | Some i \<Rightarrow> gpus[i := g])"

fun append_on_gpu :: "nat \<Rightarrow> nat \<Rightarrow> worker_pool \<Rightarrow> worker_pool option" where
  "append_on_gpu 0 i pool = Some pool"
| "append_on_gpu (Suc n) i pool =
     (case create_worker True (pool\<lparr>wp_next_gpu := i\<rparr>) of
        None \<Rightarrow> None
      | Some (w, pool) \<Rightarrow> append_on_gpu n i (pool\<lparr>wp_workers := wp_workers pool @ [w]\<rparr>))"

definition reconcile_device :: "selected_gpu \<Rightarrow> worker_pool \<Rightarrow> worker_pool option" where
  "reconcile_device g pool =
     (let d = sg_device g; desired = sg_workers g;
          staying = int (length (filter (\<lambda>w. on_device d w \<and> \<not> wk_retiring w) (wp_workers pool)));
          retiring = int (length (filter (\<lambda>w. on_device d w \<and> wk_retiring w) (wp_workers pool)))
      in if staying > desired
         then Some (pool\<lparr>wp_workers := shrink_device d (nat (staying - desired)) (wp_workers pool)\<rparr>)
         else if staying < desired
         then
           (let kept = min retiring (desired - staying);
                gpus = put_gpu g (wp_gpus pool)
            in case gpu_position gpus (Some d) of
                 None \<Rightarrow> None
               | Some i \<Rightarrow> append_on_gpu (nat (desired - staying - kept)) i
                   (pool\<lparr>wp_workers := revive_device d (nat (desired - staying)) (wp_workers pool), wp_gpus := gpus\<rparr>))
         else Some pool)"

fun reconcile_devices :: "selected_gpu list \<Rightarrow> worker_pool \<Rightarrow> worker_pool option" where
  "reconcile_devices [] pool = Some pool"
| "reconcile_devices (g # gs) pool =
     (case reconcile_device g pool of None \<Rightarrow> None | Some pool \<Rightarrow> reconcile_devices gs pool)"

definition gpus_by_device :: "selected_gpu list \<Rightarrow> selected_gpu list" where
  "gpus_by_device gpus = map snd (fold (\<lambda>g. AList.update (sg_device g) g) gpus [])"

definition reconcile_gpu_workers ::
  "group_entry list option \<Rightarrow> node_hardware \<Rightarrow> nat \<Rightarrow> selected_gpu list \<Rightarrow> worker_pool \<Rightarrow> worker_pool option" where
  "reconcile_gpu_workers current nodes now gpus pool =
     (case wp_policies pool of
        Some by_id \<Rightarrow> reconcile_groups (groups_now current by_id) nodes (Some gpus) now None pool
      | None \<Rightarrow> map_option (\<lambda>pool. pool\<lparr>wp_gpus := gpus, wp_next_gpu := 0\<rparr>)
        (reconcile_devices (gpus_by_device gpus)
          (pool\<lparr>wp_pending := (wp_pending pool)(True := 0),
             wp_workers := retire_device (set (map sg_device gpus)) (wp_workers pool)\<rparr>)))"

end
