(* ===== verification/Pool_Reconcile.thy ===== *)
theory Pool_Reconcile
  imports Worker_Pool
begin

text \<open>
  Reconciling the pool with the saved worker groups: every member ends with exactly its target of workers that
  stay, and a worker with a task is never taken away.
\<close>

section \<open>Pools\<close>

definition pool_ok :: "worker_pool \<Rightarrow> bool" where
  "pool_ok pool \<longleftrightarrow> distinct (map wk_id (wp_workers pool)) \<and> (\<forall>w \<in> set (wp_workers pool). wk_id w < wp_next_id pool)"

text \<open>Every worker with a task is still there, on the same job.\<close>

definition busy_stay :: "pool_worker list \<Rightarrow> pool_worker list \<Rightarrow> bool" where
  "busy_stay ws ws' \<longleftrightarrow>
     (\<forall>w \<in> set ws. wk_busy w \<longrightarrow> (\<exists>w' \<in> set ws'. wk_id w' = wk_id w \<and> wk_busy w' \<and> wk_job w' = wk_job w))"

lemma busy_stay_refl [simp]: "busy_stay ws ws"
  by (auto simp: busy_stay_def)

lemma busy_stay_trans: "busy_stay a b \<Longrightarrow> busy_stay b c \<Longrightarrow> busy_stay a c"
  unfolding busy_stay_def by fastforce

lemma busy_stay_append [simp]: "busy_stay ws (ws @ new)"
  by (auto simp: busy_stay_def)

definition staying :: "string \<Rightarrow> policy \<Rightarrow> pool_worker \<Rightarrow> bool" where
  "staying pid p w \<longleftrightarrow> owned_by pid (policy_key p) w \<and> \<not> wk_retiring w"

section \<open>Lists of workers\<close>

lemma map_filter_ids:
  assumes "\<And>w w'. f w = Some w' \<Longrightarrow> wk_id w' = wk_id w"
  shows "map wk_id (List.map_filter f ws) = map wk_id (filter (\<lambda>w. f w \<noteq> None) ws)"
  by (induction ws) (auto simp: map_filter_simps assms split: option.split)

lemma pool_ok_map_filter:
  assumes "pool_ok pool" "\<And>w w'. f w = Some w' \<Longrightarrow> wk_id w' = wk_id w" "wp_next_id pool' = wp_next_id pool"
    "wp_workers pool' = List.map_filter f (wp_workers pool)"
  shows "pool_ok pool'"
proof -
  have "distinct (map wk_id (filter (\<lambda>w. f w \<noteq> None) (wp_workers pool)))"
    using assms(1) by (simp add: pool_ok_def distinct_map_filter)
  moreover have "\<forall>w \<in> set (List.map_filter f (wp_workers pool)). wk_id w < wp_next_id pool"
    using assms(1,2) by (fastforce simp: pool_ok_def in_map_filter)
  ultimately show ?thesis using assms(3,4) by (simp add: pool_ok_def map_filter_ids [OF assms(2)])
qed

lemma distinct_ids_length:
  assumes "distinct (map wk_id ws)" "distinct ids" "set ids \<subseteq> wk_id ` {w \<in> set ws. P w}"
  shows "length (filter (\<lambda>w. P w \<and> wk_id w \<in> set ids) ws) = length ids"
proof -
  let ?kept = "filter (\<lambda>w. P w \<and> wk_id w \<in> set ids) ws"
  have "distinct (map wk_id ?kept)" using assms(1) by (rule distinct_map_filter)
  then have "length ?kept = card (wk_id ` set ?kept)" using distinct_card [of "map wk_id ?kept"] by (simp only: length_map set_map)
  also have "wk_id ` set ?kept = set ids" using assms(3) by auto
  also have "card (set ids) = length ids" using assms(2) by (rule distinct_card)
  finally show ?thesis .
qed

section \<open>One member\<close>

definition settle_one :: "string \<Rightarrow> policy \<Rightarrow> nat list \<Rightarrow> pool_worker \<Rightarrow> pool_worker option" where
  "settle_one pid p kept w =
     (if \<not> owned_by pid (policy_key p) w then Some w
      else
        (let w = w\<lparr>wk_kinds := Some (p_job_types p)\<rparr>
         in if wk_id w \<in> set kept then Some (w\<lparr>wk_retiring := False\<rparr>)
            else if wk_busy w then Some (w\<lparr>wk_retiring := True\<rparr>) else None))"

definition kept_ids :: "string \<Rightarrow> policy \<Rightarrow> nat \<Rightarrow> pool_worker list \<Rightarrow> nat list" where
  "kept_ids pid p desired ws = map wk_id (take desired (sort_key keep_order (filter (owned_by pid (policy_key p)) ws)))"

lemma settle_owned_eq: "settle_owned pid p desired ws = List.map_filter (settle_one pid p (kept_ids pid p desired ws)) ws"
  by (simp add: settle_owned_def settle_one_def [abs_def] kept_ids_def Let_def)

lemma settle_one_id: "settle_one pid p kept w = Some w' \<Longrightarrow> wk_id w' = wk_id w"
  by (auto simp: settle_one_def Let_def split: if_splits)

lemma settle_staying:
  "length (filter (staying pid p) (List.map_filter (settle_one pid p kept) ws)) =
     length (filter (\<lambda>w. owned_by pid (policy_key p) w \<and> wk_id w \<in> set kept) ws)"
  by (induction ws) (auto simp: map_filter_simps settle_one_def staying_def owned_by_def Let_def)

lemma settle_owned_staying:
  assumes "distinct (map wk_id ws)"
  shows "length (filter (staying pid p) (settle_owned pid p desired ws)) =
    min desired (length (filter (owned_by pid (policy_key p)) ws))"
proof -
  let ?owned = "filter (owned_by pid (policy_key p)) ws"
  let ?ids = "kept_ids pid p desired ws"
  have "distinct (map wk_id (sort_key keep_order ?owned))"
    using distinct_map_filter [OF assms, of "owned_by pid (policy_key p)"]
    by (simp add: distinct_map)
  then have "distinct ?ids" by (simp add: kept_ids_def flip: take_map)
  moreover have "set ?ids \<subseteq> wk_id ` {w \<in> set ws. owned_by pid (policy_key p) w}"
    by (auto simp: kept_ids_def dest: in_set_takeD)
  ultimately show ?thesis
    using distinct_ids_length [OF assms, of ?ids "owned_by pid (policy_key p)"]
    by (simp add: settle_owned_eq settle_staying) (simp add: kept_ids_def)
qed

lemma settle_one_other:
  assumes "pid' \<noteq> pid"
  shows "filter (staying pid' p') (List.map_filter (settle_one pid p kept) ws) = filter (staying pid' p') ws"
  by (induction ws) (use assms in \<open>auto simp: map_filter_simps settle_one_def staying_def owned_by_def Let_def\<close>)

lemma settle_other:
  "pid' \<noteq> pid \<Longrightarrow> filter (staying pid' p') (settle_owned pid p desired ws) = filter (staying pid' p') ws"
  by (simp add: settle_owned_eq settle_one_other)

lemma settle_busy: "busy_stay ws (settle_owned pid p desired ws)"
  unfolding busy_stay_def settle_owned_eq
proof (intro ballI impI)
  fix w assume w: "w \<in> set ws" "wk_busy w"
  have "\<exists>w'. settle_one pid p (kept_ids pid p desired ws) w = Some w' \<and> wk_id w' = wk_id w \<and> wk_busy w' \<and> wk_job w' = wk_job w"
    using w(2) by (simp add: settle_one_def Let_def)
  then obtain w' where "settle_one pid p (kept_ids pid p desired ws) w = Some w'" "wk_id w' = wk_id w" "wk_busy w'" "wk_job w' = wk_job w"
    by blast
  moreover from this w(1) have "w' \<in> set (List.map_filter (settle_one pid p (kept_ids pid p desired ws)) ws)"
    unfolding in_map_filter by blast
  ultimately show "\<exists>w' \<in> set (List.map_filter (settle_one pid p (kept_ids pid p desired ws)) ws).
      wk_id w' = wk_id w \<and> wk_busy w' \<and> wk_job w' = wk_job w" by blast
qed

text \<open>What a step does to the settings of the pool: nothing.\<close>

definition same_settings :: "worker_pool \<Rightarrow> worker_pool \<Rightarrow> bool" where
  "same_settings a b \<longleftrightarrow>
     wp_policies b = wp_policies a \<and> wp_targets b = wp_targets a \<and> wp_resources b = wp_resources a \<and>
     wp_nodes b = wp_nodes a \<and> wp_gpus b = wp_gpus a \<and> wp_pending b = wp_pending a \<and> wp_suspects b = wp_suspects a \<and>
     wp_revision b = wp_revision a"

lemma same_settings_trans: "same_settings a b \<Longrightarrow> same_settings b c \<Longrightarrow> same_settings a c"
  by (simp add: same_settings_def)

definition fresh_slot :: "string \<Rightarrow> policy \<Rightarrow> pool_worker \<Rightarrow> bool" where
  "fresh_slot pid p w \<longleftrightarrow> owned_by pid (policy_key p) w \<and> \<not> wk_retiring w \<and> \<not> wk_busy w"

definition new_slot :: "worker_pool \<Rightarrow> pool_worker \<Rightarrow> worker_pool \<Rightarrow> bool" where
  "new_slot pool w pool' \<longleftrightarrow>
     wk_id w = wp_next_id pool \<and> wp_next_id pool' = Suc (wp_next_id pool) \<and> wp_workers pool' = wp_workers pool \<and>
     \<not> wk_busy w \<and> \<not> wk_retiring w \<and> same_settings pool pool'"

lemma create_worker_new: "create_worker gpu pool = Some (w, pool') \<Longrightarrow> new_slot pool w pool'"
  by (auto simp: create_worker_def new_worker_def new_slot_def same_settings_def Let_def split: if_splits)

lemma create_node_worker_new: "create_node_worker p n pool = (w, pool') \<Longrightarrow> new_slot pool w pool'"
  by (auto simp: create_node_worker_def new_worker_def new_slot_def same_settings_def Let_def)

lemma new_slot_next_gpu: "new_slot (pool\<lparr>wp_next_gpu := i\<rparr>) w pool' \<Longrightarrow> new_slot pool w pool'"
  by (simp add: new_slot_def same_settings_def)

lemma add_member_slot_adds:
  assumes "add_member_slot pid p pool = Some pool'" "pool_ok pool"
  shows "\<exists>w. wp_workers pool' = wp_workers pool @ [w] \<and> fresh_slot pid p w \<and> pool_ok pool' \<and> same_settings pool pool'"
proof -
  obtain w pool1 where slot: "new_slot pool w pool1"
    and pool': "pool' = pool1\<lparr>wp_workers := wp_workers pool1 @
         [w\<lparr>wk_policy := pid, wk_resource := policy_key p, wk_kinds := Some (p_job_types p)\<rparr>]\<rparr>"
    using assms(1) unfolding add_member_slot_def
    by (auto split: option.splits if_splits dest: create_worker_new create_node_worker_new new_slot_next_gpu
        simp: prod.case_eq_if)
  from slot have made: "wk_id w = wp_next_id pool" "wp_next_id pool1 = Suc (wp_next_id pool)"
      "wp_workers pool1 = wp_workers pool" "\<not> wk_busy w" "\<not> wk_retiring w" "same_settings pool pool1"
    by (simp_all add: new_slot_def)
  let ?w = "w\<lparr>wk_policy := pid, wk_resource := policy_key p, wk_kinds := Some (p_job_types p)\<rparr>"
  have "wp_workers pool' = wp_workers pool @ [?w] \<and> fresh_slot pid p ?w"
    using made pool' by (simp add: fresh_slot_def owned_by_def)
  moreover have "pool_ok pool'" using made pool' assms(2) by (auto simp: pool_ok_def)
  moreover have "same_settings pool pool'" using made(6) pool' by (simp add: same_settings_def)
  ultimately show ?thesis by blast
qed

lemma add_member_slots_adds:
  assumes "add_member_slots n pid p pool = Some pool'" "pool_ok pool"
  shows "\<exists>new. wp_workers pool' = wp_workers pool @ new \<and> length new = n \<and> list_all (fresh_slot pid p) new \<and>
    pool_ok pool' \<and> same_settings pool pool'"
  using assms
proof (induction n arbitrary: pool)
  case 0
  then show ?case by (simp add: same_settings_def)
next
  case (Suc n)
  then obtain pool1 where one: "add_member_slot pid p pool = Some pool1" and more: "add_member_slots n pid p pool1 = Some pool'"
    by (auto split: option.splits)
  from add_member_slot_adds [OF one Suc.prems(2)] obtain w where
    w: "wp_workers pool1 = wp_workers pool @ [w]" "fresh_slot pid p w" "pool_ok pool1" "same_settings pool pool1" by blast
  from Suc.IH [OF more w(3)] obtain new where
    "wp_workers pool' = wp_workers pool1 @ new" "length new = n" "list_all (fresh_slot pid p) new" "pool_ok pool'"
    "same_settings pool1 pool'" by blast
  with w show ?case by (intro exI [of _ "w # new"]) (auto intro: same_settings_trans)
qed

lemma fresh_staying: "list_all (fresh_slot pid p) new \<Longrightarrow> filter (staying pid p) new = new"
  by (induction new) (auto simp: staying_def fresh_slot_def)

lemma fresh_other: "list_all (fresh_slot pid p) new \<Longrightarrow> pid' \<noteq> pid \<Longrightarrow> filter (staying pid' p') new = []"
  by (induction new) (auto simp: staying_def fresh_slot_def owned_by_def)

lemma reconcile_member_effect:
  assumes "reconcile_member pid p desired pool = Some pool'" "pool_ok pool"
  shows "length (filter (staying pid p) (wp_workers pool')) = desired" (is ?staying)
    and "pid' \<noteq> pid \<Longrightarrow> filter (staying pid' p') (wp_workers pool') = filter (staying pid' p') (wp_workers pool)"
    and "busy_stay (wp_workers pool) (wp_workers pool')" and "pool_ok pool'" and "same_settings pool pool'"
    and "\<exists>new. wp_workers pool' = settle_owned pid p desired (wp_workers pool) @ new \<and> list_all (fresh_slot pid p) new"
proof -
  let ?ws = "wp_workers pool" and ?owned = "length (filter (owned_by pid (policy_key p)) (wp_workers pool))"
  let ?settled = "pool\<lparr>wp_workers := settle_owned pid p desired ?ws\<rparr>"
  from assms(1) have added: "add_member_slots (desired - ?owned) pid p ?settled = Some pool'"
    by (simp add: reconcile_member_def Let_def)
  have ok: "pool_ok ?settled"
    by (rule pool_ok_map_filter [OF assms(2), of "settle_one pid p (kept_ids pid p desired ?ws)"])
      (simp_all add: settle_owned_eq settle_one_id)
  from add_member_slots_adds [OF added ok] obtain new where
    new: "wp_workers pool' = settle_owned pid p desired ?ws @ new" "length new = desired - ?owned"
      "list_all (fresh_slot pid p) new" "pool_ok pool'" "same_settings ?settled pool'" by auto
  show ?staying
    using new(1,2) assms(2) by (simp add: settle_owned_staying pool_ok_def fresh_staying [OF new(3)])
  show "pid' \<noteq> pid \<Longrightarrow> filter (staying pid' p') (wp_workers pool') = filter (staying pid' p') ?ws"
    using new(1) by (simp add: settle_other fresh_other [OF new(3)])
  show "busy_stay ?ws (wp_workers pool')"
    unfolding new(1) by (rule busy_stay_trans [OF settle_busy busy_stay_append])
  show "pool_ok pool'" by (rule new(4))
  show "same_settings pool pool'" using new(5) by (simp add: same_settings_def)
  show "\<exists>new. wp_workers pool' = settle_owned pid p desired ?ws @ new \<and> list_all (fresh_slot pid p) new"
    using new by blast
qed

section \<open>All members\<close>

definition idle_retiring :: "pool_worker \<Rightarrow> bool" where
  "idle_retiring w \<longleftrightarrow> wk_retiring w \<and> \<not> wk_busy w"

definition owned_in :: "(string \<times> policy) list \<Rightarrow> pool_worker \<Rightarrow> bool" where
  "owned_in by_id w \<longleftrightarrow> list_ex (\<lambda>(pid, p). owned_by pid (policy_key p) w) by_id"

lemma settled_worker:
  assumes "w \<in> set (settle_owned pid p desired ws)"
  shows "owned_by pid (policy_key p) w \<and> \<not> idle_retiring w \<or> w \<in> set ws \<and> \<not> owned_by pid (policy_key p) w"
proof -
  from assms obtain v where v: "v \<in> set ws" "settle_one pid p (kept_ids pid p desired ws) v = Some w"
    unfolding settle_owned_eq in_map_filter by blast
  show ?thesis
  proof (cases "owned_by pid (policy_key p) v")
    case True
    with v(2) show ?thesis by (auto simp: settle_one_def owned_by_def idle_retiring_def Let_def split: if_splits)
  next
    case False
    with v show ?thesis by (simp add: settle_one_def)
  qed
qed

lemma reconciled_worker:
  assumes "reconcile_member pid p desired pool = Some pool'" "pool_ok pool" "w \<in> set (wp_workers pool')"
  shows "owned_by pid (policy_key p) w \<and> \<not> idle_retiring w \<or>
    w \<in> set (wp_workers pool) \<and> \<not> owned_by pid (policy_key p) w"
proof -
  from reconcile_member_effect(6) [OF assms(1,2)] obtain new where
    new: "wp_workers pool' = settle_owned pid p desired (wp_workers pool) @ new" "list_all (fresh_slot pid p) new" by blast
  with assms(3) consider "w \<in> set (settle_owned pid p desired (wp_workers pool))" | "fresh_slot pid p w"
    by (auto simp: list_all_iff)
  then show ?thesis
  proof cases
    case 1
    then show ?thesis by (rule settled_worker)
  next
    case 2
    then show ?thesis by (simp add: fresh_slot_def idle_retiring_def)
  qed
qed

lemma reconcile_members_worker:
  assumes "reconcile_members by_id targets pool = Some pool'" "pool_ok pool" "w \<in> set (wp_workers pool')"
  shows "owned_in by_id w \<and> \<not> idle_retiring w \<or> w \<in> set (wp_workers pool) \<and> \<not> owned_in by_id w"
  using assms(1,2)
proof (induction by_id targets pool rule: reconcile_members.induct)
  case (1 targets pool)
  then show ?case using assms(3) by (simp add: owned_in_def)
next
  case (2 pid p rest targets pool)
  then obtain pool1 where one: "reconcile_member pid p (nat (target_in targets pid)) pool = Some pool1"
    and more: "reconcile_members rest targets pool1 = Some pool'" by (auto split: option.splits)
  from 2(1) [OF one more reconcile_member_effect(4) [OF one 2(3)]] show ?case
  proof
    assume "owned_in rest w \<and> \<not> idle_retiring w"
    then show ?thesis by (simp add: owned_in_def)
  next
    assume "w \<in> set (wp_workers pool1) \<and> \<not> owned_in rest w"
    with reconciled_worker [OF one 2(3), of w] show ?thesis by (auto simp: owned_in_def)
  qed
qed

lemma reconcile_members_effect:
  assumes "reconcile_members by_id targets pool = Some pool'" "pool_ok pool" "distinct (map fst by_id)"
  shows "pool_ok pool' \<and> busy_stay (wp_workers pool) (wp_workers pool') \<and> same_settings pool pool' \<and>
    (\<forall>(pid, p) \<in> set by_id. length (filter (staying pid p) (wp_workers pool')) = nat (target_in targets pid)) \<and>
    (\<forall>pid p. pid \<notin> fst ` set by_id \<longrightarrow>
      filter (staying pid p) (wp_workers pool') = filter (staying pid p) (wp_workers pool))"
  using assms
proof (induction by_id targets pool rule: reconcile_members.induct)
  case (1 targets pool)
  then show ?case by (simp add: same_settings_def)
next
  case (2 pid p rest targets pool)
  then obtain pool1 where one: "reconcile_member pid p (nat (target_in targets pid)) pool = Some pool1"
    and more: "reconcile_members rest targets pool1 = Some pool'" by (auto split: option.splits)
  note effect = reconcile_member_effect [OF one 2(3)]
  from 2(4) have others: "pid \<notin> fst ` set rest" "distinct (map fst rest)" by auto
  from 2(1) [OF one more effect(4) others(2)] have rest: "pool_ok pool'" "busy_stay (wp_workers pool1) (wp_workers pool')"
      "same_settings pool1 pool'"
      "\<forall>(pid, p) \<in> set rest. length (filter (staying pid p) (wp_workers pool')) = nat (target_in targets pid)"
      "\<And>pid p. pid \<notin> fst ` set rest \<Longrightarrow>
        filter (staying pid p) (wp_workers pool') = filter (staying pid p) (wp_workers pool1)"
    by blast+
  show ?case
    using rest(1,4) busy_stay_trans [OF effect(3) rest(2)] same_settings_trans [OF effect(5) rest(3)]
      rest(5) [OF others(1)] effect(1) rest(5) effect(2) by auto
qed

section \<open>The whole\<close>

lemma distinct_policies: "distinct (map fst (policies_by_id groups))"
proof -
  have "distinct (map fst (fold (\<lambda>p. AList.update (p_id p) p) ps d))"
    if "distinct (map fst d)" for ps and d :: "(string \<times> policy) list"
    using that by (induction ps arbitrary: d) (simp_all add: distinct_update)
  then show ?thesis by (simp add: policies_by_id_def)
qed

lemma drop_unowned_worker:
  assumes "w \<in> set (drop_unowned by_id ws)" "distinct (map fst by_id)"
  shows "owned_in by_id w \<or> wk_busy w \<and> wk_retiring w"
proof -
  from assms(1) obtain v where v: "v \<in> set ws" "(if (case map_of by_id (wk_policy v) of None \<Rightarrow> False
      | Some p \<Rightarrow> wk_resource v = policy_key p) then Some v
     else if wk_busy v then Some (v\<lparr>wk_retiring := True\<rparr>) else None) = Some w"
    unfolding drop_unowned_def in_map_filter by blast
  then show ?thesis
    by (auto simp: owned_in_def owned_by_def list_ex_iff split: if_splits option.splits dest!: map_of_SomeD)
qed

lemma drop_unowned_effect:
  assumes "pool_ok pool"
  shows "pool_ok (pool\<lparr>wp_workers := drop_unowned by_id (wp_workers pool)\<rparr>)"
    and "busy_stay (wp_workers pool) (drop_unowned by_id (wp_workers pool))"
proof -
  show "pool_ok (pool\<lparr>wp_workers := drop_unowned by_id (wp_workers pool)\<rparr>)"
    by (rule pool_ok_map_filter [OF assms]) (auto simp: drop_unowned_def split: if_splits)
  show "busy_stay (wp_workers pool) (drop_unowned by_id (wp_workers pool))"
    unfolding busy_stay_def
  proof (intro ballI impI)
    fix w assume w: "w \<in> set (wp_workers pool)" "wk_busy w"
    let ?w = "if (case map_of by_id (wk_policy w) of None \<Rightarrow> False | Some p \<Rightarrow> wk_resource w = policy_key p) then w
      else w\<lparr>wk_retiring := True\<rparr>"
    have "?w \<in> set (drop_unowned by_id (wp_workers pool))"
      unfolding drop_unowned_def in_map_filter by (rule bexI [OF _ w(1)]) (simp add: w(2))
    then show "\<exists>w' \<in> set (drop_unowned by_id (wp_workers pool)). wk_id w' = wk_id w \<and> wk_busy w' \<and> wk_job w' = wk_job w"
      using w(2) by (intro bexI [of _ ?w]) simp_all
  qed
qed

lemma target_in_targets:
  assumes "(pid, p) \<in> set by_id" "distinct (map fst by_id)"
  shows "target_in (map (\<lambda>(pid, p). (pid, f p)) by_id) pid = f p"
proof -
  have "map_of (map (\<lambda>(pid, p). (pid, f p)) by_id) pid = Some (f p)"
    using assms by (intro map_of_is_SomeI) (auto simp: comp_def case_prod_unfold intro: rev_image_eqI)
  then show ?thesis by (simp add: target_in_def)
qed

definition stale :: "int option \<Rightarrow> worker_pool \<Rightarrow> bool" where
  "stale revision pool \<longleftrightarrow> (case (revision, wp_revision pool) of (Some new, Some old) \<Rightarrow> new < old | _ \<Rightarrow> False)"

text \<open>The pool the members are reconciled from, and its targets.\<close>

definition with_groups ::
  "group_entry list \<Rightarrow> node_hardware \<Rightarrow> selected_gpu list \<Rightarrow> nat \<Rightarrow> int option \<Rightarrow> worker_pool \<Rightarrow> worker_pool" where
  "with_groups groups nodes gpus now revision pool =
     (let by_id = policies_by_id groups; target = target_of now (map sg_device gpus) nodes
      in pool\<lparr>wp_revision := (case revision of None \<Rightarrow> wp_revision pool | Some r \<Rightarrow> Some r),
           wp_policies := Some by_id, wp_targets := map (\<lambda>(pid, p). (pid, target p)) by_id,
           wp_resources := resource_targets by_id target, wp_nodes := nodes,
           wp_gpus := gpus, wp_pending := (\<lambda>_. 0), wp_workers := drop_unowned by_id (wp_workers pool)\<rparr>)"

lemma reconcile_groups_eq:
  "reconcile_groups groups nodes gpus now revision pool =
     (if stale revision pool then Some pool
      else if \<exists>(pid, p) \<in> set (policies_by_id groups). policy_open now p = None then None
      else
        (let pool = with_groups groups nodes (case gpus of None \<Rightarrow> wp_gpus pool | Some gs \<Rightarrow> gs) now revision pool
         in reconcile_members (policies_by_id groups) (wp_targets pool) pool))"
  by (simp add: reconcile_groups_def stale_def with_groups_def Let_def)

lemma with_groups_fields [simp]:
  "wp_next_id (with_groups groups nodes gpus now revision pool) = wp_next_id pool"
  "wp_workers (with_groups groups nodes gpus now revision pool) = drop_unowned (policies_by_id groups) (wp_workers pool)"
  "wp_policies (with_groups groups nodes gpus now revision pool) = Some (policies_by_id groups)"
  "wp_gpus (with_groups groups nodes gpus now revision pool) = gpus"
  "wp_resources (with_groups groups nodes gpus now revision pool) =
     resource_targets (policies_by_id groups) (target_of now (map sg_device gpus) nodes)"
  "wp_targets (with_groups groups nodes gpus now revision pool) =
     map (\<lambda>(pid, p). (pid, target_of now (map sg_device gpus) nodes p)) (policies_by_id groups)"
  by (simp_all add: with_groups_def Let_def)

lemma reconcile_groups_effect:
  assumes "reconcile_groups groups nodes (Some gpus) now revision pool = Some pool'" "\<not> stale revision pool" "pool_ok pool"
  defines "target \<equiv> target_of now (map sg_device gpus) nodes"
  shows "pool_ok pool'" and "busy_stay (wp_workers pool) (wp_workers pool')"
    and "wp_policies pool' = Some (policies_by_id groups)"
    and "wp_resources pool' = resource_targets (policies_by_id groups) target"
    and "wp_targets pool' = map (\<lambda>(pid, p). (pid, target p)) (policies_by_id groups)"
    and "\<And>pid p. (pid, p) \<in> set (policies_by_id groups) \<Longrightarrow>
      length (filter (staying pid p) (wp_workers pool')) = nat (target p)"
    and "\<And>w. w \<in> set (wp_workers pool') \<Longrightarrow>
      if wk_retiring w then wk_busy w else owned_in (policies_by_id groups) w"
proof -
  let ?by_id = "policies_by_id groups" and ?start = "with_groups groups nodes gpus now revision pool"
  have members: "reconcile_members ?by_id (wp_targets ?start) ?start = Some pool'"
    using assms(1,2) by (simp add: reconcile_groups_eq Let_def split: if_splits)
  have ok: "pool_ok ?start" using drop_unowned_effect(1) [OF assms(3), of ?by_id] by (simp add: pool_ok_def)
  note effect = reconcile_members_effect [OF members ok distinct_policies]
  show "pool_ok pool'" using effect by simp
  show "busy_stay (wp_workers pool) (wp_workers pool')"
    by (rule busy_stay_trans [OF drop_unowned_effect(2) [OF assms(3), of ?by_id]]) (use effect in simp)
  show "wp_policies pool' = Some ?by_id" "wp_resources pool' = resource_targets ?by_id target"
      "wp_targets pool' = map (\<lambda>(pid, p). (pid, target p)) ?by_id"
    using effect by (simp_all add: same_settings_def target_def)
  show "length (filter (staying pid p) (wp_workers pool')) = nat (target p)" if "(pid, p) \<in> set ?by_id" for pid p
    using effect that target_in_targets [OF that distinct_policies, of target] by (auto simp: target_def)
  show "if wk_retiring w then wk_busy w else owned_in ?by_id w" if "w \<in> set (wp_workers pool')" for w
    using reconcile_members_worker [OF members ok that] drop_unowned_worker [OF _ distinct_policies, of w groups "wp_workers pool"]
    by (auto simp: idle_retiring_def)
qed

end
