(* ===== verification/Pool_Budget.thy ===== *)
theory Pool_Budget
  imports Pool_Reconcile Worker_Claims State_Machine
begin

text \<open>
  The budget of a device: reconciling does not change which workers have a task, and a worker takes a file only while
  its device has fewer tasks than its target, so the tasks of a device never pass the limit of validated groups.
\<close>

section \<open>No device gets more files than its limit\<close>

text \<open>What happens to a pool under saved groups: a claim gives the worker found a file of a job.\<close>

datatype pool_event =
    Reconcile "group_entry list" node_hardware "selected_gpu list option" nat "int option"
  | Claim nat rat string "string set" "string set" string
  | Worker_Done nat
  | Retire nat
  | Suspect string rat
  | Clear_Suspects "(string \<times> rat) list" rat "string \<Rightarrow> bool"

fun pool_step :: "pool_event \<Rightarrow> worker_pool \<Rightarrow> worker_pool" where
  "pool_step (Reconcile groups nodes gpus now revision) pool =
     (case reconcile_groups groups nodes gpus now revision pool of None \<Rightarrow> pool | Some pool' \<Rightarrow> pool')"
| "pool_step (Claim now clock kind exclude_nodes exclude_gpus job) pool =
     (case find_available_worker now clock False kind exclude_nodes exclude_gpus pool of
        None \<Rightarrow> pool
      | Some w \<Rightarrow> assign_job w job (claim_worker_of w pool))"
| "pool_step (Worker_Done n) pool = reap_worker n pool"
| "pool_step (Retire n) pool = snd (retire_idle n pool)"
| "pool_step (Suspect n clock) pool = mark_node_suspect n clock pool"
| "pool_step (Clear_Suspects suspects clock checked_ready) pool = clear_suspects suspects clock checked_ready pool"

definition validated :: "pool_event \<Rightarrow> bool" where
  "validated e \<longleftrightarrow>
     (case e of
        Reconcile groups nodes gpus now revision \<Rightarrow>
          now < WEEK_MINUTES \<and> (\<exists>value known gs. validate_worker_groups value known = Inr gs \<and> groups = map Saved gs)
      | _ \<Rightarrow> True)"

lemma target_in_dict_add: "target_in (dict_add k n d) r = target_in d r + (if k = r then n else 0)"
  by (auto simp: target_in_def dict_add_def update_conv' split: option.split)

lemma target_in_resources:
  "target_in (resource_targets by_id f) r =
     sum_list (map (\<lambda>(pid, p). f p) (filter (\<lambda>(pid, p). policy_key p = r) by_id))"
proof -
  have "target_in (fold (\<lambda>(pid, p). dict_add (policy_key p) (f p)) by_id d) r =
      target_in d r + sum_list (map (\<lambda>(pid, p). f p) (filter (\<lambda>(pid, p). policy_key p = r) by_id))" for d
    by (induction by_id arbitrary: d) (auto simp: target_in_dict_add)
  then show ?thesis by (simp add: resource_targets_def target_in_def)
qed

lemma sum_update_le:
  fixes f :: "policy \<Rightarrow> int"
  assumes "\<And>p. f p \<ge> 0"
  shows "sum_list (map (\<lambda>(k, p). f p) (AList.update k p d)) \<le> sum_list (map (\<lambda>(k, p). f p) d) + f p"
proof (induction d)
  case (Cons kv d)
  obtain k' v where kv: "kv = (k', v)" by (cases kv)
  show ?case using Cons.IH assms [of v] by (simp add: kv)
qed simp

lemma sum_by_id_le:
  fixes f :: "policy \<Rightarrow> int"
  assumes "\<And>p. f p \<ge> 0"
  shows "sum_list (map (\<lambda>(k, p). f p) (policies_by_id groups)) \<le> sum_list (map f (member_policies groups))"
proof -
  have "sum_list (map (\<lambda>(k, p). f p) (fold (\<lambda>p. AList.update (p_id p) p) ps d)) \<le>
      sum_list (map (\<lambda>(k, p). f p) d) + sum_list (map f ps)" for ps and d :: "(string \<times> policy) list"
  proof (induction ps arbitrary: d)
    case (Cons p ps)
    show ?case using Cons.IH [of "AList.update (p_id p) p d"] sum_update_le [where f = f and k = "p_id p" and p = p and d = d] assms by simp
  qed simp
  from this [of "member_policies groups" "[]"] show ?thesis by (simp add: policies_by_id_def)
qed

text \<open>Workers of this app on one device.\<close>

definition local_key :: "string \<Rightarrow> string \<Rightarrow> bool" where
  "local_key r family \<longleftrightarrow> r = ''cpu'' \<and> family = ''cpu'' \<or> (\<exists>d. r = ''gpu:'' @ d) \<and> family = ''gpu''"

lemma local_key_policy:
  assumes "local_key r family" "policy_key p = r" "p_resource p = ''cpu'' \<or> p_resource p = ''gpu''"
  shows "p_resource p = family \<and> \<not> on_node p"
  using assms
  by (auto simp: local_key_def policy_key_def member_resource_key_def on_node_def Let_def split: option.splits if_splits)

lemma open_target_le:
  assumes "now < WEEK_MINUTES" "p_count p \<ge> 0"
  shows "target_of now devices nodes p \<le> (if open_at p now then p_count p else 0)"
proof (cases "policy_open now p = Some True")
  case True
  then have "p_enabled p" by (auto simp: policy_open_def group_is_available_def split: if_splits)
  have "open_at p now"
  proof (cases "a_mode (p_availability p) = ''always''")
    case True
    with \<open>p_enabled p\<close> assms(1) show ?thesis by (simp add: open_at_def group_weekly_mask_def)
  next
    case False
    with True \<open>p_enabled p\<close> show ?thesis
      by (auto simp: policy_open_def group_is_available_def open_at_def test_bit_exp split: option.splits)
  qed
  with assms(2) show ?thesis by (simp add: target_of_def)
next
  case False
  with assms(2) show ?thesis by (simp add: target_of_def)
qed

lemma validated_policies:
  assumes "validate_worker_groups value known = Inr gs" "p \<in> set (member_policies (map Saved gs))"
  shows "p_count p \<ge> 0 \<and> (p_resource p = ''cpu'' \<or> p_resource p = ''gpu'')"
proof -
  have "\<forall>g \<in> set gs. valid_group g" using validated_groups [OF assms(1)] by blast
  with assms(2) show ?thesis
    by (fastforce simp: member_policies_def policy_of_def valid_group_def valid_member_def)
qed

lemma sum_filter_if: "sum_list (map f (filter P xs)) = sum_list (map (\<lambda>x. if P x then f x else (0 :: int)) xs)"
  by (induction xs) simp_all

lemma sum_list_le: "(\<And>x. x \<in> set xs \<Longrightarrow> f x \<le> (g x :: int)) \<Longrightarrow> sum_list (map f xs) \<le> sum_list (map g xs)"
  by (induction xs) (auto intro: add_mono)

text \<open>A device of this app has a target of at most 64.\<close>

lemma validated_target:
  assumes "validate_worker_groups value known = Inr gs" "now < WEEK_MINUTES" "local_key r family"
  shows "target_in (resource_targets (policies_by_id (map Saved gs)) (target_of now devices nodes)) r \<le> 64"
proof -
  let ?ps = "member_policies (map Saved gs)"
  let ?f = "\<lambda>p. if policy_key p = r then max 0 (target_of now devices nodes p) else 0"
  let ?g = "\<lambda>p. if p_resource p = family \<and> \<not> on_node p then (if open_at p now then p_count p else 0) else 0"
  have "target_in (resource_targets (policies_by_id (map Saved gs)) (target_of now devices nodes)) r \<le>
      sum_list (map (\<lambda>(k, p). ?f p) (policies_by_id (map Saved gs)))"
    unfolding target_in_resources sum_filter_if by (rule sum_list_le) auto
  also have "\<dots> \<le> sum_list (map ?f ?ps)" by (rule sum_by_id_le) simp
  also have "\<dots> \<le> sum_list (map ?g ?ps)"
  proof (rule sum_list_le)
    fix p assume p: "p \<in> set ?ps"
    have "p_count p \<ge> 0 \<and> (p_resource p = ''cpu'' \<or> p_resource p = ''gpu'')" by (rule validated_policies [OF assms(1) p])
    with open_target_le [OF assms(2), of p devices nodes] local_key_policy [OF assms(3), of p] show "?f p \<le> ?g p"
      by (auto split: if_splits)
  qed
  also have "\<dots> = family_workers gs family None now"
    by (simp add: family_workers_def workers_at_def sum_filter_if)
  also have "\<dots> \<le> 64"
    using validated_groups [OF assms(1)] assms(3) by (auto simp: local_key_def)
  finally show ?thesis .
qed

section \<open>Busy workers\<close>

lemma busy_map_filter:
  assumes "\<And>w. wk_busy w \<Longrightarrow> \<exists>w'. f w = Some w' \<and> wk_busy w' \<and> wk_resource w' = wk_resource w"
    and "\<And>w w'. f w = Some w' \<Longrightarrow> wk_busy w' \<Longrightarrow> wk_busy w"
  shows "length (filter (\<lambda>w. wk_busy w \<and> wk_resource w = r) (List.map_filter f ws)) =
    length (filter (\<lambda>w. wk_busy w \<and> wk_resource w = r) ws)"
proof (induction ws)
  case (Cons w ws)
  show ?case
  proof (cases "wk_busy w")
    case True
    with assms(1) obtain w' where "f w = Some w'" "wk_busy w'" "wk_resource w' = wk_resource w" by blast
    with Cons True show ?thesis by (simp add: map_filter_simps)
  next
    case False
    with Cons assms(2) [of w] show ?thesis by (auto simp: map_filter_simps split: option.split)
  qed
qed (simp add: map_filter_simps)

lemma busy_drop_unowned:
  "length (filter (\<lambda>w. wk_busy w \<and> wk_resource w = r) (drop_unowned by_id ws)) =
    length (filter (\<lambda>w. wk_busy w \<and> wk_resource w = r) ws)"
  unfolding drop_unowned_def by (rule busy_map_filter) (auto split: if_splits)

lemma busy_settle:
  "length (filter (\<lambda>w. wk_busy w \<and> wk_resource w = r) (settle_owned pid p n ws)) =
    length (filter (\<lambda>w. wk_busy w \<and> wk_resource w = r) ws)"
  unfolding settle_owned_eq by (rule busy_map_filter) (auto simp: settle_one_def Let_def split: if_splits)

lemma busy_fresh:
  "list_all (fresh_slot pid p) new \<Longrightarrow> filter (\<lambda>w. wk_busy w \<and> wk_resource w = r) new = []"
  by (induction new) (auto simp: fresh_slot_def)

lemma busy_reconcile_members:
  assumes "reconcile_members by_id targets pool = Some pool'" "pool_ok pool"
  shows "busy_on r pool' = busy_on r pool"
  using assms
proof (induction by_id targets pool rule: reconcile_members.induct)
  case (2 pid p rest targets pool)
  then obtain pool1 where one: "reconcile_member pid p (nat (target_in targets pid)) pool = Some pool1"
    and more: "reconcile_members rest targets pool1 = Some pool'" by (auto split: option.splits)
  from reconcile_member_effect(6) [OF one 2(3)] obtain new where
    "wp_workers pool1 = settle_owned pid p (nat (target_in targets pid)) (wp_workers pool) @ new"
    "list_all (fresh_slot pid p) new" by blast
  then have "busy_on r pool1 = busy_on r pool" by (simp add: busy_on_def busy_settle busy_fresh)
  with 2(1) [OF one more reconcile_member_effect(4) [OF one 2(3)]] show ?case by simp
qed simp

lemma busy_change:
  assumes "distinct (map wk_id ws)" "w \<in> set ws" "wk_resource (f w) = wk_resource w"
  shows "length (filter (\<lambda>v. wk_busy v \<and> wk_resource v = r) (map (\<lambda>v. if wk_id v = wk_id w then f v else v) ws)) \<le>
    length (filter (\<lambda>v. wk_busy v \<and> wk_resource v = r) ws) + of_bool (wk_resource w = r)"
  using assms(1,2)
proof (induction ws)
  case (Cons v ws)
  show ?case
  proof (cases "v = w")
    case True
    with Cons.prems have "map (\<lambda>v. if wk_id v = wk_id w then f v else v) ws = ws"
      by (intro map_idI) (auto simp: rev_image_eqI)
    with True assms(3) show ?thesis by simp
  next
    case False
    with Cons.prems have "w \<in> set ws" "wk_id v \<noteq> wk_id w" by auto
    with Cons show ?thesis by simp
  qed
qed simp

lemma find_available_in:
  assumes "find_available_worker now clock cpu_only kind exclude_nodes exclude_gpus pool = Some w"
  shows "w \<in> set (wp_workers pool)" "may_take now clock cpu_only kind exclude_nodes exclude_gpus pool w"
  using find_SomeD [OF assms [unfolded find_available_worker_def]] by (auto simp: by_type_def)

lemma claim_change:
  "assign_job w job (claim_worker_of w pool) = change_worker (wk_id w) (\<lambda>v. v\<lparr>wk_busy := True, wk_job := job\<rparr>) pool"
  by (simp add: assign_job_def claim_worker_of_def change_worker_def comp_def if_distrib cong: if_cong)

lemma pool_ok_change:
  assumes "pool_ok pool" "\<And>v. wk_id (f v) = wk_id v"
  shows "pool_ok (change_worker n f pool)"
proof -
  have "map wk_id (wp_workers (change_worker n f pool)) = map wk_id (wp_workers pool)"
    using assms(2) by (simp add: change_worker_def)
  then have "distinct (map wk_id (wp_workers (change_worker n f pool)))" using assms(1) by (simp only: pool_ok_def)
  moreover have "\<forall>w \<in> set (wp_workers (change_worker n f pool)). wk_id w < wp_next_id (change_worker n f pool)"
    using assms by (auto simp: pool_ok_def change_worker_def)
  ultimately show ?thesis by (simp add: pool_ok_def)
qed

lemma pool_ok_filter: "pool_ok pool \<Longrightarrow> pool_ok (pool\<lparr>wp_workers := filter P (wp_workers pool)\<rparr>)"
  by (auto simp: pool_ok_def distinct_map_filter)

lemma reaped_busy:
  "length (filter (\<lambda>v. wk_busy v \<and> wk_resource v = r) (map (\<lambda>v. if wk_id v = n then v\<lparr>wk_busy := False\<rparr> else v) ws)) \<le>
    length (filter (\<lambda>v. wk_busy v \<and> wk_resource v = r) ws)"
  by (induction ws) simp_all

lemma fewer_filtered: "length (filter P (filter Q xs)) \<le> length (filter P xs)"
  by (induction xs) simp_all

definition pool_bounded :: "worker_pool \<Rightarrow> bool" where
  "pool_bounded pool \<longleftrightarrow> pool_ok pool \<and> wp_policies pool \<noteq> None \<and>
     (\<forall>r family. local_key r family \<longrightarrow> busy_on r pool \<le> 64 \<and> target_in (wp_resources pool) r \<le> 64)"

lemma bounded_reconcile:
  assumes "pool_bounded pool" "validated (Reconcile groups nodes gpus now revision)"
  shows "pool_bounded (pool_step (Reconcile groups nodes gpus now revision) pool)"
proof (cases "reconcile_groups groups nodes gpus now revision pool")
  case (Some pool')
  show ?thesis
  proof (cases "stale revision pool")
    case True
    with assms(1) show ?thesis by (simp add: reconcile_groups_eq)
  next
    case False
    let ?gpus = "case gpus of None \<Rightarrow> wp_gpus pool | Some gs \<Rightarrow> gs"
    from Some have some: "reconcile_groups groups nodes (Some ?gpus) now revision pool = Some pool'"
      by (simp only: reconcile_groups_def option.case)
    from assms(1) have ok: "pool_ok pool" by (simp add: pool_bounded_def)
    note effect = reconcile_groups_effect [OF some False ok]
    have "reconcile_members (policies_by_id groups) (wp_targets (with_groups groups nodes ?gpus now revision pool))
        (with_groups groups nodes ?gpus now revision pool) = Some pool'"
      using some False by (simp add: reconcile_groups_eq Let_def split: if_splits)
    moreover have "pool_ok (with_groups groups nodes ?gpus now revision pool)"
      using drop_unowned_effect(1) [OF ok, of "policies_by_id groups"] by (simp add: pool_ok_def)
    ultimately have busy: "busy_on r pool' = busy_on r pool" for r
      by (simp add: busy_reconcile_members) (simp add: busy_on_def busy_drop_unowned)
    from assms(2) obtain saved known gs where valid: "now < WEEK_MINUTES" "validate_worker_groups saved known = Inr gs"
      "groups = map Saved gs" by (auto simp: validated_def)
    show ?thesis
      using assms(1) Some effect(1,3,4) busy validated_target [OF valid(2,1)] by (simp add: pool_bounded_def valid(3))
  qed
qed (use assms(1) in simp)

lemma bounded_claim:
  assumes "pool_bounded pool"
  shows "pool_bounded (pool_step (Claim now clock kind exclude_nodes exclude_gpus job) pool)"
proof (cases "find_available_worker now clock False kind exclude_nodes exclude_gpus pool")
  case (Some w)
  note found = find_available_in [OF Some]
  have less: "busy_on (wk_resource w) pool < target_in (wp_resources pool) (wk_resource w)"
    using found(2) assms by (auto simp: may_take_def worker_supports_kind_def pool_bounded_def)
  let ?f = "\<lambda>v. v\<lparr>wk_busy := True, wk_job := job\<rparr>"
  have "busy_on r (change_worker (wk_id w) ?f pool) \<le> busy_on r pool + of_bool (wk_resource w = r)" for r
    using busy_change [OF _ found(1), of ?f r] assms by (auto simp: busy_on_def change_worker_def pool_bounded_def pool_ok_def)
  note one_more = this
  have "busy_on r (change_worker (wk_id w) ?f pool) \<le> 64" if "local_key r family" for r family
  proof -
    have "busy_on r pool \<le> 64" "target_in (wp_resources pool) r \<le> 64" using assms that by (auto simp: pool_bounded_def)
    with one_more [of r] less show ?thesis by (cases "wk_resource w = r") auto
  qed
  with assms Some pool_ok_change [of pool ?f] show ?thesis
    by (simp add: claim_change pool_bounded_def) (simp add: change_worker_def)
qed (use assms in simp)

lemma bounded_less:
  assumes "pool_bounded pool" "pool_ok pool'" "\<And>r. busy_on r pool' \<le> busy_on r pool"
    "wp_policies pool' = wp_policies pool" "wp_resources pool' = wp_resources pool"
  shows "pool_bounded pool'"
  using assms unfolding pool_bounded_def by (metis order_trans)

lemma bounded_step:
  assumes "pool_bounded pool" "validated e"
  shows "pool_bounded (pool_step e pool)"
proof (cases e)
  case (Worker_Done n)
  have "busy_on r (reap_worker n pool) \<le> busy_on r pool" for r
    using reaped_busy [of r n "wp_workers pool"] by (simp add: busy_on_def reap_worker_def change_worker_def del: filter_map)
  moreover have "pool_ok (reap_worker n pool)"
    unfolding reap_worker_def by (rule pool_ok_change) (use assms(1) in \<open>simp_all add: pool_bounded_def\<close>)
  ultimately have "pool_bounded (reap_worker n pool)"
    by (intro bounded_less [OF assms(1)]) (simp_all add: reap_worker_def change_worker_def)
  then show ?thesis by (simp add: Worker_Done)
next
  case (Retire n)
  have "busy_on r (without_worker n pool) \<le> busy_on r pool" for r
    by (simp add: busy_on_def without_worker_def fewer_filtered del: filter_filter)
  moreover have "pool_ok (without_worker n pool)" using assms(1) by (simp add: without_worker_def pool_ok_filter pool_bounded_def)
  ultimately have "pool_bounded (without_worker n pool)"
    by (intro bounded_less [OF assms(1)]) (simp_all add: without_worker_def)
  then show ?thesis using assms(1)
    by (auto simp: Retire retire_idle_def pool_bounded_def pool_ok_def busy_on_def split: option.split)
qed (use assms in \<open>simp_all only: bounded_reconcile bounded_claim,
    simp_all add: pool_bounded_def pool_ok_def busy_on_def mark_node_suspect_def clear_suspects_def\<close>)

end
