(* ===== verification/Pool_Claims.thy ===== *)
theory Pool_Claims
  imports Pool_Budget
begin

text \<open>
  The pool under saved groups: reconciling never fails on validated groups and settles every member at its target,
  and however groups are edited while files run, no device of this app gets more files at once than the limit.
\<close>

section \<open>Reconciling\<close>

lemma gpu_position_Some:
  assumes "d \<in> set (map sg_device gpus)"
  shows "gpu_position gpus (Some d) \<noteq> None"
proof -
  from assms obtain i where "i < length gpus" "sg_device (gpus ! i) = d" by (auto simp: in_set_conv_nth)
  then show ?thesis by (auto simp: gpu_position_def find_None_iff)
qed

text \<open>A slot can be made for every member that has a target.\<close>

definition slot_possible :: "selected_gpu list \<Rightarrow> policy \<Rightarrow> bool" where
  "slot_possible gpus p \<longleftrightarrow>
     node_of_policy p \<noteq> None \<or> p_resource p = ''cpu'' \<or> (\<exists>d. p_device p = Some d \<and> d \<in> set (map sg_device gpus))"

lemma target_slot_possible:
  "target_of now (map sg_device gpus) nodes p > 0 \<Longrightarrow> slot_possible gpus p"
  by (auto simp: target_of_def member_detected_def slot_possible_def split: option.splits if_splits)

lemma add_member_slot_possible:
  assumes "slot_possible (wp_gpus pool) p"
  shows "add_member_slot pid p pool \<noteq> None"
proof (cases "node_of_policy p")
  case None
  note none = this
  show ?thesis
  proof (cases "p_resource p = ''cpu''")
    case True
    with none show ?thesis by (simp add: add_member_slot_def create_worker_def Let_def)
  next
    case False
    with assms none obtain d where d: "p_device p = Some d" "d \<in> set (map sg_device (wp_gpus pool))"
      by (auto simp: slot_possible_def)
    then have "wp_gpus pool \<noteq> []" by auto
    with d none False gpu_position_Some [OF d(2)] show ?thesis
      by (auto simp: add_member_slot_def create_worker_def Let_def)
  qed
qed (simp add: add_member_slot_def)

lemma add_member_slots_possible:
  assumes "slot_possible (wp_gpus pool) p \<or> n = 0" "pool_ok pool"
  shows "add_member_slots n pid p pool \<noteq> None"
  using assms
proof (induction n arbitrary: pool)
  case (Suc n)
  then obtain pool1 where one: "add_member_slot pid p pool = Some pool1" using add_member_slot_possible by blast
  from add_member_slot_adds [OF one Suc.prems(2)] have "pool_ok pool1" "wp_gpus pool1 = wp_gpus pool"
    by (auto simp: same_settings_def)
  with Suc one show ?case by simp
qed simp

lemma reconcile_member_possible:
  assumes "slot_possible (wp_gpus pool) p \<or> n = 0" "pool_ok pool"
  shows "reconcile_member pid p n pool \<noteq> None"
proof -
  have "pool_ok (pool\<lparr>wp_workers := settle_owned pid p n (wp_workers pool)\<rparr>)"
    by (rule pool_ok_map_filter [OF assms(2), of "settle_one pid p (kept_ids pid p n (wp_workers pool))"])
      (simp_all add: settle_owned_eq settle_one_id)
  then show ?thesis
    unfolding reconcile_member_def Let_def by (rule add_member_slots_possible [rotated]) (use assms(1) in auto)
qed

lemma reconcile_members_possible:
  assumes "\<forall>(pid, p) \<in> set by_id. target_in targets pid > 0 \<longrightarrow> slot_possible (wp_gpus pool) p" "pool_ok pool"
  shows "reconcile_members by_id targets pool \<noteq> None"
  using assms
proof (induction by_id targets pool rule: reconcile_members.induct)
  case (2 pid p rest targets pool)
  from 2(2) have "slot_possible (wp_gpus pool) p \<or> nat (target_in targets pid) = 0" by auto
  then obtain pool1 where one: "reconcile_member pid p (nat (target_in targets pid)) pool = Some pool1"
    using reconcile_member_possible 2(3) by blast
  note effect = reconcile_member_effect(4,5) [OF one 2(3)]
  from 2(1) [OF one _ effect(1)] 2(2) effect(2) one show ?case by (auto simp: same_settings_def)
qed simp

text \<open>C11: When the saved groups' windows can be read, reconciling succeeds whatever the pool, the GPUs and the nodes:
  every member then has exactly its target of workers that stay (its count while it is open and its hardware is
  there, else none), every other worker is one with a task that goes when it has finished, and no worker with a task
  is lost or moved to another job.\<close>
theorem reconcile_groups_exact:
  assumes "pool_ok pool" and "\<not> stale revision pool"
    and "{(pid, p) \<in> set (policies_by_id groups). policy_open now p = None} = {}"
  shows "\<exists>pool'. reconcile_groups groups nodes (Some gpus) now revision pool = Some pool' \<and> pool_ok pool' \<and>
    (\<forall>pid p. (pid, p) \<in> set (policies_by_id groups) \<longrightarrow>
      length (filter (staying pid p) (wp_workers pool')) = nat (target_of now (map sg_device gpus) nodes p)) \<and>
    (\<forall>w. w \<in> set (wp_workers pool') \<longrightarrow>
      (if wk_retiring w then wk_busy w else owned_in (policies_by_id groups) w)) \<and>
    busy_stay (wp_workers pool) (wp_workers pool')"
proof -
  let ?start = "with_groups groups nodes gpus now revision pool"
  have "pool_ok ?start" using drop_unowned_effect(1) [OF assms(1), of "policies_by_id groups"] by (simp add: pool_ok_def)
  moreover have "\<forall>(pid, p) \<in> set (policies_by_id groups). target_in (wp_targets ?start) pid > 0 \<longrightarrow> slot_possible (wp_gpus ?start) p"
  proof (clarify)
    fix pid p assume member: "(pid, p) \<in> set (policies_by_id groups)" "target_in (wp_targets ?start) pid > 0"
    then have "target_of now (map sg_device gpus) nodes p > 0"
      using target_in_targets [OF member(1) distinct_policies] by simp
    then show "slot_possible (wp_gpus ?start) p" using target_slot_possible by simp
  qed
  ultimately have "reconcile_members (policies_by_id groups) (wp_targets ?start) ?start \<noteq> None"
    by (intro reconcile_members_possible)
  moreover have "\<not> (\<exists>(pid, p) \<in> set (policies_by_id groups). policy_open now p = None)" using assms(3) by blast
  ultimately obtain pool' where "reconcile_groups groups nodes (Some gpus) now revision pool = Some pool'"
    using assms(2) unfolding reconcile_groups_eq Let_def by (simp only: if_False option.case) blast
  from this reconcile_groups_effect [OF this assms(2,1)] show ?thesis by blast
qed

section \<open>No device gets more files than its limit\<close>

text \<open>A pool whose groups have not been read yet.\<close>

definition fresh_pool :: "worker_pool \<Rightarrow> bool" where
  "fresh_pool pool \<longleftrightarrow>
     pool_ok pool \<and> list_all (\<lambda>w. \<not> wk_busy w) (wp_workers pool) \<and> wp_policies pool = Some [] \<and> wp_resources pool = []"

lemma fresh_bounded: "fresh_pool pool \<Longrightarrow> pool_bounded pool"
  by (auto simp: fresh_pool_def pool_bounded_def busy_on_def target_in_def list_all_iff filter_empty_conv)

interpretation pool: invariant_machine start validated pool_step "\<lambda>p. fresh_pool start \<longrightarrow> pool_bounded p" for start
  by unfold_locales (simp_all add: fresh_bounded bounded_step)

text \<open>C10: However the saved groups are edited, opened and closed by their hours while files run, this app's CPU and
  each of its GPUs never run more than 64 files at once: a slot that is replaced while its file still runs keeps its
  place in the device's budget.\<close>
theorem devices_within_limit:
  assumes "fresh_pool start" and "reachable start validated pool_step pool"
  shows "busy_on ''cpu'' pool \<le> 64 \<and> busy_on (''gpu:'' @ device) pool \<le> 64"
proof -
  have "pool_bounded pool" using pool.always [OF assms(2)] assms(1) by simp
  then show ?thesis by (auto simp: pool_bounded_def local_key_def)
qed

section \<open>A pool of the saved groups\<close>

definition first_pool :: worker_pool where
  "first_pool = \<lparr>wp_workers = [], wp_gpus = [], wp_next_gpu = 0, wp_next_id = 0, wp_pending = (\<lambda>_. 0),
     wp_policies = Some [], wp_targets = [], wp_resources = [], wp_revision = None,
     wp_nodes = EMPTY_NODE_HARDWARE, wp_suspects = []\<rparr>"

lemma first_pool_fresh: "fresh_pool first_pool"
  by (simp add: fresh_pool_def first_pool_def pool_ok_def)

text \<open>A group with two CPU slots, always open.\<close>

definition two_slots :: worker_group where
  "two_slots = \<lparr>g_id = ''g'', g_name = ''G'', g_enabled = True, g_availability = ALWAYS,
     g_members = [\<lparr>gm_id = ''m1'', gm_resource = ''cpu'', gm_device = None, gm_count = 2,
       gm_job_types = [''previews''], gm_node = None\<rparr>]\<rparr>"

lemma two_slots_policies:
  "policies_by_id [Saved two_slots] =
     [(''g:m1'', policy_of ''g'' ''G'' True ALWAYS \<lparr>gm_id = ''m1'', gm_resource = ''cpu'', gm_device = None, gm_count = 2,
       gm_job_types = [''previews''], gm_node = None\<rparr>)]"
  by (simp add: policies_by_id_def member_policies_def two_slots_def policy_of_def)

theorem reconcile_groups_exact_witness:
  "\<exists>pool'. reconcile_groups [Saved two_slots] EMPTY_NODE_HARDWARE (Some []) 0 (Some 1) first_pool = Some pool' \<and>
    (\<forall>pid p. (pid, p) \<in> set (policies_by_id [Saved two_slots]) \<longrightarrow>
      length (filter (staying pid p) (wp_workers pool')) = 2)"
proof -
  have two: "target_of 0 (map sg_device ([] :: selected_gpu list)) EMPTY_NODE_HARDWARE p = 2 \<and> policy_open 0 p \<noteq> None"
    if "(pid, p) \<in> set (policies_by_id [Saved two_slots])" for pid p
    using that by (simp add: two_slots_policies target_of_def policy_open_def policy_of_def group_is_available_def
        ALWAYS_def member_detected_def node_of_policy_def)
  then have none: "{(pid, p) \<in> set (policies_by_id [Saved two_slots]). policy_open 0 p = None} = {}" by blast
  have ok: "pool_ok first_pool" "\<not> stale (Some 1) first_pool"
    by (simp_all add: first_pool_def pool_ok_def stale_def)
  from reconcile_groups_exact [OF ok none, of EMPTY_NODE_HARDWARE "[]"]
  have "\<exists>pool'. reconcile_groups [Saved two_slots] EMPTY_NODE_HARDWARE (Some []) 0 (Some 1) first_pool = Some pool' \<and>
    (\<forall>pid p. (pid, p) \<in> set (policies_by_id [Saved two_slots]) \<longrightarrow>
      length (filter (staying pid p) (wp_workers pool')) = nat (target_of 0 (map sg_device ([] :: selected_gpu list)) EMPTY_NODE_HARDWARE p))"
    by blast
  then obtain pool' where
    "reconcile_groups [Saved two_slots] EMPTY_NODE_HARDWARE (Some []) 0 (Some 1) first_pool = Some pool'"
    "\<forall>pid p. (pid, p) \<in> set (policies_by_id [Saved two_slots]) \<longrightarrow>
      length (filter (staying pid p) (wp_workers pool')) = nat (target_of 0 (map sg_device ([] :: selected_gpu list)) EMPTY_NODE_HARDWARE p)"
    by blast
  with two show ?thesis by (intro exI [of _ pool']) (simp only: nat_numeral simp_thms, metis nat_numeral)
qed

definition pool_events :: "pool_event list" where
  "pool_events = [Reconcile [Saved sample_group] EMPTY_NODE_HARDWARE None 10030 (Some 1),
     Claim 10030 0 ''previews'' {} {} ''job'']"

theorem devices_within_limit_witness:
  "busy_on ''cpu'' (fold pool_step pool_events first_pool) \<le> 64"
proof -
  have "\<exists>saved known gs. validate_worker_groups saved known = Inr gs \<and> [Saved sample_group] = map Saved gs"
    by (intro exI conjI, rule sample_groups_valid, simp)
  then have "list_all validated pool_events"
    by (simp add: pool_events_def validated_def WEEK_MINUTES_def)
  from devices_within_limit [OF first_pool_fresh reachable_runs [OF this]] show ?thesis by blast
qed

section \<open>Pools without worker groups\<close>

definition cpu_workers :: "worker_pool \<Rightarrow> int" where
  "cpu_workers pool = int (length (filter (\<lambda>w. \<not> wk_gpu w) (wp_workers pool)))"

definition busy_cpu_workers :: "worker_pool \<Rightarrow> int" where
  "busy_cpu_workers pool = int (length (filter (\<lambda>w. \<not> wk_gpu w \<and> wk_busy w) (wp_workers pool)))"

lemma append_cpu_workers:
  "\<exists>pool'. append_workers n False pool = Some pool' \<and> cpu_workers pool' = cpu_workers pool + int n \<and>
     busy_cpu_workers pool' = busy_cpu_workers pool \<and> busy_stay (wp_workers pool) (wp_workers pool') \<and>
     wp_pending pool' = wp_pending pool"
proof (induction n arbitrary: pool)
  case (Suc n)
  let ?pool = "pool\<lparr>wp_next_id := Suc (wp_next_id pool), wp_workers := wp_workers pool @ [new_worker (wp_next_id pool) False None None]\<rparr>"
  have "append_workers (Suc n) False pool = append_workers n False ?pool" by (simp add: create_worker_def Let_def)
  moreover have "cpu_workers ?pool = cpu_workers pool + 1" "busy_cpu_workers ?pool = busy_cpu_workers pool"
      "busy_stay (wp_workers pool) (wp_workers ?pool)"
    by (simp_all add: cpu_workers_def busy_cpu_workers_def new_worker_def)
  ultimately show ?case using Suc.IH [of ?pool] busy_stay_trans by fastforce
qed simp

lemma idle_and_busy: "cpu_workers pool = int (length (filter (\<lambda>w. \<not> wk_busy w) (filter (\<lambda>w. \<not> wk_gpu w) (wp_workers pool)))) +
    busy_cpu_workers pool"
proof -
  have "length (filter (\<lambda>w. \<not> wk_gpu w) ws) =
      length (filter (\<lambda>w. \<not> wk_gpu w \<and> \<not> wk_busy w) ws) + length (filter (\<lambda>w. \<not> wk_gpu w \<and> wk_busy w) ws)" for ws
    by (induction ws) simp_all
  from this [of "wp_workers pool"] show ?thesis
    by (simp add: cpu_workers_def busy_cpu_workers_def conj_commute)
qed

lemma filter_gone:
  assumes "distinct (map wk_id ws)" "set gone \<subseteq> set ws"
  shows "filter (\<lambda>w. wk_id w \<notin> set (map wk_id gone)) ws = filter (\<lambda>w. w \<notin> set gone) ws"
proof (rule filter_cong [OF refl])
  fix w assume w: "w \<in> set ws"
  have "inj_on wk_id (set ws)" using assms(1) by (simp add: distinct_map)
  with w assms(2) show "wk_id w \<notin> set (map wk_id gone) \<longleftrightarrow> w \<notin> set gone" by (auto dest: inj_onD)
qed

lemma filter_split: "length (filter P ws) = length (filter (\<lambda>w. P w \<and> Q w) ws) + length (filter (\<lambda>w. P w \<and> \<not> Q w) ws)"
  by (induction ws) simp_all

lemma filter_members:
  assumes "distinct ws" "distinct gone" "set gone \<subseteq> {w \<in> set ws. P w}"
  shows "length (filter (\<lambda>w. P w \<and> w \<in> set gone) ws) = length gone"
proof -
  have "length (filter (\<lambda>w. P w \<and> w \<in> set gone) ws) = card (set (filter (\<lambda>w. P w \<and> w \<in> set gone) ws))"
    using assms(1) by (simp only: distinct_card distinct_filter)
  also have "set (filter (\<lambda>w. P w \<and> w \<in> set gone) ws) = set gone" using assms(3) by auto
  finally show ?thesis using assms(2) by (simp add: distinct_card)
qed

lemma removal_shares:
  assumes "g = min n (c - b)" "n \<le> (c :: int)" "0 \<le> b"
  shows "min (n - g) b = max 0 (n - (c - b))" "g + min (n - g) b = n"
  using assms by (auto simp: min_def max_def)

lemma remove_cpu_workers:
  assumes "wp_policies pool = None" "pool_ok pool" "0 < n" "n \<le> cpu_workers pool"
  shows "\<exists>removal pool'. remove_workers False n pool = Some (removal, pool') \<and>
    cpu_workers pool' - wp_pending pool' False = cpu_workers pool - wp_pending pool False - n \<and>
    wp_pending pool' False = wp_pending pool False + max 0 (n - (cpu_workers pool - busy_cpu_workers pool)) \<and>
    busy_cpu_workers pool' = busy_cpu_workers pool \<and> busy_stay (wp_workers pool) (wp_workers pool')"
proof -
  let ?ws = "wp_workers pool"
  let ?idle = "filter (\<lambda>w. \<not> wk_busy w) (filter (\<lambda>w. \<not> wk_gpu w) ?ws)"
  let ?gone = "take (nat n) ?idle"
  let ?left = "filter (\<lambda>w. w \<notin> set ?gone) ?ws"
  have ids: "distinct (map wk_id ?ws)" and distinct: "distinct ?ws"
    using assms(2) by (simp_all add: pool_ok_def distinct_map)
  have sub: "set ?gone \<subseteq> {w \<in> set ?ws. \<not> wk_gpu w \<and> \<not> wk_busy w}" by (auto dest: in_set_takeD)
  have left: "filter (\<lambda>w. wk_id w \<notin> set (map wk_id ?gone)) ?ws = ?left"
    by (rule filter_gone [OF ids]) (use sub in blast)
  have cpus: "int (length ?idle) = cpu_workers pool - busy_cpu_workers pool" using idle_and_busy [of pool] by simp
  have gone: "int (length ?gone) = min n (cpu_workers pool - busy_cpu_workers pool)" using assms(3) cpus by auto
  have "length (filter (\<lambda>w. \<not> wk_gpu w \<and> w \<in> set ?gone) ?ws) = length ?gone"
    by (rule filter_members) (use sub distinct in auto)
  then have cpu_left: "int (length (filter (\<lambda>w. \<not> wk_gpu w) ?left)) = cpu_workers pool - int (length ?gone)"
    using filter_split [of "\<lambda>w. \<not> wk_gpu w" ?ws "\<lambda>w. w \<in> set ?gone"] by (simp add: cpu_workers_def conj_commute)
  have "filter (\<lambda>w. (\<not> wk_gpu w \<and> wk_busy w) \<and> w \<notin> set ?gone) ?ws = filter (\<lambda>w. \<not> wk_gpu w \<and> wk_busy w) ?ws"
    by (rule filter_cong) (use sub in auto)
  then have busy_left: "int (length (filter (\<lambda>w. \<not> wk_gpu w \<and> wk_busy w) ?left)) = busy_cpu_workers pool"
    by (simp add: busy_cpu_workers_def conj_commute)
  have stay: "busy_stay ?ws ?left" using sub by (fastforce simp: busy_stay_def)
  let ?scheduled = "min (n - int (length ?gone)) (busy_cpu_workers pool)"
  let ?pool = "pool\<lparr>wp_workers := ?left, wp_pending := (wp_pending pool)(False := wp_pending pool False + ?scheduled)\<rparr>"
  have nonneg: "0 \<le> busy_cpu_workers pool" by (simp add: busy_cpu_workers_def)
  obtain removal where removed: "remove_workers False n pool = Some (removal, ?pool)"
    using assms(1,3) left by (simp add: remove_workers_def Let_def busy_cpu_workers_def conj_commute)
  have scheduled: "?scheduled = max 0 (n - (cpu_workers pool - busy_cpu_workers pool))"
    using removal_shares(1) [OF gone assms(4) nonneg] .
  have all: "int (length ?gone) + ?scheduled = n"
    using removal_shares(2) [OF gone assms(4) nonneg] .
  have left_cpus: "cpu_workers ?pool = cpu_workers pool - int (length ?gone)" using cpu_left by (simp add: cpu_workers_def)
  show ?thesis
  proof (intro exI conjI)
    show "remove_workers False n pool = Some (removal, ?pool)" by (rule removed)
    show "cpu_workers ?pool - wp_pending ?pool False = cpu_workers pool - wp_pending pool False - n"
      using all unfolding left_cpus by simp
    show "wp_pending ?pool False = wp_pending pool False + max 0 (n - (cpu_workers pool - busy_cpu_workers pool))"
      unfolding scheduled [symmetric] by simp
    show "busy_cpu_workers ?pool = busy_cpu_workers pool" using busy_left by (simp add: busy_cpu_workers_def)
    show "busy_stay ?ws (wp_workers ?pool)" using stay by simp
  qed
qed

text \<open>C20: In a pool without worker groups, reconciling the CPU workers succeeds and settles it at the saved count: the
  CPU workers left, less the removals put off until a worker finishes, are exactly the count (or none, for a count
  below zero); a removal is put off only when no CPU worker without a task is left to take away; and no worker with a
  task is taken away.\<close>
theorem reconcile_cpu_workers_settles:
  assumes "wp_policies pool = None" and "pool_ok pool"
    and "0 \<le> wp_pending pool False"
  shows "\<exists>pool'. reconcile_cpu_workers current nodes now desired pool = Some pool' \<and>
    cpu_workers pool' - wp_pending pool' False = max 0 desired \<and>
    0 \<le> wp_pending pool' False \<and>
    (wp_pending pool' False \<le> wp_pending pool False \<or> cpu_workers pool' = busy_cpu_workers pool') \<and>
    busy_stay (wp_workers pool) (wp_workers pool')"
proof -
  let ?d = "max 0 desired" and ?pending = "wp_pending pool False" and ?cpus = "cpu_workers pool"
  consider (more) "?d > ?cpus - ?pending" | (fewer) "?d < ?cpus - ?pending" | (same) "?d = ?cpus - ?pending" by linarith
  then show ?thesis
  proof cases
    case more
    let ?cancelled = "min ?pending (?d - (?cpus - ?pending))"
    let ?pool = "pool\<lparr>wp_pending := (wp_pending pool)(False := ?pending - ?cancelled)\<rparr>"
    let ?n = "nat (?d - (?cpus - ?pending) - ?cancelled)"
    from append_cpu_workers [of ?n ?pool] obtain pool' where added: "append_workers ?n False ?pool = Some pool'"
      "cpu_workers pool' = cpu_workers ?pool + int ?n" "busy_cpu_workers pool' = busy_cpu_workers ?pool"
      "busy_stay (wp_workers ?pool) (wp_workers pool')" "wp_pending pool' = wp_pending ?pool" by blast
    have "reconcile_cpu_workers current nodes now desired pool = Some pool'"
      using more added(1) assms(1) by (simp add: reconcile_cpu_workers_def cpu_workers_def add_workers_def Let_def)
    moreover have "cpu_workers ?pool = ?cpus" "busy_cpu_workers ?pool = busy_cpu_workers pool"
      by (simp_all add: cpu_workers_def busy_cpu_workers_def)
    ultimately show ?thesis using added(2-5) more assms(3) by (intro exI [of _ pool']) (auto simp: min_def)
  next
    case fewer
    have "0 \<le> ?d" by simp
    then have "0 < ?cpus - ?pending - ?d" "?cpus - ?pending - ?d \<le> ?cpus" using fewer assms(3) by linarith+
    from remove_cpu_workers [OF assms(1,2) this]
    obtain removal pool' where removed: "remove_workers False (?cpus - ?pending - ?d) pool = Some (removal, pool')"
      and after: "cpu_workers pool' - wp_pending pool' False = ?cpus - ?pending - (?cpus - ?pending - ?d)"
        "wp_pending pool' False = ?pending + max 0 ((?cpus - ?pending - ?d) - (?cpus - busy_cpu_workers pool))"
        "busy_cpu_workers pool' = busy_cpu_workers pool" "busy_stay (wp_workers pool) (wp_workers pool')" by blast
    from after assms(3) have left: "cpu_workers pool' - wp_pending pool' False = ?d" "0 \<le> wp_pending pool' False"
        "wp_pending pool' False \<le> ?pending \<or> cpu_workers pool' = busy_cpu_workers pool'" by (auto simp: max_def)
    have "\<not> ?d > ?cpus - ?pending" using fewer by linarith
    then have "reconcile_cpu_workers current nodes now desired pool = map_option snd (remove_workers False (?cpus - ?pending - ?d) pool)"
      using fewer unfolding reconcile_cpu_workers_def cpu_workers_def assms(1) Let_def by (simp only: if_False if_True simp_thms option.case)
    with removed have "reconcile_cpu_workers current nodes now desired pool = Some pool'" by simp
    with left after(4) show ?thesis by blast
  next
    case same
    then have "reconcile_cpu_workers current nodes now desired pool = Some pool"
      using assms(1) by (simp add: reconcile_cpu_workers_def cpu_workers_def Let_def)
    with same assms(3) show ?thesis by simp
  qed
qed

text \<open>Three CPU workers, one of them with a task.\<close>

definition three_workers :: worker_pool where
  "three_workers = first_pool\<lparr>wp_policies := None,
     wp_workers := [new_worker 0 False None None, (new_worker 1 False None None)\<lparr>wk_busy := True\<rparr>,
       new_worker 2 False None None], wp_next_id := 3\<rparr>"

theorem reconcile_cpu_workers_settles_witness:
  "\<exists>pool'. reconcile_cpu_workers None EMPTY_NODE_HARDWARE 0 0 three_workers = Some pool' \<and> cpu_workers pool' - wp_pending pool' False = 0 \<and>
    busy_stay (wp_workers three_workers) (wp_workers pool')"
proof -
  have "wp_policies three_workers = None" "pool_ok three_workers" "0 \<le> wp_pending three_workers False"
    by (auto simp: three_workers_def first_pool_def pool_ok_def new_worker_def busy_cpu_workers_def)
  from reconcile_cpu_workers_settles [OF this, of None EMPTY_NODE_HARDWARE 0 0] show ?thesis by auto
qed

end
