(* ===== verification/Job_Tracker.thy ===== *)
theory Job_Tracker
  imports Prelude "HOL-Library.AList"
begin

text \<open>
  One job's files in the dispatcher (\<open>JobTracker\<close> and the sections of \<open>JobDispatcher\<close> that change one
  tracker, \<open>jobs/dispatcher.py\<close>).  A definition is what one lock section, or one statement outside the
  locks, does to the tracker.  A dictionary is the list of its pairs in order.  The callbacks, the log lines
  and the per-server rows of the Files panel are left out; so is each GPU's error, which is only handed on.
\<close>

section \<open>Data\<close>

record work_item =
  wi_path :: string
  wi_server :: string
  wi_ids :: "(string \<times> string) list"
  wi_title :: string
  wi_library :: "string option"

text \<open>A node that failed a file's start: its name, how often, and when the file may go back to it.\<close>

record start_wait =
  sw_node_name :: string
  sw_failures :: nat
  sw_retry_at :: rat

text \<open>What a parked job keeps of a tracker (its \<open>state\<close>).\<close>

record accounting =
  ac_successful :: int
  ac_failed :: int
  ac_failed_paths :: "string list"
  ac_node_failures :: "(string \<times> string) list"
  ac_node_drops :: "(string \<times> string list) list"
  ac_node_start_failures :: "(string \<times> int) list"
  ac_dropped_on :: "(string \<times> string) list"
  ac_excluded_nodes :: "(string \<times> (string \<times> string) list) list"
  ac_outcome_counts :: "(string \<times> int) list"
  ac_cpu_fallback_files :: int
  ac_slow_path_files :: int
  ac_slow_path_interval :: int
  ac_total_items :: int

record job_tracker = accounting +
  tr_job :: string
  tr_kind :: string
  tr_check_share :: "rat option"
  tr_priority :: int
  tr_submission :: nat
  tr_last_picked :: nat
  tr_check_queue :: "work_item list"
  tr_item_queue :: "work_item list"
  tr_active_checks :: int
  tr_active_processing :: int
  tr_park_requested :: bool
  tr_detached :: bool
  tr_cancelled :: bool
  tr_done :: bool
  tr_work_started :: bool
  tr_generation_started :: bool
  tr_start_waits :: "(string \<times> (string \<times> start_wait) list) list"
  tr_sent_back :: "(string \<times> string) list"
  tr_stays_off :: "(string \<times> string) list"
  tr_gpus_refused :: "(string \<times> (string \<times> string) list) list"

text \<open>\<open>d.get(k, default)\<close> and \<open>d.pop(k, None)\<close>.\<close>

definition dict_get :: "('k \<times> 'v) list \<Rightarrow> 'k \<Rightarrow> 'v \<Rightarrow> 'v" where
  "dict_get d k missing = (case map_of d k of None \<Rightarrow> missing | Some v \<Rightarrow> v)"

definition dict_pop :: "'k \<Rightarrow> ('k \<times> 'v) list \<Rightarrow> ('k \<times> 'v) list" where
  "dict_pop k d = AList.delete k d"

section \<open>A new tracker\<close>

definition fresh_accounting :: "(string \<times> int) list \<Rightarrow> int \<Rightarrow> accounting" where
  "fresh_accounting counts files =
     \<lparr>ac_successful = 0, ac_failed = 0, ac_failed_paths = [], ac_node_failures = [], ac_node_drops = [],
      ac_node_start_failures = [], ac_dropped_on = [], ac_excluded_nodes = [], ac_outcome_counts = counts,
      ac_cpu_fallback_files = 0, ac_slow_path_files = 0, ac_slow_path_interval = 0, ac_total_items = files\<rparr>"

text \<open>Outcomes of files finished before a restart: they count as done from the start.\<close>

definition add_carried_outcome :: "(string \<times> int) \<Rightarrow> accounting \<Rightarrow> accounting" where
  "add_carried_outcome kv acc =
     acc\<lparr>ac_outcome_counts := AList.update (fst kv) (dict_get (ac_outcome_counts acc) (fst kv) 0 + snd kv)
            (ac_outcome_counts acc),
         ac_successful := ac_successful acc + snd kv,
         ac_total_items := ac_total_items acc + snd kv\<rparr>"

definition resumed_accounting :: "nat \<Rightarrow> accounting \<Rightarrow> accounting \<Rightarrow> accounting" where
  "resumed_accounting files fresh state =
     state\<lparr>ac_outcome_counts := fold (\<lambda>kv. AList.update (fst kv) (snd kv)) (ac_outcome_counts state)
              (ac_outcome_counts fresh),
           ac_total_items := int files + ac_successful state + ac_failed state\<rparr>"

text \<open>
  \<open>JobTracker.__init__\<close>; \<open>None\<close> is its ValueError when both a carried outcome and a carried state are
  given.  \<open>keys\<close> are the outcome keys of the job's kind.
\<close>

definition new_tracker ::
  "string \<Rightarrow> string \<Rightarrow> string list \<Rightarrow> rat option \<Rightarrow> int \<Rightarrow> nat \<Rightarrow> work_item list \<Rightarrow> (string \<times> int) list
    \<Rightarrow> accounting option \<Rightarrow> job_tracker option" where
  "new_tracker job kind keys share priority submission files carried_outcome carried_state =
     (let zero = fresh_accounting (map (\<lambda>k. (k, 0)) keys) (int (length files));
          counted = fold add_carried_outcome carried_outcome zero
      in map_option
           (\<lambda>acc. accounting.extend acc
              (job_tracker.fields job kind share priority submission 0 files [] 0 0 False False False False False
                 False [] [] [] []))
           (case carried_state of
              None \<Rightarrow> Some counted
            | Some state \<Rightarrow>
                if carried_outcome \<noteq> [] then None else Some (resumed_accounting (length files) counted state)))"

definition completed :: "job_tracker \<Rightarrow> int" where
  "completed t = ac_successful t + ac_failed t"

section \<open>Counting files\<close>

text \<open>The counted part of \<open>record_completion\<close>, with whether the job is done.\<close>

definition count_completion :: "bool \<Rightarrow> string \<Rightarrow> string \<Rightarrow> job_tracker \<Rightarrow> job_tracker \<times> bool" where
  "count_completion success path node_failure t =
     (let t = (if success then t\<lparr>ac_successful := ac_successful t + 1\<rparr>
               else
                 (let t = t\<lparr>ac_failed := ac_failed t + 1\<rparr>
                  in if path = [] then t
                     else t\<lparr>ac_failed_paths := ac_failed_paths t @ [path],
                            ac_node_failures := (if node_failure = [] then ac_node_failures t
                              else AList.update path node_failure (ac_node_failures t))\<rparr>))
      in (t, ac_successful t + ac_failed t \<ge> ac_total_items t))"

definition set_done :: "job_tracker \<Rightarrow> job_tracker" where
  "set_done t = t\<lparr>tr_done := True\<rparr>"

definition record_completion :: "bool \<Rightarrow> string \<Rightarrow> string \<Rightarrow> job_tracker \<Rightarrow> job_tracker" where
  "record_completion success path node_failure t =
     (let (t, is_done) = count_completion success path node_failure t in if is_done then set_done t else t)"

text \<open>
  The outcome counted by the check stage: a preview's outcome only when it is a key already, another
  kind's always; a failure of the dispatcher's own; and what a worker's task added.
\<close>

definition count_check_outcome :: "bool \<Rightarrow> string \<Rightarrow> job_tracker \<Rightarrow> job_tracker" where
  "count_check_outcome custom key t =
     (if custom \<or> map_of (ac_outcome_counts t) key \<noteq> None
      then t\<lparr>ac_outcome_counts := AList.update key (dict_get (ac_outcome_counts t) key 0 + 1) (ac_outcome_counts t)\<rparr>
      else t)"

definition forget_gpus_refused :: "string \<Rightarrow> job_tracker \<Rightarrow> job_tracker" where
  "forget_gpus_refused path t = t\<lparr>tr_gpus_refused := dict_pop path (tr_gpus_refused t)\<rparr>"

definition count_failed_outcome :: "string \<Rightarrow> job_tracker \<Rightarrow> job_tracker" where
  "count_failed_outcome path t =
     count_check_outcome True ''failed'' (forget_gpus_refused path t)"

record task_end =
  te_success :: bool
  te_delta :: "(string \<times> int) list"
  te_cpu_fallback :: bool
  te_slow_path_interval :: "int option"

definition merge_outcome :: "task_end \<Rightarrow> job_tracker \<Rightarrow> job_tracker" where
  "merge_outcome e t =
     (let t = t\<lparr>ac_outcome_counts := fold (\<lambda>(key, count) counts.
                  if count > 0 \<and> map_of counts key \<noteq> None
                  then AList.update key (dict_get counts key 0 + count) counts else counts)
                (te_delta e) (ac_outcome_counts t)\<rparr>;
          t = (if te_cpu_fallback e then t\<lparr>ac_cpu_fallback_files := ac_cpu_fallback_files t + 1\<rparr> else t)
      in case te_slow_path_interval e of
           None \<Rightarrow> t
         | Some i \<Rightarrow> t\<lparr>ac_slow_path_files := ac_slow_path_files t + 1, ac_slow_path_interval := i\<rparr>)"

section \<open>Cancelling\<close>

definition is_cancelled :: "bool \<Rightarrow> job_tracker \<Rightarrow> bool" where
  "is_cancelled asked t \<longleftrightarrow> asked \<or> tr_cancelled t"

definition mark_cancelled :: "job_tracker \<Rightarrow> job_tracker" where
  "mark_cancelled t = t\<lparr>tr_cancelled := True\<rparr>"

definition drain :: "job_tracker \<Rightarrow> job_tracker" where
  "drain t =
     t\<lparr>ac_failed_paths := ac_failed_paths t @ map wi_path (tr_check_queue t @ tr_item_queue t),
       ac_failed := ac_failed t + int (length (tr_check_queue t) + length (tr_item_queue t)),
       tr_check_queue := [], tr_item_queue := []\<rparr>"

definition cancel :: "job_tracker \<Rightarrow> job_tracker" where
  "cancel t = set_done (drain (mark_cancelled t))"

section \<open>Queues\<close>

definition stamp_pick :: "nat \<Rightarrow> job_tracker \<Rightarrow> job_tracker" where
  "stamp_pick pick t = t\<lparr>tr_last_picked := pick, tr_work_started := True\<rparr>"

text \<open>The picker's guard and what it takes; \<open>paused\<close> and \<open>asked\<close> are the answers of the job's callbacks.\<close>

definition may_check :: "bool \<Rightarrow> bool \<Rightarrow> job_tracker \<Rightarrow> bool" where
  "may_check paused asked t \<longleftrightarrow>
     \<not> tr_done t \<and> \<not> tr_park_requested t \<and> \<not> paused \<and> \<not> is_cancelled asked t \<and> tr_check_queue t \<noteq> []"

definition take_check :: "nat \<Rightarrow> job_tracker \<Rightarrow> job_tracker" where
  "take_check pick t =
     stamp_pick pick (t\<lparr>tr_check_queue := tl (tr_check_queue t), tr_active_checks := tr_active_checks t + 1\<rparr>)"

definition untake_check :: "work_item \<Rightarrow> job_tracker \<Rightarrow> job_tracker" where
  "untake_check i t =
     t\<lparr>tr_active_checks := tr_active_checks t - 1, tr_check_queue := i # tr_check_queue t\<rparr>"

definition queue_item :: "work_item \<Rightarrow> job_tracker \<Rightarrow> job_tracker" where
  "queue_item i t = t\<lparr>tr_item_queue := tr_item_queue t @ [i]\<rparr>"

definition end_check :: "job_tracker \<Rightarrow> job_tracker" where
  "end_check t = t\<lparr>tr_active_checks := max 0 (tr_active_checks t - 1)\<rparr>"

definition may_process :: "job_tracker \<Rightarrow> bool" where
  "may_process t \<longleftrightarrow> \<not> tr_done t \<and> \<not> tr_park_requested t \<and> \<not> tr_cancelled t \<and> tr_item_queue t \<noteq> []"

text \<open>\<open>_take_queued\<close> of the file at an index, and the reservation that goes with it.\<close>

definition take_queued :: "nat \<Rightarrow> job_tracker \<Rightarrow> job_tracker" where
  "take_queued n t = t\<lparr>tr_item_queue := take n (tr_item_queue t) @ drop (Suc n) (tr_item_queue t)\<rparr>"

definition reserve :: "job_tracker \<Rightarrow> job_tracker" where
  "reserve t = t\<lparr>tr_active_processing := tr_active_processing t + 1\<rparr>"

definition release_processing :: "job_tracker \<Rightarrow> job_tracker" where
  "release_processing t = t\<lparr>tr_active_processing := max 0 (tr_active_processing t - 1)\<rparr>"

definition start_processing :: "nat \<Rightarrow> job_tracker \<Rightarrow> job_tracker" where
  "start_processing pick t = stamp_pick pick ((reserve t)\<lparr>tr_generation_started := True\<rparr>)"

text \<open>
  A dropped file handed to the node that dropped it is noted (\<open>_claim_worker\<close>), unless no file of the job has a limit;
  \<open>node\<close> is the claimed worker's.
\<close>

definition note_sent_back :: "string option \<Rightarrow> string \<Rightarrow> job_tracker \<Rightarrow> job_tracker" where
  "note_sent_back node path t =
     (if ac_excluded_nodes t = [] \<and> ac_dropped_on t = [] \<and> tr_gpus_refused t = [] then t
      else (case map_of (ac_dropped_on t) path of
              Some dropped_on \<Rightarrow>
                if node = Some dropped_on then t\<lparr>tr_sent_back := AList.update path dropped_on (tr_sent_back t)\<rparr>
                else t\<lparr>tr_sent_back := dict_pop path (tr_sent_back t)\<rparr>
            | None \<Rightarrow> t\<lparr>tr_sent_back := dict_pop path (tr_sent_back t)\<rparr>))"

text \<open>A file given back goes to the front of the queue, and its slot is released with it.\<close>

definition give_back :: "work_item \<Rightarrow> job_tracker \<Rightarrow> job_tracker" where
  "give_back i t = release_processing (t\<lparr>tr_item_queue := i # tr_item_queue t\<rparr>)"

definition refuse_gpu :: "string \<Rightarrow> string \<Rightarrow> string \<Rightarrow> job_tracker \<Rightarrow> job_tracker" where
  "refuse_gpu path resource label t =
     t\<lparr>tr_gpus_refused := AList.update path (AList.update resource label (dict_get (tr_gpus_refused t) path []))
         (tr_gpus_refused t)\<rparr>"

section \<open>Files a node gave back\<close>

definition MAX_NODE_DROPS :: nat where "MAX_NODE_DROPS = 2"
definition MAX_NODE_START_FAILURES :: int where "MAX_NODE_START_FAILURES = 5"
definition NODE_START_RETRY_S :: rat where "NODE_START_RETRY_S = 1"
definition NODE_START_RETRY_MAX_S :: rat where "NODE_START_RETRY_MAX_S = 30"

datatype requeue_reason = Node_Unavailable | Node_Not_Started | Not_Visible

record node_requeue =
  rq_reason :: requeue_reason
  rq_node :: string
  rq_node_name :: string
  rq_message :: string

definition and_last :: "string list \<Rightarrow> string" where
  "and_last names = join '', '' (butlast names) @ '' and '' @ last names"

definition drops_failure :: "string list \<Rightarrow> string" where
  "drops_failure names =
     (let nodes = dedupe (filter (\<lambda>n. n \<noteq> []) names)
      in if nodes = [] then ''nodes unavailable (they dropped the file twice)''
         else
           (let nodes = (if [] \<in> set names then nodes @ [''an earlier one''] else nodes)
            in if length nodes = 1 then ''node '' @ hd nodes @ '' unavailable (it dropped the file twice)''
               else ''nodes '' @ and_last nodes @ '' unavailable (each dropped the file once)''))"

definition starts_failure :: "string list \<Rightarrow> string \<Rightarrow> string" where
  "starts_failure names last_try =
     (let why = (if length names = 1
                 then ''node '' @ hd names @ '' unavailable (it couldn't start the file '' @
                        show_int MAX_NODE_START_FAILURES @ '' times)''
                 else ''nodes '' @ and_last names @ '' unavailable (none of them could start the file)'')
      in why @ ''. Last try: '' @ last_try)"

text \<open>The nodes a file mustn't wait for.\<close>

definition nodes_off :: "job_tracker \<Rightarrow> string \<Rightarrow> string set" where
  "nodes_off t path =
     fst ` set (dict_get (ac_excluded_nodes t) path []) \<union> fst ` set (dict_get (tr_start_waits t) path []) \<union>
     (case map_of (ac_dropped_on t) path of None \<Rightarrow> {} | Some n \<Rightarrow> {n})"

text \<open>
  The section of \<open>_requeue_or_fail\<close> under the lock: what is noted about the file, why it fails, if it does,
  and the tracker with the file back in its queue otherwise.  \<open>runs_outside\<close> and \<open>can_run_outside\<close> are the pool's answers for
  the job's kind, \<open>invisible\<close> the message for a file no node left can see.
\<close>

definition note_requeue ::
  "(string set \<Rightarrow> bool) \<Rightarrow> (string set \<Rightarrow> bool) \<Rightarrow> ((string \<times> string) list \<Rightarrow> string) \<Rightarrow> rat
    \<Rightarrow> work_item \<Rightarrow> node_requeue \<Rightarrow> job_tracker \<Rightarrow> string option \<times> job_tracker" where
  "note_requeue runs_outside can_run_outside invisible now i r t =
     (let path = wi_path i;
          t = (if rq_reason r \<noteq> Not_Visible then t\<lparr>ac_dropped_on := AList.update path (rq_node r) (ac_dropped_on t)\<rparr>
               else t);
          sent_back = (map_of (tr_sent_back t) path = Some (rq_node r));
          t = t\<lparr>tr_sent_back := dict_pop path (tr_sent_back t)\<rparr>;
          excluded = dict_get (ac_excluded_nodes t) path []
      in (case rq_reason r of
             Node_Unavailable \<Rightarrow>
               if sent_back \<and> runs_outside (insert (rq_node r) (fst ` set excluded))
               then (None, t\<lparr>tr_stays_off := AList.update path (rq_node r) (tr_stays_off t)\<rparr>)
               else
                 (let drops = dict_get (ac_node_drops t) path [] @ [rq_node_name r]
                  in (if length drops \<ge> MAX_NODE_DROPS then Some (drops_failure drops) else None,
                      t\<lparr>ac_node_drops := AList.update path drops (ac_node_drops t)\<rparr>))
           | Node_Not_Started \<Rightarrow>
               (let waits = dict_get (tr_start_waits t) path [];
                    tries = (case map_of waits (rq_node r) of None \<Rightarrow> 1 | Some w \<Rightarrow> sw_failures w + 1);
                    wait_s = min (NODE_START_RETRY_S * 2 ^ (tries - 1)) NODE_START_RETRY_MAX_S;
                    waits = AList.update (rq_node r) \<lparr>sw_node_name = rq_node_name r, sw_failures = tries,
                              sw_retry_at = now + wait_s\<rparr> waits;
                    t = t\<lparr>tr_start_waits := AList.update path waits (tr_start_waits t)\<rparr>
                in if runs_outside (fst ` set excluded \<union> fst ` set waits) then (None, t)
                   else
                     (let starts = dict_get (ac_node_start_failures t) path 0 + 1
                      in (if starts \<ge> MAX_NODE_START_FAILURES
                          then Some (starts_failure (map (\<lambda>(n, w). sw_node_name w) waits) (rq_message r)) else None,
                          t\<lparr>ac_node_start_failures := AList.update path starts (ac_node_start_failures t)\<rparr>)))
           | Not_Visible \<Rightarrow>
               (let excluded = AList.update (rq_node r) (rq_node_name r) excluded;
                    t = t\<lparr>ac_excluded_nodes := AList.update path excluded (ac_excluded_nodes t)\<rparr>
                in (if \<not> can_run_outside (fst ` set excluded) then Some (invisible excluded) else None, t))))"

definition requeue_or_fail ::
  "(string set \<Rightarrow> bool) \<Rightarrow> (string set \<Rightarrow> bool) \<Rightarrow> ((string \<times> string) list \<Rightarrow> string) \<Rightarrow> rat
    \<Rightarrow> work_item \<Rightarrow> node_requeue \<Rightarrow> job_tracker \<Rightarrow> string option \<times> job_tracker" where
  "requeue_or_fail runs_outside can_run_outside invisible now i r t =
     (let (failure, t) = note_requeue runs_outside can_run_outside invisible now i r t
      in (failure, if failure = None then give_back i t else t))"

section \<open>Parking\<close>

definition request_park :: "job_tracker \<Rightarrow> job_tracker" where
  "request_park t = (if tr_detached t \<or> tr_done t then t else t\<lparr>tr_park_requested := True\<rparr>)"

definition drained :: "job_tracker \<Rightarrow> bool" where
  "drained t \<longleftrightarrow>
     tr_park_requested t \<and> \<not> tr_detached t \<and> tr_active_checks t = 0 \<and> tr_active_processing t = 0"

record parked_state =
  sn_kind :: string
  sn_items :: "work_item list"
  sn_state :: accounting

definition snapshot_of :: "job_tracker \<Rightarrow> parked_state" where
  "snapshot_of t =
     \<lparr>sn_kind = tr_kind t, sn_items = tr_item_queue t @ tr_check_queue t, sn_state = accounting.truncate t\<rparr>"

definition park_snapshot :: "job_tracker \<Rightarrow> parked_state option" where
  "park_snapshot t = (if drained t \<and> \<not> tr_done t then Some (snapshot_of t) else None)"

text \<open>\<open>detach_parked\<close>: \<open>None\<close> is its RuntimeError; the answer says whether the tracker was taken away.\<close>

definition detach_parked :: "job_tracker \<Rightarrow> (bool \<times> job_tracker) option" where
  "detach_parked t =
     (if \<not> tr_park_requested t \<or> tr_active_checks t \<noteq> 0 \<or> tr_active_processing t \<noteq> 0 then None
      else if tr_done t then Some (False, t)
      else Some (True, t\<lparr>tr_detached := True, tr_check_queue := [], tr_item_queue := []\<rparr>))"

end
