(* ===== verification/Job_Files.thy ===== *)
theory Job_Files
  imports Job_Tracker State_Machine "HOL-Library.Multiset"
begin

text \<open>
  The threads that work on one job's files: the check threads, the workers' tasks, the dispatch loop and
  the callers of \<open>cancel\<close>.  An event is one step of one of them, between two lock operations; any
  interleaving is a sequence of events.  Which file a worker gets and on which node, and what the job's callbacks,
  the checks and the workers answer, are arguments of the events.  The body of \<open>cancel\<close> under the counters' lock is
  one step: a queue another thread changes while it is being emptied is not modelled.
\<close>

section \<open>Threads\<close>

text \<open>A check thread: not started yet, before its first look at the tracker, checking, and then the steps
  that put the file in the workers' queue or record it.\<close>

datatype check_stage =
    Starting | Waiting | Checking | Queueing | Recording bool string bool | Counting bool | Setting | Ending

datatype check_answer = Needs_Worker | Answered bool string bool

text \<open>The dispatch loop between two sections on one file; a \<open>bool\<close> says whether the file still holds the
  job's processing slot.\<close>

datatype loop_stage =
    Idle
  | Merging work_item task_end
  | Failing work_item string bool
  | Completing work_item bool string bool bool
  | Finishing work_item bool bool
  | Releasing work_item bool
  | To_Other_Gpu work_item string string
  | Given_Back work_item node_requeue

datatype task_result = Ended task_end | Handed_Off string string | Returned node_requeue

datatype cancel_stage = To_Drain | To_Finish

text \<open>The last four components are history: the files recorded, those no thread has any more, those taken
  away with a parked tracker, and whether anybody asked for a cancel.\<close>

record job_run =
  jr_tracker :: job_tracker
  jr_checks :: "(work_item \<times> check_stage) list"
  jr_tasks :: "work_item list"
  jr_loop :: loop_stage
  jr_stranded :: "(work_item \<times> string) list"
  jr_cancels :: "cancel_stage list"
  jr_recorded :: "work_item list"
  jr_dropped :: "work_item list"
  jr_parked :: "work_item list"
  jr_asked :: bool

definition start_run :: "job_tracker \<Rightarrow> job_run" where
  "start_run t =
     \<lparr>jr_tracker = (if tr_check_queue t = [] then set_done t else t), jr_checks = [], jr_tasks = [], jr_loop = Idle,
      jr_stranded = [], jr_cancels = [], jr_recorded = [], jr_dropped = [], jr_parked = [], jr_asked = False\<rparr>"

definition remove_at :: "nat \<Rightarrow> 'a list \<Rightarrow> 'a list" where
  "remove_at n xs = take n xs @ drop (Suc n) xs"

section \<open>Check threads\<close>

definition move_check :: "nat \<Rightarrow> check_stage \<Rightarrow> job_run \<Rightarrow> job_run" where
  "move_check n st s = s\<lparr>jr_checks := (jr_checks s)[n := (fst (jr_checks s ! n), st)]\<rparr>"

definition drop_file :: "work_item \<Rightarrow> job_run \<Rightarrow> job_run" where
  "drop_file i s = s\<lparr>jr_dropped := jr_dropped s @ [i]\<rparr>"

definition on_tracker :: "(job_tracker \<Rightarrow> job_tracker) \<Rightarrow> job_run \<Rightarrow> job_run" where
  "on_tracker f s = s\<lparr>jr_tracker := f (jr_tracker s)\<rparr>"

definition note_asked :: "bool \<Rightarrow> job_run \<Rightarrow> job_run" where
  "note_asked asked s = s\<lparr>jr_asked := jr_asked s \<or> asked\<rparr>"

definition pick_check :: "bool \<Rightarrow> bool \<Rightarrow> nat \<Rightarrow> job_run \<Rightarrow> job_run" where
  "pick_check paused asked pick s =
     (let s = note_asked asked s
      in if tr_detached (jr_tracker s) \<or> \<not> may_check paused asked (jr_tracker s) then s
         else (on_tracker (take_check pick) s)
                \<lparr>jr_checks := jr_checks s @ [(hd (tr_check_queue (jr_tracker s)), Starting)]\<rparr>)"

text \<open>A thread that can't be started gives its file back to the check queue.\<close>

definition check_unstarted :: "nat \<Rightarrow> job_run \<Rightarrow> job_run" where
  "check_unstarted n s =
     (on_tracker (untake_check (fst (jr_checks s ! n))) s)\<lparr>jr_checks := remove_at n (jr_checks s)\<rparr>"

definition check_guard :: "nat \<Rightarrow> bool \<Rightarrow> job_run \<Rightarrow> job_run" where
  "check_guard n asked s =
     (let s = note_asked asked s
      in if is_cancelled asked (jr_tracker s) \<or> tr_done (jr_tracker s)
         then drop_file (fst (jr_checks s ! n)) (move_check n Ending s)
         else move_check n Checking s)"

definition check_answers :: "nat \<Rightarrow> check_answer \<Rightarrow> bool \<Rightarrow> job_run \<Rightarrow> job_run" where
  "check_answers n answer asked s =
     (let s = note_asked asked s; i = fst (jr_checks s ! n)
      in case answer of
           Needs_Worker \<Rightarrow>
             if \<not> is_cancelled asked (jr_tracker s) \<and> \<not> tr_done (jr_tracker s) then move_check n Queueing s
             else drop_file i (move_check n Ending s)
         | Answered custom key success \<Rightarrow>
             if tr_done (jr_tracker s) then drop_file i (move_check n Ending s)
             else move_check n (Recording custom key success) s)"

definition record_file :: "work_item \<Rightarrow> job_run \<Rightarrow> job_run" where
  "record_file i s = s\<lparr>jr_recorded := jr_recorded s @ [i]\<rparr>"

definition check_step :: "nat \<Rightarrow> job_run \<Rightarrow> job_run" where
  "check_step n s =
     (case jr_checks s ! n of
        (i, Starting) \<Rightarrow> move_check n Waiting s
      | (i, Queueing) \<Rightarrow> move_check n Ending (on_tracker (queue_item i) s)
      | (i, Recording custom key success) \<Rightarrow>
          move_check n (Counting success) (on_tracker (count_check_outcome custom key) s)
      | (i, Counting success) \<Rightarrow>
          (let (t, is_done) = count_completion success (wi_path i) [] (jr_tracker s)
           in record_file i (move_check n (if is_done then Setting else Ending) (on_tracker (\<lambda>_. t) s)))
      | (i, Setting) \<Rightarrow> move_check n Ending (on_tracker set_done s)
      | (i, Ending) \<Rightarrow> (on_tracker end_check s)\<lparr>jr_checks := remove_at n (jr_checks s)\<rparr>
      | _ \<Rightarrow> s)"

section \<open>The dispatch loop\<close>

definition assign_file :: "nat \<Rightarrow> string option \<Rightarrow> nat \<Rightarrow> job_run \<Rightarrow> job_run" where
  "assign_file n node pick s =
     (let t = jr_tracker s
      in if tr_detached t \<or> \<not> may_process t \<or> n \<ge> length (tr_item_queue t) then s
         else (on_tracker (\<lambda>t. start_processing pick
                 (note_sent_back node (wi_path (tr_item_queue t ! n)) (take_queued n t))) s)
                \<lparr>jr_tasks := jr_tasks s @ [tr_item_queue t ! n]\<rparr>)"

text \<open>The worker could not start its thread.\<close>

definition assign_fails :: "nat \<Rightarrow> string option \<Rightarrow> nat \<Rightarrow> job_run \<Rightarrow> job_run" where
  "assign_fails n node pick s =
     (let t = jr_tracker s
      in if tr_detached t \<or> \<not> may_process t \<or> n \<ge> length (tr_item_queue t) then s
         else (on_tracker (\<lambda>t. (start_processing pick
                 (note_sent_back node (wi_path (tr_item_queue t ! n)) (take_queued n t)))
                 \<lparr>tr_active_processing := tr_active_processing t\<rparr>) s)
                \<lparr>jr_loop := Failing (tr_item_queue t ! n) [] False\<rparr>)"

definition strand_file :: "nat \<Rightarrow> string \<Rightarrow> job_run \<Rightarrow> job_run" where
  "strand_file n reason s =
     (let t = jr_tracker s
      in if tr_detached t \<or> \<not> may_process t \<or> n \<ge> length (tr_item_queue t) then s
         else (on_tracker (\<lambda>t. reserve (take_queued n t)) s)
                \<lparr>jr_stranded := jr_stranded s @ [(tr_item_queue t ! n, reason)]\<rparr>)"

definition fail_stranded :: "job_run \<Rightarrow> job_run" where
  "fail_stranded s =
     (case jr_stranded s of
        [] \<Rightarrow> s
      | (i, reason) # rest \<Rightarrow> s\<lparr>jr_stranded := rest, jr_loop := Failing i reason True\<rparr>)"

definition reap :: "nat \<Rightarrow> task_result \<Rightarrow> job_run \<Rightarrow> job_run" where
  "reap n result s =
     (if n \<ge> length (jr_tasks s) then s
      else
        (let i = jr_tasks s ! n; s = s\<lparr>jr_tasks := remove_at n (jr_tasks s)\<rparr>
         in if tr_done (jr_tracker s) then drop_file i s
            else s\<lparr>jr_loop := (case result of
                     Ended e \<Rightarrow> Merging i e
                   | Handed_Off resource label \<Rightarrow> To_Other_Gpu i resource label
                   | Returned r \<Rightarrow> Given_Back i r)\<rparr>))"

text \<open>The loop's next section; the arguments are the pool's answers and the clock.\<close>

definition loop_step ::
  "(string set \<Rightarrow> bool) \<Rightarrow> (string set \<Rightarrow> bool) \<Rightarrow> ((string \<times> string) list \<Rightarrow> string) \<Rightarrow> rat \<Rightarrow> job_run \<Rightarrow> job_run" where
  "loop_step runs_outside can_run_outside invisible now s =
     (case jr_loop s of
        Idle \<Rightarrow> s
      | Merging i e \<Rightarrow> (on_tracker (merge_outcome e) s)\<lparr>jr_loop := Completing i (te_success e) [] True True\<rparr>
      | Failing i reason holds \<Rightarrow>
          (on_tracker (count_failed_outcome (wi_path i)) s)\<lparr>jr_loop := Completing i False reason holds False\<rparr>
      | Completing i success node_failure holds forget \<Rightarrow>
          (let (t, is_done) = count_completion success (wi_path i) node_failure (jr_tracker s)
           in (record_file i (on_tracker (\<lambda>_. t) s))
                \<lparr>jr_loop := (if is_done then Finishing i holds forget
                             else if holds then Releasing i forget else Idle)\<rparr>)
      | Finishing i holds forget \<Rightarrow>
          (on_tracker set_done s)\<lparr>jr_loop := (if holds then Releasing i forget else Idle)\<rparr>
      | Releasing i forget \<Rightarrow>
          (on_tracker (\<lambda>t. (if forget then forget_gpus_refused (wi_path i) else id) (release_processing t)) s)
            \<lparr>jr_loop := Idle\<rparr>
      | To_Other_Gpu i resource label \<Rightarrow>
          (on_tracker (\<lambda>t. give_back i (refuse_gpu (wi_path i) resource label t)) s)\<lparr>jr_loop := Idle\<rparr>
      | Given_Back i r \<Rightarrow>
          (let (failure, t) = requeue_or_fail runs_outside can_run_outside invisible now i r (jr_tracker s)
           in (on_tracker (\<lambda>_. t) s)
                \<lparr>jr_loop := (case failure of None \<Rightarrow> Idle | Some reason \<Rightarrow> Failing i reason True)\<rparr>))"

section \<open>Cancelling and parking\<close>

definition start_cancel :: "job_run \<Rightarrow> job_run" where
  "start_cancel s = (on_tracker mark_cancelled (note_asked True s))\<lparr>jr_cancels := jr_cancels s @ [To_Drain]\<rparr>"

definition step_cancel :: "nat \<Rightarrow> job_run \<Rightarrow> job_run" where
  "step_cancel n s =
     (case jr_cancels s ! n of
        To_Drain \<Rightarrow>
          (on_tracker drain s)
            \<lparr>jr_recorded := jr_recorded s @ tr_check_queue (jr_tracker s) @ tr_item_queue (jr_tracker s),
             jr_cancels := (jr_cancels s)[n := To_Finish]\<rparr>
      | To_Finish \<Rightarrow> (on_tracker set_done s)\<lparr>jr_cancels := remove_at n (jr_cancels s)\<rparr>)"

definition detach :: "job_run \<Rightarrow> job_run" where
  "detach s =
     (let t = jr_tracker s
      in if tr_detached t then s
         else (case detach_parked t of
                 Some (True, t') \<Rightarrow>
                   s\<lparr>jr_tracker := t', jr_parked := jr_parked s @ tr_item_queue t @ tr_check_queue t\<rparr>
               | _ \<Rightarrow> s))"

section \<open>Events\<close>

datatype job_event =
    Pick_Check bool bool nat
  | Check_Unstarted nat
  | Check_Guard nat bool
  | Check_Answers nat check_answer bool
  | Check_Step nat
  | Assign nat "string option" nat
  | Assign_Fails nat "string option" nat
  | Strand nat string
  | Fail_Stranded
  | Reap nat task_result
  | Loop_Step "string set \<Rightarrow> bool" "string set \<Rightarrow> bool" "(string \<times> string) list \<Rightarrow> string" rat
  | Start_Cancel
  | Step_Cancel nat
  | Request_Park
  | Detach

definition in_stage :: "nat \<Rightarrow> check_stage \<Rightarrow> job_run \<Rightarrow> bool" where
  "in_stage n st s \<longleftrightarrow> n < length (jr_checks s) \<and> snd (jr_checks s ! n) = st"

text \<open>The loop keeps the lock of the trackers while it fails a file its worker could not start.\<close>

definition holds_trackers :: "job_run \<Rightarrow> bool" where
  "holds_trackers s \<longleftrightarrow>
     (case jr_loop s of
        Failing i reason holds \<Rightarrow> \<not> holds
      | Completing i success node_failure holds forget \<Rightarrow> \<not> holds
      | Finishing i holds forget \<Rightarrow> \<not> holds
      | _ \<Rightarrow> False)"

fun job_step :: "job_event \<Rightarrow> job_run \<Rightarrow> job_run" where
  "job_step (Pick_Check paused asked pick) s = (if holds_trackers s then s else pick_check paused asked pick s)"
| "job_step (Check_Unstarted n) s = (if in_stage n Starting s \<and> \<not> holds_trackers s then check_unstarted n s else s)"
| "job_step (Check_Guard n asked) s = (if in_stage n Waiting s then check_guard n asked s else s)"
| "job_step (Check_Answers n answer asked) s = (if in_stage n Checking s then check_answers n answer asked s else s)"
| "job_step (Check_Step n) s = 
     (if n < length (jr_checks s) \<and> \<not> (snd (jr_checks s ! n) = Ending \<and> holds_trackers s) then check_step n s else s)"
| "job_step (Assign n node pick) s = (if jr_loop s = Idle then assign_file n node pick s else s)"
| "job_step (Assign_Fails n node pick) s = (if jr_loop s = Idle then assign_fails n node pick s else s)"
| "job_step (Strand n reason) s = (if jr_loop s = Idle then strand_file n reason s else s)"
| "job_step Fail_Stranded s = (if jr_loop s = Idle then fail_stranded s else s)"
| "job_step (Reap n result) s = (if jr_loop s = Idle then reap n result s else s)"
| "job_step (Loop_Step runs can_run invisible now) s = loop_step runs can_run invisible now s"
| "job_step Start_Cancel s = start_cancel s"
| "job_step (Step_Cancel n) s = (if n < length (jr_cancels s) then step_cancel n s else s)"
| "job_step Request_Park s = (if holds_trackers s then s else on_tracker request_park s)"
| "job_step Detach s = (if holds_trackers s then s else detach s)"

end
