(* ===== verification/Job_Accounts.thy ===== *)
theory Job_Accounts
  imports Job_Files
begin

text \<open>
  What the threads of \<open>Job_Files\<close> keep true in any interleaving: every file of the job is in exactly one
  place, the counters count the recorded files, and a job whose files are all recorded is done or about to
  be.
\<close>

section \<open>What the operations change\<close>

text \<open>The components of a tracker the accounts are about.\<close>

definition view_of ::
  "job_tracker \<Rightarrow> work_item list \<times> work_item list \<times> int \<times> int \<times> int \<times> int \<times> bool \<times> bool" where
  "view_of t = (tr_check_queue t, tr_item_queue t, completed t, ac_total_items t, tr_active_checks t,
     tr_active_processing t, tr_done t, tr_cancelled t)"

named_theorems views

lemma view_count_outcome [views]: "view_of (count_check_outcome custom key t) = view_of t"
  by (simp add: view_of_def completed_def count_check_outcome_def)

lemma view_forget [views]: "view_of (forget_gpus_refused path t) = view_of t"
  by (simp add: view_of_def completed_def forget_gpus_refused_def)

lemma view_failed_outcome [views]: "view_of (count_failed_outcome path t) = view_of t"
  by (simp add: count_failed_outcome_def views)

lemma view_merge [views]: "view_of (merge_outcome e t) = view_of t"
  by (simp add: view_of_def completed_def merge_outcome_def Let_def split: option.split)

lemma view_refuse [views]: "view_of (refuse_gpu path resource label t) = view_of t"
  by (simp add: view_of_def completed_def refuse_gpu_def)

lemma view_request_park [views]: "view_of (request_park t) = view_of t"
  by (simp add: view_of_def completed_def request_park_def)

lemma count_completion_view:
  assumes "count_completion success path node_failure t = (t', is_done)"
  shows "view_of t' = (tr_check_queue t, tr_item_queue t, completed t + 1, ac_total_items t, tr_active_checks t,
      tr_active_processing t, tr_done t, tr_cancelled t)"
    and "is_done \<longleftrightarrow> completed t + 1 \<ge> ac_total_items t"
  using assms by (auto simp: count_completion_def view_of_def completed_def Let_def split: if_splits)

lemma give_back_view [simp]:
  "view_of (give_back i t) = (tr_check_queue t, i # tr_item_queue t, completed t, ac_total_items t, tr_active_checks t,
      max 0 (tr_active_processing t - 1), tr_done t, tr_cancelled t)"
  by (simp add: view_of_def completed_def give_back_def release_processing_def)

lemma give_back_cong:
  assumes "view_of t' = view_of t"
  shows "view_of (give_back i t') = view_of (give_back i t)"
  using assms by (simp add: view_of_def [of t] view_of_def [of t'])

lemma view_sent_back [simp]:
  "tr_check_queue (note_sent_back node path t) = tr_check_queue t" "tr_item_queue (note_sent_back node path t) = tr_item_queue t"
  "completed (note_sent_back node path t) = completed t" "ac_total_items (note_sent_back node path t) = ac_total_items t"
  "tr_active_checks (note_sent_back node path t) = tr_active_checks t"
  "tr_active_processing (note_sent_back node path t) = tr_active_processing t"
  "tr_done (note_sent_back node path t) = tr_done t" "tr_cancelled (note_sent_back node path t) = tr_cancelled t"
  "tr_detached (note_sent_back node path t) = tr_detached t"
  by (simp_all add: note_sent_back_def completed_def split: option.split)

text \<open>A file given back is queued with its slot released, or nothing of this changes.\<close>

lemma note_requeue_view:
  "view_of (snd (note_requeue runs_outside can_run_outside invisible now i r t)) = view_of t"
  by (simp add: note_requeue_def Let_def view_of_def completed_def split: requeue_reason.split)

lemma requeue_or_fail_view:
  assumes "requeue_or_fail runs_outside can_run_outside invisible now i r t = (failure, t')"
  shows "view_of t' = (if failure = None then view_of (give_back i t) else view_of t)"
proof -
  obtain t1 where noted: "note_requeue runs_outside can_run_outside invisible now i r t = (failure, t1)"
    and t': "t' = (if failure = None then give_back i t1 else t1)"
    using assms by (auto simp: requeue_or_fail_def split: prod.splits)
  have "view_of t1 = view_of t"
    using note_requeue_view [of runs_outside can_run_outside invisible now i r t] noted by simp
  then show ?thesis using give_back_cong [of t1 t i] t' by simp
qed

section \<open>Where the files are\<close>

fun loop_files :: "loop_stage \<Rightarrow> work_item list" where
  "loop_files (Merging i e) = [i]"
| "loop_files (Failing i reason holds) = [i]"
| "loop_files (Completing i success node_failure holds forget) = [i]"
| "loop_files (To_Other_Gpu i resource label) = [i]"
| "loop_files (Given_Back i r) = [i]"
| "loop_files _ = []"

fun loop_slots :: "loop_stage \<Rightarrow> int" where
  "loop_slots Idle = 0"
| "loop_slots (Failing i reason holds) = of_bool holds"
| "loop_slots (Completing i success node_failure holds forget) = of_bool holds"
| "loop_slots (Finishing i holds forget) = of_bool holds"
| "loop_slots _ = 1"

definition has_file :: "work_item \<times> check_stage \<Rightarrow> bool" where
  "has_file c \<longleftrightarrow> snd c \<noteq> Setting \<and> snd c \<noteq> Ending"

definition files_in_checks :: "job_run \<Rightarrow> work_item list" where
  "files_in_checks s = map fst (filter has_file (jr_checks s))"

definition files_of :: "job_run \<Rightarrow> work_item multiset" where
  "files_of s =
     mset (tr_check_queue (jr_tracker s)) + mset (tr_item_queue (jr_tracker s)) + mset (files_in_checks s) +
     mset (jr_tasks s) + mset (loop_files (jr_loop s)) + mset (map fst (jr_stranded s)) +
     mset (jr_recorded s) + mset (jr_dropped s) + mset (jr_parked s)"

text \<open>A thread that is about to set the done event.\<close>

definition about_to_finish :: "job_run \<Rightarrow> bool" where
  "about_to_finish s \<longleftrightarrow>
     Setting \<in> snd ` set (jr_checks s) \<or> (case jr_loop s of Finishing i holds forget \<Rightarrow> True | _ \<Rightarrow> False)"

text \<open>The counters count the recorded files; the reservations are those of running threads; and who may
  have set the done event.\<close>

definition counts_agree :: "int \<Rightarrow> int \<Rightarrow> job_run \<Rightarrow> bool" where
  "counts_agree carried files s \<longleftrightarrow>
     completed (jr_tracker s) = carried + int (length (jr_recorded s)) \<and> ac_total_items (jr_tracker s) = carried + files"

definition slots_held :: "job_run \<Rightarrow> bool" where
  "slots_held s \<longleftrightarrow>
     tr_active_checks (jr_tracker s) = int (length (jr_checks s)) \<and>
     int (length (jr_tasks s)) + int (length (jr_stranded s)) + loop_slots (jr_loop s)
       \<le> tr_active_processing (jr_tracker s)"

definition ending_ok :: "nat \<Rightarrow> job_run \<Rightarrow> bool" where
  "ending_ok files s \<longleftrightarrow>
     (let t = jr_tracker s; all = (length (jr_recorded s) = files)
      in (tr_done t \<longrightarrow> tr_cancelled t \<or> all) \<and> (about_to_finish s \<longrightarrow> all) \<and>
         (all \<longrightarrow> tr_done t \<or> about_to_finish s \<or> jr_cancels s \<noteq> []) \<and>
         (jr_cancels s \<noteq> [] \<longrightarrow> tr_cancelled t) \<and>
         (tr_cancelled t \<or> jr_dropped s \<noteq> [] \<longrightarrow> jr_asked s))"

text \<open>What \<open>new_tracker\<close> gives.\<close>

definition fresh_tracker :: "job_tracker \<Rightarrow> bool" where
  "fresh_tracker t \<longleftrightarrow>
     ac_total_items t = completed t + int (length (tr_check_queue t)) \<and> tr_item_queue t = [] \<and>
     tr_active_checks t = 0 \<and> tr_active_processing t = 0 \<and>
     \<not> tr_park_requested t \<and> \<not> tr_detached t \<and> \<not> tr_cancelled t \<and> \<not> tr_done t"

lemma carried_outcomes_accounts:
  "ac_successful (fold add_carried_outcome kvs acc) + ac_failed (fold add_carried_outcome kvs acc) -
     ac_total_items (fold add_carried_outcome kvs acc) = ac_successful acc + ac_failed acc - ac_total_items acc"
  by (induction kvs arbitrary: acc) (simp_all add: add_carried_outcome_def)

lemma new_tracker_fresh:
  assumes "new_tracker job kind keys share priority submission files carried_outcome carried_state = Some t"
  shows "fresh_tracker t" "tr_check_queue t = files"
proof -
  let ?zero = "fresh_accounting (map (\<lambda>k. (k, 0)) keys) (int (length files))"
  have "ac_total_items (fold add_carried_outcome carried_outcome ?zero) =
      ac_successful (fold add_carried_outcome carried_outcome ?zero) +
      ac_failed (fold add_carried_outcome carried_outcome ?zero) + int (length files)"
    using carried_outcomes_accounts [of carried_outcome ?zero] by (simp add: fresh_accounting_def)
  then show "fresh_tracker t" "tr_check_queue t = files"
    using assms
    by (auto simp: new_tracker_def Let_def fresh_tracker_def completed_def resumed_accounting_def
        accounting.defs job_tracker.defs split: option.splits if_splits)
qed

section \<open>Steps\<close>

lemma remove_at_split: "length ys = n \<Longrightarrow> remove_at n (ys @ z # zs) = ys @ zs"
  by (auto simp: remove_at_def)

lemma split_at:
  assumes "n < length xs"
  obtains ys zs where "xs = ys @ xs ! n # zs" "length ys = n" "remove_at n xs = ys @ zs"
    "\<And>y. xs[n := y] = ys @ y # zs"
proof -
  have "xs = take n xs @ xs ! n # drop (Suc n) xs" by (rule id_take_nth_drop [OF assms])
  then show ?thesis using assms that [of "take n xs" "drop (Suc n) xs"]
    by (auto simp: remove_at_def upd_conv_take_nth_drop)
qed

lemma take_queued_split:
  assumes "n < length (tr_item_queue t)"
  shows "mset (tr_item_queue (take_queued n t)) + {# tr_item_queue t ! n #} = mset (tr_item_queue t)"
proof -
  obtain ys zs where xs: "tr_item_queue t = ys @ tr_item_queue t ! n # zs" and len: "length ys = n"
    using split_at [OF assms] by metis
  have "tr_item_queue (take_queued n t) = ys @ zs"
    unfolding take_queued_def using len by (subst (1 2) xs) simp
  moreover have "mset (tr_item_queue t) = mset ys + {# tr_item_queue t ! n #} + mset zs"
    by (subst xs) simp
  ultimately show ?thesis by simp
qed

lemmas run_defs = on_tracker_def note_asked_def drop_file_def record_file_def move_check_def
lemmas place_defs = files_of_def files_in_checks_def has_file_def

lemma viewD:
  assumes "view_of t = (cq, iq, done_files, all_files, checks, processing, finished, cancelled)"
  shows "tr_check_queue t = cq" "tr_item_queue t = iq" "completed t = done_files" "ac_total_items t = all_files"
    "tr_active_checks t = checks" "tr_active_processing t = processing" "tr_done t = finished" "tr_cancelled t = cancelled"
  using assms by (simp_all add: view_of_def)

lemma view_same:
  assumes "view_of t' = view_of t"
  shows "tr_check_queue t' = tr_check_queue t" "tr_item_queue t' = tr_item_queue t" "completed t' = completed t"
    "ac_total_items t' = ac_total_items t" "tr_active_checks t' = tr_active_checks t"
    "tr_active_processing t' = tr_active_processing t" "tr_done t' = tr_done t" "tr_cancelled t' = tr_cancelled t"
  using assms by (simp_all add: view_of_def)

lemmas same_views = views [THEN view_same(1)] views [THEN view_same(2)]

lemma check_at:
  assumes "n < length (jr_checks s)"
  obtains i st ys zs where "jr_checks s = ys @ (i, st) # zs" "length ys = n" "jr_checks s ! n = (i, st)"
    "remove_at n (jr_checks s) = ys @ zs" "\<And>y. (jr_checks s)[n := y] = ys @ y # zs"
  using split_at [OF assms] by (metis prod.collapse)

subsection \<open>No step loses or invents a file\<close>

lemma files_pick_check: "files_of (pick_check paused asked pick s) = files_of s"
  by (auto simp: place_defs pick_check_def run_defs take_check_def stamp_pick_def may_check_def neq_Nil_conv Let_def)

lemma files_check_unstarted:
  assumes "in_stage n Starting s"
  shows "files_of (check_unstarted n s) = files_of s"
proof -
  from assms have "n < length (jr_checks s)" by (simp add: in_stage_def)
  from check_at [OF this] obtain i st ys zs where
    "jr_checks s = ys @ (i, st) # zs" "jr_checks s ! n = (i, st)" "remove_at n (jr_checks s) = ys @ zs" by metis
  with assms show ?thesis by (simp add: place_defs check_unstarted_def run_defs untake_check_def in_stage_def)
qed

lemma files_check_guard:
  assumes "in_stage n Waiting s"
  shows "files_of (check_guard n asked s) = files_of s"
proof -
  from assms have "n < length (jr_checks s)" by (simp add: in_stage_def)
  from check_at [OF this] obtain i st ys zs where
    "jr_checks s = ys @ (i, st) # zs" "jr_checks s ! n = (i, st)" "\<And>y. (jr_checks s)[n := y] = ys @ y # zs" by metis
  with assms show ?thesis by (simp add: place_defs check_guard_def run_defs in_stage_def Let_def)
qed

lemma files_check_answers:
  assumes "in_stage n Checking s"
  shows "files_of (check_answers n answer asked s) = files_of s"
proof -
  from assms have "n < length (jr_checks s)" by (simp add: in_stage_def)
  from check_at [OF this] obtain i st ys zs where
    "jr_checks s = ys @ (i, st) # zs" "jr_checks s ! n = (i, st)" "\<And>y. (jr_checks s)[n := y] = ys @ y # zs" by metis
  with assms show ?thesis
    by (cases answer) (simp_all add: place_defs check_answers_def run_defs in_stage_def Let_def)
qed

lemma files_check_step:
  assumes "n < length (jr_checks s)"
  shows "files_of (check_step n s) = files_of s"
proof -
  from check_at [OF assms] obtain i st ys zs where
    xs: "jr_checks s = ys @ (i, st) # zs" "jr_checks s ! n = (i, st)" "\<And>y. (jr_checks s)[n := y] = ys @ y # zs"
      "remove_at n (jr_checks s) = ys @ zs" by metis
  show ?thesis
  proof (cases st)
    case (Counting success)
    obtain t is_done where cc: "count_completion success (wi_path i) [] (jr_tracker s) = (t, is_done)"
      by (cases "count_completion success (wi_path i) [] (jr_tracker s)")
    show ?thesis using xs Counting cc viewD [OF count_completion_view(1) [OF cc]]
      by (simp add: check_step_def place_defs run_defs)
  qed (use xs in \<open>simp_all add: check_step_def place_defs run_defs queue_item_def set_done_def end_check_def
      view_same [OF view_count_outcome]\<close>)
qed

lemma files_taken:
  assumes "\<not> n \<ge> length (tr_item_queue t)"
  shows "mset (tr_item_queue t) = mset (tr_item_queue (take_queued n t)) + {# tr_item_queue t ! n #}"
  using take_queued_split [where n = n and t = t] assms by simp

lemma files_assign_file: "files_of (assign_file n node pick s) = files_of s"
  using files_taken [where n = n and t = "jr_tracker s"]
  by (simp add: assign_file_def place_defs run_defs start_processing_def stamp_pick_def reserve_def take_queued_def Let_def)

lemma files_assign_fails:
  assumes "jr_loop s = Idle"
  shows "files_of (assign_fails n node pick s) = files_of s"
  using assms files_taken [where n = n and t = "jr_tracker s"]
  by (simp add: assign_fails_def place_defs run_defs start_processing_def stamp_pick_def reserve_def take_queued_def Let_def)

lemma files_strand_file: "files_of (strand_file n reason s) = files_of s"
  using files_taken [where n = n and t = "jr_tracker s"]
  by (simp add: strand_file_def place_defs run_defs reserve_def take_queued_def Let_def)

lemma files_fail_stranded:
  assumes "jr_loop s = Idle"
  shows "files_of (fail_stranded s) = files_of s"
  using assms by (simp add: fail_stranded_def place_defs split: list.split)

lemma files_reap:
  assumes "jr_loop s = Idle"
  shows "files_of (reap n result s) = files_of s"
proof (cases "n < length (jr_tasks s)")
  case True
  from split_at [OF True] obtain ys zs where
    xs: "jr_tasks s = ys @ jr_tasks s ! n # zs" "remove_at n (jr_tasks s) = ys @ zs" by metis
  have "mset (jr_tasks s) = mset (ys @ zs) + {# jr_tasks s ! n #}" by (subst xs(1)) simp
  with xs(2) assms True show ?thesis
    by (simp add: reap_def place_defs drop_file_def Let_def split: task_result.split)
qed (simp add: reap_def)

lemma files_loop_step: "files_of (loop_step runs can_run invisible now s) = files_of s"
proof (cases "jr_loop s")
  case (Completing i success node_failure holds forget)
  obtain t is_done where cc: "count_completion success (wi_path i) node_failure (jr_tracker s) = (t, is_done)"
    by (cases "count_completion success (wi_path i) node_failure (jr_tracker s)")
  show ?thesis using Completing viewD [OF count_completion_view(1) [OF cc]]
    by (simp add: loop_step_def cc place_defs run_defs)
next
  case (Given_Back i r)
  obtain failure t where rq: "requeue_or_fail runs can_run invisible now i r (jr_tracker s) = (failure, t)"
    by (cases "requeue_or_fail runs can_run invisible now i r (jr_tracker s)")
  show ?thesis
  proof (cases failure)
    case None
    with requeue_or_fail_view [OF rq] have "view_of t = view_of (give_back i (jr_tracker s))" by simp
    from viewD [OF this [unfolded give_back_view]] None Given_Back show ?thesis
      by (simp add: loop_step_def rq place_defs run_defs)
  next
    case (Some reason)
    with requeue_or_fail_view [OF rq] have "view_of t = view_of (jr_tracker s)" by simp
    from view_same [OF this] Some Given_Back show ?thesis by (simp add: loop_step_def rq place_defs run_defs)
  qed
next
  case (Releasing i forget)
  then show ?thesis
    by (simp add: loop_step_def place_defs run_defs release_processing_def forget_gpus_refused_def)
qed (simp_all add: loop_step_def place_defs run_defs set_done_def give_back_def release_processing_def refuse_gpu_def
    view_same [OF view_merge] view_same [OF view_failed_outcome])

lemma files_step_cancel: "files_of (step_cancel n s) = files_of s"
  by (simp add: step_cancel_def place_defs run_defs drain_def set_done_def split: cancel_stage.split)

lemma files_detach: "files_of (detach s) = files_of s"
  by (auto simp: detach_def detach_parked_def place_defs Let_def)

lemma files_job_step: "files_of (job_step e s) = files_of s"
proof (cases e)
  case Start_Cancel
  then show ?thesis by (simp add: start_cancel_def place_defs run_defs mark_cancelled_def)
next
  case Request_Park
  then show ?thesis by (simp add: place_defs run_defs view_same [OF view_request_park])
qed (simp_all add: files_pick_check files_check_unstarted files_check_guard files_check_answers files_check_step
    files_assign_file files_assign_fails files_strand_file files_fail_stranded files_reap files_loop_step
    files_step_cancel files_detach)

text \<open>The number of files, place by place.\<close>

lemma size_files_of:
  "size (files_of s) =
     length (tr_check_queue (jr_tracker s)) + length (tr_item_queue (jr_tracker s)) + length (files_in_checks s) +
     length (jr_tasks s) + length (loop_files (jr_loop s)) + length (jr_stranded s) + length (jr_recorded s) +
     length (jr_dropped s) + length (jr_parked s)"
  by (simp add: files_of_def)

end
