(* ===== verification/Job_Counts.thy ===== *)
theory Job_Counts
  imports Job_Accounts
begin

text \<open>
  The counters and the reservations of \<open>Job_Accounts\<close> in every step: the counters count the recorded files, and
  a processing slot or a check slot is held by a thread that will release it.
\<close>

section \<open>The counters\<close>


lemma completed_simps [simp]:
  "completed (take_check pick t) = completed t" "ac_total_items (take_check pick t) = ac_total_items t"
  "completed (untake_check i t) = completed t" "ac_total_items (untake_check i t) = ac_total_items t"
  "completed (queue_item i t) = completed t" "ac_total_items (queue_item i t) = ac_total_items t"
  "completed (end_check t) = completed t" "ac_total_items (end_check t) = ac_total_items t"
  "completed (set_done t) = completed t" "ac_total_items (set_done t) = ac_total_items t"
  "completed (mark_cancelled t) = completed t" "ac_total_items (mark_cancelled t) = ac_total_items t"
  "completed (start_processing pick t) = completed t" "ac_total_items (start_processing pick t) = ac_total_items t"
  "completed (take_queued n t) = completed t" "ac_total_items (take_queued n t) = ac_total_items t"
  "completed (reserve t) = completed t" "ac_total_items (reserve t) = ac_total_items t"
  "completed (release_processing t) = completed t" "ac_total_items (release_processing t) = ac_total_items t"
  "completed (give_back i t) = completed t" "ac_total_items (give_back i t) = ac_total_items t"
  "completed (t\<lparr>tr_active_processing := k\<rparr>) = completed t"
  by (simp_all add: completed_def take_check_def untake_check_def queue_item_def end_check_def set_done_def
      mark_cancelled_def start_processing_def stamp_pick_def take_queued_def reserve_def release_processing_def
      give_back_def)

lemma counted_check_step:
  assumes "counts_agree carried files s" "n < length (jr_checks s)"
  shows "counts_agree carried files (check_step n s)"
proof -
  from check_at [OF assms(2)] obtain i st ys zs where xs: "jr_checks s ! n = (i, st)" by metis
  show ?thesis
  proof (cases st)
    case (Counting success)
    obtain t is_done where cc: "count_completion success (wi_path i) [] (jr_tracker s) = (t, is_done)"
      by (cases "count_completion success (wi_path i) [] (jr_tracker s)")
    show ?thesis using assms(1) xs Counting cc viewD [OF count_completion_view(1) [OF cc]]
      by (simp add: check_step_def counts_agree_def run_defs)
  qed (use assms(1) xs in \<open>simp_all add: check_step_def counts_agree_def run_defs view_same [OF view_count_outcome]\<close>)
qed

lemma counted_loop_step:
  assumes "counts_agree carried files s"
  shows "counts_agree carried files (loop_step runs can_run invisible now s)"
proof (cases "jr_loop s")
  case (Completing i success node_failure holds forget)
  obtain t is_done where cc: "count_completion success (wi_path i) node_failure (jr_tracker s) = (t, is_done)"
    by (cases "count_completion success (wi_path i) node_failure (jr_tracker s)")
  show ?thesis using assms Completing viewD [OF count_completion_view(1) [OF cc]]
    by (simp add: loop_step_def cc counts_agree_def run_defs)
next
  case (Given_Back i r)
  obtain failure t where rq: "requeue_or_fail runs can_run invisible now i r (jr_tracker s) = (failure, t)"
    by (cases "requeue_or_fail runs can_run invisible now i r (jr_tracker s)")
  have "completed t = completed (jr_tracker s) \<and> ac_total_items t = ac_total_items (jr_tracker s)"
    using requeue_or_fail_view [OF rq] by (cases failure) (simp_all add: view_of_def give_back_def release_processing_def completed_def)
  with assms Given_Back show ?thesis by (simp add: loop_step_def rq counts_agree_def run_defs)
next
  case (Releasing i forget)
  then show ?thesis using assms
    by (simp add: loop_step_def counts_agree_def run_defs view_same [OF view_forget])
qed (use assms in \<open>simp_all add: loop_step_def counts_agree_def run_defs view_same [OF view_merge]
    view_same [OF view_failed_outcome] view_same [OF view_refuse]\<close>)

lemma counted_step_cancel:
  assumes "counts_agree carried files s"
  shows "counts_agree carried files (step_cancel n s)"
  using assms by (simp add: step_cancel_def counts_agree_def run_defs drain_def completed_def set_done_def split: cancel_stage.split)

lemma counted_job_step:
  assumes "counts_agree carried files s"
  shows "counts_agree carried files (job_step e s)"
proof (cases e)
  case (Check_Answers n answer asked)
  then show ?thesis using assms by (cases answer) (simp_all add: check_answers_def counts_agree_def run_defs Let_def)
next
  case (Reap n result)
  then show ?thesis using assms by (simp add: reap_def counts_agree_def run_defs Let_def)
next
  case Detach
  then show ?thesis using assms by (auto simp: detach_def detach_parked_def counts_agree_def completed_def Let_def)
qed (use assms in \<open>simp_all add: counted_check_step counted_loop_step counted_step_cancel\<close>,
  simp_all add: counts_agree_def run_defs pick_check_def check_unstarted_def check_guard_def assign_file_def assign_fails_def
    strand_file_def fail_stranded_def start_cancel_def view_same [OF view_request_park] Let_def split: list.split)

section \<open>The reservations\<close>

lemma slot_simps [simp]:
  "tr_active_checks (take_check pick t) = tr_active_checks t + 1"
  "tr_active_processing (take_check pick t) = tr_active_processing t"
  "tr_active_checks (untake_check i t) = tr_active_checks t - 1"
  "tr_active_processing (untake_check i t) = tr_active_processing t"
  "tr_active_checks (queue_item i t) = tr_active_checks t"
  "tr_active_processing (queue_item i t) = tr_active_processing t"
  "tr_active_checks (end_check t) = max 0 (tr_active_checks t - 1)"
  "tr_active_processing (end_check t) = tr_active_processing t"
  "tr_active_checks (set_done t) = tr_active_checks t" "tr_active_processing (set_done t) = tr_active_processing t"
  "tr_active_checks (mark_cancelled t) = tr_active_checks t"
  "tr_active_processing (mark_cancelled t) = tr_active_processing t"
  "tr_active_checks (start_processing pick t) = tr_active_checks t"
  "tr_active_processing (start_processing pick t) = tr_active_processing t + 1"
  "tr_active_checks (take_queued n t) = tr_active_checks t"
  "tr_active_processing (take_queued n t) = tr_active_processing t"
  "tr_active_checks (reserve t) = tr_active_checks t"
  "tr_active_processing (reserve t) = tr_active_processing t + 1"
  "tr_active_checks (release_processing t) = tr_active_checks t"
  "tr_active_processing (release_processing t) = max 0 (tr_active_processing t - 1)"
  "tr_active_checks (give_back i t) = tr_active_checks t"
  "tr_active_processing (give_back i t) = max 0 (tr_active_processing t - 1)"
  by (simp_all add: take_check_def untake_check_def queue_item_def end_check_def set_done_def
      mark_cancelled_def start_processing_def stamp_pick_def take_queued_def reserve_def release_processing_def
      give_back_def)

lemma slots_check_step:
  assumes "slots_held s" "n < length (jr_checks s)"
  shows "slots_held (check_step n s)"
proof -
  from check_at [OF assms(2)] obtain i st ys zs where
    xs: "jr_checks s = ys @ (i, st) # zs" "jr_checks s ! n = (i, st)" "\<And>y. (jr_checks s)[n := y] = ys @ y # zs"
      "remove_at n (jr_checks s) = ys @ zs" by metis
  show ?thesis
  proof (cases st)
    case (Counting success)
    obtain t is_done where cc: "count_completion success (wi_path i) [] (jr_tracker s) = (t, is_done)"
      by (cases "count_completion success (wi_path i) [] (jr_tracker s)")
    show ?thesis using assms(1) xs Counting cc viewD [OF count_completion_view(1) [OF cc]]
      by (simp add: check_step_def slots_held_def run_defs)
  qed (use assms(1) xs in \<open>simp_all add: check_step_def slots_held_def run_defs view_same [OF view_count_outcome]\<close>)
qed

lemma slots_loop_step:
  assumes "slots_held s"
  shows "slots_held (loop_step runs can_run invisible now s)"
proof (cases "jr_loop s")
  case (Completing i success node_failure holds forget)
  obtain t is_done where cc: "count_completion success (wi_path i) node_failure (jr_tracker s) = (t, is_done)"
    by (cases "count_completion success (wi_path i) node_failure (jr_tracker s)")
  show ?thesis using assms Completing viewD [OF count_completion_view(1) [OF cc]]
    by (cases holds) (simp_all add: loop_step_def cc slots_held_def run_defs)
next
  case (Given_Back i r)
  obtain failure t where rq: "requeue_or_fail runs can_run invisible now i r (jr_tracker s) = (failure, t)"
    by (cases "requeue_or_fail runs can_run invisible now i r (jr_tracker s)")
  have "tr_active_checks t = tr_active_checks (jr_tracker s) \<and>
      tr_active_processing t = (if failure = None then max 0 (tr_active_processing (jr_tracker s) - 1)
        else tr_active_processing (jr_tracker s))"
    using requeue_or_fail_view [OF rq] by (cases failure) (simp_all add: view_of_def)
  with assms Given_Back show ?thesis by (cases failure) (simp_all add: loop_step_def rq slots_held_def run_defs)
next
  case (Releasing i forget)
  then show ?thesis using assms
    by (simp add: loop_step_def slots_held_def run_defs view_same [OF view_forget])
next
  case (Finishing i holds forget)
  then show ?thesis using assms by (cases holds) (simp_all add: loop_step_def slots_held_def run_defs)
next
  case (Failing i reason holds)
  then show ?thesis using assms
    by (cases holds) (simp_all add: loop_step_def slots_held_def run_defs view_same [OF view_failed_outcome])
qed (use assms in \<open>simp_all add: loop_step_def slots_held_def run_defs view_same [OF view_merge]
    view_same [OF view_failed_outcome] view_same [OF view_refuse]\<close>)

lemma slots_check_change:
  assumes "slots_held s"
  shows "slots_held (check_guard n asked s)" "slots_held (check_answers n answer asked s)"
  using assms by (cases answer; simp add: check_guard_def check_answers_def slots_held_def run_defs Let_def)+

lemma slots_reap:
  assumes "slots_held s" "jr_loop s = Idle"
  shows "slots_held (reap n result s)"
proof (cases "n < length (jr_tasks s)")
  case True
  then have "length (remove_at n (jr_tasks s)) = length (jr_tasks s) - 1" by (simp add: remove_at_def)
  with True assms show ?thesis
    by (cases result) (simp_all add: reap_def slots_held_def drop_file_def Let_def of_nat_diff)
qed (use assms in \<open>simp add: reap_def\<close>)

lemma slots_loop_starts:
  assumes "slots_held s" "jr_loop s = Idle"
  shows "slots_held (assign_file n node pick s)" "slots_held (assign_fails n node pick s)" "slots_held (strand_file n reason s)"
  using assms by (simp_all add: slots_held_def run_defs assign_file_def assign_fails_def strand_file_def Let_def)

lemma slots_fail_stranded:
  assumes "slots_held s" "jr_loop s = Idle"
  shows "slots_held (fail_stranded s)"
  using assms by (cases "jr_stranded s") (auto simp: slots_held_def fail_stranded_def)

lemma slots_job_step:
  assumes "slots_held s"
  shows "slots_held (job_step e s)"
proof (cases e)
  case (Check_Unstarted n)
  then show ?thesis using assms
    by (auto simp: in_stage_def check_unstarted_def slots_held_def run_defs remove_at_def of_nat_diff)
next
  case (Step_Cancel n)
  then show ?thesis using assms
    by (simp add: step_cancel_def slots_held_def run_defs drain_def split: cancel_stage.split)
next
  case Detach
  then show ?thesis using assms by (auto simp: detach_def detach_parked_def slots_held_def Let_def)
qed (use assms in \<open>simp_all add: slots_check_step slots_loop_step slots_check_change slots_reap slots_loop_starts slots_fail_stranded\<close>,
  simp_all add: slots_held_def run_defs pick_check_def start_cancel_def view_same [OF view_request_park] Let_def)

end
