(* ===== verification/Job_Ending.thy ===== *)
theory Job_Ending
  imports Job_Counts
begin

text \<open>
  The end of a job: its done event is set when its last file is recorded, or by a cancel, and not before.
\<close>


lemma done_simps [simp]:
  "tr_done (take_check pick t) = tr_done t" "tr_cancelled (take_check pick t) = tr_cancelled t"
  "tr_done (untake_check i t) = tr_done t" "tr_cancelled (untake_check i t) = tr_cancelled t"
  "tr_done (queue_item i t) = tr_done t" "tr_cancelled (queue_item i t) = tr_cancelled t"
  "tr_done (end_check t) = tr_done t" "tr_cancelled (end_check t) = tr_cancelled t"
  "tr_done (set_done t)" "tr_cancelled (set_done t) = tr_cancelled t"
  "tr_done (mark_cancelled t) = tr_done t" "tr_cancelled (mark_cancelled t)"
  "tr_done (start_processing pick t) = tr_done t" "tr_cancelled (start_processing pick t) = tr_cancelled t"
  "tr_done (take_queued n t) = tr_done t" "tr_cancelled (take_queued n t) = tr_cancelled t"
  "tr_done (reserve t) = tr_done t" "tr_cancelled (reserve t) = tr_cancelled t"
  "tr_done (release_processing t) = tr_done t" "tr_cancelled (release_processing t) = tr_cancelled t"
  "tr_done (give_back i t) = tr_done t" "tr_cancelled (give_back i t) = tr_cancelled t"
  "tr_done (drain t) = tr_done t" "tr_cancelled (drain t) = tr_cancelled t"
  by (simp_all add: take_check_def untake_check_def queue_item_def end_check_def set_done_def
      mark_cancelled_def start_processing_def stamp_pick_def take_queued_def reserve_def release_processing_def
      give_back_def drain_def)

text \<open>While a file is still with a thread, not all files are recorded.\<close>

lemma not_all_recorded:
  assumes "files_of s = mset files" and "x \<in> set (files_in_checks s) \<union> set (jr_tasks s) \<union> set (loop_files (jr_loop s))"
  shows "length (jr_recorded s) < length files"
proof -
  have "length files = size (files_of s)" using assms(1) by simp
  moreover have "size (files_of s) \<ge>
      length (files_in_checks s) + length (jr_tasks s) + length (loop_files (jr_loop s)) + length (jr_recorded s)"
    by (simp add: size_files_of)
  moreover have "0 < length (files_in_checks s) + length (jr_tasks s) + length (loop_files (jr_loop s))"
    using assms(2) by (auto dest: length_pos_if_in_set)
  ultimately show ?thesis by linarith
qed

lemma file_in_checks:
  assumes "jr_checks s = ys @ (i, st) # zs" "st \<noteq> Setting" "st \<noteq> Ending"
  shows "i \<in> set (files_in_checks s)"
  using assms by (simp add: files_in_checks_def has_file_def)

text \<open>What a step does to the end of the job: nothing, dropping a file, recording one, or setting the event.\<close>

lemma ending_same:
  assumes "ending_ok n s" "jr_recorded s' = jr_recorded s" "jr_dropped s' = jr_dropped s" "jr_cancels s' = jr_cancels s"
    "tr_done (jr_tracker s') = tr_done (jr_tracker s)" "tr_cancelled (jr_tracker s') = tr_cancelled (jr_tracker s)"
    "about_to_finish s' = about_to_finish s" "jr_asked s \<Longrightarrow> jr_asked s'"
  shows "ending_ok n s'"
  using assms by (auto simp: ending_ok_def Let_def)

lemma ending_drop:
  assumes "ending_ok n s" "length (jr_recorded s) < n"
    "tr_cancelled (jr_tracker s) \<or> tr_done (jr_tracker s) \<or> jr_asked s'"
    "jr_recorded s' = jr_recorded s" "jr_cancels s' = jr_cancels s" "tr_done (jr_tracker s') = tr_done (jr_tracker s)"
    "tr_cancelled (jr_tracker s') = tr_cancelled (jr_tracker s)" "about_to_finish s' = about_to_finish s"
    "jr_asked s \<Longrightarrow> jr_asked s'"
  shows "ending_ok n s'"
  using assms by (auto simp: ending_ok_def Let_def)

lemma ending_record:
  assumes "ending_ok n s" "length (jr_recorded s) < n" "jr_recorded s' = jr_recorded s @ [i]"
    "about_to_finish s' \<longleftrightarrow> Suc (length (jr_recorded s)) = n \<or> about_to_finish s"
    "jr_dropped s' = jr_dropped s" "jr_cancels s' = jr_cancels s"
    "tr_done (jr_tracker s') = tr_done (jr_tracker s)" "tr_cancelled (jr_tracker s') = tr_cancelled (jr_tracker s)"
    "jr_asked s' = jr_asked s"
  shows "ending_ok n s'"
  using assms by (auto simp: ending_ok_def Let_def)

lemma ending_set:
  assumes "ending_ok n s" "about_to_finish s" "tr_done (jr_tracker s')"
    "jr_recorded s' = jr_recorded s" "jr_dropped s' = jr_dropped s" "jr_cancels s' = jr_cancels s"
    "tr_cancelled (jr_tracker s') = tr_cancelled (jr_tracker s)" "jr_asked s' = jr_asked s"
  shows "ending_ok n s'"
  using assms by (auto simp: ending_ok_def Let_def)

text \<open>The last file recorded is the one the counters call the last.\<close>

lemma last_recorded:
  assumes "counts_agree carried (int n) s" "length (jr_recorded s) < n"
    "count_completion success path node_failure (jr_tracker s) = (t, is_done)"
  shows "is_done \<longleftrightarrow> Suc (length (jr_recorded s)) = n"
  using assms(1,2) count_completion_view(2) [OF assms(3)] by (auto simp: counts_agree_def)

section \<open>Check threads\<close>

lemma about_check:
  assumes "jr_checks s = ys @ (i, st) # zs" "st \<noteq> Setting" "jr_checks s' = ys @ (i, st') # zs" "st' \<noteq> Setting"
    "jr_loop s' = jr_loop s"
  shows "about_to_finish s' = about_to_finish s"
  using assms by (auto simp: about_to_finish_def)

lemma ending_pick_check:
  assumes "ending_ok n s"
  shows "ending_ok n (pick_check paused asked pick s)"
  by (rule ending_same [OF assms]) (simp_all add: pick_check_def run_defs about_to_finish_def Let_def)

lemma ending_check_unstarted:
  assumes "ending_ok n s" "in_stage k Starting s"
  shows "ending_ok n (check_unstarted k s)"
proof -
  from assms have "k < length (jr_checks s)" by (simp add: in_stage_def)
  from check_at [OF this] obtain i st ys zs where xs:
    "jr_checks s = ys @ (i, st) # zs" "jr_checks s ! k = (i, st)" "remove_at k (jr_checks s) = ys @ zs" by metis
  with assms(2) have "st = Starting" by (simp add: in_stage_def)
  with xs show ?thesis
    by (intro ending_same [OF assms(1)]) (auto simp: check_unstarted_def run_defs about_to_finish_def)
qed

lemma ending_check_guard:
  assumes "ending_ok (length files) s" "files_of s = mset files" "in_stage k Waiting s"
  shows "ending_ok (length files) (check_guard k asked s)"
proof -
  from assms(3) have "k < length (jr_checks s)" by (simp add: in_stage_def)
  from check_at [OF this] obtain i st ys zs where
    xs: "jr_checks s = ys @ (i, st) # zs" "jr_checks s ! k = (i, st)" "\<And>y. (jr_checks s)[k := y] = ys @ y # zs" by metis
  with assms(3) have st: "st = Waiting" by (simp add: in_stage_def)
  have few: "length (jr_recorded s) < length files"
    using not_all_recorded [OF assms(2), of i] file_in_checks [OF xs(1)] st by simp
  show ?thesis
  proof (cases "is_cancelled asked (jr_tracker s) \<or> tr_done (jr_tracker s)")
    case True
    then show ?thesis using xs st
      by (intro ending_drop [OF assms(1) few])
        (auto simp: check_guard_def run_defs Let_def is_cancelled_def about_to_finish_def)
  next
    case False
    then show ?thesis using xs st
      by (intro ending_same [OF assms(1)]) (auto simp: check_guard_def run_defs Let_def is_cancelled_def about_to_finish_def)
  qed
qed

lemma ending_check_answers:
  assumes "ending_ok (length files) s" "files_of s = mset files" "in_stage k Checking s"
  shows "ending_ok (length files) (check_answers k answer asked s)"
proof -
  from assms(3) have "k < length (jr_checks s)" by (simp add: in_stage_def)
  from check_at [OF this] obtain i st ys zs where
    xs: "jr_checks s = ys @ (i, st) # zs" "jr_checks s ! k = (i, st)" "\<And>y. (jr_checks s)[k := y] = ys @ y # zs" by metis
  with assms(3) have st: "st = Checking" by (simp add: in_stage_def)
  have few: "length (jr_recorded s) < length files"
    using not_all_recorded [OF assms(2), of i] file_in_checks [OF xs(1)] st by simp
  let ?s = "check_answers k answer asked s"
  have about: "about_to_finish ?s = about_to_finish s"
    by (cases answer) (use xs st in \<open>auto simp: check_answers_def run_defs Let_def about_to_finish_def\<close>)
  show ?thesis
  proof (cases "jr_dropped ?s = jr_dropped s")
    case True
    then show ?thesis using about
      by (intro ending_same [OF assms(1)]; cases answer; simp add: check_answers_def run_defs Let_def)
  next
    case False
    then show ?thesis using about
      by (intro ending_drop [OF assms(1) few]; cases answer;
          auto simp: check_answers_def run_defs Let_def is_cancelled_def split: if_splits)
  qed
qed

lemma ending_check_step:
  assumes "ending_ok (length files) s" "files_of s = mset files" "counts_agree carried (int (length files)) s"
    "k < length (jr_checks s)"
  shows "ending_ok (length files) (check_step k s)"
proof -
  from check_at [OF assms(4)] obtain i st ys zs where
    xs: "jr_checks s = ys @ (i, st) # zs" "jr_checks s ! k = (i, st)" "\<And>y. (jr_checks s)[k := y] = ys @ y # zs"
      "remove_at k (jr_checks s) = ys @ zs" by metis
  show ?thesis
  proof (cases st)
    case (Counting success)
    obtain t is_done where cc: "count_completion success (wi_path i) [] (jr_tracker s) = (t, is_done)"
      by (cases "count_completion success (wi_path i) [] (jr_tracker s)")
    have few: "length (jr_recorded s) < length files"
      using not_all_recorded [OF assms(2), of i] file_in_checks [OF xs(1)] Counting by simp
    show ?thesis
      by (rule ending_record [OF assms(1) few])
        (use xs Counting cc viewD [OF count_completion_view(1) [OF cc]] last_recorded [OF assms(3) few cc] in
          \<open>auto simp: check_step_def run_defs about_to_finish_def\<close>)
  next
    case Setting
    show ?thesis
      by (rule ending_set [OF assms(1)]) (use xs Setting in \<open>auto simp: check_step_def run_defs about_to_finish_def\<close>)
  qed (rule ending_same [OF assms(1)];
      use xs in \<open>auto simp: check_step_def run_defs about_to_finish_def view_same [OF view_count_outcome]\<close>)+
qed

section \<open>The dispatch loop\<close>

lemma ending_loop_starts:
  assumes "ending_ok n s" "jr_loop s = Idle"
  shows "ending_ok n (assign_file k node pick s)" "ending_ok n (assign_fails k node pick s)"
    "ending_ok n (strand_file k reason s)" "ending_ok n (fail_stranded s)"
proof -
  show "ending_ok n (assign_file k node pick s)"
    by (rule ending_same [OF assms(1)]) (simp_all add: assign_file_def run_defs about_to_finish_def Let_def)
  show "ending_ok n (assign_fails k node pick s)"
    by (rule ending_same [OF assms(1)]) (simp_all add: assign_fails_def run_defs about_to_finish_def assms(2) Let_def)
  show "ending_ok n (strand_file k reason s)"
    by (rule ending_same [OF assms(1)]) (simp_all add: strand_file_def run_defs about_to_finish_def Let_def)
  show "ending_ok n (fail_stranded s)"
    by (cases "jr_stranded s"; rule ending_same [OF assms(1)])
      (auto simp: fail_stranded_def about_to_finish_def assms(2))
qed

lemma ending_reap:
  assumes "ending_ok (length files) s" "files_of s = mset files" "jr_loop s = Idle"
  shows "ending_ok (length files) (reap k result s)"
proof (cases "k < length (jr_tasks s)")
  case True
  have few: "length (jr_recorded s) < length files"
    using not_all_recorded [OF assms(2), of "jr_tasks s ! k"] True by simp
  show ?thesis
  proof (cases "tr_done (jr_tracker s)")
    case True
    show ?thesis
      by (rule ending_drop [OF assms(1) few]) (simp_all add: reap_def run_defs about_to_finish_def True Let_def)
  next
    case False
    show ?thesis
      by (rule ending_same [OF assms(1)]; cases result)
        (simp_all add: reap_def run_defs about_to_finish_def assms(3) False Let_def)
  qed
qed (use assms in \<open>simp add: reap_def\<close>)

lemma ending_loop_step:
  assumes "ending_ok (length files) s" "files_of s = mset files" "counts_agree carried (int (length files)) s"
  shows "ending_ok (length files) (loop_step runs can_run invisible now s)"
proof (cases "jr_loop s")
  case (Completing i success node_failure holds forget)
  obtain t is_done where cc: "count_completion success (wi_path i) node_failure (jr_tracker s) = (t, is_done)"
    by (cases "count_completion success (wi_path i) node_failure (jr_tracker s)")
  have few: "length (jr_recorded s) < length files"
    using not_all_recorded [OF assms(2), of i] Completing by simp
  show ?thesis
    by (rule ending_record [OF assms(1) few])
      (use Completing cc viewD [OF count_completion_view(1) [OF cc]] last_recorded [OF assms(3) few cc] in
        \<open>auto simp: loop_step_def run_defs about_to_finish_def\<close>)
next
  case (Finishing i holds forget)
  show ?thesis
    by (rule ending_set [OF assms(1)]) (use Finishing in \<open>simp_all add: loop_step_def run_defs about_to_finish_def\<close>)
next
  case (Given_Back i r)
  obtain failure t where rq: "requeue_or_fail runs can_run invisible now i r (jr_tracker s) = (failure, t)"
    by (cases "requeue_or_fail runs can_run invisible now i r (jr_tracker s)")
  have "tr_done t = tr_done (jr_tracker s)" "tr_cancelled t = tr_cancelled (jr_tracker s)"
    using requeue_or_fail_view [OF rq] by (cases failure; simp add: view_of_def)+
  then show ?thesis
    by (intro ending_same [OF assms(1)]; cases failure)
      (simp_all add: Given_Back loop_step_def rq run_defs about_to_finish_def)
qed (rule ending_same [OF assms(1)];
    simp add: loop_step_def run_defs about_to_finish_def view_same [OF view_merge] view_same [OF view_forget]
      view_same [OF view_failed_outcome] view_same [OF view_refuse])+

section \<open>Every step\<close>

lemma ending_start_cancel: "ending_ok n s \<Longrightarrow> ending_ok n (start_cancel s)"
  by (simp add: ending_ok_def start_cancel_def run_defs about_to_finish_def Let_def)

lemma ending_step_cancel:
  assumes "ending_ok (length files) s" "files_of s = mset files" "k < length (jr_cancels s)"
  shows "ending_ok (length files) (step_cancel k s)"
proof (cases "jr_cancels s ! k")
  case To_Drain
  have "length files = size (files_of s)" using assms(2) by simp
  then have "length files \<ge>
      length (tr_check_queue (jr_tracker s)) + length (tr_item_queue (jr_tracker s)) + length (jr_recorded s)"
    by (simp add: size_files_of)
  with assms To_Drain show ?thesis
    by (auto simp: ending_ok_def step_cancel_def run_defs about_to_finish_def Let_def)
next
  case To_Finish
  from assms(3) have "jr_cancels s \<noteq> []" by auto
  with assms To_Finish show ?thesis
    by (auto simp: ending_ok_def step_cancel_def run_defs about_to_finish_def Let_def)
qed

lemma ending_detach: "ending_ok n s \<Longrightarrow> ending_ok n (detach s)"
  by (auto simp: detach_def detach_parked_def ending_ok_def about_to_finish_def Let_def)

lemma ending_job_step:
  assumes "ending_ok (length files) s" "files_of s = mset files" "counts_agree carried (int (length files)) s"
  shows "ending_ok (length files) (job_step e s)"
proof (cases e)
  case Request_Park
  show ?thesis
    by (rule ending_same [OF assms(1)])
      (simp_all add: Request_Park run_defs about_to_finish_def view_same [OF view_request_park])
qed (use assms in \<open>simp_all add: ending_pick_check ending_check_unstarted ending_check_guard ending_check_answers
    ending_check_step ending_loop_starts ending_reap ending_loop_step ending_start_cancel ending_step_cancel
    ending_detach\<close>)

end
