(* ===== verification/Job_Checkpoints.thy ===== *)
theory Job_Checkpoints
  imports Job_Tracker Bytes Py_Values
begin

text \<open>
  The saved continuation of a parked job (\<open>jobs/checkpoints.py\<close>) as a JSON value: what the dispatcher puts in it,
  the payload that is written, the checks made before it is written and again when it is read, and what a new
  tracker reads from it.  Writing the file and reading it back give the same value; the per-server rows and the
  job's own context are handed on unread.
\<close>

section \<open>Dictionaries of the state\<close>

definition json_str_of :: "json \<Rightarrow> string" where
  "json_str_of v = (case v of JStr s \<Rightarrow> s | _ \<Rightarrow> [])"

definition json_int_of :: "json \<Rightarrow> int" where
  "json_int_of v = (case v of JInt i \<Rightarrow> i | _ \<Rightarrow> 0)"

definition json_items_of :: "json \<Rightarrow> (string \<times> json) list" where
  "json_items_of v = (case v of JObj kvs \<Rightarrow> kvs | _ \<Rightarrow> [])"

definition json_list_of :: "json \<Rightarrow> json list" where
  "json_list_of v = (case v of JList xs \<Rightarrow> xs | _ \<Rightarrow> [])"

definition json_dict :: "('v \<Rightarrow> json) \<Rightarrow> (string \<times> 'v) list \<Rightarrow> json" where
  "json_dict f d = JObj (map (\<lambda>(k, v). (k, f v)) d)"

definition read_dict :: "(json \<Rightarrow> 'v) \<Rightarrow> json \<Rightarrow> (string \<times> 'v) list" where
  "read_dict f v = map (\<lambda>(k, v). (k, f v)) (json_items_of v)"

definition json_names :: "string list \<Rightarrow> json" where
  "json_names xs = JList (map JStr xs)"

definition read_names :: "json \<Rightarrow> string list" where
  "read_names v = map json_str_of (json_list_of v)"

section \<open>What is written\<close>

definition item_descriptor :: "work_item \<Rightarrow> json" where
  "item_descriptor i =
     JObj [(''canonical_path'', JStr (wi_path i)), (''server_id'', JStr (wi_server i)),
       (''item_id_by_server'', json_dict JStr (wi_ids i)), (''title'', JStr (wi_title i)),
       (''library_id'', case wi_library i of None \<Rightarrow> JNull | Some l \<Rightarrow> JStr l)]"

definition state_json :: "json \<Rightarrow> accounting \<Rightarrow> json" where
  "state_json publishers a =
     JObj [(''successful'', JInt (ac_successful a)), (''failed'', JInt (ac_failed a)),
       (''failed_paths'', json_names (ac_failed_paths a)),
       (''node_failures'', json_dict JStr (ac_node_failures a)),
       (''node_drops'', json_dict json_names (ac_node_drops a)),
       (''node_start_failures'', json_dict JInt (ac_node_start_failures a)),
       (''dropped_on'', json_dict JStr (ac_dropped_on a)),
       (''excluded_nodes'', json_dict (json_dict JStr) (ac_excluded_nodes a)),
       (''outcome_counts'', json_dict JInt (ac_outcome_counts a)),
       (''publishers_aggregate'', publishers),
       (''cpu_fallback_files'', JInt (ac_cpu_fallback_files a)),
       (''slow_path_files'', JInt (ac_slow_path_files a)),
       (''slow_path_interval'', JInt (ac_slow_path_interval a)),
       (''total_items'', JInt (ac_total_items a))]"

definition snapshot_json :: "json \<Rightarrow> json \<Rightarrow> parked_state \<Rightarrow> (string \<times> json) list" where
  "snapshot_json job_context publishers sn =
     [(''kind'', JStr (sn_kind sn)), (''context'', job_context),
      (''items'', JList (map item_descriptor (sn_items sn))), (''state'', state_json publishers (sn_state sn))]"

section \<open>The checks\<close>

definition old_drop_count :: "json \<Rightarrow> bool" where
  "old_drop_count v = (case v of JInt i \<Rightarrow> i \<ge> 0 | _ \<Rightarrow> False)"

definition is_str :: "json \<Rightarrow> bool" where
  "is_str v = (case v of JStr _ \<Rightarrow> True | _ \<Rightarrow> False)"

definition is_dict :: "json \<Rightarrow> bool" where
  "is_dict v = (case v of JObj _ \<Rightarrow> True | _ \<Rightarrow> False)"

definition drop_names :: "json \<Rightarrow> bool" where
  "drop_names v = (case v of JList xs \<Rightarrow> list_all is_str xs | _ \<Rightarrow> False)"

definition dict_of :: "(json \<Rightarrow> bool) \<Rightarrow> json \<Rightarrow> bool" where
  "dict_of ok v = (case v of JObj kvs \<Rightarrow> list_all (\<lambda>(k, v). ok v) kvs | _ \<Rightarrow> False)"

definition COUNTER_KEYS :: "string list" where
  "COUNTER_KEYS = [''successful'', ''failed'', ''cpu_fallback_files'', ''slow_path_files'', ''slow_path_interval'',
     ''total_items'']"

definition validate_accounting :: "(string \<times> json) list \<Rightarrow> string + unit" where
  "validate_accounting snap =
     (case get snap ''state'' of
        JObj state \<Rightarrow>
          let number = (\<lambda>k. json_int_of (get_default state k (JInt 0)));
              dict = (\<lambda>k. get_default state k (JObj []))
          in if list_ex (\<lambda>k. \<not> old_drop_count (get_default state k (JInt 0))) COUNTER_KEYS
             then Inl ''Invalid checkpoint counter''
             else if has_key state ''total_items'' \<and>
                 number ''total_items'' \<noteq>
                   int (length (json_list_of (get snap ''items''))) + number ''successful'' + number ''failed''
             then Inl ''Checkpoint work and counters disagree''
             else if \<not> dict_of old_drop_count (dict ''outcome_counts'') then Inl ''Invalid checkpoint outcomes''
             else if \<not> drop_names (get_default state ''failed_paths'' (JList []))
             then Inl ''Invalid checkpoint failed work''
             else if \<not> dict_of is_str (dict ''node_failures'') then Inl ''Invalid checkpoint node failures''
             else if \<not> dict_of (\<lambda>v. old_drop_count v \<or> drop_names v) (dict ''node_drops'')
             then Inl ''Invalid checkpoint node tries''
             else if \<not> dict_of old_drop_count (dict ''node_start_failures'')
             then Inl ''Invalid checkpoint node tries''
             else if \<not> dict_of is_str (dict ''dropped_on'') then Inl ''Invalid checkpoint node drops''
             else if \<not> dict_of (dict_of is_str) (dict ''excluded_nodes'')
             then Inl ''Invalid checkpoint excluded nodes''
             else if \<not> is_dict (dict ''publishers_aggregate'')
             then Inl ''Invalid checkpoint publisher accounting''
             else Inr ()
      | _ \<Rightarrow> Inl ''Invalid checkpoint accounting'')"

definition is_abs :: "string \<Rightarrow> bool" where
  "is_abs p \<longleftrightarrow> p \<noteq> [] \<and> hd p = CHR ''/''"

definition checkpoint_item :: "json \<Rightarrow> string + work_item" where
  "checkpoint_item raw =
     (case raw of
        JObj kvs \<Rightarrow>
          let ids = get_default kvs ''item_id_by_server'' (JObj []);
              title = get_default kvs ''title'' (JStr []);
              library = get kvs ''library_id''
          in (case (get kvs ''canonical_path'', get kvs ''server_id'') of
                (JStr path, JStr server) \<Rightarrow>
                  if \<not> is_abs path then Inl ''Invalid checkpoint work identity''
                  else if \<not> dict_of is_str ids then Inl ''Invalid checkpoint server identifiers''
                  else if \<not> is_str title \<or> (library \<noteq> JNull \<and> \<not> is_str library)
                  then Inl ''Invalid checkpoint work metadata''
                  else Inr \<lparr>wi_path = path, wi_server = server, wi_ids = read_dict json_str_of ids,
                         wi_title = json_str_of title,
                         wi_library = (if library = JNull then None else Some (json_str_of library))\<rparr>
              | _ \<Rightarrow> Inl ''Invalid checkpoint work identity'')
      | _ \<Rightarrow> Inl ''Invalid checkpoint work item'')"

primrec checkpoint_item_list :: "json list \<Rightarrow> string + work_item list" where
  "checkpoint_item_list [] = Inr []"
| "checkpoint_item_list (raw # raws) =
     bindE (checkpoint_item raw) (\<lambda>i. bindE (checkpoint_item_list raws) (\<lambda>items. Inr (i # items)))"

definition checkpoint_items :: "(string \<times> json) list \<Rightarrow> string + work_item list" where
  "checkpoint_items snap =
     (case get snap ''items'' of
        JList raws \<Rightarrow> checkpoint_item_list raws
      | _ \<Rightarrow> Inl ''Checkpoint items must be a list'')"

section \<open>Names of the files\<close>

definition word_char :: "char \<Rightarrow> bool" where
  "word_char c \<longleftrightarrow>
     is_digit c \<or> (65 \<le> code c \<and> code c \<le> 90) \<or> (97 \<le> code c \<and> code c \<le> 122) \<or> c \<in> {CHR ''_'', CHR ''-''}"

definition safe_id :: "string \<Rightarrow> bool" where
  "safe_id job \<longleftrightarrow> 1 \<le> length job \<and> length job \<le> 128 \<and> list_all word_char job"

definition checkpoint_directory :: "string \<Rightarrow> string \<Rightarrow> string + string" where
  "checkpoint_directory config_dir job =
     (if \<not> safe_id job then Inl ''Invalid checkpoint job ID'' else Inr (config_dir @ ''/job_checkpoints''))"

definition hex_char :: "char \<Rightarrow> bool" where
  "hex_char c \<longleftrightarrow> is_digit c \<or> (97 \<le> code c \<and> code c \<le> 102)"

definition valid_reference :: "string \<Rightarrow> string \<Rightarrow> bool" where
  "valid_reference job reference \<longleftrightarrow>
     (case strip_prefix (job @ ''.'') reference of
        None \<Rightarrow> False
      | Some r \<Rightarrow> list_all hex_char (take 32 r) \<and> length r = 37 \<and> drop 32 r = ''.json'')"

definition checkpoint_path :: "string \<Rightarrow> string \<Rightarrow> string \<Rightarrow> string + string" where
  "checkpoint_path config_dir job reference =
     bindE (checkpoint_directory config_dir job) (\<lambda>directory.
       if \<not> valid_reference job reference then Inl ''Invalid checkpoint reference''
       else Inr (directory @ ''/'' @ reference))"

section \<open>Writing and reading\<close>

text \<open>\<open>hex\<close> is the \<open>uuid4().hex\<close> of the new file; the answer is its reference and its contents.\<close>

definition write_checkpoint ::
  "string \<Rightarrow> string \<Rightarrow> (string \<times> json) list \<Rightarrow> (string \<times> json) list \<Rightarrow> string \<Rightarrow> string + string \<times> json" where
  "write_checkpoint config_dir job snap bookkeeping hex =
     bindE (checkpoint_items snap) (\<lambda>_.
     bindE (validate_accounting snap) (\<lambda>_.
     bindE (checkpoint_directory config_dir job) (\<lambda>_.
       Inr (job @ ''.'' @ hex @ ''.json'',
         JObj (AList.update ''bookkeeping'' (JObj bookkeeping)
           (AList.update ''job_id'' (JStr job) (AList.update ''version'' (JInt 1) snap)))))))"

text \<open>Builds before the node names wrote how often a node dropped a file.\<close>

definition named_drops :: "json \<Rightarrow> json" where
  "named_drops v = (case v of JInt i \<Rightarrow> if i \<ge> 0 then JList (replicate (nat i) (JStr [])) else v | _ \<Rightarrow> v)"

definition rename_drops :: "(string \<times> json) list \<Rightarrow> (string \<times> json) list" where
  "rename_drops payload =
     (case get payload ''state'' of
        JObj state \<Rightarrow>
          (case get state ''node_drops'' of
             JObj drops \<Rightarrow>
               AList.update ''state''
                 (JObj (AList.update ''node_drops'' (json_dict named_drops drops) state)) payload
           | _ \<Rightarrow> payload)
      | _ \<Rightarrow> payload)"

definition read_checkpoint :: "string \<Rightarrow> string \<Rightarrow> string \<Rightarrow> json \<Rightarrow> string + (string \<times> json) list" where
  "read_checkpoint config_dir job reference contents =
     bindE (checkpoint_path config_dir job reference) (\<lambda>_.
       case contents of
         JObj payload \<Rightarrow>
           if \<not> py_eq (get payload ''version'') (JInt 1) \<or> get payload ''job_id'' \<noteq> JStr job
           then Inl ''Checkpoint belongs to another job or format''
           else
             bindE (checkpoint_items payload) (\<lambda>_.
             bindE (validate_accounting payload) (\<lambda>_.
               if \<not> is_dict (get payload ''state'') \<or> \<not> is_dict (get_default payload ''bookkeeping'' (JObj []))
               then Inl ''Invalid checkpoint accounting''
               else Inr (rename_drops payload)))
       | _ \<Rightarrow> Inl ''Checkpoint belongs to another job or format'')"

text \<open>What a new tracker reads from the state it is given.\<close>

definition carried_accounting :: "json \<Rightarrow> accounting" where
  "carried_accounting v =
     (let state = json_items_of v;
          number = (\<lambda>k. json_int_of (get_default state k (JInt 0)));
          dict = (\<lambda>k. get_default state k (JObj []))
      in \<lparr>ac_successful = number ''successful'', ac_failed = number ''failed'',
          ac_failed_paths = read_names (get_default state ''failed_paths'' (JList [])),
          ac_node_failures = read_dict json_str_of (dict ''node_failures''),
          ac_node_drops = read_dict read_names (dict ''node_drops''),
          ac_node_start_failures = read_dict json_int_of (dict ''node_start_failures''),
          ac_dropped_on = read_dict json_str_of (dict ''dropped_on''),
          ac_excluded_nodes = read_dict (read_dict json_str_of) (dict ''excluded_nodes''),
          ac_outcome_counts = read_dict json_int_of (dict ''outcome_counts''),
          ac_cpu_fallback_files = number ''cpu_fallback_files'', ac_slow_path_files = number ''slow_path_files'',
          ac_slow_path_interval = number ''slow_path_interval'', ac_total_items = number ''total_items''\<rparr>)"

end
