(* ===== verification/Job_Saved.thy ===== *)
theory Job_Saved
  imports Job_Checkpoints
begin

text \<open>
  A checkpoint written for a tracker whose counters agree with its work is accepted when it is read back, and
  gives the same files and the same state.
\<close>

section \<open>Dictionaries\<close>

lemma read_json_dict:
  assumes "\<And>v. g (f v) = v"
  shows "read_dict g (json_dict f d) = d"
  using assms by (simp add: read_dict_def json_dict_def json_items_of_def case_prod_unfold map_idI)

lemma json_of_simps [simp]: "json_str_of (JStr s) = s" "json_int_of (JInt i) = i" "read_names (json_names xs) = xs"
  by (simp_all add: json_str_of_def json_int_of_def read_names_def json_names_def json_list_of_def map_idI)

lemma read_dict_simps [simp]:
  "read_dict json_str_of (json_dict JStr d) = d" "read_dict json_int_of (json_dict JInt d') = d'"
  "read_dict read_names (json_dict json_names d'') = d''"
  "read_dict (read_dict json_str_of) (json_dict (json_dict JStr) e) = e"
  by (simp_all add: read_json_dict)

lemma dict_of_json:
  "dict_of ok (json_dict f d) \<longleftrightarrow> (\<forall>(k, v) \<in> set d. ok (f v))"
  by (auto simp: dict_of_def json_dict_def list_all_iff)

lemma shape_simps [simp]:
  "is_str (JStr s)" "drop_names (json_names xs)" "old_drop_count (JInt i) \<longleftrightarrow> i \<ge> 0"
  by (auto simp: is_str_def drop_names_def json_names_def old_drop_count_def list_all_iff)

lemma named_drops_names [simp]: "named_drops (json_names xs) = json_names xs"
  by (simp add: named_drops_def json_names_def)

lemma dict_strings [simp]: "dict_of is_str (json_dict JStr d)"
  by (auto simp: dict_of_json)

section \<open>Work items\<close>

lemma checkpoint_item_descriptor:
  assumes "is_abs (wi_path i)"
  shows "checkpoint_item (item_descriptor i) = Inr i"
  using assms
  by (cases "wi_library i") (simp_all add: checkpoint_item_def item_descriptor_def get_def get_default_def is_str_def)

lemma checkpoint_item_descriptors:
  assumes "list_all (\<lambda>i. is_abs (wi_path i)) xs"
  shows "checkpoint_item_list (map item_descriptor xs) = Inr xs"
  using assms by (induction xs) (simp_all add: checkpoint_item_descriptor)

section \<open>Accounting\<close>

text \<open>No counter is negative.\<close>

definition nonneg :: "('k \<times> int) list \<Rightarrow> bool" where
  "nonneg d \<longleftrightarrow> list_all (\<lambda>(k, n). n \<ge> 0) d"

definition counters_ok :: "('a accounting_scheme) \<Rightarrow> bool" where
  "counters_ok a \<longleftrightarrow>
     ac_successful a \<ge> 0 \<and> ac_failed a \<ge> 0 \<and> ac_cpu_fallback_files a \<ge> 0 \<and> ac_slow_path_files a \<ge> 0 \<and>
     ac_slow_path_interval a \<ge> 0 \<and> ac_total_items a \<ge> 0 \<and> nonneg (ac_outcome_counts a) \<and>
     nonneg (ac_node_start_failures a)"

lemma carried_state_json: "carried_accounting (state_json publishers a) = a"
  by (simp add: carried_accounting_def state_json_def get_default_def json_items_of_def)

text \<open>The snapshot of a tracker whose counters add up, in the shape the checks want.\<close>

definition sound_snapshot :: "parked_state \<Rightarrow> bool" where
  "sound_snapshot sn \<longleftrightarrow>
     counters_ok (sn_state sn) \<and> list_all (\<lambda>i. is_abs (wi_path i)) (sn_items sn) \<and>
     ac_total_items (sn_state sn) =
       int (length (sn_items sn)) + ac_successful (sn_state sn) + ac_failed (sn_state sn)"

lemma validate_snapshot:
  assumes "sound_snapshot sn" "is_dict publishers" "get snap ''state'' = state_json publishers (sn_state sn)"
    "get snap ''items'' = JList (map item_descriptor (sn_items sn))"
  shows "validate_accounting snap = Inr ()"
proof -
  have drops: "dict_of (\<lambda>v. old_drop_count v \<or> drop_names v) (json_dict json_names (ac_node_drops (sn_state sn)))"
    by (auto simp: dict_of_json)
  have nodes: "dict_of (dict_of is_str) (json_dict (json_dict JStr) (ac_excluded_nodes (sn_state sn)))"
    by (auto simp: dict_of_json)
  show ?thesis using assms drops nodes
    by (simp add: validate_accounting_def state_json_def get_default_def has_key_def COUNTER_KEYS_def Let_def
        json_list_of_def dict_of_json sound_snapshot_def counters_ok_def nonneg_def list_all_iff)
qed

section \<open>Names\<close>

lemma valid_own_reference:
  assumes "length hex = 32" "list_all hex_char hex"
  shows "valid_reference job (job @ ''.'' @ hex @ ''.json'')"
proof -
  have "strip_prefix (job @ ''.'') ((job @ ''.'') @ hex @ ''.json'') = Some (hex @ ''.json'')"
    by (rule strip_prefix_append)
  then show ?thesis using assms by (simp add: valid_reference_def)
qed

lemma read_written:
  assumes "sound_snapshot sn" "is_dict publishers" "safe_id job" "length hex = 32" "list_all hex_char hex"
  obtains reference contents payload where
    "write_checkpoint config_dir job (snapshot_json job_context publishers sn) bookkeeping hex = Inr (reference, contents)"
    "read_checkpoint config_dir job reference contents = Inr payload"
    "checkpoint_items payload = Inr (sn_items sn)"
    "carried_accounting (get payload ''state'') = sn_state sn"
proof -
  let ?snap = "snapshot_json job_context publishers sn"
  let ?payload = "?snap @ [(''version'', JInt 1), (''job_id'', JStr job), (''bookkeeping'', JObj bookkeeping)]"
  have items: "checkpoint_items snap = Inr (sn_items sn)"
    if "get snap ''items'' = JList (map item_descriptor (sn_items sn))" for snap
    using assms(1) that by (simp add: checkpoint_items_def checkpoint_item_descriptors sound_snapshot_def)
  have fields: "get ?snap ''items'' = JList (map item_descriptor (sn_items sn))"
    "get ?snap ''state'' = state_json publishers (sn_state sn)"
    "get ?payload ''items'' = JList (map item_descriptor (sn_items sn))"
    "get ?payload ''state'' = state_json publishers (sn_state sn)"
    "get ?payload ''version'' = JInt 1" "get ?payload ''job_id'' = JStr job"
    "get_default ?payload ''bookkeeping'' (JObj []) = JObj bookkeeping"
    by (simp_all add: get_def get_default_def snapshot_json_def)
  have written: "write_checkpoint config_dir job ?snap bookkeeping hex =
      Inr (job @ ''.'' @ hex @ ''.json'', JObj ?payload)"
    using items [OF fields(1)] validate_snapshot [OF assms(1,2) fields(2,1)] assms(3)
    by (simp add: write_checkpoint_def checkpoint_directory_def snapshot_json_def)
  have renamed: "rename_drops ?payload = ?payload"
    by (simp add: rename_drops_def get_def snapshot_json_def state_json_def json_dict_def case_prod_unfold)
  have "read_checkpoint config_dir job (job @ ''.'' @ hex @ ''.json'') (JObj ?payload) = Inr ?payload"
    using items [OF fields(3)] validate_snapshot [OF assms(1,2) fields(4,3)] fields valid_own_reference [OF assms(4,5)]
      assms(3) renamed
    by (simp add: read_checkpoint_def checkpoint_path_def checkpoint_directory_def is_dict_def state_json_def)
  from that [OF written this items [OF fields(3)]] show ?thesis by (simp only: fields(4) carried_state_json)
qed

end
