(* ===== verification/Job_Counters.thy ===== *)
theory Job_Counters
  imports Job_Files Job_Accounts Job_Saved
begin

text \<open>
  No counter of a job's tracker is ever negative, whatever the threads do: a parked job's state passes the checks
  made of a checkpoint.
\<close>

section \<open>Counters are never negative\<close>

lemma nonneg_update: "nonneg d \<Longrightarrow> v \<ge> 0 \<Longrightarrow> nonneg (AList.update key v d)"
  by (induction d) (auto simp: nonneg_def)

lemma nonneg_get: "nonneg d \<Longrightarrow> dict_get d key 0 \<ge> 0"
  by (auto simp: dict_get_def nonneg_def list_all_iff split: option.splits dest!: map_of_SomeD)

lemma nonneg_count [simp]: "nonneg d \<Longrightarrow> nonneg (AList.update key (dict_get d key 0 + 1) d)"
  using nonneg_get [of d key] by (simp add: nonneg_update)

lemma nonneg_updates:
  "nonneg d \<Longrightarrow> nonneg kvs \<Longrightarrow> nonneg (fold (\<lambda>kv. AList.update (fst kv) (snd kv)) kvs d)"
  by (induction kvs arbitrary: d) (auto simp: nonneg_def [of "_ # _"] nonneg_update simp flip: nonneg_def)

named_theorems counter_facts

lemma counters_count_outcome [counter_facts]: "counters_ok t \<Longrightarrow> counters_ok (count_check_outcome custom key t)"
  by (simp add: counters_ok_def count_check_outcome_def)

lemma counters_forget [counter_facts]: "counters_ok t \<Longrightarrow> counters_ok (forget_gpus_refused path t)"
  by (simp add: counters_ok_def forget_gpus_refused_def)

lemma counters_failed_outcome [counter_facts]: "counters_ok t \<Longrightarrow> counters_ok (count_failed_outcome path t)"
  by (simp add: count_failed_outcome_def counter_facts)

lemma nonneg_merged:
  assumes "nonneg d"
  shows "nonneg (fold (\<lambda>(key, count) counts.
      if count > 0 \<and> map_of counts key \<noteq> None
      then AList.update key (dict_get counts key 0 + count) counts else counts) kvs d)"
  using assms
proof (induction kvs arbitrary: d)
  case (Cons kv kvs)
  then show ?case using nonneg_update [of d] nonneg_get [OF Cons.prems] by (cases kv) simp
qed simp

definition sane_end :: "task_end \<Rightarrow> bool" where
  "sane_end e \<longleftrightarrow> (case te_slow_path_interval e of None \<Rightarrow> True | Some i \<Rightarrow> i \<ge> 0)"

lemma counters_merge:
  assumes "counters_ok t" "sane_end e"
  shows "counters_ok (merge_outcome e t)"
  using assms nonneg_merged [of "ac_outcome_counts t" "te_delta e"]
  by (cases "te_slow_path_interval e") (simp_all add: counters_ok_def merge_outcome_def sane_end_def Let_def)

lemma counters_refuse [counter_facts]: "counters_ok t \<Longrightarrow> counters_ok (refuse_gpu path resource label t)"
  by (simp add: counters_ok_def refuse_gpu_def)

lemma counters_completion:
  assumes "counters_ok t" "count_completion success path node_failure t = (t', is_done)"
  shows "counters_ok t'"
  using assms by (auto simp: counters_ok_def count_completion_def Let_def split: if_splits)

lemma counters_moves [counter_facts]:
  "counters_ok t \<Longrightarrow> counters_ok (take_check pick t)" "counters_ok t \<Longrightarrow> counters_ok (untake_check i t)"
  "counters_ok t \<Longrightarrow> counters_ok (queue_item i t)" "counters_ok t \<Longrightarrow> counters_ok (end_check t)"
  "counters_ok t \<Longrightarrow> counters_ok (set_done t)" "counters_ok t \<Longrightarrow> counters_ok (mark_cancelled t)"
  "counters_ok t \<Longrightarrow> counters_ok (start_processing pick t)" "counters_ok t \<Longrightarrow> counters_ok (take_queued n t)"
  "counters_ok t \<Longrightarrow> counters_ok (reserve t)" "counters_ok t \<Longrightarrow> counters_ok (release_processing t)"
  "counters_ok t \<Longrightarrow> counters_ok (give_back i t)" "counters_ok t \<Longrightarrow> counters_ok (drain t)"
  "counters_ok t \<Longrightarrow> counters_ok (request_park t)"
  "counters_ok t \<Longrightarrow> counters_ok (t\<lparr>tr_active_processing := k\<rparr>)"
  "counters_ok t \<Longrightarrow> counters_ok (t\<lparr>tr_detached := True, tr_check_queue := [], tr_item_queue := []\<rparr>)"
  by (simp_all add: counters_ok_def take_check_def untake_check_def queue_item_def end_check_def set_done_def
      mark_cancelled_def start_processing_def stamp_pick_def take_queued_def reserve_def release_processing_def
      give_back_def drain_def request_park_def)

lemma counters_sent_back [counter_facts]: "counters_ok t \<Longrightarrow> counters_ok (note_sent_back node path t)"
  by (simp add: counters_ok_def note_sent_back_def split: option.split)

lemma counters_requeue:
  assumes "counters_ok t" "requeue_or_fail runs_outside can_run_outside invisible now i r t = (failure, t')"
  shows "counters_ok t'"
proof -
  obtain t1 where noted: "note_requeue runs_outside can_run_outside invisible now i r t = (failure, t1)"
    and t': "t' = (if failure = None then give_back i t1 else t1)"
    using assms(2) by (auto simp: requeue_or_fail_def split: prod.splits)
  have "counters_ok (snd (note_requeue runs_outside can_run_outside invisible now i r t))"
    using assms(1) by (cases "rq_reason r")
      (simp_all add: note_requeue_def Let_def counters_ok_def)
  then show ?thesis using noted t' by (simp add: counter_facts)
qed

definition counters_run :: "job_run \<Rightarrow> bool" where
  "counters_run s \<longleftrightarrow>
     counters_ok (jr_tracker s) \<and> (case jr_loop s of Merging i e \<Rightarrow> sane_end e | _ \<Rightarrow> True)"

text \<open>A worker's answer names the interval a file ran with, which is not negative.\<close>

definition sane_event :: "job_event \<Rightarrow> bool" where
  "sane_event e = (case e of Reap n (Ended r) \<Rightarrow> sane_end r | _ \<Rightarrow> True)"

lemma counters_check_step:
  assumes "counters_run s" "n < length (jr_checks s)"
  shows "counters_run (check_step n s)"
proof -
  from check_at [OF assms(2)] obtain i st ys zs where xs: "jr_checks s ! n = (i, st)" by metis
  show ?thesis
  proof (cases st)
    case (Counting success)
    obtain t is_done where cc: "count_completion success (wi_path i) [] (jr_tracker s) = (t, is_done)"
      by (cases "count_completion success (wi_path i) [] (jr_tracker s)")
    show ?thesis using assms(1) xs Counting cc counters_completion [OF _ cc]
      by (simp add: check_step_def counters_run_def run_defs)
  qed (use assms(1) xs in \<open>simp_all add: check_step_def counters_run_def run_defs counter_facts\<close>)
qed

lemma counters_loop_step:
  assumes "counters_run s"
  shows "counters_run (loop_step runs can_run invisible now s)"
proof (cases "jr_loop s")
  case (Completing i success node_failure holds forget)
  obtain t is_done where cc: "count_completion success (wi_path i) node_failure (jr_tracker s) = (t, is_done)"
    by (cases "count_completion success (wi_path i) node_failure (jr_tracker s)")
  show ?thesis using assms Completing counters_completion [OF _ cc]
    by (simp add: loop_step_def cc counters_run_def run_defs)
next
  case (Given_Back i r)
  obtain failure t where rq: "requeue_or_fail runs can_run invisible now i r (jr_tracker s) = (failure, t)"
    by (cases "requeue_or_fail runs can_run invisible now i r (jr_tracker s)")
  show ?thesis using assms Given_Back counters_requeue [OF _ rq]
    by (simp add: loop_step_def rq counters_run_def run_defs split: option.split)
next
  case (Merging i e)
  then show ?thesis using assms by (simp add: loop_step_def counters_run_def run_defs counters_merge)
qed (use assms in \<open>simp_all add: loop_step_def counters_run_def run_defs counter_facts\<close>)

lemma counters_job_step:
  assumes "counters_run s" "sane_event e"
  shows "counters_run (job_step e s)"
proof (cases e)
  case (Check_Answers n answer asked)
  then show ?thesis using assms
    by (cases answer) (simp_all add: check_answers_def counters_run_def run_defs Let_def)
next
  case (Reap n result)
  then show ?thesis using assms
    by (cases result) (simp_all add: reap_def counters_run_def run_defs sane_event_def Let_def)
next
  case Fail_Stranded
  then show ?thesis using assms by (cases "jr_stranded s") (auto simp: fail_stranded_def counters_run_def)
next
  case (Step_Cancel n)
  then show ?thesis using assms
    by (simp add: step_cancel_def counters_run_def run_defs counter_facts split: cancel_stage.split)
next
  case Detach
  then show ?thesis using assms by (auto simp: detach_def detach_parked_def counters_run_def counter_facts Let_def)
qed (use assms in \<open>simp_all add: counters_check_step counters_loop_step\<close>,
  simp_all add: counters_run_def run_defs pick_check_def check_unstarted_def check_guard_def assign_file_def
    assign_fails_def strand_file_def start_cancel_def counter_facts Let_def)

end
