(* ===== verification/Job_Claims.thy ===== *)
theory Job_Claims
  imports Job_Ending Job_Counters
begin

text \<open>
  The threads of one job, in any interleaving: no file is lost or counted twice, the job is done when its
  last file is recorded and not before, and a parked job resumes from its checkpoint where it stopped.
\<close>

section \<open>The invariant\<close>

definition accounted :: "int \<Rightarrow> work_item list \<Rightarrow> job_run \<Rightarrow> bool" where
  "accounted carried files s \<longleftrightarrow>
     files_of s = mset files \<and> counts_agree carried (int (length files)) s \<and> slots_held s \<and> ending_ok (length files) s"

definition parked_last :: "job_run \<Rightarrow> bool" where
  "parked_last s \<longleftrightarrow> tr_detached (jr_tracker s) \<or> jr_parked s = []"

lemma accounted_start:
  assumes "fresh_tracker t"
  shows "accounted (completed t) (tr_check_queue t) (start_run t)"
  using assms
  by (auto simp: accounted_def fresh_tracker_def start_run_def place_defs counts_agree_def slots_held_def ending_ok_def
      about_to_finish_def completed_def set_done_def Let_def)

lemma accounted_step: "accounted carried files s \<Longrightarrow> accounted carried files (job_step e s)"
  by (auto simp: accounted_def files_job_step counted_job_step slots_job_step intro: ending_job_step)


interpretation job: invariant_machine "start_run t" legal job_step
    "\<lambda>s. fresh_tracker t \<longrightarrow> accounted (completed t) (tr_check_queue t) s" for t legal
  by unfold_locales (simp_all add: accounted_start accounted_step)


lemma new_tracker_accounted:
  assumes "new_tracker job kind keys share priority submission files carried_outcome carried_state = Some t"
    "reachable (start_run t) legal job_step s"
  shows "accounted (completed t) files s"
  using job.always [OF assms(2)] new_tracker_fresh [OF assms(1)] by simp

lemma detached_kept [simp]:
  "tr_detached (take_check pick t) = tr_detached t" "tr_detached (untake_check i t) = tr_detached t"
  "tr_detached (queue_item i t) = tr_detached t" "tr_detached (end_check t) = tr_detached t"
  "tr_detached (set_done t) = tr_detached t" "tr_detached (mark_cancelled t) = tr_detached t"
  "tr_detached (start_processing pick t) = tr_detached t" "tr_detached (take_queued n t) = tr_detached t"
  "tr_detached (reserve t) = tr_detached t" "tr_detached (release_processing t) = tr_detached t"
  "tr_detached (give_back i t) = tr_detached t" "tr_detached (drain t) = tr_detached t"
  "tr_detached (request_park t) = tr_detached t" "tr_detached (count_check_outcome custom key t) = tr_detached t"
  "tr_detached (forget_gpus_refused path t) = tr_detached t" "tr_detached (count_failed_outcome path t) = tr_detached t"
  "tr_detached (merge_outcome e t) = tr_detached t" "tr_detached (refuse_gpu path resource label t) = tr_detached t"
  by (simp_all add: take_check_def untake_check_def queue_item_def end_check_def set_done_def mark_cancelled_def
      start_processing_def stamp_pick_def take_queued_def reserve_def release_processing_def give_back_def drain_def
      request_park_def count_check_outcome_def forget_gpus_refused_def count_failed_outcome_def merge_outcome_def
      refuse_gpu_def Let_def split: option.split)

lemma detached_completion:
  "count_completion success path node_failure t = (t', is_done) \<Longrightarrow> tr_detached t' = tr_detached t"
  by (auto simp: count_completion_def Let_def split: if_splits)

lemma detached_requeue:
  assumes "requeue_or_fail runs_outside can_run_outside invisible now i r t = (failure, t')"
  shows "tr_detached t' = tr_detached t"
proof -
  have "tr_detached (snd (note_requeue runs_outside can_run_outside invisible now i r t)) = tr_detached t"
    by (cases "rq_reason r") (simp_all add: note_requeue_def Let_def)
  with assms show ?thesis by (auto simp: requeue_or_fail_def split: prod.splits if_splits)
qed

lemma parked_check_step: "parked_last s \<Longrightarrow> parked_last (check_step n s)"
  by (cases "jr_checks s ! n"; cases "snd (jr_checks s ! n)")
    (auto simp: check_step_def parked_last_def run_defs split: prod.split dest: detached_completion)

lemma parked_loop_step: "parked_last s \<Longrightarrow> parked_last (loop_step runs can_run invisible now s)"
  by (cases "jr_loop s")
    (auto simp: loop_step_def parked_last_def run_defs split: prod.split dest: detached_completion detached_requeue)

lemma parked_last_step:
  assumes "parked_last s"
  shows "parked_last (job_step e s)"
proof (cases e)
  case (Check_Answers n answer asked)
  then show ?thesis using assms by (cases answer) (simp_all add: check_answers_def parked_last_def run_defs Let_def)
next
  case (Reap n result)
  then show ?thesis using assms by (simp add: reap_def parked_last_def run_defs Let_def)
next
  case Fail_Stranded
  then show ?thesis using assms by (cases "jr_stranded s") (auto simp: fail_stranded_def parked_last_def)
next
  case (Step_Cancel n)
  then show ?thesis using assms by (simp add: step_cancel_def parked_last_def run_defs split: cancel_stage.split)
next
  case Detach
  then show ?thesis using assms by (auto simp: detach_def detach_parked_def parked_last_def Let_def)
qed (use assms in \<open>simp_all add: parked_check_step parked_loop_step\<close>,
  auto simp: parked_last_def run_defs pick_check_def check_unstarted_def check_guard_def assign_file_def
    assign_fails_def strand_file_def start_cancel_def Let_def)

interpretation parked: invariant_machine "start_run t" legal job_step parked_last for t legal
  by unfold_locales (simp_all add: parked_last_step, simp add: parked_last_def start_run_def)

text \<open>Nothing of the job is queued or running any more.\<close>

definition nothing_left :: "job_run \<Rightarrow> bool" where
  "nothing_left s \<longleftrightarrow>
     tr_check_queue (jr_tracker s) = [] \<and> tr_item_queue (jr_tracker s) = [] \<and> jr_checks s = [] \<and> jr_tasks s = [] \<and>
     jr_stranded s = [] \<and> jr_loop s = Idle \<and> jr_cancels s = [] \<and> \<not> tr_detached (jr_tracker s)"

section \<open>A job of two files\<close>

definition two_files :: "work_item list" where
  "two_files =
     [\<lparr>wi_path = ''/tv/a.mkv'', wi_server = ''plex'', wi_ids = [(''plex'', ''7'')], wi_title = ''A'', wi_library = None\<rparr>,
      \<lparr>wi_path = ''/tv/b.mkv'', wi_server = ''plex'', wi_ids = [], wi_title = ''B'', wi_library = Some ''1''\<rparr>]"

definition two_file_tracker :: job_tracker where
  "two_file_tracker =
     the (new_tracker ''job'' ''previews'' [''generated'', ''failed''] None 2 1 two_files [] None)"

lemma two_file_tracker:
  "new_tracker ''job'' ''previews'' [''generated'', ''failed''] None 2 1 two_files [] None = Some two_file_tracker"
  by (simp add: two_file_tracker_def new_tracker_def)


text \<open>Both files are picked for their check; the first needs no worker.\<close>

definition first_file :: "job_event list" where
  "first_file = [Pick_Check False False 1, Pick_Check False False 2, Check_Step 0, Check_Guard 0 False,
     Check_Answers 0 (Answered False ''generated'' True) False, Check_Step 0, Check_Step 0, Check_Step 0]"

text \<open>A worker processes the second.\<close>

definition second_file :: "job_event list" where
  "second_file = [Check_Step 0, Check_Guard 0 False, Check_Answers 0 Needs_Worker False, Check_Step 0, Check_Step 0,
     Assign 0 None 3, Reap 0 (Ended \<lparr>te_success = False, te_delta = [(''failed'', 1)], te_cpu_fallback = False,
       te_slow_path_interval = Some 2\<rparr>)] @
     replicate 4 (Loop_Step (\<lambda>_. True) (\<lambda>_. True) (\<lambda>_. []) 0)"


definition ended_run :: job_run where
  "ended_run = fold job_step (first_file @ second_file) (start_run two_file_tracker)"



lemma ended_run_reachable: "reachable (start_run two_file_tracker) (\<lambda>_. True) job_step ended_run"
  unfolding ended_run_def by (rule reachable_runs) (simp add: list_all_iff)


lemma ended_run_state: "\<not> jr_asked ended_run" "nothing_left ended_run" "jr_recorded ended_run = two_files"
  by code_simp+

section \<open>Nothing is lost\<close>



section \<open>The job ends\<close>

lemma all_recorded:
  assumes "accounted carried files s" "length (jr_recorded s) = length files"
  shows "mset (jr_recorded s) = mset files \<and> completed (jr_tracker s) = ac_total_items (jr_tracker s)"
proof -
  from assms(1) have all_files: "files_of s = mset files" and sums: "counts_agree carried (int (length files)) s"
    by (simp_all add: accounted_def)
  from all_files have "size (files_of s) = length files" by simp
  with assms(2) have "files_of s = mset (jr_recorded s)" by (simp add: size_files_of files_of_def)
  with all_files sums assms(2) show ?thesis by (simp add: counts_agree_def)
qed

lemma uncancelled:
  assumes "accounted carried files s" "\<not> jr_asked s"
  shows "jr_dropped s = []" "\<not> tr_cancelled (jr_tracker s)"
    "tr_done (jr_tracker s) \<Longrightarrow> length (jr_recorded s) = length files"
    "length (jr_recorded s) = length files \<Longrightarrow> \<not> about_to_finish s \<Longrightarrow> tr_done (jr_tracker s)"
  using assms by (auto simp: accounted_def ending_ok_def Let_def)

text \<open>C8: A job nobody asks to cancel sets its done event only when every file is recorded; and when nothing of
  it is queued or running any more its done event is set, with every file recorded: no caller waits forever.\<close>
theorem job_done_when_recorded:
  assumes "new_tracker job kind keys share priority submission files carried_outcome carried_state = Some t"
    and "reachable (start_run t) legal job_step s" and "\<not> jr_asked s"
  shows "(tr_done (jr_tracker s) \<longrightarrow>
      mset (jr_recorded s) = mset files \<and> completed (jr_tracker s) = ac_total_items (jr_tracker s)) \<and>
    (nothing_left s \<longrightarrow> tr_done (jr_tracker s))"
proof -
  from new_tracker_accounted [OF assms(1,2)] have acc: "accounted (completed t) files s" .
  have "tr_done (jr_tracker s)" if "nothing_left s"
  proof (rule uncancelled(4) [OF acc assms(3)])
    have "jr_parked s = []" using parked.always [OF assms(2)] that by (simp add: parked_last_def nothing_left_def)
    moreover have "size (files_of s) = length files" using acc by (simp add: accounted_def)
    ultimately show "length (jr_recorded s) = length files"
      using that uncancelled(1) [OF acc assms(3)] by (simp add: size_files_of nothing_left_def files_in_checks_def)
    show "\<not> about_to_finish s" using that by (simp add: about_to_finish_def nothing_left_def)
  qed
  then show ?thesis using uncancelled(3) [OF acc assms(3)] all_recorded [OF acc] by blast
qed

theorem job_done_when_recorded_witness:
  "tr_done (jr_tracker ended_run) \<and> completed (jr_tracker ended_run) = ac_total_items (jr_tracker ended_run) \<and>
    nothing_left ended_run"
  using job_done_when_recorded [OF two_file_tracker ended_run_reachable ended_run_state(1)] ended_run_state(2) by simp

section \<open>Parking\<close>






end
