(* ===== verification/Matcher.thy ===== *)
theory Matcher
  imports Floats Bytes
begin

unbundle bit_operations_syntax

text \<open>
  Season audio's matcher (\<open>markers/audio/matcher.py\<close>) and the slow program it must agree with
  (\<open>tools/markers_eval/fp3_reference.py\<close>).  A fingerprint is a list of 32-bit words.  The numpy
  calls are the list functions of the same names; \<open>np.argsort\<close> (whose order of equal values is
  not specified) is a parameter.  The 64-bit counters are integers: the keys stay far below
  \<open>2 ^ 63\<close>.  Times are doubles (\<open>fl\<close> after every operation).
\<close>

section \<open>Constants\<close>

definition POINT_S :: rat where "POINT_S = fl (fl (4096 / 11025) / 3)"
definition MAX_BIT_DIFF :: nat where "MAX_BIT_DIFF = 6"
definition MAX_GAP_S :: rat where "MAX_GAP_S = 7 / 2"
definition MIN_RUN_S :: rat where "MIN_RUN_S = 8"
definition MAX_INTRO_S :: rat where "MAX_INTRO_S = 120"
definition PREFERRED_MIN_S :: rat where "PREFERRED_MIN_S = 15"
definition CLUSTER_TOLERANCE_S :: rat where "CLUSTER_TOLERANCE_S = 4"
definition QUORUM :: rat where "QUORUM = 1 / 2"
definition TOP_SHIFTS :: nat where "TOP_SHIFTS = 40"
definition VALUE_SHIFTS :: "int list" where "VALUE_SHIFTS = [- 2, - 1, 0, 1, 2]"
definition MIN_PTS :: nat where "MIN_PTS = nat \<lfloor>fl (MIN_RUN_S / POINT_S)\<rfloor>"
definition GAP_PTS :: nat where "GAP_PTS = nat \<lfloor>fl (MAX_GAP_S / POINT_S)\<rfloor>"
definition MATCHES_PER_CHUNK :: nat where "MATCHES_PER_CHUNK = 2 ^ 18"

type_synonym points = "32 word list"

text \<open>\<open>n * POINT_S\<close>: the time of a point.\<close>

definition secs :: "nat \<Rightarrow> rat" where
  "secs n = fl (of_nat n * POINT_S)"

section \<open>Data\<close>

record run =
  a_start_s :: rat
  a_end_s :: rat
  b_start_s :: rat
  b_end_s :: rat

record hit =
  h_start_s :: rat
  h_end_s :: rat
  h_partner :: string
  h_partner_start_s :: rat

record intro_segment =
  i_start_s :: rat
  i_end_s :: rat
  i_support :: nat

record intro_candidate =
  ic_segment :: intro_segment
  ic_members :: "hit list"

section \<open>Bits\<close>

text \<open>\<open>bin(i).count("1")\<close>, its table for a byte, and a word as four bytes.\<close>

fun bin_ones :: "nat \<Rightarrow> nat" where
  "bin_ones n = (if n = 0 then 0 else n mod 2 + bin_ones (n div 2))"

declare bin_ones.simps [simp del]

definition POPCOUNT8 :: "nat list" where
  "POPCOUNT8 = map bin_ones [0..<256]"

definition byte_of :: "32 word \<Rightarrow> nat \<Rightarrow> nat" where
  "byte_of x k = unat x div 256 ^ k mod 256"

definition popcount32 :: "32 word \<Rightarrow> nat" where
  "popcount32 x = sum_list (map (\<lambda>k. POPCOUNT8 ! byte_of x k) [0..<4])"

section \<open>Alignment shifts\<close>

text \<open>\<open>np.searchsorted(xs, v, side)\<close> on a sorted array, \<open>np.repeat\<close> and \<open>np.cumsum\<close>.\<close>

definition searchsorted_left :: "int list \<Rightarrow> int \<Rightarrow> nat" where
  "searchsorted_left xs v = length (takeWhile (\<lambda>x. x < v) xs)"

definition searchsorted_right :: "int list \<Rightarrow> int \<Rightarrow> nat" where
  "searchsorted_right xs v = length (takeWhile (\<lambda>x. x \<le> v) xs)"

definition np_repeat :: "'a list \<Rightarrow> nat list \<Rightarrow> 'a list" where
  "np_repeat xs ns = concat (map2 (\<lambda>x n. replicate n x) xs ns)"

fun cumsum_from :: "nat \<Rightarrow> nat list \<Rightarrow> nat list" where
  "cumsum_from t [] = []"
| "cumsum_from t (n # ns) = (t + n) # cumsum_from (t + n) ns"

definition cumsum :: "nat list \<Rightarrow> nat list" where
  "cumsum = cumsum_from 0"

text \<open>
  The positions of \<open>a\<close> paired with every position of \<open>b\<close> that holds the value \<open>d\<close> away: the
  places \<open>left\<close> to \<open>left + matches\<close> of the sorted order.
\<close>

definition lefts_of :: "int list \<Rightarrow> points \<Rightarrow> int \<Rightarrow> nat list" where
  "lefts_of sorted_b a d = map (\<lambda>v. searchsorted_left sorted_b (uint v + d)) a"

definition matches_of :: "int list \<Rightarrow> points \<Rightarrow> int \<Rightarrow> nat list" where
  "matches_of sorted_b a d =
     map2 (\<lambda>v left. searchsorted_right sorted_b (uint v + d) - left) a (lefts_of sorted_b a d)"

definition chunk :: "nat \<Rightarrow> nat \<Rightarrow> 'a list \<Rightarrow> 'a list" where
  "chunk lo hi xs = drop lo (take hi xs)"

definition expand_chunk :: "nat list \<Rightarrow> nat list \<Rightarrow> nat list \<Rightarrow> nat \<Rightarrow> nat \<Rightarrow> (nat \<times> nat) list" where
  "expand_chunk order lefts matches lo hi =
     (let per_i = chunk lo hi matches;
          total = sum_list per_i;
          i = np_repeat [lo..<hi] per_i;
          offsets = map2 (-) [0..<total] (np_repeat (map2 (-) (cumsum per_i) per_i) per_i);
          j = map2 (\<lambda>left w. order ! (left + w)) (np_repeat (chunk lo hi lefts) per_i) offsets
      in zip i j)"

text \<open>
  \<open>counts\<close> and \<open>first_seen\<close>, indexed by the shift plus \<open>len(a)\<close>, after one value shift's pairs.
\<close>

definition count_pairs ::
  "nat \<Rightarrow> nat \<Rightarrow> nat \<Rightarrow> (nat \<times> nat) list \<Rightarrow> nat list \<times> int list \<Rightarrow> nat list \<times> int list" where
  "count_pairs len_a width d_index ps st =
     (let slots = map (\<lambda>(i, j). j + len_a - i) ps;
          keys = map (\<lambda>(i, j). (int i * int (length VALUE_SHIFTS) + int d_index) * int width + int j) ps
      in (map2 (+) (fst st) (map (count_list slots) [0..<length (fst st)]),
          fold (\<lambda>(s, k) seen. seen[s := min (seen ! s) k]) (zip slots keys) (snd st)))"

definition next_chunk :: "nat list \<Rightarrow> nat \<Rightarrow> nat" where
  "next_chunk matches_up_to lo =
     (let before = (if lo = 0 then 0 else matches_up_to ! (lo - 1))
      in max (lo + 1) (length (takeWhile (\<lambda>m. m \<le> before + MATCHES_PER_CHUNK) matches_up_to)))"

definition count_chunk ::
  "nat list \<Rightarrow> nat list list \<Rightarrow> nat list list \<Rightarrow> nat \<Rightarrow> nat \<Rightarrow> nat \<Rightarrow> nat \<Rightarrow>
     nat list \<times> int list \<Rightarrow> nat list \<times> int list" where
  "count_chunk order lefts matches len_a width lo hi =
     fold (\<lambda>d_index st.
       if sum_list (chunk lo hi (matches ! d_index)) = 0 then st
       else count_pairs len_a width d_index
              (expand_chunk order (lefts ! d_index) (matches ! d_index) lo hi) st)
       [0..<length VALUE_SHIFTS]"

text \<open>\<open>while lo < len(a)\<close>.\<close>

function chunk_loop ::
  "nat list \<Rightarrow> nat list list \<Rightarrow> nat list list \<Rightarrow> nat list \<Rightarrow> nat \<Rightarrow> nat \<Rightarrow> nat \<Rightarrow>
     nat list \<times> int list \<Rightarrow> nat list \<times> int list" where
  "chunk_loop order lefts matches matches_up_to len_a width lo st =
     (if lo < len_a
      then (let hi = next_chunk matches_up_to lo
            in chunk_loop order lefts matches matches_up_to len_a width hi
                 (count_chunk order lefts matches len_a width lo hi st))
      else st)"
  by pat_completeness auto
termination
  by (relation "measure (\<lambda>(order, lefts, matches, matches_up_to, len_a, width, lo, st). len_a - lo)")
     (auto simp: next_chunk_def Let_def)

declare chunk_loop.simps [simp del]

definition INT64_MAX :: int where "INT64_MAX = 2 ^ 63 - 1"

definition top_shifts :: "(points \<Rightarrow> nat list) \<Rightarrow> points \<Rightarrow> points \<Rightarrow> int list" where
  "top_shifts argsort a b =
     (if a = [] \<or> b = [] then []
      else
        (let order = argsort b;
             sorted_b = map (\<lambda>k. uint (b ! k)) order;
             lefts = map (lefts_of sorted_b a) VALUE_SHIFTS;
             matches = map (matches_of sorted_b a) VALUE_SHIFTS;
             matches_up_to = cumsum (map (\<lambda>i. sum_list (map (\<lambda>m. m ! i) matches)) [0..<length a]);
             size = length a + length b;
             (counts, first_seen) = chunk_loop order lefts matches matches_up_to (length a) (length b + 1) 0
               (replicate size 0, replicate size INT64_MAX);
             seen = filter (\<lambda>s. counts ! s \<noteq> 0) [0..<size];
             ranked = sort_key (\<lambda>s. (- int (counts ! s), first_seen ! s)) seen
         in map (\<lambda>s. int s - int (length a)) (take TOP_SHIFTS ranked)))"

section \<open>Matching runs\<close>

text \<open>The aligned positions that differ in few bits, and their stretches without a long gap.\<close>

definition near :: "32 word \<Rightarrow> 32 word \<Rightarrow> bool" where
  "near x y \<longleftrightarrow> popcount32 (x XOR y) \<le> MAX_BIT_DIFF"

definition near_idx :: "points \<Rightarrow> points \<Rightarrow> nat \<Rightarrow> nat \<Rightarrow> nat \<Rightarrow> nat list" where
  "near_idx a b a0 b0 n = filter (\<lambda>k. near (a ! (a0 + k)) (b ! (b0 + k))) [0..<n]"

definition stretches :: "nat list \<Rightarrow> (nat \<times> nat) list" where
  "stretches idx =
     (let breaks = filter (\<lambda>k. idx ! (k + 1) - idx ! k > GAP_PTS) [0..<length idx - 1];
          starts = idx ! 0 # map (\<lambda>k. idx ! (k + 1)) breaks;
          ends = map (\<lambda>k. idx ! k) breaks @ [last idx]
      in zip starts ends)"

definition shift_runs :: "points \<Rightarrow> points \<Rightarrow> int \<Rightarrow> run list" where
  "shift_runs a b s =
     (let a0 = (if s \<ge> 0 then 0 else nat (- s));
          b0 = (if s \<ge> 0 then nat s else 0);
          n = min (int (length a) - int a0) (int (length b) - int b0)
      in if n \<le> 0 then []
         else
           (let idx = near_idx a b a0 b0 (nat n)
            in if length idx < 2 then []
               else map (\<lambda>(x, y). \<lparr>a_start_s = secs (a0 + x), a_end_s = secs (a0 + y),
                                   b_start_s = secs (b0 + x), b_end_s = secs (b0 + y)\<rparr>)
                      (filter (\<lambda>(x, y). y - x \<ge> MIN_PTS) (stretches idx))))"

definition overlaps_run :: "run \<Rightarrow> run \<Rightarrow> bool" where
  "overlaps_run r k \<longleftrightarrow> a_start_s r < a_end_s k \<and> a_start_s k < a_end_s r"

definition keep_run :: "run \<Rightarrow> run list \<Rightarrow> run list" where
  "keep_run r kept = (if \<forall>k \<in> set kept. \<not> overlaps_run r k then kept @ [r] else kept)"

definition longest_first :: "run list \<Rightarrow> run list" where
  "longest_first = sort_key (\<lambda>r. - fl (a_end_s r - a_start_s r))"

definition pair_runs :: "(points \<Rightarrow> nat list) \<Rightarrow> points \<Rightarrow> points \<Rightarrow> run list" where
  "pair_runs argsort a b =
     fold keep_run (longest_first (concat (map (shift_runs a b) (top_shifts argsort a b)))) []"

section \<open>An episode's hits and its intro\<close>

definition too_long :: "run \<Rightarrow> bool" where
  "too_long r \<longleftrightarrow> fl (a_end_s r - a_start_s r) > MAX_INTRO_S"

text \<open>\<open>None\<close>: the target is not in the list.\<close>

definition file_hits :: "string \<Rightarrow> string list \<Rightarrow> (string \<Rightarrow> string \<Rightarrow> run list) \<Rightarrow> hit list option" where
  "file_hits target files runs_between =
     (if target \<notin> set files then None
      else
        (let k = index_or_len target files
         in Some (concat (map (\<lambda>earlier.
                    map (\<lambda>r. \<lparr>h_start_s = b_start_s r, h_end_s = b_end_s r, h_partner = earlier,
                              h_partner_start_s = a_start_s r\<rparr>)
                      (filter (\<lambda>r. \<not> too_long r) (runs_between earlier target))) (take k files)) @
                  concat (map (\<lambda>later.
                    map (\<lambda>r. \<lparr>h_start_s = a_start_s r, h_end_s = a_end_s r, h_partner = later,
                              h_partner_start_s = b_start_s r\<rparr>)
                      (filter (\<lambda>r. \<not> too_long r) (runs_between target later))) (drop (k + 1) files)))))"

definition in_cluster :: "hit \<Rightarrow> hit \<Rightarrow> bool" where
  "in_cluster h h2 \<longleftrightarrow>
     \<bar>fl (h_start_s h2 - h_start_s h)\<bar> \<le> CLUSTER_TOLERANCE_S \<and>
     \<bar>fl (h_end_s h2 - h_end_s h)\<bar> \<le> CLUSTER_TOLERANCE_S"

definition cluster_of :: "hit list \<Rightarrow> hit \<Rightarrow> hit list" where
  "cluster_of hits h = filter (in_cluster h) hits"

definition support_of :: "hit list \<Rightarrow> nat" where
  "support_of cluster = card (h_partner ` set cluster)"

definition segment_of :: "hit list \<Rightarrow> intro_segment" where
  "segment_of cluster =
     \<lparr>i_start_s = float_median (map h_start_s cluster), i_end_s = float_median (map h_end_s cluster),
      i_support = support_of cluster\<rparr>"

definition hit_key :: "hit list \<Rightarrow> hit \<Rightarrow> bool \<times> nat \<times> rat" where
  "hit_key hits h =
     (let len = fl (h_end_s h - h_start_s h)
      in (len \<ge> PREFERRED_MIN_S, support_of (cluster_of hits h), len))"

definition meets_quorum :: "nat \<Rightarrow> int \<Rightarrow> bool" where
  "meets_quorum support others \<longleftrightarrow> of_nat support \<ge> max 1 (QUORUM * of_int others)"

definition better_intro ::
  "hit list \<Rightarrow> hit \<Rightarrow> ((bool \<times> nat \<times> rat) \<times> intro_segment) option \<Rightarrow>
     ((bool \<times> nat \<times> rat) \<times> intro_segment) option" where
  "better_intro hits h best =
     (if (case best of None \<Rightarrow> True | Some (best_key, _) \<Rightarrow> hit_key hits h > best_key)
      then Some (hit_key hits h, segment_of (cluster_of hits h)) else best)"

definition intro_for :: "hit list \<Rightarrow> int \<Rightarrow> intro_segment option" where
  "intro_for hits others =
     (case fold (better_intro hits) hits None of
        None \<Rightarrow> None
      | Some (_, best) \<Rightarrow>
          if of_nat (i_support best) < max 1 (QUORUM * of_int others) then None else Some best)"

definition floats :: "intro_candidate \<Rightarrow> bool" where
  "floats c =
     (let moved = length (filter (\<lambda>h. \<bar>fl (h_partner_start_s h - h_start_s h)\<bar> > CLUSTER_TOLERANCE_S)
                    (ic_members c))
      in 2 * moved > length (ic_members c))"

text \<open>\<open>ranked.sort(..., reverse=True)\<close> keeps equal keys in order.\<close>

definition intro_candidates :: "hit list \<Rightarrow> intro_candidate list" where
  "intro_candidates hits =
     (let ranked = map (\<lambda>h. (hit_key hits h,
                     \<lparr>ic_segment = segment_of (cluster_of hits h), ic_members = cluster_of hits h\<rparr>)) hits
      in map snd (rev (sort_key fst (rev ranked))))"

section \<open>A second opening\<close>

text \<open>\<open>any\<close> and a filtered set whose test may raise (\<open>None\<close>), in the order of a list.\<close>

fun any_opt :: "('a \<Rightarrow> bool option) \<Rightarrow> 'a list \<Rightarrow> bool option" where
  "any_opt f [] = Some False"
| "any_opt f (x # xs) = do { b \<leftarrow> f x; if b then Some True else any_opt f xs }"

fun filter_opt :: "('a \<Rightarrow> bool option) \<Rightarrow> 'a list \<Rightarrow> 'a list option" where
  "filter_opt f [] = Some []"
| "filter_opt f (x # xs) = do { b \<leftarrow> f x; ys \<leftarrow> filter_opt f xs; Some (if b then x # ys else ys) }"

text \<open>
  The answers of one episode's calls are kept in \<open>memo\<close>, which only saves asking again: it is left
  out.  A set of episodes is the list of its elements, in the order of the files or hits.
\<close>

definition has_opening_among ::
  "string \<Rightarrow> string set \<Rightarrow> string list \<Rightarrow> (string \<Rightarrow> string \<Rightarrow> run list) \<Rightarrow> bool option" where
  "has_opening_among episode pool files runs_between =
     do {
       hits \<leftarrow> file_hits episode (filter (\<lambda>f. f = episode \<or> f \<in> pool) files) runs_between;
       Some (case intro_candidates hits of
               [] \<Rightarrow> False
             | c # _ \<Rightarrow>
                 (let best = ic_segment c
                  in fl (i_end_s best - i_start_s best) \<ge> PREFERRED_MIN_S \<and>
                     meets_quorum (i_support best) (int (card pool))))
     }"

definition meets_opening_quorum ::
  "string \<Rightarrow> intro_candidate \<Rightarrow> string list \<Rightarrow> (string \<Rightarrow> string \<Rightarrow> run list) \<Rightarrow>
     (string \<Rightarrow> (int \<times> int) option) \<Rightarrow> bool option" where
  "meets_opening_quorum target candidate files runs_between order_of =
     (if fl (i_end_s (ic_segment candidate) - i_start_s (ic_segment candidate)) < PREFERRED_MIN_S
      then Some False
      else
        (let supporters = dedupe (map h_partner (ic_members candidate));
             rest = filter (\<lambda>f. f \<noteq> target \<and> f \<notin> set supporters) (dedupe files)
         in do {
              second \<leftarrow> filter_opt (\<lambda>f. has_opening_among f (set rest - {f}) files runs_between) rest;
              if second = [] then Some False
              else do {
                shared \<leftarrow> any_opt (\<lambda>f. has_opening_among f (set second) files runs_between) supporters;
                if shared then Some False
                else
                  (let ours = map order_of (dedupe (supporters @ [target])); theirs = map order_of second
                   in if None \<in> set ours \<or> None \<in> set theirs then Some False
                      else
                        (let ours' = map the ours; theirs' = map the theirs
                         in if \<not> (Max (set ours') < Min (set theirs') \<or> Min (set ours') > Max (set theirs'))
                            then Some False
                            else Some (meets_quorum (i_support (ic_segment candidate))
                                         (int (length files) - 1 - int (length second)))))
              }
            }))"

section \<open>A whole season\<close>

text \<open>The fingerprints are the items of a dict; \<open>runs_between\<close>'s cache only saves work.\<close>

definition season_intros ::
  "(points \<Rightarrow> nat list) \<Rightarrow> (string \<times> points) list \<Rightarrow> (string \<times> intro_segment option) list option" where
  "season_intros argsort fps =
     (let files = sort (map fst fps);
          runs_between = (\<lambda>x y. pair_runs argsort (the (map_of fps x)) (the (map_of fps y)))
      in map_opt (\<lambda>f. do {
           hits \<leftarrow> file_hits f files runs_between;
           Some (f, intro_for hits (int (length files) - 1)) }) files)"

end
