(* ===== verification/Matcher_Reference.thy ===== *)
theory Matcher_Reference
  imports Matcher "HOL-Library.AList"
begin

text \<open>
  The measured matcher (\<open>tools/markers_eval/fp3_reference.py\<close>), which counts the shifts in a dict
  and compares every pair of episodes in two nested loops.  The search for matching stretches
  along a shift is the same text in both programs, so \<open>shift_runs\<close> stands for both.
\<close>

section \<open>Shifts\<close>

text \<open>
  \<open>index\<close>: the positions of every value of \<open>b\<close>; a visit is a position of \<open>a\<close>, the number of a
  value shift and a position of \<open>b\<close>.
\<close>

definition positions :: "points \<Rightarrow> int \<Rightarrow> nat list" where
  "positions b v = filter (\<lambda>j. uint (b ! j) = v) [0..<length b]"

definition visits :: "points \<Rightarrow> points \<Rightarrow> (nat \<times> nat \<times> nat) list" where
  "visits a b =
     concat (map (\<lambda>i. concat (map (\<lambda>d. map (\<lambda>j. (i, d, j))
       (positions b (uint (a ! i) + VALUE_SHIFTS ! d))) [0..<length VALUE_SHIFTS])) [0..<length a])"

definition count_shift :: "nat \<times> nat \<times> nat \<Rightarrow> (int \<times> nat) list \<Rightarrow> (int \<times> nat) list" where
  "count_shift v shifts =
     (case v of (i, d, j) \<Rightarrow>
        (let s = int j - int i
         in AList.update s (case map_of shifts s of None \<Rightarrow> 1 | Some c \<Rightarrow> c + 1) shifts))"

definition reference_shifts :: "points \<Rightarrow> points \<Rightarrow> int list" where
  "reference_shifts a b =
     map fst (take 40 (sort_key (\<lambda>(s, c). - int c) (fold count_shift (visits a b) [])))"

definition reference_runs :: "points \<Rightarrow> points \<Rightarrow> run list" where
  "reference_runs a b =
     fold keep_run (longest_first (concat (map (shift_runs a b) (reference_shifts a b)))) []"

section \<open>Hits and segments\<close>

type_synonym reference_hit = "rat \<times> rat \<times> string"

definition add_run ::
  "string \<Rightarrow> string \<Rightarrow> run \<Rightarrow> (string \<Rightarrow> reference_hit list) \<Rightarrow> (string \<Rightarrow> reference_hit list)" where
  "add_run fa fb r hits =
     (if fl (a_end_s r - a_start_s r) > 120 then hits
      else (let hits1 = hits(fa := hits fa @ [(a_start_s r, a_end_s r, fb)])
            in hits1(fb := hits1 fb @ [(b_start_s r, b_end_s r, fa)])))"

definition reference_hits ::
  "(string \<Rightarrow> string \<Rightarrow> run list) \<Rightarrow> string list \<Rightarrow> string \<Rightarrow> reference_hit list" where
  "reference_hits runs files =
     fold (\<lambda>(fa, fb). fold (add_run fa fb) (runs fa fb)) (pairs_of files) (\<lambda>_. [])"

definition reference_group :: "reference_hit list \<Rightarrow> rat \<Rightarrow> rat \<Rightarrow> reference_hit list" where
  "reference_group hits s e = filter (\<lambda>(s2, e2, p). \<bar>fl (s2 - s)\<bar> \<le> 4 \<and> \<bar>fl (e2 - e)\<bar> \<le> 4) hits"

definition reference_step ::
  "reference_hit list \<Rightarrow> reference_hit \<Rightarrow>
     ((bool \<times> nat \<times> rat) \<times> (rat \<times> rat \<times> nat)) option \<Rightarrow>
     ((bool \<times> nat \<times> rat) \<times> (rat \<times> rat \<times> nat)) option" where
  "reference_step hits h best =
     (case h of (s, e, _) \<Rightarrow>
        (let grp = reference_group hits s e;
             sup = card ((\<lambda>(_, _, p). p) ` set grp);
             key = (fl (e - s) \<ge> 15, sup, fl (e - s))
         in if (case best of None \<Rightarrow> True | Some (best_key, _) \<Rightarrow> key > best_key)
            then Some (key, float_median (map fst grp), float_median (map (fst \<circ> snd) grp), sup)
            else best))"

definition reference_segment :: "reference_hit list \<Rightarrow> int \<Rightarrow> (rat \<times> rat \<times> nat) option" where
  "reference_segment hits others =
     (case fold (reference_step hits) hits None of
        None \<Rightarrow> None
      | Some (_, best) \<Rightarrow>
          if of_nat (snd (snd best)) < max 1 (QUORUM * of_int others) then None else Some best)"

text \<open>\<open>analyse_points\<close>: for every file how many hits it has and its segment.\<close>

definition analyse_points ::
  "(string \<times> points) list \<Rightarrow> string list \<Rightarrow> (string \<times> nat \<times> (rat \<times> rat \<times> nat) option) list" where
  "analyse_points fps files =
     (let hits = reference_hits (\<lambda>x y. reference_runs (the (map_of fps x)) (the (map_of fps y))) files
      in map (\<lambda>f. (f, length (hits f), reference_segment (hits f) (int (length files) - 1))) files)"

section \<open>Hits in both programs\<close>

definition plain_hit :: "hit \<Rightarrow> reference_hit" where
  "plain_hit h = (h_start_s h, h_end_s h, h_partner h)"

lemma cluster_plain:
  "reference_group (map plain_hit hits) (h_start_s h) (h_end_s h) = map plain_hit (cluster_of hits h)"
  by (simp add: reference_group_def cluster_of_def in_cluster_def [abs_def] filter_map plain_hit_def
      comp_def CLUSTER_TOLERANCE_S_def)

lemma step_plain:
  "reference_step (map plain_hit hits) (plain_hit h)
      (map_option (\<lambda>(k, g). (k, i_start_s g, i_end_s g, i_support g)) best) =
   map_option (\<lambda>(k, g). (k, i_start_s g, i_end_s g, i_support g)) (better_intro hits h best)"
proof -
  let ?c = "cluster_of hits h"
  have h: "plain_hit h = (h_start_s h, h_end_s h, h_partner h)" by (simp add: plain_hit_def)
  have sup: "card ((\<lambda>(_, _, p). p) ` set (map plain_hit ?c)) = support_of ?c"
    by (simp add: support_of_def image_image plain_hit_def)
  have med: "map fst (map plain_hit ?c) = map h_start_s ?c" "map (fst \<circ> snd) (map plain_hit ?c) = map h_end_s ?c"
    by (simp_all add: plain_hit_def comp_def)
  have key: "hit_key hits h =
      (fl (h_end_s h - h_start_s h) \<ge> 15, support_of ?c, fl (h_end_s h - h_start_s h))"
    by (simp add: hit_key_def Let_def PREFERRED_MIN_S_def)
  have "reference_step (map plain_hit hits) (plain_hit h) b =
      (let key = hit_key hits h in
       if (case b of None \<Rightarrow> True | Some (best_key, _) \<Rightarrow> key > best_key)
       then Some (key, float_median (map h_start_s ?c), float_median (map h_end_s ?c), support_of ?c) else b)" for b
    unfolding reference_step_def h case_prod_conv cluster_plain Let_def sup med key by (rule refl)
  then show ?thesis
    by (cases best) (auto simp: better_intro_def segment_of_def)
qed

lemma segment_plain:
  "reference_segment (map plain_hit hits) others =
   map_option (\<lambda>g. (i_start_s g, i_end_s g, i_support g)) (intro_for hits others)"
proof -
  have "fold (reference_step (map plain_hit hits)) (map plain_hit hs)
        (map_option (\<lambda>(k, g). (k, i_start_s g, i_end_s g, i_support g)) b) =
      map_option (\<lambda>(k, g). (k, i_start_s g, i_end_s g, i_support g)) (fold (better_intro hits) hs b)" for hs b
    by (induction hs arbitrary: b) (simp_all add: step_plain)
  from this [of hits None] show ?thesis
    by (auto simp: reference_segment_def intro_for_def split: option.split)
qed

text \<open>What one compared pair adds to an episode's hits.\<close>

definition a_side :: "string \<Rightarrow> run \<Rightarrow> hit" where
  "a_side p r = \<lparr>h_start_s = a_start_s r, h_end_s = a_end_s r, h_partner = p, h_partner_start_s = b_start_s r\<rparr>"

definition b_side :: "string \<Rightarrow> run \<Rightarrow> hit" where
  "b_side p r = \<lparr>h_start_s = b_start_s r, h_end_s = b_end_s r, h_partner = p, h_partner_start_s = a_start_s r\<rparr>"

definition adds :: "(string \<Rightarrow> string \<Rightarrow> run list) \<Rightarrow> string \<Rightarrow> string \<times> string \<Rightarrow> hit list" where
  "adds runs f p =
     (case p of (fa, fb) \<Rightarrow>
        (let kept = filter (\<lambda>r. \<not> too_long r) (runs fa fb)
         in if f = fa then map (a_side fb) kept else if f = fb then map (b_side fa) kept else []))"

lemma file_hits_split:
  assumes "distinct (xs @ f # ys)"
  shows "file_hits f (xs @ f # ys) runs =
    Some (concat (map (\<lambda>e. adds runs f (e, f)) xs) @ concat (map (\<lambda>l. adds runs f (f, l)) ys))"
proof -
  have k: "index_or_len f (xs @ f # ys) = length xs"
    using assms by (induction xs) auto
  have early: "map (\<lambda>e. adds runs f (e, f)) xs =
      map (\<lambda>e. map (b_side e) (filter (\<lambda>r. \<not> too_long r) (runs e f))) xs"
    using assms by (auto simp: adds_def Let_def)
  have late: "map (\<lambda>l. adds runs f (f, l)) ys =
      map (\<lambda>l. map (a_side l) (filter (\<lambda>r. \<not> too_long r) (runs f l))) ys"
    by (simp add: adds_def Let_def)
  show ?thesis unfolding early late
    by (simp add: file_hits_def k Let_def a_side_def [abs_def] b_side_def [abs_def])
qed

lemma add_run_at:
  assumes "fa \<noteq> fb"
  shows "add_run fa fb r hits f = hits f @ map plain_hit
    (if too_long r then [] else if f = fa then [a_side fb r] else if f = fb then [b_side fa r] else [])"
  using assms
  by (simp add: add_run_def too_long_def MAX_INTRO_S_def Let_def plain_hit_def a_side_def b_side_def)

lemma add_runs_at:
  assumes "fa \<noteq> fb"
  shows "fold (add_run fa fb) rs hits f = hits f @ map plain_hit
    (let kept = filter (\<lambda>r. \<not> too_long r) rs
     in if f = fa then map (a_side fb) kept else if f = fb then map (b_side fa) kept else [])"
proof (induction rs arbitrary: hits)
  case Nil
  then show ?case by simp
next
  case (Cons r rs)
  have "fold (add_run fa fb) (r # rs) hits f = fold (add_run fa fb) rs (add_run fa fb r hits) f" by simp
  then show ?case unfolding Cons.IH add_run_at [OF assms] by simp
qed

lemma reference_hits_at:
  assumes "\<forall>(x, y) \<in> set ps. x \<noteq> y"
  shows "fold (\<lambda>(fa, fb). fold (add_run fa fb) (runs fa fb)) ps hits f =
    hits f @ map plain_hit (concat (map (adds runs f) ps))"
  using assms
proof (induction ps arbitrary: hits)
  case (Cons p ps)
  then show ?case by (cases p) (auto simp: add_runs_at adds_def)
qed simp

lemma pairs_of_distinct: "distinct xs \<Longrightarrow> \<forall>(x, y) \<in> set (pairs_of xs). x \<noteq> y"
  by (induction xs) (auto dest: pairs_of_subset)

lemma adds_none: "f \<noteq> x \<Longrightarrow> f \<noteq> y \<Longrightarrow> adds runs f (x, y) = []"
  by (simp add: adds_def Let_def)

lemma adds_elsewhere: "f \<notin> set xs \<Longrightarrow> concat (map (adds runs f) (pairs_of xs)) = []"
  by (auto intro!: adds_none dest: pairs_of_subset)

lemma adds_in_pairs:
  assumes "distinct (xs @ f # ys)"
  shows "concat (map (adds runs f) (pairs_of (xs @ f # ys))) =
    concat (map (\<lambda>e. adds runs f (e, f)) xs) @ concat (map (\<lambda>l. adds runs f (f, l)) ys)"
  using assms
proof (induction xs)
  case Nil
  then show ?case by (simp add: adds_elsewhere comp_def)
next
  case (Cons x xs)
  have others: "concat (map (\<lambda>y. adds runs f (x, y)) zs) = []" if "f \<notin> set zs" for zs
    using that Cons.prems by (auto intro!: adds_none)
  have "concat (map (adds runs f) (pairs_of ((x # xs) @ f # ys))) =
      concat (map (\<lambda>y. adds runs f (x, y)) (xs @ f # ys)) @ concat (map (adds runs f) (pairs_of (xs @ f # ys)))"
    by (simp add: comp_def)
  also have "concat (map (\<lambda>y. adds runs f (x, y)) (xs @ f # ys)) = adds runs f (x, f)"
  proof -
    have "f \<notin> set xs" "f \<notin> set ys" using Cons.prems by auto
    from others [OF this(1)] others [OF this(2)] show ?thesis
      by (simp only: map_append list.map concat_append concat.simps append_Nil append_Nil2)
  qed
  finally show ?case using Cons by simp
qed

lemma reference_hits_eq:
  assumes "distinct files" and "f \<in> set files"
  shows "\<exists>hits. file_hits f files runs = Some hits \<and> reference_hits runs files f = map plain_hit hits"
proof -
  obtain xs ys where files: "files = xs @ f # ys" using assms(2) by (meson split_list)
  show ?thesis
    using file_hits_split [of xs f ys runs] adds_in_pairs [of xs f ys runs] assms(1)
      reference_hits_at [OF pairs_of_distinct [OF assms(1)], where runs = runs and hits = "\<lambda>_. []" and f = f]
    by (simp add: files reference_hits_def)
qed

end
