(* ===== verification/Matcher_Shifts.thy ===== *)
theory Matcher_Shifts
  imports Matcher_Reference
begin

text \<open>
  The shifts counted a chunk of pairs at a time in sorted order are the ones the reference counts
  in its scanning order, ties included: the effect of a chunk on the two counters is a function of
  the multiset of its pairs, and the least key of a shift is its place in the scan.
\<close>

section \<open>Lists\<close>

lemma sorted_wrt_concat_map:
  assumes "\<And>x. x \<in> set xs \<Longrightarrow> sorted_wrt P (f x)"
    and "sorted_wrt (\<lambda>x y. \<forall>u \<in> set (f x). \<forall>v \<in> set (f y). P u v) xs"
  shows "sorted_wrt P (concat (map f xs))"
  using assms by (induction xs) (auto simp: sorted_wrt_append)

lemma sorted_lex:
  assumes "sorted (map c ys)" and "\<And>v. sorted_wrt (\<lambda>x y. k x < k y) (filter (\<lambda>y. c y = v) ys)"
  shows "sorted (map (\<lambda>s. (c s :: 'c :: linorder, k s :: 'k :: linorder)) ys)"
  using assms
proof (induction ys)
  case (Cons y ys)
  have "sorted_wrt (\<lambda>x y. k x < k y) (filter (\<lambda>z. c z = v) ys)" for v
    using Cons.prems(2) [of v] by (auto split: if_splits)
  with Cons have ih: "sorted (map (\<lambda>s. (c s, k s)) ys)" by simp
  have "(c y, k y) \<le> (c z, k z)" if "z \<in> set ys" for z
  proof (cases "c z = c y")
    case True
    with that Cons.prems(2) [of "c y"] show ?thesis by auto
  next
    case False
    moreover have "c y \<le> c z" using Cons.prems(1) that by simp
    ultimately show ?thesis by auto
  qed
  with ih show ?case by simp
qed simp

text \<open>A stable sort of a list in the order of \<open>k\<close> breaks ties by \<open>k\<close>.\<close>

lemma sort_key_breaks_ties:
  fixes c :: "'a \<Rightarrow> 'c :: linorder" and k :: "'a \<Rightarrow> 'k :: linorder"
  assumes "sorted_wrt (\<lambda>x y. k x < k y) xs" and "distinct ys" and "set ys = set xs"
  shows "sort_key (\<lambda>s. (c s, k s)) ys = sort_key c xs"
proof (rule sort_key_inj_key_eq)
  have "distinct (map k xs)"
    using assms(1) by (simp add: sorted_wrt_map [symmetric] strict_sorted_iff del: distinct_map)
  then have distinct: "distinct xs" and inj: "inj_on k (set xs)" by (simp_all add: distinct_map)
  from distinct have "mset ys = mset xs" using assms(2,3) by (simp add: set_eq_iff_mset_eq_distinct)
  then show "mset ys = mset (sort_key c xs)" by simp
  show "inj_on (\<lambda>s. (c s, k s)) (set ys)" using assms(3) inj by (auto simp: inj_on_def)
  show "sorted (map (\<lambda>s. (c s, k s)) (sort_key c xs))"
    using assms(1) by (intro sorted_lex) (simp_all add: sort_key_stable sorted_wrt_filter)
qed

lemma sort_key_map: "sort_key c (map g xs) = map g (sort_key (\<lambda>x. c (g x)) xs)"
proof (induction xs)
  case (Cons x xs)
  have "insort_key c (g x) (map g ys) = map g (insort_key (\<lambda>x. c (g x)) x ys)" for ys
    by (induction ys) auto
  with Cons show ?case by simp
qed simp

lemma sort_key_cong: "(\<And>x. x \<in> set xs \<Longrightarrow> f x = g x) \<Longrightarrow> sort_key f xs = sort_key g xs"
proof (induction xs)
  case (Cons x xs)
  have "insort_key f x ys = insort_key g x ys" if "set ys \<subseteq> set xs" for ys
    using that Cons.prems by (induction ys) auto
  with Cons show ?case by simp
qed simp

lemma dedupe_map: "inj g \<Longrightarrow> dedupe (map g xs) = map g (dedupe xs)"
proof (induction xs rule: dedupe.induct)
  case (2 x xs)
  have "removeAll (g x) (map g xs) = map g (removeAll x xs)"
    using 2(2) by (induction xs) (auto simp: inj_eq)
  with 2 show ?case by simp
qed simp

lemma dedupe_snoc: "dedupe (xs @ [x]) = (if x \<in> set xs then dedupe xs else dedupe xs @ [x])"
proof (induction xs rule: dedupe.induct)
  case (2 y ys)
  then show ?case by (cases "x = y") auto
qed simp

text \<open>Where the values of a list whose elements have rising keys were seen first.\<close>

definition first_key :: "('a \<Rightarrow> 's) \<Rightarrow> ('a \<Rightarrow> int) \<Rightarrow> 'a list \<Rightarrow> 's \<Rightarrow> int" where
  "first_key slot key ts s = Min (key ` {t \<in> set ts. slot t = s})"

lemma first_key_Cons:
  assumes "\<forall>u \<in> set ts. key t < key u"
  shows "first_key slot key (t # ts) (slot t) = key t"
proof -
  have "{u \<in> set (t # ts). slot u = slot t} = insert t {u \<in> set ts. slot u = slot t}" by auto
  then show ?thesis
    unfolding first_key_def using assms by (simp only:) (rule Min_eqI, auto intro: less_imp_le)
qed

lemma first_key_filter:
  "s \<noteq> slot t \<Longrightarrow> first_key slot key (t # ts) s = first_key slot key (filter (\<lambda>u. slot u \<noteq> slot t) ts) s"
  unfolding first_key_def by (rule arg_cong [where f = "\<lambda>A. Min (key ` A)"]) auto

lemma first_keys_rise:
  "sorted_wrt (\<lambda>t u. key t < key u) ts \<Longrightarrow>
    sorted_wrt (\<lambda>s s'. first_key slot key ts s < first_key slot key ts s') (dedupe (map slot ts))"
proof (induction ts rule: length_induct)
  case (1 ts)
  show ?case
  proof (cases ts)
    case (Cons t us)
    let ?vs = "filter (\<lambda>u. slot u \<noteq> slot t) us"
    have later: "\<forall>u \<in> set us. key t < key u" using 1 Cons by simp
    have vs: "removeAll (slot t) (map slot us) = map slot ?vs"
      by (induction us) auto
    have len: "length ?vs < length ts" using Cons by (simp add: le_imp_less_Suc)
    have sorted: "sorted_wrt (\<lambda>t u. key t < key u) ?vs" using 1(2) Cons by (simp add: sorted_wrt_filter)
    have ih: "sorted_wrt (\<lambda>s s'. first_key slot key ?vs s < first_key slot key ?vs s') (dedupe (map slot ?vs))"
      using 1(1) len sorted by blast
    have first: "first_key slot key ts (slot t) = key t" using first_key_Cons [OF later] Cons by simp
    have other: "first_key slot key ts s = first_key slot key ?vs s" if "s \<in> set (dedupe (map slot ?vs))" for s
      using that Cons by (auto simp: first_key_filter)
    have "key t < first_key slot key ?vs s" if "s \<in> set (dedupe (map slot ?vs))" for s
      unfolding first_key_def using that later by (subst Min_gr_iff) auto
    moreover have "sorted_wrt (\<lambda>s s'. first_key slot key ts s < first_key slot key ts s') (dedupe (map slot ?vs))"
      using ih by (rule sorted_wrt_mono_rel [rotated]) (simp add: other)
    ultimately show ?thesis using first other by (simp add: Cons vs)
  qed simp
qed

section \<open>The reference's dict\<close>

definition shift_of :: "nat \<times> nat \<times> nat \<Rightarrow> int" where
  "shift_of v = (case v of (i, d, j) \<Rightarrow> int j - int i)"

lemma map_of_counts: "map_of (map (\<lambda>s. (s, f s)) xs) s = (if s \<in> set xs then Some (f s) else None)"
  by (induction xs) auto

lemma update_counts:
  "AList.update s v (map (\<lambda>s. (s, f s)) xs) =
    (if s \<in> set xs then map (\<lambda>s'. (s', if s' = s then v else f s')) xs
     else map (\<lambda>s'. (s', f s')) xs @ [(s, v)])" if "distinct xs"
  using that by (induction xs) auto

lemma count_shift_dedupe:
  "fold count_shift vs [] = map (\<lambda>s. (s, count_list (map shift_of vs) s)) (dedupe (map shift_of vs))"
proof (induction vs rule: rev_induct)
  case (snoc v vs)
  let ?S = "map shift_of vs" and ?s = "shift_of v"
  have step: "count_shift v shifts =
      AList.update ?s (case map_of shifts ?s of None \<Rightarrow> 1 | Some c \<Rightarrow> c + 1) shifts" for shifts
    by (cases v) (simp add: count_shift_def shift_of_def Let_def)
  have absent: "count_list ?S ?s = 0" if "?s \<notin> set ?S" using that by (simp add: count_list_0_iff)
  show ?case
    by (simp add: snoc.IH step map_of_counts update_counts dedupe_snoc absent del: set_map)
       (auto simp: count_list_0_iff)
qed simp

lemma reference_shifts_dedupe:
  "reference_shifts a b =
    take 40 (sort_key (\<lambda>s. - int (count_list (map shift_of (visits a b)) s)) (dedupe (map shift_of (visits a b))))"
proof -
  have "map fst (sort_key (\<lambda>(s, c). - int c) (map (\<lambda>s. (s, f s)) xs)) = sort_key (\<lambda>s. - int (f s)) xs"
    for f :: "int \<Rightarrow> nat" and xs
    by (simp add: sort_key_map comp_def)
  then show ?thesis by (simp add: reference_shifts_def count_shift_dedupe take_map [symmetric])
qed

section \<open>Visits in scanning order\<close>

definition slot_of :: "nat \<Rightarrow> nat \<times> nat \<times> nat \<Rightarrow> nat" where
  "slot_of len_a v = (case v of (i, d, j) \<Rightarrow> j + len_a - i)"

definition key_of :: "nat \<Rightarrow> nat \<times> nat \<times> nat \<Rightarrow> int" where
  "key_of width v = (case v of (i, d, j) \<Rightarrow> (int i * int (length VALUE_SHIFTS) + int d) * int width + int j)"

lemma length_VALUE_SHIFTS: "length VALUE_SHIFTS = 5"
  by (simp add: VALUE_SHIFTS_def)

lemma key_less:
  assumes "j < width" and "d < 5" and "i < i' \<or> i = i' \<and> (d < d' \<or> d = d' \<and> j < j')"
  shows "key_of width (i, d, j) < key_of width (i', d', j')"
proof -
  consider "i < i'" | "i = i'" "d < d'" | "i = i'" "d = d'" "j < j'" using assms(3) by blast
  then show ?thesis
  proof cases
    case 3
    then show ?thesis by (simp add: key_of_def)
  next
    case 1
    then have "int i * 5 + int d + 1 \<le> int i' * 5 + int d'" using assms(2) by simp
    then have "(int i * 5 + int d + 1) * int width \<le> (int i' * 5 + int d') * int width"
      by (rule mult_right_mono) simp
    then show ?thesis using assms(1) by (simp add: key_of_def length_VALUE_SHIFTS algebra_simps)
  next
    case 2
    then have "int i * 5 + int d + 1 \<le> int i' * 5 + int d'" by simp
    then have "(int i * 5 + int d + 1) * int width \<le> (int i' * 5 + int d') * int width"
      by (rule mult_right_mono) simp
    then show ?thesis using assms(1) by (simp add: key_of_def length_VALUE_SHIFTS algebra_simps)
  qed
qed

lemma positions_less: "j \<in> set (positions b v) \<Longrightarrow> j < length b"
  by (auto simp: positions_def)

lemma visits_rise:
  "sorted_wrt (\<lambda>t u. key_of (length b + 1) t < key_of (length b + 1) u) (visits a b)"
  unfolding visits_def
proof (rule sorted_wrt_concat_map)
  let ?P = "\<lambda>t u. key_of (length b + 1) t < key_of (length b + 1) u"
  fix i
  show "sorted_wrt ?P (concat (map (\<lambda>d. map (\<lambda>j. (i, d, j)) (positions b (uint (a ! i) + VALUE_SHIFTS ! d)))
      [0..<length VALUE_SHIFTS]))"
  proof (rule sorted_wrt_concat_map)
    fix d assume "d \<in> set [0..<length VALUE_SHIFTS]"
    then have d: "d < 5" by (simp add: length_VALUE_SHIFTS)
    have "sorted_wrt (<) (positions b v)" for v
      unfolding positions_def by (rule sorted_wrt_filter) simp
    then show "sorted_wrt ?P (map (\<lambda>j. (i, d, j)) (positions b (uint (a ! i) + VALUE_SHIFTS ! d)))"
      unfolding sorted_wrt_map
      by (rule sorted_wrt_mono_rel [rotated]) (use d in \<open>auto intro!: key_less dest: positions_less\<close>)
  next
    show "sorted_wrt (\<lambda>d d'. \<forall>u \<in> set (map (\<lambda>j. (i, d, j)) (positions b (uint (a ! i) + VALUE_SHIFTS ! d))).
        \<forall>v \<in> set (map (\<lambda>j. (i, d', j)) (positions b (uint (a ! i) + VALUE_SHIFTS ! d'))). ?P u v)
      [0..<length VALUE_SHIFTS]"
      by (rule sorted_wrt_mono_rel [OF _ sorted_wrt_upt])
         (auto simp: length_VALUE_SHIFTS intro!: key_less dest: positions_less)
  qed
next
  show "sorted_wrt (\<lambda>i i'.
      \<forall>u \<in> set (concat (map (\<lambda>d. map (\<lambda>j. (i, d, j)) (positions b (uint (a ! i) + VALUE_SHIFTS ! d)))
        [0..<length VALUE_SHIFTS])).
      \<forall>v \<in> set (concat (map (\<lambda>d. map (\<lambda>j. (i', d, j)) (positions b (uint (a ! i') + VALUE_SHIFTS ! d)))
        [0..<length VALUE_SHIFTS])). key_of (length b + 1) u < key_of (length b + 1) v) [0..<length a]"
    by (rule sorted_wrt_mono_rel [OF _ sorted_wrt_upt])
       (auto simp: length_VALUE_SHIFTS intro!: key_less dest: positions_less)
qed

section \<open>A value's places in the sorted order\<close>

lemma sorted_segment:
  fixes g :: "'a \<Rightarrow> int"
  assumes "sorted (map g xs)"
  shows "filter (\<lambda>x. g x = v) xs =
      take (searchsorted_right (map g xs) v - searchsorted_left (map g xs) v)
        (drop (searchsorted_left (map g xs) v) xs) \<and>
    searchsorted_left (map g xs) v \<le> searchsorted_right (map g xs) v \<and>
    searchsorted_right (map g xs) v \<le> length xs"
  using assms
proof (induction xs)
  case (Cons x xs)
  have sorted: "sorted (map g xs)" and above: "\<forall>y \<in> set xs. g x \<le> g y" using Cons.prems by simp_all
  note ih = Cons.IH [OF sorted]
  have left: "searchsorted_left (map g xs) v = 0" if "v \<le> g x"
    using above that by (cases xs) (auto simp: searchsorted_left_def)
  have right: "searchsorted_right (map g xs) v = 0" if "v < g x"
    using above that by (cases xs) (auto simp: searchsorted_right_def)
  have none: "filter (\<lambda>y. g y = v) xs = []" if "v < g x" using above that by (auto simp: filter_empty_conv)
  have at: "searchsorted_left (g x # map g xs) v = (if g x < v then Suc (searchsorted_left (map g xs) v) else 0)"
    "searchsorted_right (g x # map g xs) v = (if g x \<le> v then Suc (searchsorted_right (map g xs) v) else 0)"
    by (simp_all add: searchsorted_left_def searchsorted_right_def)
  show ?case
  proof (cases "g x" v rule: linorder_cases)
    case equal
    from ih left none show ?thesis by (simp add: equal at [unfolded equal])
  qed (use ih left right none in \<open>simp_all add: at\<close>)
qed (simp add: searchsorted_left_def searchsorted_right_def)

lemma map_nth_segment: "l + m \<le> length xs \<Longrightarrow> map (\<lambda>w. xs ! (l + w)) [0..<m] = take m (drop l xs)"
  by (intro nth_equalityI) auto

text \<open>What \<open>np.argsort\<close> promises: the positions, in an order that sorts the values.\<close>

definition argsort_ok :: "(points \<Rightarrow> nat list) \<Rightarrow> bool" where
  "argsort_ok argsort \<longleftrightarrow>
     (\<forall>b. mset (argsort b) = mset [0..<length b] \<and> sorted (map (\<lambda>k. uint (b ! k)) (argsort b)))"

definition block :: "nat list \<Rightarrow> nat list \<Rightarrow> nat list \<Rightarrow> nat \<Rightarrow> nat list" where
  "block order lefts matches i = map (\<lambda>w. order ! (lefts ! i + w)) [0..<matches ! i]"

lemma block_positions:
  assumes "argsort_ok argsort" and "i < length a" and "sorted_b = map (\<lambda>k. uint (b ! k)) (argsort b)"
  shows "mset (block (argsort b) (lefts_of sorted_b a d) (matches_of sorted_b a d) i) =
    mset (positions b (uint (a ! i) + d))"
proof -
  let ?v = "uint (a ! i) + d" and ?g = "\<lambda>k. uint (b ! k)"
  have sorted: "sorted (map ?g (argsort b))" and perm: "mset (argsort b) = mset [0..<length b]"
    using assms(1) by (auto simp: argsort_ok_def)
  note seg = sorted_segment [OF sorted, where v = ?v]
  have "block (argsort b) (lefts_of sorted_b a d) (matches_of sorted_b a d) i =
      filter (\<lambda>k. ?g k = ?v) (argsort b)"
    using assms(2) seg
    by (simp add: block_def lefts_of_def matches_of_def assms(3) map_nth_segment)
  then show ?thesis unfolding positions_def by (simp add: perm [symmetric] mset_filter del: mset_upt)
qed

section \<open>A chunk of pairs\<close>

lemma np_repeat_Cons: "np_repeat (x # xs) (n # ns) = replicate n x @ np_repeat xs ns"
  by (simp add: np_repeat_def)

lemma np_repeat_Nil [simp]: "np_repeat [] ns = []"
  by (simp add: np_repeat_def)

lemma length_np_repeat: "length xs = length ns \<Longrightarrow> length (np_repeat xs ns) = sum_list ns"
  by (induction xs ns rule: list_induct2) (simp_all add: np_repeat_Cons)

lemma map2_append: "length xs = length ys \<Longrightarrow> map2 f (xs @ xs') (ys @ ys') = map2 f xs ys @ map2 f xs' ys'"
  by simp

lemma map2_minus_start: "map2 (-) [t..<t + n] (replicate n t) = [0..<n]"
  by (intro nth_equalityI) auto

lemma upt_append: "[t..<t + (n + m)] = [t..<t + n] @ [t + n..<t + n + m]"
  by (metis add.assoc le_add1 upt_add_eq_append)

lemma offsets_from:
  "map2 (-) [t..<t + sum_list ns] (np_repeat (map2 (-) (cumsum_from t ns) ns) ns) =
    concat (map (\<lambda>n. [0..<n]) ns)"
proof (induction ns arbitrary: t)
  case (Cons n ns)
  have "map2 (-) [t..<t + sum_list (n # ns)] (np_repeat (map2 (-) (cumsum_from t (n # ns)) (n # ns)) (n # ns)) =
      map2 (-) ([t..<t + n] @ [t + n..<t + n + sum_list ns])
        (replicate n t @ np_repeat (map2 (-) (cumsum_from (t + n) ns) ns) ns)"
    by (simp add: np_repeat_Cons upt_append del: upt_Suc)
  also have "\<dots> = [0..<n] @ concat (map (\<lambda>n. [0..<n]) ns)"
    by (simp only: map2_append length_upt length_replicate add_diff_cancel_left' map2_minus_start Cons.IH)
  finally show ?case by simp
qed simp

lemma repeat_offsets:
  assumes "length xs = length ls" and "length ls = length ns"
  shows "zip (np_repeat xs ns) (map2 f (np_repeat ls ns) (concat (map (\<lambda>n. [0..<n]) ns))) =
    concat (map (\<lambda>(x, l, n). map (\<lambda>w. (x, f l w)) [0..<n]) (zip xs (zip ls ns)))"
  using assms
proof (induction xs ls ns rule: list_induct3)
  case (Cons x xs l ls n ns)
  have head: "map2 f (replicate n l) [0..<n] = map (f l) [0..<n]"
    "zip (replicate n x) (map (f l) [0..<n]) = map (\<lambda>w. (x, f l w)) [0..<n]"
    by (auto intro!: nth_equalityI)
  show ?case using Cons by (simp add: np_repeat_Cons map2_append head)
qed simp

lemma expand_chunk_blocks:
  assumes "hi \<le> length matches" and "length lefts = length matches"
  shows "expand_chunk order lefts matches lo hi =
    concat (map (\<lambda>i. map (Pair i) (block order lefts matches i)) [lo..<hi])"
proof -
  let ?ns = "chunk lo hi matches" and ?ls = "chunk lo hi lefts"
  have len: "length [lo..<hi] = length ?ls" "length ?ls = length ?ns"
    using assms by (simp_all add: chunk_def)
  have offsets: "map2 (-) [0..<sum_list ?ns] (np_repeat (map2 (-) (cumsum ?ns) ?ns) ?ns) =
      concat (map (\<lambda>n. [0..<n]) ?ns)"
    using offsets_from [of 0 ?ns] by (simp add: cumsum_def)
  have rows: "zip [lo..<hi] (zip ?ls ?ns) = map (\<lambda>i. (i, lefts ! i, matches ! i)) [lo..<hi]"
    using assms by (intro nth_equalityI) (simp_all add: chunk_def)
  have "expand_chunk order lefts matches lo hi =
      concat (map (\<lambda>(x, l, n). map (\<lambda>w. (x, order ! (l + w))) [0..<n]) (zip [lo..<hi] (zip ?ls ?ns)))"
    unfolding expand_chunk_def Let_def offsets by (rule repeat_offsets [OF len])
  also have "\<dots> = concat (map (\<lambda>i. map (Pair i) (block order lefts matches i)) [lo..<hi])"
    by (simp add: rows block_def comp_def)
  finally show ?thesis .
qed

section \<open>The counters\<close>

text \<open>The two counters after the visits \<open>M\<close>, whatever their order.\<close>

definition counted ::
  "nat \<Rightarrow> nat \<Rightarrow> nat \<Rightarrow> (nat \<times> nat \<times> nat) multiset \<Rightarrow> nat list \<times> int list \<Rightarrow> bool" where
  "counted m len_a width M st \<longleftrightarrow>
     length (fst st) = m \<and> length (snd st) = m \<and>
     (\<forall>s < m. fst st ! s = count (image_mset (slot_of len_a) M) s \<and>
        snd st ! s = Min (insert INT64_MAX (key_of width ` {t \<in> set_mset M. slot_of len_a t = s})))"

lemma fold_min_nth:
  "length (fold (\<lambda>(s, k) seen. seen[s := min (seen ! s) k]) kvs seen) = length seen \<and>
   (s < length seen \<longrightarrow>
    fold (\<lambda>(s, k) seen. seen[s := min (seen ! s) k]) kvs seen ! s =
      Min (insert (seen ! s) {k. (s, k) \<in> set kvs}))" for seen :: "int list"
proof (induction kvs arbitrary: seen)
  case (Cons kv kvs)
  obtain u k where kv: "kv = (u, k)" by (cases kv)
  let ?seen = "seen[u := min (seen ! u) k]"
  have fin: "finite {k. (s, k) \<in> set kvs}" for kvs :: "(nat \<times> int) list"
    by (rule finite_subset [of _ "snd ` set kvs"]) force+
  have "Min (insert (?seen ! s) {k. (s, k) \<in> set kvs}) = Min (insert (seen ! s) {k'. (s, k') \<in> set (kv # kvs)})"
    if "s < length seen"
  proof (cases "s = u")
    case True
    have split: "{k'. (s, k') \<in> set (kv # kvs)} = insert k {k. (s, k) \<in> set kvs}" using True kv by auto
    have at: "?seen ! s = min (seen ! s) k" using that True by simp
    show ?thesis unfolding split at using fin [of kvs]
      by (cases "{k. (s, k) \<in> set kvs} = {}") (simp_all add: min.assoc min.left_commute)
  next
    case False
    then have "{k'. (s, k') \<in> set (kv # kvs)} = {k. (s, k) \<in> set kvs}" using kv by auto
    then show ?thesis using False by simp
  qed
  then show ?case using Cons.IH [of ?seen] by (simp add: kv)
qed simp

lemma zip_of_maps: "{k. (s, k) \<in> set (zip (map f xs) (map g xs))} = g ` {x \<in> set xs. f x = s}"
  by (induction xs) auto

lemma Min_insert_Min:
  assumes "finite A" and "finite B"
  shows "Min (insert (Min (insert x A)) B) = Min (insert x (A \<union> B))"
proof (cases "B = {}")
  case False
  have "Min (insert x A \<union> B) = min (Min (insert x A)) (Min B)" by (rule Min_Un) (use assms False in simp_all)
  then show ?thesis using assms False by simp
qed simp

lemma counted_pairs:
  assumes "counted m len_a width M st"
  shows "counted m len_a width (M + mset (map (\<lambda>(i, j). (i, d, j)) ps)) (count_pairs len_a width d ps st)"
proof -
  let ?vs = "map (\<lambda>(i, j). (i, d, j)) ps"
  let ?slots = "map (\<lambda>(i, j). j + len_a - i) ps"
  let ?keys = "map (\<lambda>(i, j). (int i * int (length VALUE_SHIFTS) + int d) * int width + int j) ps"
  have slots: "?slots = map (slot_of len_a) ?vs" and keys: "?keys = map (key_of width) ?vs"
    by (auto simp: slot_of_def key_of_def)
  note len = assms [unfolded counted_def]
  have zip: "{k. (s, k) \<in> set (zip ?slots ?keys)} = key_of width ` {t \<in> set ?vs. slot_of len_a t = s}" for s
    unfolding slots keys by (rule zip_of_maps)
  show ?thesis
    unfolding counted_def
  proof (intro conjI allI impI)
    show "length (fst (count_pairs len_a width d ps st)) = m" using len by (simp add: count_pairs_def Let_def)
    show "length (snd (count_pairs len_a width d ps st)) = m"
      using len fold_min_nth [of "zip ?slots ?keys" "snd st"] by (simp add: count_pairs_def Let_def)
    fix s assume s: "s < m"
    show "fst (count_pairs len_a width d ps st) ! s = count (image_mset (slot_of len_a) (M + mset ?vs)) s"
      using len s unfolding count_pairs_def Let_def slots
      by (simp add: count_mset [symmetric] image_mset.compositionality)
    have "snd (count_pairs len_a width d ps st) ! s =
        Min (insert (snd st ! s) {k. (s, k) \<in> set (zip ?slots ?keys)})"
      using fold_min_nth [of "zip ?slots ?keys" "snd st" s] len s by (simp add: count_pairs_def Let_def)
    also have "\<dots> = Min (insert INT64_MAX (key_of width ` {t \<in> set_mset (M + mset ?vs). slot_of len_a t = s}))"
    proof -
      let ?A = "key_of width ` {t \<in> set_mset M. slot_of len_a t = s}"
      let ?B = "key_of width ` {t \<in> set ?vs. slot_of len_a t = s}"
      have "{t \<in> set_mset (M + mset ?vs). slot_of len_a t = s} =
          {t \<in> set_mset M. slot_of len_a t = s} \<union> {t \<in> set ?vs. slot_of len_a t = s}"
        by (simp only: set_mset_union set_mset_mset) blast
      then have both: "key_of width ` {t \<in> set_mset (M + mset ?vs). slot_of len_a t = s} = ?A \<union> ?B"
        by (simp only: image_Un)
      have "snd st ! s = Min (insert INT64_MAX ?A)" using len s by simp
      then have "Min (insert (snd st ! s) ?B) = Min (insert INT64_MAX (?A \<union> ?B))"
        by (simp only:) (rule Min_insert_Min, simp_all)
      then show ?thesis unfolding zip both .
    qed
    finally show "snd (count_pairs len_a width d ps st) ! s =
      Min (insert INT64_MAX (key_of width ` {t \<in> set_mset (M + mset ?vs). slot_of len_a t = s}))" .
  qed
qed

section \<open>All chunks\<close>

definition shift_row :: "(nat \<Rightarrow> nat \<Rightarrow> nat list) \<Rightarrow> nat \<Rightarrow> nat \<Rightarrow> (nat \<times> nat \<times> nat) multiset" where
  "shift_row js d i = mset (map (\<lambda>j. (i, d, j)) (js d i))"

lemma row_of_pairs:
  "mset (map (\<lambda>(i, j). (i, d, j)) (concat (map (\<lambda>i. map (Pair i) (js d i)) xs))) = (\<Sum>i\<leftarrow>xs. shift_row js d i)"
  by (induction xs) (simp_all add: shift_row_def image_mset.compositionality comp_def)

definition blocks ::
  "nat list \<Rightarrow> nat list list \<Rightarrow> nat list list \<Rightarrow> nat \<Rightarrow> nat \<Rightarrow> nat list" where
  "blocks order lefts matches d i = block order (lefts ! d) (matches ! d) i"

definition same_lengths :: "nat list list \<Rightarrow> nat list list \<Rightarrow> nat \<Rightarrow> bool" where
  "same_lengths lefts matches n \<longleftrightarrow> (\<forall>d < 5. length (matches ! d) = n \<and> length (lefts ! d) = n)"

lemma counted_value_shift:
  assumes lens: "same_lengths lefts matches len_a" and "counted m len_a width M st" and "hi \<le> len_a" and "d < 5"
  shows "counted m len_a width (M + (\<Sum>i\<leftarrow>[lo..<hi]. shift_row (blocks order lefts matches) d i))
    (if sum_list (chunk lo hi (matches ! d)) = 0 then st
     else count_pairs len_a width d (expand_chunk order (lefts ! d) (matches ! d) lo hi) st)"
proof (cases "sum_list (chunk lo hi (matches ! d)) = 0")
  case True
  have "matches ! d ! i = 0" if "i \<in> set [lo..<hi]" for i
  proof -
    have "matches ! d ! i = chunk lo hi (matches ! d) ! (i - lo)" "i - lo < length (chunk lo hi (matches ! d))"
      using that assms by (auto simp: chunk_def same_lengths_def)
    then show ?thesis using True by (metis nth_mem sum_list_eq_0_iff)
  qed
  then have "(\<Sum>i\<leftarrow>[lo..<hi]. shift_row (blocks order lefts matches) d i) = (\<Sum>i\<leftarrow>[lo..<hi]. {#})"
    by (intro arg_cong [where f = sum_list] map_cong) (simp_all add: shift_row_def blocks_def block_def)
  with True assms(2) show ?thesis by simp
next
  case False
  have "expand_chunk order (lefts ! d) (matches ! d) lo hi = concat (map (\<lambda>i. map (Pair i) (blocks order lefts matches d i)) [lo..<hi])"
    using assms unfolding blocks_def by (intro expand_chunk_blocks) (simp_all add: same_lengths_def)
  with False counted_pairs [OF assms(2), of d "concat (map (\<lambda>i. map (Pair i) (blocks order lefts matches d i)) [lo..<hi])"]
  show ?thesis by (simp only: if_False row_of_pairs)
qed

lemma counted_chunk:
  assumes lens: "same_lengths lefts matches len_a" and "counted m len_a width M st" and "hi \<le> len_a"
  shows "counted m len_a width (M + (\<Sum>d\<leftarrow>[0..<5]. \<Sum>i\<leftarrow>[lo..<hi]. shift_row (blocks order lefts matches) d i))
    (count_chunk order lefts matches len_a width lo hi st)"
proof -
  have "counted m len_a width (M + (\<Sum>d\<leftarrow>ds. \<Sum>i\<leftarrow>[lo..<hi]. shift_row (blocks order lefts matches) d i))
      (fold (\<lambda>d st. if sum_list (chunk lo hi (matches ! d)) = 0 then st
         else count_pairs len_a width d (expand_chunk order (lefts ! d) (matches ! d) lo hi) st) ds st)"
    if "\<forall>d \<in> set ds. d < 5" "counted m len_a width M st" for ds M st
    using that
  proof (induction ds arbitrary: M st)
    case (Cons d ds)
    from Cons.prems have d: "d < 5" by simp
    show ?case
      using Cons.IH [OF _ counted_value_shift [OF lens Cons.prems(2) assms(3) d, where lo = lo and order = order]] Cons.prems(1)
      by (simp add: add.assoc)
  qed simp
  from this [of "[0..<5]", OF _ assms(2)] show ?thesis
    by (simp add: count_chunk_def length_VALUE_SHIFTS)
qed

lemma counted_loop:
  assumes lens: "same_lengths lefts matches len_a" and "counted m len_a width M st" and "length matches_up_to = len_a"
  shows "counted m len_a width (M + (\<Sum>d\<leftarrow>[0..<5]. \<Sum>i\<leftarrow>[lo..<len_a]. shift_row (blocks order lefts matches) d i))
    (chunk_loop order lefts matches matches_up_to len_a width lo st)"
  using assms(2)
proof (induction "len_a - lo" arbitrary: lo M st rule: less_induct)
  case less
  show ?case
  proof (cases "lo < len_a")
    case True
    let ?hi = "next_chunk matches_up_to lo"
    have le: "length (takeWhile P matches_up_to) \<le> len_a" for P
      using length_takeWhile_le [of P matches_up_to] assms(3) by simp
    have hi: "lo < ?hi" "?hi \<le> len_a" using True le by (auto simp: next_chunk_def Let_def)
    have rows: "(\<Sum>d\<leftarrow>[0..<5]. \<Sum>i\<leftarrow>[lo..<len_a]. shift_row (blocks order lefts matches) d i) =
        (\<Sum>d\<leftarrow>[0..<5]. \<Sum>i\<leftarrow>[lo..<?hi]. shift_row (blocks order lefts matches) d i) + (\<Sum>d\<leftarrow>[0..<5]. \<Sum>i\<leftarrow>[?hi..<len_a]. shift_row (blocks order lefts matches) d i)"
    proof -
      have "[lo..<len_a] = [lo..<?hi] @ [?hi..<len_a]" using hi upt_add_eq_append [of lo ?hi "len_a - ?hi"] by simp
      then show ?thesis by (simp only: map_append sum_list_append sum_list_addf)
    qed
    have "len_a - ?hi < len_a - lo" using hi True by linarith
    from less.hyps [OF this counted_chunk [OF lens less.prems hi(2), where lo = lo and order = order]] True show ?thesis
      by (subst chunk_loop.simps) (simp add: rows Let_def add.assoc)
  next
    case False
    with less.prems show ?thesis by (subst chunk_loop.simps) simp
  qed
qed

lemma mset_visits:
  "mset (visits a b) =
    (\<Sum>d\<leftarrow>[0..<5]. \<Sum>i\<leftarrow>[0..<length a]. shift_row (\<lambda>d i. positions b (uint (a ! i) + VALUE_SHIFTS ! d)) d i)"
proof -
  let ?shift_row = "shift_row (\<lambda>d i. positions b (uint (a ! i) + VALUE_SHIFTS ! d))"
  have "mset (visits a b) = (\<Sum>i\<leftarrow>[0..<length a]. \<Sum>d\<leftarrow>[0..<5]. ?shift_row d i)"
    by (simp add: visits_def mset_concat comp_def shift_row_def length_VALUE_SHIFTS del: upt_rec_numeral)
  also have "\<dots> = (\<Sum>i\<in>{0..<length a}. \<Sum>d\<in>{0..<5}. ?shift_row d i)"
    by (simp only: interv_sum_list_conv_sum_set_nat set_upt)
  also have "\<dots> = (\<Sum>d\<in>{0..<5}. \<Sum>i\<in>{0..<length a}. ?shift_row d i)" by (rule sum.swap)
  finally show ?thesis by (simp only: interv_sum_list_conv_sum_set_nat set_upt)
qed

section \<open>The shifts\<close>

text \<open>The counters' keys fit in 64 bits.\<close>

definition keys_fit :: "points \<Rightarrow> points \<Rightarrow> bool" where
  "keys_fit a b \<longleftrightarrow> 5 * int (length a) * int (length b + 1) \<le> INT64_MAX"

lemma visits_in:
  "(i, d, j) \<in> set (visits a b) \<Longrightarrow> i < length a \<and> d < 5 \<and> j < length b"
  by (auto simp: visits_def length_VALUE_SHIFTS dest: positions_less)

lemma key_fits:
  assumes "keys_fit a b" and "v \<in> set (visits a b)"
  shows "key_of (length b + 1) v \<le> INT64_MAX"
proof -
  obtain i d j where v: "v = (i, d, j)" by (cases v)
  have in_range: "i < length a" "d < 5" "j < length b" using visits_in assms(2) v by blast+
  have "int i * 5 + int d + 1 \<le> 5 * int (length a)" using in_range by linarith
  then have "(int i * 5 + int d + 1) * int (length b + 1) \<le> 5 * int (length a) * int (length b + 1)"
    by (rule mult_right_mono) simp
  moreover have "key_of (length b + 1) v \<le> (int i * 5 + int d + 1) * int (length b + 1)"
    using in_range by (simp add: v key_of_def length_VALUE_SHIFTS algebra_simps)
  moreover have "5 * int (length a) * int (length b + 1) \<le> INT64_MAX"
    using assms(1) by (simp only: keys_fit_def)
  ultimately show ?thesis by linarith
qed

definition counters :: "(points \<Rightarrow> nat list) \<Rightarrow> points \<Rightarrow> points \<Rightarrow> nat list \<times> int list" where
  "counters argsort a b =
     (let order = argsort b;
          sorted_b = map (\<lambda>k. uint (b ! k)) order;
          lefts = map (lefts_of sorted_b a) VALUE_SHIFTS;
          matches = map (matches_of sorted_b a) VALUE_SHIFTS;
          matches_up_to = cumsum (map (\<lambda>i. sum_list (map (\<lambda>m. m ! i) matches)) [0..<length a])
      in chunk_loop order lefts matches matches_up_to (length a) (length b + 1) 0
           (replicate (length a + length b) 0, replicate (length a + length b) INT64_MAX))"

lemma length_cumsum_from: "length (cumsum_from t ns) = length ns"
  by (induction ns arbitrary: t) simp_all

lemma counters_counted:
  assumes "argsort_ok argsort"
  shows "counted (length a + length b) (length a) (length b + 1) (mset (visits a b)) (counters argsort a b)"
proof -
  define sorted_b where "sorted_b = map (\<lambda>k. uint (b ! k)) (argsort b)"
  define lefts where "lefts = map (lefts_of sorted_b a) VALUE_SHIFTS"
  define matches where "matches = map (matches_of sorted_b a) VALUE_SHIFTS"
  have lens: "same_lengths lefts matches (length a)"
    by (simp add: same_lengths_def lefts_def matches_def length_VALUE_SHIFTS lefts_of_def matches_of_def)
  have shift_row: "shift_row (blocks (argsort b) lefts matches) d i =
      shift_row (\<lambda>d i. positions b (uint (a ! i) + VALUE_SHIFTS ! d)) d i" if "d < 5" "i < length a" for d i
    using block_positions [OF assms that(2) sorted_b_def, of "VALUE_SHIFTS ! d"] that
    by (simp add: shift_row_def blocks_def lefts_def matches_def length_VALUE_SHIFTS)
  have "(\<Sum>d\<leftarrow>[0..<5]. \<Sum>i\<leftarrow>[0..<length a]. shift_row (blocks (argsort b) lefts matches) d i) = mset (visits a b)"
    unfolding mset_visits
    by (intro arg_cong [where f = sum_list] map_cong refl) (auto intro: shift_row simp del: upt_rec_numeral)
  moreover have "counted (length a + length b) (length a) (length b + 1) {#}
      (replicate (length a + length b) 0, replicate (length a + length b) INT64_MAX)"
    by (simp add: counted_def)
  ultimately show ?thesis
    using counted_loop [OF lens, where lo = 0 and order = "argsort b" and m = "length a + length b"
        and width = "length b + 1" and M = "{#}"
        and matches_up_to = "cumsum (map (\<lambda>i. sum_list (map (\<lambda>m. m ! i) matches)) [0..<length a])"]
    unfolding counters_def Let_def sorted_b_def [symmetric] lefts_def [symmetric] matches_def [symmetric]
    by (simp add: cumsum_def length_cumsum_from)
qed

lemma visits_empty: "a = [] \<or> b = [] \<Longrightarrow> visits a b = []"
  by (auto simp: visits_def positions_def)

lemma top_shifts_eq:
  assumes "argsort_ok argsort" and "keys_fit a b"
  shows "top_shifts argsort a b = reference_shifts a b"
proof (cases "a = [] \<or> b = []")
  case True
  then show ?thesis by (auto simp: top_shifts_def reference_shifts_def visits_empty)
next
  case False
  let ?slot = "slot_of (length a)" and ?key = "key_of (length b + 1)" and ?vs = "visits a b"
  obtain counts first_seen where st: "counters argsort a b = (counts, first_seen)"
    by (cases "counters argsort a b")
  let ?seen = "filter (\<lambda>s. counts ! s \<noteq> 0) [0..<length a + length b]"
  let ?R = "dedupe (map ?slot ?vs)"
  have slot: "?slot v < length a + length b \<and> shift_of v = int (?slot v) - int (length a)" if "v \<in> set ?vs" for v
  proof -
    obtain i d j where v: "v = (i, d, j)" by (cases v)
    with that visits_in have "i < length a" "j < length b" by blast+
    with v show ?thesis by (simp add: slot_of_def shift_of_def)
  qed
  have counts: "counts ! s = count_list (map ?slot ?vs) s" if "s < length a + length b" for s
    using counters_counted [OF assms(1), of a b] that
    by (simp add: st counted_def count_mset [symmetric])
  have first: "first_seen ! s = first_key ?slot ?key ?vs s" if "s \<in> set (map ?slot ?vs)" for s
  proof -
    let ?K = "?key ` {v \<in> set ?vs. ?slot v = s}"
    have "s < length a + length b" using that slot by auto
    then have "first_seen ! s = Min (insert INT64_MAX ?K)"
      using counters_counted [OF assms(1), of a b] by (simp add: st counted_def)
    also have "\<dots> = Min ?K"
    proof -
      have ne: "?K \<noteq> {}" "finite ?K" using that by auto
      then have "Min ?K \<in> ?K" by (intro Min_in)
      then have "Min ?K \<le> INT64_MAX" using key_fits [OF assms(2)] by auto
      then show ?thesis using Min_insert [OF ne(2,1), of INT64_MAX] by (simp only: min_absorb2)
    qed
    finally show ?thesis by (simp add: first_key_def)
  qed
  have seen: "set ?seen = set ?R"
  proof (rule set_eqI)
    fix s
    have "s \<in> set ?R \<longleftrightarrow> count_list (map ?slot ?vs) s \<noteq> 0" by (simp only: set_dedupe count_list_0_iff not_not)
    moreover have "s < length a + length b" if "s \<in> set ?R" using that slot by auto
    ultimately show "s \<in> set ?seen \<longleftrightarrow> s \<in> set ?R" using counts [of s] by auto
  qed
  have "sorted_wrt (\<lambda>x y. first_seen ! x < first_seen ! y) ?R"
    using first_keys_rise [OF visits_rise, where slot = ?slot]
    by (rule sorted_wrt_mono_rel [rotated]) (simp add: first)
  from sort_key_breaks_ties [OF this, of ?seen "\<lambda>s. - int (counts ! s)"] seen
  have ranked: "sort_key (\<lambda>s. (- int (counts ! s), first_seen ! s)) ?seen = sort_key (\<lambda>s. - int (counts ! s)) ?R"
    by simp
  also have "\<dots> = sort_key (\<lambda>s. - int (count_list (map ?slot ?vs) s)) ?R"
    using slot counts by (intro sort_key_cong) auto
  finally have ranked: "sort_key (\<lambda>s. (- int (counts ! s), first_seen ! s)) ?seen =
    sort_key (\<lambda>s. - int (count_list (map ?slot ?vs) s)) ?R" .
  let ?g = "\<lambda>s. int s - int (length a)"
  have g: "inj ?g" by (simp add: inj_def)
  have shifts: "map shift_of ?vs = map ?g (map ?slot ?vs)" using slot by simp
  have "reference_shifts a b = take 40 (map ?g (sort_key (\<lambda>s. - int (count_list (map ?slot ?vs) s)) ?R))"
    unfolding reference_shifts_dedupe shifts
    by (simp only: dedupe_map [OF g] sort_key_map count_list_map_conv [OF g])
  moreover have "top_shifts argsort a b =
      map ?g (take TOP_SHIFTS (sort_key (\<lambda>s. (- int (counts ! s), first_seen ! s)) ?seen))"
    using False st by (simp add: top_shifts_def counters_def Let_def)
  ultimately show ?thesis by (simp only: ranked take_map TOP_SHIFTS_def)
qed

end
