(* ===== verification/Matcher_Claims.thy ===== *)
theory Matcher_Claims
  imports Matcher_Shifts
begin

text \<open>
  The matcher's properties: a season's intros are the reference's, the first cluster is the intro
  before its quorum, and the stretches kept of two episodes match, are long enough and do not
  overlap.
\<close>

section \<open>The season\<close>

lemma pair_runs_eq: "argsort_ok argsort \<Longrightarrow> keys_fit a b \<Longrightarrow> pair_runs argsort a b = reference_runs a b"
  by (simp add: pair_runs_def reference_runs_def top_shifts_eq)

lemma pairs_of_in: "(x, y) \<in> set (pairs_of xs) \<Longrightarrow> x \<in> set xs \<and> y \<in> set xs"
  by (rule pairs_of_subset)

lemma reference_hits_cong:
  assumes "\<And>x y. x \<in> set files \<Longrightarrow> y \<in> set files \<Longrightarrow> runs x y = runs' x y"
  shows "reference_hits runs files = reference_hits runs' files"
  unfolding reference_hits_def
  by (intro fold_cong refl) (auto simp: assms dest: pairs_of_in)

definition plain_segment :: "intro_segment \<Rightarrow> rat \<times> rat \<times> nat" where
  "plain_segment g = (i_start_s g, i_end_s g, i_support g)"

text \<open>
  C19: for a group of episodes, the vectorised matcher answers exactly what the reference program
  answers on the same fingerprints: for every episode the same segment with the same support, or
  none.  It holds for any order numpy's \<open>argsort\<close> gives equal values, and for fingerprints short
  enough that the counters' keys fit in 64 bits.
\<close>

theorem season_intros_as_reference:
  assumes "argsort_ok argsort" and "distinct (map fst fps)"
    and "\<And>x y. x \<in> snd ` set fps \<Longrightarrow> y \<in> snd ` set fps \<Longrightarrow> keys_fit x y"
  shows "map_option (map (\<lambda>(f, g). (f, map_option plain_segment g))) (season_intros argsort fps) =
    Some (map (\<lambda>(f, n, g). (f, g)) (analyse_points fps (sort (map fst fps))))"
proof -
  let ?files = "sort (map fst fps)"
  let ?runs = "\<lambda>x y. pair_runs argsort (the (map_of fps x)) (the (map_of fps y))"
  let ?ref = "\<lambda>x y. reference_runs (the (map_of fps x)) (the (map_of fps y))"
  let ?others = "int (length ?files) - 1"
  have distinct: "distinct ?files" using assms(2) by simp
  have points: "the (map_of fps x) \<in> snd ` set fps" if "x \<in> set ?files" for x
  proof -
    have "map_of fps x \<noteq> None" using that by (simp add: map_of_eq_None_iff)
    then obtain p where "map_of fps x = Some p" by blast
    then show ?thesis by (auto dest!: map_of_SomeD intro: rev_image_eqI)
  qed
  have runs: "reference_hits ?runs ?files = reference_hits ?ref ?files"
    by (rule reference_hits_cong) (simp add: pair_runs_eq [OF assms(1)] assms(3) points)
  define answer where "answer f = intro_for (the (file_hits f ?files ?runs)) ?others" for f
  have hits: "\<exists>h. file_hits f ?files ?runs = Some h \<and> reference_hits ?ref ?files f = map plain_hit h"
    if "f \<in> set ?files" for f
    using reference_hits_eq [OF distinct that, of ?runs] by (simp add: runs)
  have "season_intros argsort fps = Some (map (\<lambda>f. (f, answer f)) ?files)"
    unfolding season_intros_def Let_def
  proof (rule map_opt_Some)
    fix f assume "f \<in> set ?files"
    from hits [OF this] obtain h where "file_hits f ?files ?runs = Some h" by blast
    then show "do { hits \<leftarrow> file_hits f ?files ?runs; Some (f, intro_for hits ?others) } = Some (f, answer f)"
      by (simp add: answer_def)
  qed
  moreover have "reference_segment (reference_hits ?ref ?files f) ?others = map_option plain_segment (answer f)"
    if "f \<in> set ?files" for f
    using hits [OF that] by (auto simp: segment_plain answer_def plain_segment_def [abs_def])
  ultimately show ?thesis by (simp add: analyse_points_def Let_def comp_def)
qed

text \<open>Three short fingerprints and the sort of positions by value.\<close>

definition sample_sort :: "points \<Rightarrow> nat list" where
  "sample_sort b = sort_key (\<lambda>k. uint (b ! k)) [0..<length b]"

definition sample_points :: "(string \<times> points) list" where
  "sample_points = [(''e2'', map word_of_nat ([1..<90] @ [500..<600])), (''e1'', map word_of_nat [1..<90])]"

lemma sample_sort_ok: "argsort_ok sample_sort"
  by (simp add: argsort_ok_def sample_sort_def)

lemma sample_keys_fit: "x \<in> snd ` set sample_points \<Longrightarrow> y \<in> snd ` set sample_points \<Longrightarrow> keys_fit x y"
  by (auto simp: sample_points_def keys_fit_def INT64_MAX_def)

theorem season_intros_as_reference_witness:
  "map_option (map (\<lambda>(f, g). (f, map_option plain_segment g))) (season_intros sample_sort sample_points) =
    Some (map (\<lambda>(f, n, g). (f, g)) (analyse_points sample_points [''e1'', ''e2'']))"
proof -
  have "sort (map fst sample_points) = [''e1'', ''e2'']" by code_simp
  moreover have distinct: "distinct (map fst sample_points)" by code_simp
  ultimately show ?thesis
    using season_intros_as_reference [OF sample_sort_ok distinct sample_keys_fit] by (simp only:)
qed

section \<open>The best cluster\<close>

lemma last_insort_key:
  "sorted (map f xs) \<Longrightarrow> last (insort_key f x xs) = (if xs = [] \<or> f (last xs) < f x then x else last xs)"
  by (induction xs) (auto simp: less_le_not_le intro: order_trans)

text \<open>The first greatest element, by search and by a stable descending sort.\<close>

lemma first_greatest:
  fixes f :: "'a \<Rightarrow> 'k :: linorder"
  defines "keep \<equiv> \<lambda>x best. case best of None \<Rightarrow> Some x | Some y \<Rightarrow> if f x > f y then Some x else best"
  shows "fold keep xs None = (if xs = [] then None else Some (last (sort_key f (rev xs))))"
proof (induction xs rule: rev_induct)
  case (snoc x xs)
  let ?S = "sort_key f (rev xs)"
  have "last (insort_key f x ?S) = (if ?S = [] \<or> f (last ?S) < f x then x else last ?S)"
    by (rule last_insort_key) simp
  moreover have "?S = [] \<longleftrightarrow> xs = []" by (metis length_0_conv length_rev length_sort)
  ultimately show ?case using snoc by (simp add: keep_def)
qed (simp add: keep_def)

text \<open>
  The intro of an episode is its first cluster in ranking order, if that cluster meets the
  quorum: the search for the best hit and the stable descending sort agree, ties included.
\<close>

theorem intro_for_first_candidate:
  "intro_for hits others =
     (case intro_candidates hits of
        [] \<Rightarrow> None
      | c # _ \<Rightarrow> if meets_quorum (i_support (ic_segment c)) others then Some (ic_segment c) else None)"
proof -
  let ?g = "\<lambda>h. (hit_key hits h, segment_of (cluster_of hits h))"
  let ?keep = "\<lambda>x best. case best of None \<Rightarrow> Some x | Some y \<Rightarrow> if hit_key hits x > hit_key hits y then Some x else best"
  have step: "better_intro hits h (map_option ?g best) = map_option ?g (?keep h best)" for h best
    by (cases best) (simp_all add: better_intro_def)
  have "fold (better_intro hits) hs (map_option ?g best) = map_option ?g (fold ?keep hs best)" for hs best
    by (induction hs arbitrary: best) (simp_all only: fold_simps step)
  from this [of hits None] have best: "fold (better_intro hits) hits None = map_option ?g (fold ?keep hits None)"
    by simp
  let ?S = "sort_key (hit_key hits) (rev hits)"
  let ?c = "\<lambda>h. \<lparr>ic_segment = segment_of (cluster_of hits h), ic_members = cluster_of hits h\<rparr>"
  have "sort_key fst (rev (map (\<lambda>h. (hit_key hits h, ?c h)) hits)) = map (\<lambda>h. (hit_key hits h, ?c h)) ?S"
    by (simp only: rev_map sort_key_map fst_conv)
  then have candidates: "intro_candidates hits = map ?c (rev ?S)"
    by (simp add: intro_candidates_def rev_map [symmetric])
  show ?thesis
  proof (cases "hits = []")
    case True
    then show ?thesis by (simp add: intro_for_def intro_candidates_def)
  next
    case False
    then have "?S \<noteq> []" by (metis length_0_conv length_rev length_sort)
    then obtain ss h where S: "?S = ss @ [h]" by (metis append_butlast_last_id)
    have "fold ?keep hits None = Some h"
      using first_greatest [of "hit_key hits" hits] False by (simp add: S)
    then show ?thesis
      by (simp add: intro_for_def best candidates S meets_quorum_def segment_of_def not_le [symmetric])
  qed
qed

section \<open>Kept stretches\<close>

text \<open>A stretch runs from one index of \<open>idx\<close> to another without a break between them.\<close>

lemma stretch_bounds:
  assumes idx: "idx \<noteq> []" and xy: "(x, y) \<in> set (stretches idx)"
  shows "\<exists>u v. u \<le> v \<and> v < length idx \<and> x = idx ! u \<and> y = idx ! v \<and>
    (\<forall>t. u \<le> t \<and> t < v \<longrightarrow> idx ! (t + 1) - idx ! t \<le> GAP_PTS)"
proof -
  let ?P = "\<lambda>k. idx ! (k + 1) - idx ! k > GAP_PTS"
  let ?bs = "filter ?P [0..<length idx - 1]"
  let ?u = "\<lambda>i. if i = 0 then 0 else ?bs ! (i - 1) + 1"
  let ?v = "\<lambda>i. if i < length ?bs then ?bs ! i else length idx - 1"
  have rise: "?bs ! p < ?bs ! q" if "p < q" "q < length ?bs" for p q
    using sorted_wrt_nth_less [OF sorted_wrt_filter [OF sorted_wrt_upt] that] by blast
  have bound: "?bs ! p < length idx - 1" if "p < length ?bs" for p
    using nth_mem [OF that] by auto
  obtain i where i: "i < Suc (length ?bs)" and x: "x = (idx ! 0 # map (\<lambda>k. idx ! (k + 1)) ?bs) ! i"
    and y: "y = (map (\<lambda>k. idx ! k) ?bs @ [last idx]) ! i"
    using xy unfolding stretches_def Let_def in_set_zip by auto
  have eqx: "x = idx ! ?u i" using x i by (cases i) simp_all
  have eqy: "y = idx ! ?v i" using y i idx by (auto simp: nth_append last_conv_nth)
  have le: "?u i \<le> ?v i"
  proof (cases "i = 0")
    case False
    with i have "i - 1 < length ?bs" by linarith
    from bound [OF this] False show ?thesis using rise [of "i - 1" i] by (cases "i < length ?bs") auto
  qed simp
  have less: "?v i < length idx" using bound [of i] idx by (auto simp: less_Suc_eq_le)
  have none: "\<not> ?P t" if t: "?u i \<le> t" "t < ?v i" for t
  proof
    assume "?P t"
    have "t < length idx - 1" using t bound [of i] by (auto split: if_splits)
    with \<open>?P t\<close> have "t \<in> set ?bs" by simp
    then obtain q where q: "q < length ?bs" "t = ?bs ! q" unfolding in_set_conv_nth by blast
    have "q < i"
    proof (rule ccontr)
      assume "\<not> q < i"
      then have i': "i < length ?bs" "i = q \<or> i < q" using q(1) by linarith+
      have "?bs ! i \<le> ?bs ! q" using i'(2) rise [OF _ q(1)] by (elim disjE) (simp_all add: less_imp_le)
      moreover have "t < ?bs ! i" using t(2) by (simp only: i'(1) if_True)
      ultimately show False using q(2) by linarith
    qed
    then have "i \<noteq> 0" "q = i - 1 \<or> q < i - 1" "i - 1 < length ?bs" using i by linarith+
    then have "?bs ! q \<le> ?bs ! (i - 1)" using rise [of q "i - 1"]
      by (elim disjE) (simp_all add: less_imp_le)
    moreover have "?bs ! (i - 1) + 1 \<le> t" using t(1) \<open>i \<noteq> 0\<close> by (simp only: if_False)
    ultimately show False using q(2) by linarith
  qed
  show ?thesis
  proof (intro exI conjI allI impI)
    fix t assume "?u i \<le> t \<and> t < ?v i"
    then show "idx ! (t + 1) - idx ! t \<le> GAP_PTS" using none by (simp only: not_less)
  qed (rule le less eqx eqy)+
qed

lemma stretch_covered:
  assumes sorted: "sorted_wrt (<) idx" and xy: "(x, y) \<in> set (stretches idx)" and ne: "idx \<noteq> []"
  shows "x \<in> set idx" "y \<in> set idx" "x \<le> y"
    "x \<le> k \<Longrightarrow> k < y \<Longrightarrow> \<exists>m \<in> set idx. k < m \<and> m \<le> k + GAP_PTS \<and> m \<le> y"
proof -
  obtain u v where uv: "u \<le> v" "v < length idx" "x = idx ! u" "y = idx ! v"
    and gaps: "\<And>t. u \<le> t \<Longrightarrow> t < v \<Longrightarrow> idx ! (t + 1) - idx ! t \<le> GAP_PTS"
    using stretch_bounds [OF ne xy] by blast
  have le: "idx ! p \<le> idx ! q" if "p \<le> q" "q < length idx" for p q
    using sorted_wrt_nth_less [OF sorted, of p q] that by (cases "p = q") auto
  show "x \<in> set idx" "y \<in> set idx" "x \<le> y" using uv le by auto
  assume k: "x \<le> k" "k < y"
  define t where "t = Max {t. u \<le> t \<and> t \<le> v \<and> idx ! t \<le> k}"
  have fin: "finite {t. u \<le> t \<and> t \<le> v \<and> idx ! t \<le> k}" by simp
  have "u \<in> {t. u \<le> t \<and> t \<le> v \<and> idx ! t \<le> k}" using uv k by simp
  then have t: "u \<le> t" "t \<le> v" "idx ! t \<le> k"
    using Max_in [OF fin] unfolding t_def by blast+
  have "t \<noteq> v" using t(3) k uv(4) by auto
  with t(2) have tv: "t < v" by simp
  have "\<not> idx ! (t + 1) \<le> k"
    using Max_ge [OF fin, of "t + 1"] t(1) tv unfolding t_def [symmetric] by auto
  moreover have "idx ! (t + 1) \<le> k + GAP_PTS" using gaps [OF t(1) tv] t(3) by linarith
  moreover have "idx ! (t + 1) \<le> y" "idx ! (t + 1) \<in> set idx" using le [of "t + 1" v] tv uv by auto
  ultimately show "\<exists>m \<in> set idx. k < m \<and> m \<le> k + GAP_PTS \<and> m \<le> y" by (auto simp: not_le)
qed

text \<open>A run of the points \<open>x\<close> to \<open>y\<close> of \<open>a\<close> with those from \<open>c\<close> to \<open>d\<close> of \<open>b\<close>.\<close>

definition matching_run :: "points \<Rightarrow> points \<Rightarrow> nat \<Rightarrow> nat \<Rightarrow> nat \<Rightarrow> nat \<Rightarrow> bool" where
  "matching_run a b x y c d \<longleftrightarrow>
     x \<le> y \<and> y < length a \<and> d < length b \<and> d + x = c + y \<and>
     near (a ! x) (b ! c) \<and> near (a ! y) (b ! d) \<and>
     {x..<y} \<subseteq> {k. \<exists>m. k < m \<and> m \<le> k + GAP_PTS \<and> m \<le> y \<and> near (a ! m) (b ! (m + c - x))}"

lemma shift_runs_match:
  assumes "r \<in> set (shift_runs a b s)"
  shows "\<exists>x y c d. r = \<lparr>a_start_s = secs x, a_end_s = secs y, b_start_s = secs c, b_end_s = secs d\<rparr> \<and>
    y - x \<ge> MIN_PTS \<and> matching_run a b x y c d"
proof -
  define a0 b0 where "a0 = (if s \<ge> 0 then 0 else nat (- s))" and "b0 = (if s \<ge> 0 then nat s else 0)"
  define n where "n = nat (min (int (length a) - int a0) (int (length b) - int b0))"
  define idx where "idx = near_idx a b a0 b0 n"
  have n: "a0 + n \<le> length a" "b0 + n \<le> length b" if "n \<noteq> 0" using that by (auto simp: n_def)
  have "length idx \<ge> 2 \<and> (\<exists>x y. (x, y) \<in> set (stretches idx) \<and> y - x \<ge> MIN_PTS \<and>
      r = \<lparr>a_start_s = secs (a0 + x), a_end_s = secs (a0 + y), b_start_s = secs (b0 + x), b_end_s = secs (b0 + y)\<rparr>)"
    using assms unfolding shift_runs_def Let_def a0_def [symmetric] b0_def [symmetric] n_def [symmetric]
      idx_def [symmetric]
    by (auto split: if_splits)
  then obtain x y where xy: "(x, y) \<in> set (stretches idx)" "y - x \<ge> MIN_PTS" "idx \<noteq> []"
    and r: "r = \<lparr>a_start_s = secs (a0 + x), a_end_s = secs (a0 + y), b_start_s = secs (b0 + x), b_end_s = secs (b0 + y)\<rparr>"
    by force
  have sorted: "sorted_wrt (<) idx" unfolding idx_def near_idx_def by (rule sorted_wrt_filter) simp
  have idx: "m < n \<and> near (a ! (a0 + m)) (b ! (b0 + m))" if "m \<in> set idx" for m
    using that by (auto simp: idx_def near_idx_def)
  note cover = stretch_covered [OF sorted xy(1,3)]
  have "matching_run a b (a0 + x) (a0 + y) (b0 + x) (b0 + y)"
    unfolding matching_run_def
  proof (intro conjI subsetI CollectI)
    fix k assume k: "k \<in> {a0 + x..<a0 + y}"
    then have "x \<le> k - a0" "k - a0 < y" by auto
    from cover(4) [OF this] obtain m where m: "m \<in> set idx" "k - a0 < m" "m \<le> k - a0 + GAP_PTS" "m \<le> y"
      by blast
    show "\<exists>m. k < m \<and> m \<le> k + GAP_PTS \<and> m \<le> a0 + y \<and> near (a ! m) (b ! (m + (b0 + x) - (a0 + x)))"
      by (rule exI [of _ "a0 + m"]) (use m k idx [OF m(1)] in \<open>auto simp: algebra_simps\<close>)
  next
    show "a0 + y < length a" "b0 + y < length b" using idx [OF cover(2)] n by linarith+
  qed (use cover idx in auto)
  then show ?thesis using r xy(2) by (intro exI conjI) auto
qed

lemma keep_runs:
  assumes "sorted_wrt (\<lambda>r k. \<not> overlaps_run r k) kept"
  shows "sorted_wrt (\<lambda>r k. \<not> overlaps_run r k) (fold keep_run rs kept)"
    "set kept \<subseteq> set (fold keep_run rs kept)" "set (fold keep_run rs kept) \<subseteq> set kept \<union> set rs"
proof -
  have "sorted_wrt (\<lambda>r k. \<not> overlaps_run r k) (fold keep_run rs kept) \<and>
    set kept \<subseteq> set (fold keep_run rs kept) \<and> set (fold keep_run rs kept) \<subseteq> set kept \<union> set rs"
    using assms
  proof (induction rs arbitrary: kept)
    case (Cons r rs)
    have sym: "overlaps_run r k \<longleftrightarrow> overlaps_run k r" for k by (auto simp: overlaps_run_def)
    have "sorted_wrt (\<lambda>r k. \<not> overlaps_run r k) (keep_run r kept)"
      using Cons.prems sym by (auto simp: keep_run_def sorted_wrt_append)
    from Cons.IH [OF this] show ?case by (auto simp: keep_run_def split: if_splits)
  qed simp
  then show "sorted_wrt (\<lambda>r k. \<not> overlaps_run r k) (fold keep_run rs kept)"
    "set kept \<subseteq> set (fold keep_run rs kept)" "set (fold keep_run rs kept) \<subseteq> set kept \<union> set rs"
    by blast+
qed

text \<open>A run left out overlaps one that came before it.\<close>

lemma left_out:
  assumes "sorted (map f rs)" and "r \<in> set rs"
  shows "r \<in> set (fold keep_run rs []) \<or> (\<exists>k \<in> set (fold keep_run rs []). overlaps_run r k \<and> f k \<le> (f r :: rat))"
  using assms
proof (induction rs rule: rev_induct)
  case (snoc q rs)
  define kept where "kept = fold keep_run rs []"
  have step: "fold keep_run (rs @ [q]) [] = keep_run q kept" by (simp add: kept_def)
  have sub: "set kept \<subseteq> set (keep_run q kept)" by (auto simp: keep_run_def)
  show ?case
  proof (cases "r \<in> set rs")
    case True
    with snoc sub show ?thesis unfolding step by (auto simp: sorted_append kept_def)
  next
    case False
    with snoc.prems(2) have r: "r = q" by simp
    have "set kept \<subseteq> set rs" using keep_runs(3) [of "[]" rs] by (simp add: kept_def)
    then have le: "f k \<le> f q" if "k \<in> set kept" for k
      using that snoc.prems(1) by (auto simp: sorted_append)
    show ?thesis
      unfolding step r by (cases "\<forall>k \<in> set kept. \<not> overlaps_run q k") (use le sub in \<open>auto simp: keep_run_def\<close>)
  qed
qed simp

text \<open>The least length in points, and in seconds.\<close>

lemma shortest_run: "MIN_PTS = 64" "7925 / 1000 < secs MIN_PTS" "secs MIN_PTS < 7926 / 1000"
  by code_simp+

text \<open>
  C22: every stretch kept for two episodes is a matching one from a point to another at least 64
  points later: it starts and ends on points that differ in at most 6 bits, the same number of
  points in both, without a gap of more than 3.5 s between points that match.  No two of them
  overlap in the first episode, and a stretch found and not kept overlaps a kept one that is at
  least as long.  The 64 points are what \<open>int(8 / POINT_S)\<close> leaves of the 8 s the documentation
  asks for, and they are 7.925 to 7.926 s: a kept stretch can be shorter than 8 s.
\<close>

theorem pair_runs_sound:
  "MIN_PTS = 64 \<and> 7925 / 1000 < secs MIN_PTS \<and> secs MIN_PTS < 7926 / 1000 \<and>
   set (pair_runs argsort a b) \<subseteq>
     {r. \<exists>x y c d. r = \<lparr>a_start_s = secs x, a_end_s = secs y, b_start_s = secs c, b_end_s = secs d\<rparr> \<and>
        y - x \<ge> MIN_PTS \<and> matching_run a b x y c d} \<and>
   sorted_wrt (\<lambda>r k. \<not> overlaps_run r k) (pair_runs argsort a b) \<and>
   (\<Union>s \<in> set (top_shifts argsort a b). set (shift_runs a b s)) \<subseteq>
     {r. r \<in> set (pair_runs argsort a b) \<or>
        (\<exists>k \<in> set (pair_runs argsort a b). overlaps_run r k \<and>
           fl (a_end_s r - a_start_s r) \<le> fl (a_end_s k - a_start_s k))}"
proof -
  let ?rs = "concat (map (shift_runs a b) (top_shifts argsort a b))"
  let ?f = "\<lambda>r. - fl (a_end_s r - a_start_s r)"
  have kept: "set (pair_runs argsort a b) \<subseteq> set ?rs"
    using keep_runs(3) [of "[]" "longest_first ?rs"] by (simp add: pair_runs_def longest_first_def)
  have "r \<in> set (pair_runs argsort a b) \<or> (\<exists>k \<in> set (pair_runs argsort a b). overlaps_run r k \<and> ?f k \<le> ?f r)"
    if "r \<in> set ?rs" for r
    using left_out [of ?f "longest_first ?rs" r] that by (simp add: pair_runs_def longest_first_def)
  then have "set ?rs \<subseteq> {r. r \<in> set (pair_runs argsort a b) \<or>
      (\<exists>k \<in> set (pair_runs argsort a b). overlaps_run r k \<and>
         fl (a_end_s r - a_start_s r) \<le> fl (a_end_s k - a_start_s k))}"
    by auto
  moreover have "sorted_wrt (\<lambda>r k. \<not> overlaps_run r k) (pair_runs argsort a b)"
    unfolding pair_runs_def by (rule keep_runs(1)) simp
  moreover have "set ?rs \<subseteq> {r. \<exists>x y c d.
      r = \<lparr>a_start_s = secs x, a_end_s = secs y, b_start_s = secs c, b_end_s = secs d\<rparr> \<and>
      y - x \<ge> MIN_PTS \<and> matching_run a b x y c d}"
    using shift_runs_match by auto
  ultimately show ?thesis using kept shortest_run by auto
qed

end
