(* ===== verification/Rule_J.thy ===== *)
theory Rule_J
  imports Floats
begin

text \<open>
  Rule J (\<open>markers/credits/rule_j.py\<close>): where the credit roll starts, read from the text boxes and the
  brightness of the frames at the end of a file.  A time is a double and every operation on it
  rounds (\<open>fl\<close>).  \<open>None\<close> around a result is a Python exception: an index out of range, \<open>min\<close> of
  nothing, \<open>next\<close> without an element, or the ValueError the function raises itself.
\<close>

section \<open>Data\<close>

text \<open>Left, top, right and bottom, inclusive.\<close>

type_synonym box = "int \<times> int \<times> int \<times> int"

text \<open>A row that never recorded its boxes has none of them.\<close>

record row =
  r_pts :: rat
  r_count :: int
  r_luma :: rat
  r_boxes :: "box list option"

record rule_params =
  p_dense :: int
  p_min_boxes :: int
  p_dark :: rat
  p_gap_s :: rat
  p_run_s :: rat

definition RULE_J :: rule_params where
  "RULE_J = \<lparr>p_dense = 3, p_min_boxes = 1, p_dark = 30, p_gap_s = 24, p_run_s = 15\<rparr>"

record coarse =
  co_index :: nat
  co_end_index :: nat
  co_pts_s :: rat
  co_run_index :: "nat option"

definition ANCHOR_SPACING_FACTOR :: rat where "ANCHOR_SPACING_FACTOR = 3 / 2"
definition ANCHOR_MAX_STEPS :: nat where "ANCHOR_MAX_STEPS = 1"
definition OVERLAY_IOU :: rat where "OVERLAY_IOU = 1 / 2"
definition OVERLAY_SPAN_SHARE :: rat where "OVERLAY_SPAN_SHARE = fl (8 / 10)"
definition OVERLAY_KEYFRAME_SHARE :: rat where "OVERLAY_KEYFRAME_SHARE = fl (5 / 100)"
definition OVERLAY_LEAST :: nat where "OVERLAY_LEAST = 4"
definition OVERLAY_CONTAINMENT :: rat where "OVERLAY_CONTAINMENT = fl (6 / 10)"
definition BAND_TOLERANCE_PX :: rat where "BAND_TOLERANCE_PX = 32"
definition ROLL_TEXT_SHARE :: rat where "ROLL_TEXT_SHARE = 1 / 2"

definition boxes_of :: "row \<Rightarrow> box list" where
  "boxes_of row = (case r_boxes row of None \<Rightarrow> [] | Some boxes \<Rightarrow> boxes)"

text \<open>\<open>rows[first : last + 1]\<close> and the positions of a row list in presentation order.\<close>

definition slice :: "'a list \<Rightarrow> nat \<Rightarrow> nat \<Rightarrow> 'a list" where
  "slice xs first last' = drop first (take (last' + 1) xs)"

definition by_time :: "row list \<Rightarrow> row list" where
  "by_time = sort_key r_pts"

definition time_order :: "row list \<Rightarrow> nat list" where
  "time_order rows = sort_key (\<lambda>i. r_pts (rows ! i)) [0..<length rows]"

section \<open>Boxes and overlays\<close>

definition meet :: "box \<Rightarrow> box \<Rightarrow> int \<times> int" where
  "meet a b =
     (case (a, b) of ((l, t, r, u), (l', t', r', u')) \<Rightarrow>
        (min r r' - max l l' + 1, min u u' - max t t' + 1))"

definition area :: "box \<Rightarrow> int" where
  "area a = (case a of (l, t, r, u) \<Rightarrow> (r - l + 1) * (u - t + 1))"

definition iou :: "box \<Rightarrow> box \<Rightarrow> rat" where
  "iou a b =
     (case meet a b of (w, h) \<Rightarrow>
        if w < 1 \<or> h < 1 then 0
        else fl (of_int (w * h) / of_int (area a + area b - w * h)))"

definition inside :: "box \<Rightarrow> box \<Rightarrow> rat" where
  "inside box holder =
     (case meet box holder of (w, h) \<Rightarrow>
        if w < 1 \<or> h < 1 then 0 else fl (of_int (w * h) / of_int (area box)))"

definition is_credit :: "rule_params \<Rightarrow> row \<Rightarrow> bool" where
  "is_credit params row =
     (if r_luma row < p_dark params then r_count row \<ge> p_min_boxes params
      else r_count row \<ge> p_dense params)"

text \<open>The runs found so far, and the time of the last bright frame without credits.\<close>

definition run_step ::
  "rule_params \<Rightarrow> row list \<Rightarrow> nat \<Rightarrow> (nat \<times> nat) list \<times> rat \<Rightarrow> (nat \<times> nat) list \<times> rat" where
  "run_step params rows i st =
     (case st of (runs, last_bright) \<Rightarrow>
        (let row = rows ! i in
         if is_credit params row then
           (let joined = (runs \<noteq> [] \<and>
                  (let at_end = r_pts (rows ! snd (last runs))
                   in fl (r_pts row - at_end) \<le> p_gap_s params \<or> last_bright < at_end))
            in (if joined then butlast runs @ [(fst (last runs), i)] else runs @ [(i, i)], last_bright))
         else if r_luma row \<ge> p_dark params then (runs, r_pts row) else (runs, last_bright)))"

definition credit_runs :: "rule_params \<Rightarrow> row list \<Rightarrow> (nat \<times> nat) list" where
  "credit_runs params rows =
     filter (\<lambda>(first, last'). fl (r_pts (rows ! last') - r_pts (rows ! first)) \<ge> p_run_s params)
       (fst (fold (run_step params rows) [0..<length rows] ([], - 1)))"

text \<open>A group of boxes: its first box, its first and last sighting, and how many there were.\<close>

record group =
  g_box :: box
  g_first_s :: rat
  g_last_s :: rat
  g_seen :: nat

definition best_group :: "group list \<Rightarrow> box \<Rightarrow> nat option" where
  "best_group groups box =
     fst (fold (\<lambda>g (best, best_iou).
       (let overlap = iou box (g_box (groups ! g))
        in if overlap \<ge> OVERLAY_IOU \<and> overlap > best_iou then (Some g, overlap) else (best, best_iou)))
       [0..<length groups] (None, 0))"

definition gather_box :: "rat \<Rightarrow> box \<Rightarrow> group list \<Rightarrow> group list" where
  "gather_box pts box groups =
     (case best_group groups box of
        None \<Rightarrow> groups @ [\<lparr>g_box = box, g_first_s = pts, g_last_s = pts, g_seen = 1\<rparr>]
      | Some g \<Rightarrow> groups[g := (groups ! g)\<lparr>g_first_s := min (g_first_s (groups ! g)) pts,
                                           g_last_s := max (g_last_s (groups ! g)) pts,
                                           g_seen := g_seen (groups ! g) + 1\<rparr>])"

definition overlay_boxes :: "rule_params \<Rightarrow> row list \<Rightarrow> box list" where
  "overlay_boxes params rows =
     (case rev (credit_runs params rows) of
        [] \<Rightarrow> []
      | (first, last') # _ \<Rightarrow>
          (let run_from = Min (r_pts ` set (slice rows first last'));
               story = filter (\<lambda>row. r_pts row < run_from) rows
           in if length story < OVERLAY_LEAST then []
              else
                (let story_s = fl (Max (r_pts ` set story) - Min (r_pts ` set story))
                 in if story_s \<le> 0 then []
                    else
                      (let groups = fold (\<lambda>row. fold (gather_box (r_pts row)) (boxes_of row)) story [];
                           least = max (of_nat OVERLAY_LEAST) (fl (OVERLAY_KEYFRAME_SHARE * of_nat (length story)))
                       in map g_box (filter (\<lambda>g.
                            fl (g_last_s g - g_first_s g) \<ge> fl (OVERLAY_SPAN_SHARE * story_s) \<and>
                            of_nat (g_seen g) \<ge> least) groups)))))"

definition drop_overlays :: "box list \<Rightarrow> row \<Rightarrow> row" where
  "drop_overlays overlays row =
     (case r_boxes row of
        None \<Rightarrow> row
      | Some boxes \<Rightarrow>
          (let kept = filter (\<lambda>box. \<not> (\<exists>overlay \<in> set overlays. inside box overlay \<ge> OVERLAY_CONTAINMENT)) boxes
           in \<lparr>r_pts = r_pts row, r_count = int (length kept), r_luma = r_luma row, r_boxes = Some kept\<rparr>))"

definition without_overlays :: "row list \<Rightarrow> box list \<Rightarrow> row list" where
  "without_overlays rows overlays = (if overlays = [] then rows else map (drop_overlays overlays) rows)"

section \<open>The anchor\<close>

definition typical_spacing :: "row list \<Rightarrow> rat option" where
  "typical_spacing rows =
     (let gaps = sort (map (\<lambda>i. fl (r_pts (rows ! (i + 1)) - r_pts (rows ! i))) [0..<length rows - 1])
      in if gaps = [] then None else Some (gaps ! min (length rows div 2) (length gaps - 1)))"

definition run_spacing :: "rule_params \<Rightarrow> row list \<Rightarrow> nat \<Rightarrow> nat \<Rightarrow> rat option" where
  "run_spacing params rows first last' =
     typical_spacing (by_time (filter (is_credit params) (slice rows first last')))"

definition credit_indices :: "rule_params \<Rightarrow> row list \<Rightarrow> nat \<Rightarrow> nat \<Rightarrow> nat list" where
  "credit_indices params rows first last' = filter (\<lambda>i. is_credit params (rows ! i)) [first..<last' + 1]"

definition credit_bounds :: "rule_params \<Rightarrow> row list \<Rightarrow> nat \<times> nat \<Rightarrow> (nat \<times> nat) option" where
  "credit_bounds params rows run =
     (let credit = credit_indices params rows (fst run) (snd run)
      in if length credit \<ge> 2 then Some (hd credit, last credit) else None)"

text \<open>\<open>while first < last and steps < ANCHOR_MAX_STEPS\<close>, with the steps left.\<close>

fun anchor_steps ::
  "rule_params \<Rightarrow> bool \<Rightarrow> row list \<Rightarrow> rat \<Rightarrow> nat \<Rightarrow> nat \<Rightarrow> nat \<Rightarrow> nat option" where
  "anchor_steps params black_reads rows spacing last' first 0 = Some first"
| "anchor_steps params black_reads rows spacing last' first (Suc steps) =
     (if \<not> first < last' then Some first
      else
        (case credit_indices params rows (first + 1) last' of
           [] \<Rightarrow> None
         | following # _ \<Rightarrow>
             (let gap = fl (r_pts (rows ! following) - r_pts (rows ! first))
              in if gap \<le> fl (ANCHOR_SPACING_FACTOR * spacing) \<or> gap > p_gap_s params then Some first
                 else
                   (let between = filter (\<lambda>row. r_pts (rows ! first) < r_pts row \<and>
                                              r_pts row < r_pts (rows ! following)) rows;
                        black_after = black_reads \<and> between \<noteq> [] \<and>
                          (\<forall>row \<in> set between. r_luma row \<le> r_luma (rows ! first))
                    in if r_luma (rows ! first) < p_dark params \<and> black_after then Some first
                       else anchor_steps params black_reads rows spacing last' following steps))))"

definition anchored :: "rule_params \<Rightarrow> bool \<Rightarrow> row list \<Rightarrow> nat \<times> nat \<Rightarrow> nat option" where
  "anchored params black_reads rows run =
     do {
       spacing \<leftarrow> run_spacing params rows (fst run) (snd run);
       anchor_steps params black_reads rows spacing (snd run) (fst run) ANCHOR_MAX_STEPS
     }"

section \<open>Bands\<close>

definition centre :: "box \<Rightarrow> rat" where
  "centre b = (case b of (l, t, r, u) \<Rightarrow> fl (of_int (l + r + 1) / 2))"

definition band_of :: "rule_params \<Rightarrow> row list \<Rightarrow> nat \<Rightarrow> nat \<Rightarrow> rat option" where
  "band_of params rows first last' =
     (let centres = concat (map (\<lambda>row. map centre (boxes_of row))
                      (filter (is_credit params) (slice rows first last')))
      in if centres = [] then None else Some (float_median centres))"

definition in_band :: "rat \<Rightarrow> row \<Rightarrow> bool" where
  "in_band band row =
     (let boxes = boxes_of row
      in boxes \<noteq> [] \<and> \<bar>fl (float_median (map centre boxes) - band)\<bar> \<le> BAND_TOLERANCE_PX)"

text \<open>The times of the credit frames between two positions; \<open>max\<close> and \<open>min\<close> of none raise.\<close>

definition credit_times :: "rule_params \<Rightarrow> row list \<Rightarrow> nat \<Rightarrow> nat \<Rightarrow> rat list" where
  "credit_times params rows first last' = map (\<lambda>i. r_pts (rows ! i)) (credit_indices params rows first last')"

fun same_roll_from ::
  "rule_params \<Rightarrow> row list \<Rightarrow> (nat \<times> nat) list \<Rightarrow> rat \<Rightarrow> nat \<Rightarrow> nat option" where
  "same_roll_from params rows runs band 0 = Some 0"
| "same_roll_from params rows runs band (Suc k) =
     (case credit_bounds params rows (runs ! k) of
        None \<Rightarrow> Some (Suc k)
      | Some (first, last') \<Rightarrow>
          (case band_of params rows first last' of
             None \<Rightarrow> Some (Suc k)
           | Some earlier \<Rightarrow>
               if \<bar>fl (earlier - band)\<bar> > BAND_TOLERANCE_PX then Some (Suc k)
               else
                 (let ended = credit_times params rows first last';
                      starting = credit_times params rows (fst (runs ! Suc k)) (snd (runs ! Suc k))
                  in if ended = [] \<or> starting = [] then None
                     else
                       (let between = filter (\<lambda>row. Max (set ended) < r_pts row \<and>
                                                  r_pts row < Min (set starting)) rows;
                            texted = length (filter (\<lambda>row. r_count row \<ge> 1) between)
                        in if between = [] \<or>
                              of_nat texted < fl (ROLL_TEXT_SHARE * of_nat (length between))
                           then Some (Suc k)
                           else same_roll_from params rows runs band k))))"

definition same_roll :: "rule_params \<Rightarrow> row list \<Rightarrow> (nat \<times> nat) list \<Rightarrow> nat option" where
  "same_roll params rows runs =
     (case band_of params rows (fst (last runs)) (snd (last runs)) of
        None \<Rightarrow> Some (length runs - 1)
      | Some band \<Rightarrow> same_roll_from params rows runs band (length runs - 1))"

text \<open>The greatest position below \<open>at\<close> that \<open>P\<close> accepts.\<close>

fun position_before :: "(nat \<Rightarrow> bool) \<Rightarrow> nat \<Rightarrow> nat option" where
  "position_before P 0 = None"
| "position_before P (Suc n) = (if P n then Some n else position_before P n)"

lemma position_before_less: "position_before P n = Some m \<Longrightarrow> m < n \<and> P m"
  by (induction n) (auto split: if_splits)

text \<open>The walk over the positions in presentation order.\<close>

function walk_back :: "(nat \<Rightarrow> bool) \<Rightarrow> (nat \<Rightarrow> rat) \<Rightarrow> rat \<Rightarrow> nat \<Rightarrow> nat" where
  "walk_back takes time limit at' =
     (case position_before takes at' of
        None \<Rightarrow> at'
      | Some prior \<Rightarrow>
          if fl (time at' - time prior) > limit then at' else walk_back takes time limit prior)"
  by pat_completeness auto
termination
  by (relation "measure (\<lambda>(takes, time, limit, at'). at')") (auto dest: position_before_less)

declare walk_back.simps [simp del]

definition reach_back ::
  "rule_params \<Rightarrow> row list \<Rightarrow> nat \<Rightarrow> nat \<times> nat \<Rightarrow> nat set \<Rightarrow> row list option \<Rightarrow> nat option" where
  "reach_back params rows index bounds own raw =
     (case band_of params rows (fst bounds) (snd bounds) of
        None \<Rightarrow> Some index
      | Some band \<Rightarrow>
          do {
            spacing \<leftarrow> run_spacing params rows (fst bounds) (snd bounds);
            spacing \<leftarrow> (case raw of
                         None \<Rightarrow> Some spacing
                       | Some raw_rows \<Rightarrow>
                           map_option (min spacing) (run_spacing params raw_rows (fst bounds) (snd bounds)));
            let limit = min (p_gap_s params) (fl (ANCHOR_SPACING_FACTOR * spacing));
            let order = time_order rows;
            if index \<notin> set order then None
            else Some (order ! walk_back
                         (\<lambda>k. order ! k \<notin> own \<and> in_band band (rows ! (order ! k)))
                         (\<lambda>k. r_pts (rows ! (order ! k))) limit (index_or_len index order))
          })"

section \<open>The coarse start\<close>

text \<open>The run the walk starts from, its credit frames and its anchored start.\<close>

definition coarse_start ::
  "rule_params \<Rightarrow> row list \<Rightarrow> row list option \<Rightarrow> bool \<Rightarrow> coarse option option" where
  "coarse_start params rows without black_reads =
     (if (case without of None \<Rightarrow> False | Some rows' \<Rightarrow> map r_pts rows' \<noteq> map r_pts rows) then None
      else
        (let runs = credit_runs params rows; read = (case without of None \<Rightarrow> rows | Some rows' \<Rightarrow> rows')
         in if runs = [] then Some None
            else
              (case credit_bounds params read (last runs) of
                 None \<Rightarrow> Some None
               | Some chosen \<Rightarrow>
                   do {
                     anchor \<leftarrow> anchored params black_reads read chosen;
                     keep \<leftarrow> same_roll params read runs;
                     (walk_run, walk_from, start) \<leftarrow>
                       (if keep = length runs - 1 then Some (last runs, chosen, anchor)
                        else
                          (case credit_bounds params read (runs ! keep) of
                             None \<Rightarrow> Some (last runs, chosen, anchor)
                           | Some bounds \<Rightarrow>
                               map_option (\<lambda>a. (runs ! keep, bounds, a)) (anchored params black_reads read bounds)));
                     start \<leftarrow> reach_back params read start walk_from
                                {fst walk_run..snd walk_run} (Some rows);
                     Some (Some \<lparr>co_index = start, co_end_index = snd chosen, co_pts_s = r_pts (read ! start),
                                 co_run_index = (if start = anchor then None else Some anchor)\<rparr>)
                   })))"

end
