(* ===== verification/Rule_J_Refine.thy ===== *)
theory Rule_J_Refine
  imports Rule_J
begin

text \<open>
  The rest of \<open>markers/credits/rule_j.py\<close>: when a run is no roll, the refinement of its start with
  frames a second apart, where it ends, and where a credits chapter moves.  Row lists the code indexes
  alike are as long as each other; \<open>None\<close> around a result is a Python exception.  The built-in \<open>sum\<close> of
  doubles, whose rounding differs between Python releases, is the argument \<open>fsum\<close>.
\<close>

definition FADE_LUMA :: rat where "FADE_LUMA = 12"
definition FADE_STEP_S :: rat where "FADE_STEP_S = 4"
definition REFINE_BEFORE_S :: rat where "REFINE_BEFORE_S = 20"
definition REFINE_AFTER_S :: rat where "REFINE_AFTER_S = 1"
definition REFINE_GAP_S :: rat where "REFINE_GAP_S = 5 / 2"
definition KEEP_AFTER_CREDITS_S :: rat where "KEEP_AFTER_CREDITS_S = 30"
definition REFINE_END_BEFORE_S :: rat where "REFINE_END_BEFORE_S = 1"
definition REFINE_END_AFTER_S :: rat where "REFINE_END_AFTER_S = 20"
definition STORY_BEFORE_RUN_S :: rat where "STORY_BEFORE_RUN_S = 30"
definition TEXT_ALL_THROUGH_SHARE :: rat where "TEXT_ALL_THROUGH_SHARE = fl (8 / 10)"
definition CAPTIONED_STORY_SHARE :: rat where "CAPTIONED_STORY_SHARE = fl (4 / 10)"
definition CHAPTER_AGREES_S :: rat where "CHAPTER_AGREES_S = 10"
definition CHAPTER_TEXT_GAP_S :: rat where "CHAPTER_TEXT_GAP_S = 8"
definition CHAPTER_START_FADE_S :: rat where "CHAPTER_START_FADE_S = 1"

definition texted_count :: "row list \<Rightarrow> rat" where
  "texted_count rows = of_nat (length (filter (\<lambda>row. r_count row \<ge> 1) rows))"

text \<open>The run's own start: where the anchor put it, before it was reached back.\<close>

definition run_first :: "coarse \<Rightarrow> nat" where
  "run_first coarse = (case co_run_index coarse of None \<Rightarrow> co_index coarse | Some i \<Rightarrow> i)"

section \<open>Starting on dense text\<close>

definition dense_text :: "rule_params \<Rightarrow> int \<Rightarrow> row \<Rightarrow> bool" where
  "dense_text params dense_boxes row =
     (is_credit params row \<and> (r_luma row < p_dark params \<or> r_count row \<ge> dense_boxes))"

fun dense_walk :: "row list \<Rightarrow> row list \<Rightarrow> nat list \<Rightarrow> rat \<Rightarrow> rat \<Rightarrow> nat \<Rightarrow> nat" where
  "dense_walk rows shown order since limit 0 = 0"
| "dense_walk rows shown order since limit (Suc k) =
     (let prior = order ! k
      in if r_pts (rows ! prior) < since \<or> r_count (shown ! prior) < 1 \<or>
            fl (r_pts (rows ! (order ! Suc k)) - r_pts (rows ! prior)) > limit
         then Suc k
         else dense_walk rows shown order since limit k)"

definition start_on_dense_text ::
  "rule_params \<Rightarrow> row list \<Rightarrow> coarse \<Rightarrow> row list \<Rightarrow> row list \<Rightarrow> int \<Rightarrow> coarse option" where
  "start_on_dense_text params rows coarse raw shown dense_boxes =
     (if dense_text params dense_boxes (rows ! co_index coarse) then Some coarse
      else
        (let since = co_pts_s coarse; first = run_first coarse;
             run = sort_key (\<lambda>i. r_pts (rows ! i)) [first..<co_end_index coarse + 1]
         in case find (\<lambda>i. r_pts (rows ! i) \<ge> since \<and> dense_text params dense_boxes (rows ! i)) run of
              None \<Rightarrow> Some coarse
            | Some start \<Rightarrow>
                if credit_bounds params raw (first, co_end_index coarse) = None then Some coarse
                else
                  do {
                    spacing \<leftarrow> run_spacing params raw first (co_end_index coarse);
                    let limit = min (p_gap_s params) (fl (ANCHOR_SPACING_FACTOR * spacing));
                    let order = time_order rows;
                    let moved = order ! dense_walk rows shown order since limit (index_or_len start order);
                    Some \<lparr>co_index = moved, co_end_index = co_end_index coarse,
                          co_pts_s = r_pts (rows ! moved), co_run_index = None\<rparr>
                  }))"

section \<open>Text that is no roll\<close>

definition first_s :: "row list \<Rightarrow> rat option" where
  "first_s rows = (if rows = [] then None else Some (Min (r_pts ` set rows)))"

definition too_little_story :: "row list \<Rightarrow> coarse \<Rightarrow> bool option" where
  "too_little_story rows coarse =
     map_option (\<lambda>t. fl (co_pts_s coarse - t) < STORY_BEFORE_RUN_S) (first_s rows)"

definition text_all_through :: "row list \<Rightarrow> coarse \<Rightarrow> bool option" where
  "text_all_through rows coarse =
     do {
       little \<leftarrow> too_little_story rows coarse;
       if little then Some True
       else
         (let prior = filter (\<lambda>row. r_pts row < co_pts_s coarse) rows
          in Some (texted_count prior \<ge> fl (TEXT_ALL_THROUGH_SHARE * of_nat (length prior))))
     }"

definition steps_between :: "rat list \<Rightarrow> rat list" where
  "steps_between ts = map (\<lambda>(a, b). fl (b - a)) (zip ts (tl ts))"

definition captions_all_through ::
  "(rat list \<Rightarrow> rat) \<Rightarrow> rule_params \<Rightarrow> row list \<Rightarrow> row list \<Rightarrow> coarse \<Rightarrow> rat \<Rightarrow> bool" where
  "captions_all_through fsum params rows shown coarse end_s =
     (let prior = filter (\<lambda>row. r_pts row < co_pts_s coarse) rows
      in if prior = [] \<or> texted_count prior < fl (CAPTIONED_STORY_SHARE * of_nat (length prior)) then False
         else
           (let inside_run = by_time (filter (\<lambda>row. co_pts_s coarse \<le> r_pts row \<and> r_pts row \<le> end_s) shown);
                spacing = steps_between (map r_pts inside_run);
                usual = (if spacing = [] then 0 else float_median spacing);
                story_s = fsum (map (\<lambda>(row, gap). min gap usual)
                            (filter (\<lambda>(row, gap). r_luma row \<ge> p_dark params \<and> r_count row = 0)
                              (zip inside_run spacing)))
            in story_s > p_gap_s params))"

definition opens_on_the_run :: "rule_params \<Rightarrow> row list \<Rightarrow> coarse \<Rightarrow> bool option" where
  "opens_on_the_run params rows coarse =
     do {
       little \<leftarrow> too_little_story rows coarse;
       if \<not> little then Some False
       else
         (let runs = credit_runs params rows
          in if runs = [] then None
             else Some (\<forall>row \<in> set (take (fst (last runs)) rows). r_luma row < p_dark params))
     }"

definition rows_before :: "row list \<Rightarrow> row list \<Rightarrow> row list option" where
  "rows_before prior rows =
     map_option (\<lambda>t. filter (\<lambda>row. r_pts row < t) prior @ rows) (first_s rows)"

definition joined_before ::
  "rule_params \<Rightarrow> row list \<Rightarrow> row list \<Rightarrow> box list \<Rightarrow> bool \<Rightarrow> row list option option" where
  "joined_before params prior rows overlays black_reads =
     do {
       joined \<leftarrow> rows_before prior rows;
       let without = (if overlays = [] then None else Some (without_overlays joined overlays));
       coarse \<leftarrow> coarse_start params joined without black_reads;
       t \<leftarrow> first_s rows;
       Some (case coarse of
               None \<Rightarrow> None
             | Some c \<Rightarrow> if co_pts_s c < t then Some joined else None)
     }"

section \<open>Refining the start\<close>

fun fade_walk :: "row list \<Rightarrow> rat \<Rightarrow> nat \<Rightarrow> nat" where
  "fade_walk rows floor_s 0 = 0"
| "fade_walk rows floor_s (Suc i) =
     (if floor_s \<le> r_pts (rows ! i) \<and> r_pts (rows ! i) \<le> r_pts (rows ! Suc i) \<and>
         r_luma (rows ! i) < FADE_LUMA \<and>
         fl (r_pts (rows ! Suc i) - r_pts (rows ! i)) \<le> FADE_STEP_S
      then fade_walk rows floor_s i else Suc i)"

definition fade_back :: "row list \<Rightarrow> nat \<Rightarrow> rat \<Rightarrow> rat" where
  "fade_back rows index floor_s = r_pts (rows ! fade_walk rows floor_s index)"

lemma filter_ConsD: "filter P xs = x # ys \<Longrightarrow> x \<in> set xs \<and> P x"
  using Cons_eq_filterD [of x ys P xs] by auto

lemma last_filterD: "ys = filter P xs \<Longrightarrow> ys \<noteq> [] \<Longrightarrow> last ys \<in> set xs \<and> P (last ys)"
  using last_in_set [of ys] by auto

text \<open>The first frame of \<open>roll\<close> one step before \<open>j\<close>, again and again.\<close>

function roll_walk :: "row list \<Rightarrow> nat list \<Rightarrow> nat \<Rightarrow> nat" where
  "roll_walk fine roll j =
     (case filter (\<lambda>k. k < j \<and> fl (r_pts (fine ! j) - r_pts (fine ! k)) \<le> REFINE_GAP_S) roll of
        [] \<Rightarrow> j
      | k # _ \<Rightarrow> roll_walk fine roll k)"
  by pat_completeness auto
termination
  by (relation "measure (\<lambda>(fine, roll, j). j)") (auto dest: filter_ConsD)

declare roll_walk.simps [simp del]

definition refine_window :: "row list \<Rightarrow> rat \<Rightarrow> rat \<Rightarrow> nat list" where
  "refine_window fine lo hi = filter (\<lambda>j. lo \<le> r_pts (fine ! j) \<and> r_pts (fine ! j) \<le> hi) [0..<length fine]"

definition refine_walk ::
  "rule_params \<Rightarrow> row list \<Rightarrow> coarse \<Rightarrow> row list \<Rightarrow> rat \<Rightarrow> nat list \<times> nat option \<times> bool" where
  "refine_walk params rows coarse fine before_s =
     (let t = co_pts_s coarse; window = refine_window fine (fl (t - before_s)) (fl (t + REFINE_AFTER_S))
      in if window = [] then (window, None, False)
         else
           (let band = band_of params rows (run_first coarse) (co_end_index coarse);
                roll = filter (\<lambda>j. is_credit params (fine ! j) \<or>
                         (case band of None \<Rightarrow> False | Some b \<Rightarrow> in_band b (fine ! j))) window;
                near = filter (\<lambda>j. r_pts (fine ! j) \<ge> fl (t - REFINE_GAP_S)) roll;
                walk_from = (if near \<noteq> [] then near else filter (\<lambda>j. is_credit params (fine ! j)) window)
            in if walk_from = [] then (window, None, False)
               else (window, Some (roll_walk fine roll (last walk_from)), near \<noteq> [])))"

definition refine_start :: "rule_params \<Rightarrow> row list \<Rightarrow> coarse \<Rightarrow> row list \<Rightarrow> rat \<Rightarrow> rat" where
  "refine_start params rows coarse fine before_s =
     (case refine_walk params rows coarse fine before_s of
        (window, j, from_roll) \<Rightarrow>
          if window = [] then fade_back rows (co_index coarse) (- 1)
          else (case j of None \<Rightarrow> co_pts_s coarse
                | Some j \<Rightarrow> fade_back fine j (fl (co_pts_s coarse - before_s))))"

definition refine_reaches_floor :: "rule_params \<Rightarrow> row list \<Rightarrow> coarse \<Rightarrow> row list \<Rightarrow> rat \<Rightarrow> bool" where
  "refine_reaches_floor params rows coarse fine before_s =
     (case refine_walk params rows coarse fine before_s of
        (window, j, from_roll) \<Rightarrow>
          from_roll \<and>
          (case j of None \<Rightarrow> False
           | Some j \<Rightarrow> fl (r_pts (fine ! j) - Min ((\<lambda>k. r_pts (fine ! k)) ` set window)) < REFINE_GAP_S))"

section \<open>The end\<close>

definition run_rows :: "row list \<Rightarrow> coarse \<Rightarrow> row list" where
  "run_rows rows coarse = slice rows (run_first coarse) (co_end_index coarse)"

definition last_credit_s :: "rule_params \<Rightarrow> row list \<Rightarrow> coarse \<Rightarrow> rat" where
  "last_credit_s params rows coarse =
     (let credit = filter (is_credit params) (run_rows rows coarse)
      in if credit = [] then r_pts (rows ! co_end_index coarse) else Max (r_pts ` set credit))"

text \<open>The default of the \<open>max\<close> is read before it is needed: an index past the rows raises IndexError.\<close>

definition coarse_end_s :: "rule_params \<Rightarrow> row list \<Rightarrow> coarse \<Rightarrow> rat option" where
  "coarse_end_s params rows coarse =
     (if co_end_index coarse < length rows then Some (last_credit_s params rows coarse) else None)"

definition end_keyframes :: "rule_params \<Rightarrow> row list \<Rightarrow> coarse \<Rightarrow> (rat \<times> rat option) option" where
  "end_keyframes params rows coarse =
     (let run = run_rows rows coarse; credit = by_time (filter (is_credit params) run)
      in if length credit < 3 then map_option (\<lambda>t. (t, None)) (coarse_end_s params rows coarse)
         else
           (let prior = credit ! (length credit - 2); latest = last credit;
                scene = map r_pts (filter (\<lambda>row. r_pts prior < r_pts row \<and> r_pts row < r_pts latest \<and>
                                            r_count row = 0 \<and> r_luma row \<ge> p_dark params) run)
            in if \<not> (r_luma latest \<ge> p_dark params \<and> scene \<noteq> []) then Some (r_pts latest, None)
               else
                 do {
                   spacing \<leftarrow> typical_spacing (butlast credit);
                   Some (if fl (r_pts latest - r_pts prior) > fl (ANCHOR_SPACING_FACTOR * spacing)
                         then (r_pts prior, Some (Min (set scene))) else (r_pts latest, None))
                 }))"

definition end_keyframe_s :: "rule_params \<Rightarrow> row list \<Rightarrow> coarse \<Rightarrow> rat option" where
  "end_keyframe_s params rows coarse = map_option fst (end_keyframes params rows coarse)"

definition keeps_a_scene_after :: "rat \<Rightarrow> rat \<Rightarrow> bool" where
  "keeps_a_scene_after end_s duration_s = (fl (duration_s - end_s) > KEEP_AFTER_CREDITS_S)"

text \<open>The last frame of \<open>credit\<close> one step after \<open>j\<close>, again and again.\<close>

function credit_walk :: "row list \<Rightarrow> nat list \<Rightarrow> nat \<Rightarrow> nat" where
  "credit_walk fine credit j =
     (let later = filter (\<lambda>k. k > j \<and> fl (r_pts (fine ! k) - r_pts (fine ! j)) \<le> REFINE_GAP_S) credit
      in if later = [] then j else credit_walk fine credit (last later))"
  by pat_completeness auto
termination
proof (relation "measure (\<lambda>(fine, credit, j). card {k \<in> set credit. k > j})", goal_cases)
  case (2 fine credit j later)
  then have "last later \<in> set credit" "last later > j" using last_filterD by blast+
  then have "{k \<in> set credit. k > last later} \<subset> {k \<in> set credit. k > j}" by auto
  then show ?case by (simp add: psubset_card_mono)
qed simp

declare credit_walk.simps [simp del]

definition walk_forward :: "rule_params \<Rightarrow> row list \<Rightarrow> rat \<Rightarrow> rat \<Rightarrow> rat" where
  "walk_forward params fine t reach_s =
     (case filter (\<lambda>j. is_credit params (fine ! j)) (refine_window fine (fl (t - REFINE_END_BEFORE_S)) reach_s) of
        [] \<Rightarrow> t
      | j # rest \<Rightarrow> r_pts (fine ! credit_walk fine (j # rest) j))"

definition refine_end :: "rule_params \<Rightarrow> row list \<Rightarrow> coarse \<Rightarrow> row list \<Rightarrow> rat \<Rightarrow> rat option" where
  "refine_end params rows coarse fine after_s =
     do {
       (t, scene_s) \<leftarrow> end_keyframes params rows coarse;
       Some (walk_forward params fine t
              (case scene_s of None \<Rightarrow> fl (t + after_s) | Some s \<Rightarrow> min (fl (t + after_s)) s))
     }"

definition credits_end ::
  "rule_params \<Rightarrow> row list \<Rightarrow> coarse \<Rightarrow> row list \<Rightarrow> rat \<Rightarrow> rat option option" where
  "credits_end params rows coarse fine duration_s =
     do {
       latest \<leftarrow> coarse_end_s params rows coarse;
       if \<not> keeps_a_scene_after latest duration_s then Some None
       else if \<not> keeps_a_scene_after
                 (walk_forward params fine latest (fl (latest + REFINE_END_AFTER_S))) duration_s then Some None
       else map_option Some (refine_end params rows coarse fine REFINE_END_AFTER_S)
     }"

section \<open>The whole rule\<close>

definition credits_start ::
  "(rat list \<Rightarrow> rat) \<Rightarrow> rule_params \<Rightarrow> row list \<Rightarrow> row list \<Rightarrow> rat \<Rightarrow> rat option option" where
  "credits_start fsum params rows fine before_s =
     (let overlays = overlay_boxes params rows; rule_rows = without_overlays rows overlays
      in do {
           found \<leftarrow> coarse_start params rows (Some rule_rows) True;
           case found of
             None \<Rightarrow> Some None
           | Some coarse \<Rightarrow>
               do {
                 all_through \<leftarrow> text_all_through rows coarse;
                 if all_through then Some None
                 else do {
                   end_s \<leftarrow> coarse_end_s params rule_rows coarse;
                   Some (if captions_all_through fsum params rows rule_rows coarse end_s then None
                         else Some (refine_start params rule_rows coarse (without_overlays fine overlays) before_s))
                 }
               }
         })"

definition chapter_moves_to :: "row list \<Rightarrow> rat \<Rightarrow> rat \<Rightarrow> rat option" where
  "chapter_moves_to rows start_s chapter_s =
     (let dark = p_dark RULE_J
      in if \<bar>fl (start_s - chapter_s)\<bar> \<le> CHAPTER_AGREES_S then None
         else if start_s < chapter_s then
           (let between = filter (\<lambda>row. start_s < r_pts row \<and> r_pts row < chapter_s) rows
            in if \<exists>row \<in> set between. r_count row = 0 \<and> r_luma row \<ge> dark \<and>
                    r_pts row > fl (start_s + CHAPTER_START_FADE_S) then None
               else
                 (let stops = start_s # sort (map r_pts (filter (\<lambda>row. r_count row \<ge> 1) between)) @ [chapter_s]
                  in if Max (set (steps_between stops)) \<le> CHAPTER_TEXT_GAP_S then Some start_s else None))
         else
           (let after = by_time (filter (\<lambda>row. chapter_s \<le> r_pts row \<and> r_pts row < start_s) rows);
                first_text = (case find (\<lambda>row. r_count row \<ge> 1) after of None \<Rightarrow> start_s | Some row \<Rightarrow> r_pts row);
                story = filter (\<lambda>row. r_pts row < first_text) after
            in if fl (first_text - chapter_s) \<le> CHAPTER_AGREES_S \<or> story = [] \<or>
                  (\<exists>row \<in> set story. r_luma row < dark) then None
               else Some first_text))"

end
