(* ===== verification/Rule_J_Runs.thy ===== *)
theory Rule_J_Runs
  imports Rule_J_Refine
begin

text \<open>
  What a credit run is, apart from the loop that finds it: the credit frames in decode order, cut where
  one is not joined to the next.  And what the helpers on a run's own credit frames return: their
  bounds, their spacing, the anchor.
\<close>

section \<open>Cutting a list into chains\<close>

fun chains :: "('a \<Rightarrow> 'a \<Rightarrow> bool) \<Rightarrow> 'a list \<Rightarrow> 'a list list" where
  "chains joins [] = []"
| "chains joins (x # xs) =
     (case chains joins xs of
        [] \<Rightarrow> [[x]]
      | c # cs \<Rightarrow> if joins x (hd c) then (x # c) # cs else [x] # c # cs)"

lemma chains_eq_Nil [simp]: "chains joins xs = [] \<longleftrightarrow> xs = []"
  by (cases xs) (auto split: list.splits)

lemma Nil_notin_chains: "[] \<notin> set (chains joins xs)"
  by (induction xs) (auto split: list.splits)

lemma concat_chains: "concat (chains joins xs) = xs"
  by (induction xs) (auto split: list.splits)

lemma hd_chains: "xs \<noteq> [] \<Longrightarrow> hd (hd (chains joins xs)) = hd xs"
  by (cases xs) (auto split: list.splits)

lemma last_last_chains:
  assumes "xs \<noteq> []"
  shows "last (last (chains joins xs)) = last xs"
proof -
  have ne: "chains joins xs \<noteq> []" using assms by simp
  have "last (chains joins xs) \<noteq> []" using last_in_set [OF ne] Nil_notin_chains by metis
  moreover have "concat (chains joins xs) = concat (butlast (chains joins xs)) @ last (chains joins xs)"
    by (subst append_butlast_last_id [OF ne, symmetric]) simp
  ultimately show ?thesis using concat_chains [of joins xs] by (metis last_appendR)
qed

lemma chains_snoc:
  assumes "xs \<noteq> []"
  shows "chains joins (xs @ [y]) =
    (if joins (last xs) y then butlast (chains joins xs) @ [last (chains joins xs) @ [y]]
     else chains joins xs @ [[y]])"
  using assms
proof (induction xs)
  case (Cons x xs)
  show ?case
  proof (cases "xs = []")
    case False
    obtain c cs where cs: "chains joins xs = c # cs" using False by (cases "chains joins xs") auto
    with Nil_notin_chains [of joins xs] have "c \<noteq> []" by auto
    then show ?thesis using Cons.IH [OF False] False cs by (cases cs) auto
  qed simp
qed simp

lemma chains_joined:
  "c \<in> set (chains joins xs) \<Longrightarrow> Suc i < length c \<Longrightarrow> joins (c ! i) (c ! Suc i)"
proof (induction xs arbitrary: c i)
  case (Cons x xs)
  show ?case
  proof (cases "chains joins xs")
    case Nil
    with Cons.prems show ?thesis by auto
  next
    case (Cons d ds)
    then have ih: "Suc i < length e \<Longrightarrow> joins (e ! i) (e ! Suc i)" if "e \<in> set (d # ds)" for e i
      using Cons.IH that by simp
    have "d \<noteq> []" using Nil_notin_chains [of joins xs] Cons by auto
    show ?thesis
    proof (cases "joins x (hd d) \<and> c = x # d")
      case True
      then show ?thesis using \<open>d \<noteq> []\<close> Cons.prems(2) ih [of d] by (cases i) (auto simp: hd_conv_nth)
    next
      case False
      then have "c = [x] \<or> c \<in> set (d # ds)" using Cons.prems(1) Cons by (auto split: if_splits)
      then show ?thesis using Cons.prems(2) ih [of c] by auto
    qed
  qed
qed simp

lemma sorted_wrt_chain_ends:
  "sorted_wrt (<) xs \<Longrightarrow> sorted_wrt (\<lambda>r s. snd r < fst s) (map (\<lambda>c. (hd c, last c)) (chains joins (xs :: nat list)))"
proof (induction xs)
  case (Cons x xs)
  show ?case
  proof (cases "chains joins xs")
    case (Cons d ds)
    have ne: "\<And>c. c \<in> set (d # ds) \<Longrightarrow> c \<noteq> []" using Nil_notin_chains [of joins xs] Cons by metis
    have mem: "\<And>c. c \<in> set (d # ds) \<Longrightarrow> set c \<subseteq> set xs"
      using concat_chains [of joins xs] Cons by (metis UN_upper set_concat)
    have ih: "sorted_wrt (\<lambda>r s. snd r < fst s) (map (\<lambda>c. (hd c, last c)) (d # ds))"
      using Cons.IH Cons.prems Cons by simp
    have "hd c \<in> set xs" if "c \<in> set (d # ds)" for c
      using mem [OF that] hd_in_set [OF ne [OF that]] by blast
    then have "x < hd c" if "c \<in> set (d # ds)" for c using Cons.prems that by simp
    then show ?thesis using ih ne Cons by auto
  qed simp
qed simp

section \<open>Credit runs as chains of credit frames\<close>

text \<open>The time of the last bright frame without credits before position \<open>i\<close>; \<open>-1.0\<close> when there is none.\<close>

definition bright_before :: "rule_params \<Rightarrow> row list \<Rightarrow> nat \<Rightarrow> rat" where
  "bright_before params rows i =
     (case rev (filter (\<lambda>row. \<not> is_credit params row \<and> r_luma row \<ge> p_dark params) (take i rows)) of
        [] \<Rightarrow> - 1
      | row # _ \<Rightarrow> r_pts row)"

text \<open>
  Two neighbouring credit frames are one run when they are at most \<open>gap_s\<close> apart, or when the last bright
  frame without credits is earlier than the first of them: only dark frames lie between.
\<close>

definition joins :: "rule_params \<Rightarrow> row list \<Rightarrow> nat \<Rightarrow> nat \<Rightarrow> bool" where
  "joins params rows i j \<longleftrightarrow>
     fl (r_pts (rows ! j) - r_pts (rows ! i)) \<le> p_gap_s params \<or>
     bright_before params rows j < r_pts (rows ! i)"

definition all_credit :: "rule_params \<Rightarrow> row list \<Rightarrow> nat \<Rightarrow> nat list" where
  "all_credit params rows n = filter (\<lambda>i. is_credit params (rows ! i)) [0..<n]"

definition chain_ends :: "nat list list \<Rightarrow> (nat \<times> nat) list" where
  "chain_ends = map (\<lambda>c. (hd c, last c))"

lemma all_credit_Suc:
  "all_credit params rows (Suc n) =
     (if is_credit params (rows ! n) then all_credit params rows n @ [n] else all_credit params rows n)"
  by (simp add: all_credit_def)

lemma bright_before_Suc:
  "n < length rows \<Longrightarrow> bright_before params rows (Suc n) =
     (if \<not> is_credit params (rows ! n) \<and> r_luma (rows ! n) \<ge> p_dark params then r_pts (rows ! n)
      else bright_before params rows n)"
  by (simp add: bright_before_def take_Suc_conv_app_nth)

lemma run_step_chains:
  assumes "n < length rows"
  shows "run_step params rows n
      (chain_ends (chains (joins params rows) (all_credit params rows n)), bright_before params rows n) =
    (chain_ends (chains (joins params rows) (all_credit params rows (Suc n))), bright_before params rows (Suc n))"
proof (cases "is_credit params (rows ! n)")
  case True
  let ?J = "joins params rows" and ?xs = "all_credit params rows n"
  show ?thesis
  proof (cases "?xs = []")
    case False
    have ne: "chains ?J ?xs \<noteq> []" using False by simp
    have lne: "last (chains ?J ?xs) \<noteq> []" using last_in_set [OF ne] Nil_notin_chains by metis
    have "last (chain_ends (chains ?J ?xs)) = (hd (last (chains ?J ?xs)), last ?xs)"
      using ne last_last_chains [OF False] by (simp add: chain_ends_def last_map)
    then show ?thesis using True assms ne lne chains_snoc [OF False, of ?J n]
      by (auto simp: run_step_def Let_def all_credit_Suc bright_before_Suc joins_def chain_ends_def map_butlast)
  qed (use True assms in \<open>simp add: run_step_def Let_def all_credit_Suc bright_before_Suc chain_ends_def\<close>)
qed (use assms in \<open>simp add: run_step_def Let_def all_credit_Suc bright_before_Suc\<close>)

lemma fold_run_step:
  "n \<le> length rows \<Longrightarrow> fold (run_step params rows) [0..<n] ([], - 1) =
    (chain_ends (chains (joins params rows) (all_credit params rows n)), bright_before params rows n)"
proof (induction n)
  case 0
  then show ?case by (simp add: all_credit_def bright_before_def chain_ends_def)
next
  case (Suc n)
  then show ?case by (simp add: run_step_chains)
qed

lemma credit_runs_chains:
  "credit_runs params rows =
     filter (\<lambda>(first, last'). fl (r_pts (rows ! last') - r_pts (rows ! first)) \<ge> p_run_s params)
       (chain_ends (chains (joins params rows) (all_credit params rows (length rows))))"
  by (simp add: credit_runs_def fold_run_step)

lemma credit_runs_ordered: "sorted_wrt (\<lambda>r s. snd r < fst s) (credit_runs params rows)"
  unfolding credit_runs_chains chain_ends_def
  by (intro sorted_wrt_filter sorted_wrt_chain_ends)
     (simp add: all_credit_def sorted_wrt_filter strict_sorted_iff)

lemma credit_runs_ends:
  assumes "(a, b) \<in> set (credit_runs params rows)"
  shows "a \<le> b" "b < length rows" "is_credit params (rows ! a)" "is_credit params (rows ! b)"
    "p_run_s params \<le> fl (r_pts (rows ! b) - r_pts (rows ! a))"
proof -
  let ?xs = "all_credit params rows (length rows)"
  obtain c where c: "c \<in> set (chains (joins params rows) ?xs)" "a = hd c" "b = last c"
    and long: "p_run_s params \<le> fl (r_pts (rows ! b) - r_pts (rows ! a))"
    using assms by (auto simp: credit_runs_chains chain_ends_def)
  have ne: "c \<noteq> []" using c(1) Nil_notin_chains by metis
  have sub: "set c \<subseteq> set ?xs" using concat_chains [of "joins params rows" ?xs] c(1)
    by (metis UN_upper set_concat)
  have "sorted_wrt (<) (concat (chains (joins params rows) ?xs))"
    by (simp add: concat_chains all_credit_def sorted_wrt_filter strict_sorted_iff)
  then have "sorted_wrt (<) c" using c(1) by (auto simp: in_set_conv_decomp sorted_wrt_append)
  then have "hd c \<le> last c" using ne last_in_set [OF ne] by (cases c) (auto intro: less_imp_le)
  moreover have "hd c \<in> set ?xs" "last c \<in> set ?xs" using ne sub by auto
  ultimately show "a \<le> b" "b < length rows" "is_credit params (rows ! a)" "is_credit params (rows ! b)"
    "p_run_s params \<le> fl (r_pts (rows ! b) - r_pts (rows ! a))"
    using c long by (auto simp: all_credit_def)
qed

end
