(* ===== verification/Rule_J_Total.thy ===== *)
theory Rule_J_Total
  imports Rule_J_Runs
begin

text \<open>
  The coarse start never raises on the rows the detector decodes, and what it returns lies in the rows:
  the run it names is a credit run's, its ends are credit frames, and the start is never after the
  anchored start of that run.
\<close>

section \<open>The credit frames of a stretch of rows\<close>

lemma in_credit_indices [simp]:
  "i \<in> set (credit_indices params rows f l) \<longleftrightarrow> f \<le> i \<and> i \<le> l \<and> is_credit params (rows ! i)"
  by (auto simp: credit_indices_def)

lemma sorted_credit_indices: "sorted_wrt (<) (credit_indices params rows f l)"
  by (simp add: credit_indices_def sorted_wrt_filter strict_sorted_iff del: upt_Suc)

lemma slice_nth: "l < length rows \<Longrightarrow> slice rows f l = map ((!) rows) [f..<l + 1]"
  by (rule nth_equalityI) (simp_all add: slice_def del: upt_Suc)

lemma credit_slice:
  "l < length rows \<Longrightarrow> filter (is_credit params) (slice rows f l) = map ((!) rows) (credit_indices params rows f l)"
  by (simp only: slice_nth filter_map credit_indices_def comp_def)

lemma two_members:
  assumes "a \<in> set xs" and "b \<in> set xs" and "a \<noteq> b"
  shows "2 \<le> length xs"
proof -
  have "card {a, b} \<le> card (set xs)" using assms by (intro card_mono) auto
  then show ?thesis using assms(3) card_length [of xs] by simp
qed

lemma typical_spacing_Some: "2 \<le> length rows \<Longrightarrow> typical_spacing rows \<noteq> None"
proof -
  assume "2 \<le> length rows"
  then have "sort (map (\<lambda>i. fl (r_pts (rows ! (i + 1)) - r_pts (rows ! i))) [0..<length rows - 1]) \<noteq> []"
    by (simp flip: length_greater_0_conv)
  then show ?thesis by (simp only: typical_spacing_def Let_def if_False option.distinct not_False_eq_True)
qed

lemma run_spacing_Some:
  assumes "l < length rows" and "2 \<le> length (credit_indices params rows f l)"
  shows "\<exists>s. run_spacing params rows f l = Some s"
proof -
  have "2 \<le> length (by_time (filter (is_credit params) (slice rows f l)))"
    using assms by (simp add: by_time_def credit_slice)
  then show ?thesis using typical_spacing_Some unfolding run_spacing_def by blast
qed

lemma credit_boundsD:
  assumes "credit_bounds params rows run = Some (f, l)"
  shows "fst run \<le> f" "f < l" "l \<le> snd run" "is_credit params (rows ! f)" "is_credit params (rows ! l)"
    "2 \<le> length (credit_indices params rows f l)"
proof -
  let ?xs = "credit_indices params rows (fst run) (snd run)"
  have len: "2 \<le> length ?xs" and ends: "f = hd ?xs" "l = last ?xs"
    using assms by (auto simp: credit_bounds_def Let_def split: if_splits)
  then obtain x y ys where xs: "?xs = x # y # ys" by (cases ?xs; cases "tl ?xs") auto
  have f: "f \<in> set ?xs" and l: "l \<in> set ?xs" using ends xs by auto
  have "hd ?xs < last ?xs" using sorted_credit_indices [of params rows "fst run" "snd run"] xs by auto
  then show lt: "f < l" using ends by simp
  show "fst run \<le> f" "l \<le> snd run" "is_credit params (rows ! f)" "is_credit params (rows ! l)"
    using f l by simp_all
  then show "2 \<le> length (credit_indices params rows f l)" using lt by (intro two_members [of f _ l]) simp_all
qed

lemma credit_bounds_in:
  "credit_bounds params rows run = Some (f, l) \<Longrightarrow> i \<in> set (credit_indices params rows f l) \<Longrightarrow>
    i \<in> set (credit_indices params rows (fst run) (snd run))"
  using credit_boundsD [of params rows run f l] by auto

lemma credit_bounds_indices:
  assumes "credit_bounds params rows run = Some (f, l)" and "i \<in> set (credit_indices params rows (fst run) (snd run))"
  shows "i \<in> set (credit_indices params rows f l)"
proof -
  let ?xs = "credit_indices params rows (fst run) (snd run)"
  have ends: "f = hd ?xs" "l = last ?xs" using assms(1) by (auto simp: credit_bounds_def Let_def split: if_splits)
  have s: "sorted ?xs" using sorted_credit_indices [of params rows "fst run" "snd run"] by (simp add: strict_sorted_iff)
  have "hd ?xs \<le> i" using s assms(2) by (cases ?xs) auto
  moreover have "i \<le> last ?xs"
  proof -
    obtain j where j: "j < length ?xs" "?xs ! j = i" using assms(2) unfolding in_set_conv_nth by blast
    then have "?xs ! j \<le> ?xs ! (length ?xs - 1)" by (intro sorted_nth_mono [OF s]) simp_all
    then show ?thesis using j by (metis last_conv_nth length_0_conv not_less_zero)
  qed
  ultimately show ?thesis using ends assms(2) by simp
qed

section \<open>The anchor\<close>

lemma anchor_steps_Some:
  assumes "f \<le> l" and "is_credit params (rows ! f)" and "is_credit params (rows ! l)"
  shows "\<exists>a. anchor_steps params black rows spacing l f n = Some a \<and> a \<in> set (credit_indices params rows f l)"
  using assms
proof (induction n arbitrary: f)
  case (Suc n)
  show ?case
  proof (cases "f < l")
    case True
    have "l \<in> set (credit_indices params rows (f + 1) l)" using True Suc.prems by simp
    then have "credit_indices params rows (f + 1) l \<noteq> []" by (metis empty_iff empty_set)
    then obtain k ks where k: "credit_indices params rows (f + 1) l = k # ks"
      by (cases "credit_indices params rows (f + 1) l") simp_all
    then have "k \<in> set (credit_indices params rows (f + 1) l)" by simp
    then have kk: "f < k" "k \<le> l" "is_credit params (rows ! k)" by simp_all
    obtain a where a: "anchor_steps params black rows spacing l k n = Some a"
      "a \<in> set (credit_indices params rows k l)"
      using Suc.IH [OF kk(2,3) Suc.prems(3)] by blast
    have f: "f \<in> set (credit_indices params rows f l)" using Suc.prems by simp
    show ?thesis using True k a f kk(1) by (auto simp: Let_def)
  qed (use Suc.prems in simp)
qed simp

lemma anchored_Some:
  assumes "l < length rows" and "f < l" and "is_credit params (rows ! f)" and "is_credit params (rows ! l)"
    and "2 \<le> length (credit_indices params rows f l)"
  shows "\<exists>a. anchored params black rows (f, l) = Some a \<and> a \<in> set (credit_indices params rows f l)"
proof -
  obtain s where "run_spacing params rows f l = Some s" using run_spacing_Some [OF assms(1,5)] by blast
  then show ?thesis
    using anchor_steps_Some [of f l params rows black s ANCHOR_MAX_STEPS] assms(2-4) by (simp add: anchored_def)
qed

section \<open>Runs of one roll\<close>

text \<open>Every credit frame of the run the walk keeps is no later than any of the last run.\<close>

lemma credit_times_set:
  "set (credit_times params rows f l) = (\<lambda>i. r_pts (rows ! i)) ` set (credit_indices params rows f l)"
  by (simp add: credit_times_def)

lemma same_roll_from_Some:
  assumes "credit_bounds params rows (runs ! k) \<noteq> None" and "k < length runs"
  shows "\<exists>keep \<le> k. same_roll_from params rows runs band k = Some keep \<and>
    (keep < k \<longrightarrow> credit_bounds params rows (runs ! keep) \<noteq> None \<and>
      (\<forall>i \<in> set (credit_indices params rows (fst (runs ! keep)) (snd (runs ! keep))).
       \<forall>j \<in> set (credit_indices params rows (fst (runs ! k)) (snd (runs ! k))).
         r_pts (rows ! i) < r_pts (rows ! j)))"
  using assms
proof (induction k)
  case (Suc k)
  let ?ci = "\<lambda>k. credit_indices params rows (fst (runs ! k)) (snd (runs ! k))"
  let ?result = "same_roll_from params rows runs band (Suc k)"
  show ?case
  proof (cases "?result = Some (Suc k)")
    case False
    then obtain f l where b: "credit_bounds params rows (runs ! k) = Some (f, l)"
      by (cases "credit_bounds params rows (runs ! k)") auto
    define ended where "ended = credit_times params rows f l"
    define starting where "starting = credit_times params rows (fst (runs ! Suc k)) (snd (runs ! Suc k))"
    have f: "f \<in> set (credit_indices params rows f l)" using credit_boundsD [OF b] by simp
    obtain f' l' where b': "credit_bounds params rows (runs ! Suc k) = Some (f', l')" using Suc.prems by auto
    have f': "f' \<in> set (?ci (Suc k))" using credit_boundsD [OF b'] by simp
    have ne: "ended \<noteq> []" "starting \<noteq> []"
      using f f' by (auto simp: ended_def starting_def credit_times_def simp del: in_credit_indices)
    define between where "between = filter (\<lambda>row. Max (set ended) < r_pts row \<and> r_pts row < Min (set starting)) rows"
    obtain earlier where e: "band_of params rows f l = Some earlier"
      using False b by (cases "band_of params rows f l") simp_all
    then have "\<not> \<bar>fl (earlier - band)\<bar> > BAND_TOLERANCE_PX" using False b by (auto simp del: not_less)
    then have "?result =
      (if between = [] \<or> of_nat (length (filter (\<lambda>row. r_count row \<ge> 1) between)) <
           fl (ROLL_TEXT_SHARE * of_nat (length between))
       then Some (Suc k) else same_roll_from params rows runs band k)"
      using b e ne
      by (simp only: same_roll_from.simps option.case prod.case if_False Let_def
          ended_def [symmetric] starting_def [symmetric] between_def [symmetric] simp_thms)
    then have step: "?result = same_roll_from params rows runs band k" and "between \<noteq> []"
      using False by (auto split: if_splits)
    then have lt: "\<exists>row \<in> set rows. Max (set ended) < r_pts row \<and> r_pts row < Min (set starting)"
      unfolding between_def filter_empty_conv by blast
    have ended: "set ended = (\<lambda>i. r_pts (rows ! i)) ` set (?ci k)"
      using credit_bounds_indices [OF b] credit_bounds_in [OF b] unfolding ended_def credit_times_set by blast
    have below: "r_pts (rows ! i) < r_pts (rows ! j)" if "i \<in> set (?ci k)" "j \<in> set (?ci (Suc k))" for i j
    proof -
      have "r_pts (rows ! i) \<le> Max (set ended)" using that(1) ended by (intro Max_ge) blast+
      moreover have "Min (set starting) \<le> r_pts (rows ! j)"
        using that(2) unfolding starting_def credit_times_set by (intro Min_le) blast+
      ultimately show ?thesis using lt by fastforce
    qed
    obtain keep where keep: "keep \<le> k" "same_roll_from params rows runs band k = Some keep"
      "keep < k \<longrightarrow> credit_bounds params rows (runs ! keep) \<noteq> None \<and>
        (\<forall>i \<in> set (?ci keep). \<forall>j \<in> set (?ci k). r_pts (rows ! i) < r_pts (rows ! j))"
      using Suc.IH Suc.prems b by auto
    have fk: "f \<in> set (?ci k)" using credit_bounds_in [OF b f] .
    have "credit_bounds params rows (runs ! keep) \<noteq> None \<and>
      (\<forall>i \<in> set (?ci keep). \<forall>j \<in> set (?ci (Suc k)). r_pts (rows ! i) < r_pts (rows ! j))"
    proof (cases "keep < k")
      case True
      then have bounds: "credit_bounds params rows (runs ! keep) \<noteq> None"
        and before: "\<And>i. i \<in> set (?ci keep) \<Longrightarrow> r_pts (rows ! i) < r_pts (rows ! f)"
        using keep(3) fk by blast+
      have "r_pts (rows ! i) < r_pts (rows ! j)" if "i \<in> set (?ci keep)" "j \<in> set (?ci (Suc k))" for i j
        using before [OF that(1)] below [OF fk that(2)] by (rule less_trans)
      then show ?thesis using bounds by blast
    next
      case False
      then have "keep = k" using keep(1) by simp
      then show ?thesis using b below by (simp del: in_credit_indices)
    qed
    then show ?thesis using keep step by (intro exI [of _ keep]) auto
  qed (intro exI [of _ "Suc k"], simp)
qed simp

lemma same_roll_Some:
  assumes "runs \<noteq> []" and "credit_bounds params rows (last runs) \<noteq> None"
  shows "\<exists>keep \<le> length runs - 1. same_roll params rows runs = Some keep \<and>
    (keep < length runs - 1 \<longrightarrow> credit_bounds params rows (runs ! keep) \<noteq> None \<and>
      (\<forall>i \<in> set (credit_indices params rows (fst (runs ! keep)) (snd (runs ! keep))).
       \<forall>j \<in> set (credit_indices params rows (fst (last runs)) (snd (last runs))).
         r_pts (rows ! i) < r_pts (rows ! j)))"
proof (cases "band_of params rows (fst (last runs)) (snd (last runs))")
  case (Some band)
  have "credit_bounds params rows (runs ! (length runs - 1)) \<noteq> None" using assms by (simp add: last_conv_nth)
  with same_roll_from_Some [of params rows runs "length runs - 1" band] assms(1)
  show ?thesis using Some by (simp add: same_roll_def last_conv_nth)
qed (simp add: same_roll_def)

section \<open>Reaching back\<close>

lemma time_order_facts:
  "set (time_order rows) = {..<length rows}" "length (time_order rows) = length rows"
  "sorted (map (\<lambda>i. r_pts (rows ! i)) (time_order rows))"
  by (auto simp: time_order_def)

lemma nth_index_or_len: "x \<in> set xs \<Longrightarrow> xs ! index_or_len x xs = x"
  by (induction xs) auto

lemma walk_back_le: "walk_back takes time limit at' \<le> at'"
proof (induction takes time limit at' rule: walk_back.induct)
  case (1 takes time limit at')
  then show ?case using position_before_less [of takes at']
    by (subst walk_back.simps) (fastforce split: option.splits)
qed

lemma time_order_earlier:
  assumes "i < length rows" and "k \<le> index_or_len i (time_order rows)"
  shows "time_order rows ! k < length rows" "r_pts (rows ! (time_order rows ! k)) \<le> r_pts (rows ! i)"
proof -
  let ?o = "time_order rows"
  have i: "i \<in> set ?o" using assms(1) time_order_facts(1) by blast
  then have at: "index_or_len i ?o < length ?o" by simp
  then have k: "k < length ?o" by (rule le_less_trans [OF assms(2)])
  show "?o ! k < length rows" using nth_mem [OF k] time_order_facts(1) [of rows] by blast
  have "map (\<lambda>i. r_pts (rows ! i)) ?o ! k \<le> map (\<lambda>i. r_pts (rows ! i)) ?o ! index_or_len i ?o"
    using time_order_facts(3) assms(2) at by (intro sorted_nth_mono) simp_all
  then show "r_pts (rows ! (?o ! k)) \<le> r_pts (rows ! i)" using at k nth_index_or_len [OF i] by simp
qed

lemma reach_back_Some:
  assumes "index < length rows" and "l < length rows" and "2 \<le> length (credit_indices params rows f l)"
    and "length raw = length rows"
    and "\<And>i. i < length rows \<Longrightarrow> is_credit params (rows ! i) \<Longrightarrow> is_credit params (raw ! i)"
  shows "\<exists>i. reach_back params rows index (f, l) own (Some raw) = Some i \<and> i < length rows \<and>
    r_pts (rows ! i) \<le> r_pts (rows ! index)"
proof (cases "band_of params rows f l")
  case (Some band)
  obtain s where s: "run_spacing params rows f l = Some s" using run_spacing_Some [OF assms(2,3)] by blast
  have "set (credit_indices params rows f l) \<subseteq> set (credit_indices params raw f l)"
    using assms(2,5) by auto
  then have "card (set (credit_indices params rows f l)) \<le> card (set (credit_indices params raw f l))"
    by (intro card_mono) simp_all
  moreover have "distinct (credit_indices params rows f l)" for rows by (simp add: credit_indices_def)
  ultimately have "2 \<le> length (credit_indices params raw f l)" using assms(3) by (simp add: distinct_card)
  then obtain s' where s': "run_spacing params raw f l = Some s'"
    using run_spacing_Some [of l raw] assms(2,4) by auto
  have index: "index \<in> set (time_order rows)" using assms(1) time_order_facts(1) by blast
  show ?thesis
    using time_order_earlier [OF assms(1) walk_back_le] Some s s' index by (simp add: reach_back_def Let_def)
qed (use assms(1) in \<open>simp add: reach_back_def\<close>)

section \<open>Rows without the overlays' boxes\<close>

text \<open>Rows as \<open>frames.decode_rows\<close> makes them: the count is the number of boxes.\<close>

definition counted :: "row list \<Rightarrow> bool" where
  "counted rows = list_all (\<lambda>row. case r_boxes row of None \<Rightarrow> True | Some boxes \<Rightarrow> r_count row = int (length boxes)) rows"

lemma drop_overlays_keeps [simp]:
  "r_pts (drop_overlays overlays row) = r_pts row" "r_luma (drop_overlays overlays row) = r_luma row"
  by (simp_all add: drop_overlays_def Let_def split: option.splits)

lemma drop_overlays_count:
  "(case r_boxes row of None \<Rightarrow> True | Some boxes \<Rightarrow> r_count row = int (length boxes)) \<Longrightarrow>
    r_count (drop_overlays overlays row) \<le> r_count row"
  by (auto simp: drop_overlays_def Let_def split: option.splits)

lemma without_overlays_keeps:
  "length (without_overlays rows overlays) = length rows"
  "map r_pts (without_overlays rows overlays) = map r_pts rows"
  "map r_luma (without_overlays rows overlays) = map r_luma rows"
  by (simp_all add: without_overlays_def comp_def)

lemma without_overlays_credit:
  assumes "counted rows" and "i < length rows" and "is_credit params (without_overlays rows overlays ! i)"
  shows "is_credit params (rows ! i)"
proof -
  have "r_count (drop_overlays overlays (rows ! i)) \<le> r_count (rows ! i)"
    using assms(1,2) by (intro drop_overlays_count) (simp add: counted_def list_all_length)
  then show ?thesis using assms(2,3)
    by (auto simp: without_overlays_def is_credit_def split: if_splits)
qed

end
