(* ===== verification/Rule_J_Sound.thy ===== *)
theory Rule_J_Sound
  imports Rule_J_Total
begin

text \<open>
  What the whole rule returns: the coarse start, the move to dense text, the refined start and the end,
  each with the bounds the callers rely on, and that none of them raises.
\<close>

section \<open>The coarse start\<close>

text \<open>The rows the rule reads: the decoded rows, or those without the overlays' boxes.\<close>

definition read_rows :: "row list \<Rightarrow> box list option \<Rightarrow> row list" where
  "read_rows rows overlays = (case overlays of None \<Rightarrow> rows | Some bs \<Rightarrow> without_overlays rows bs)"

definition coarse_ok :: "rule_params \<Rightarrow> row list \<Rightarrow> (nat \<times> nat) list \<Rightarrow> coarse \<Rightarrow> bool" where
  "coarse_ok params read runs c \<longleftrightarrow>
     co_index c < length read \<and> co_end_index c < length read \<and>
     runs \<noteq> [] \<and> fst (last runs) \<le> run_first c \<and> run_first c \<le> co_end_index c \<and> co_end_index c \<le> snd (last runs) \<and>
     is_credit params (read ! run_first c) \<and> is_credit params (read ! co_end_index c) \<and>
     co_pts_s c = r_pts (read ! co_index c) \<and> co_pts_s c \<le> r_pts (read ! run_first c)"

lemma read_rows_facts:
  assumes "counted rows"
  shows "length (read_rows rows overlays) = length rows"
    "map r_pts (read_rows rows overlays) = map r_pts rows"
    "i < length rows \<Longrightarrow> is_credit params (read_rows rows overlays ! i) \<Longrightarrow> is_credit params (rows ! i)"
  using without_overlays_keeps without_overlays_credit [OF assms]
  by (auto simp: read_rows_def split: option.splits)

lemma coarse_start_unfold:
  assumes "counted rows"
  shows "coarse_start params rows (map_option (without_overlays rows) overlays) black =
    (let runs = credit_runs params rows; read = read_rows rows overlays
     in if runs = [] then Some None
        else
          (case credit_bounds params read (last runs) of
             None \<Rightarrow> Some None
           | Some chosen \<Rightarrow>
               do {
                 anchor \<leftarrow> anchored params black read chosen;
                 keep \<leftarrow> same_roll params read runs;
                 (walk_run, walk_from, start) \<leftarrow>
                   (if keep = length runs - 1 then Some (last runs, chosen, anchor)
                    else
                      (case credit_bounds params read (runs ! keep) of
                         None \<Rightarrow> Some (last runs, chosen, anchor)
                       | Some bounds \<Rightarrow>
                           map_option (\<lambda>a. (runs ! keep, bounds, a)) (anchored params black read bounds)));
                 start \<leftarrow> reach_back params read start walk_from {fst walk_run..snd walk_run} (Some rows);
                 Some (Some \<lparr>co_index = start, co_end_index = snd chosen, co_pts_s = r_pts (read ! start),
                             co_run_index = (if start = anchor then None else Some anchor)\<rparr>)
               }))"
  using without_overlays_keeps(2) [of rows]
  by (cases overlays) (simp_all add: coarse_start_def read_rows_def Let_def)

lemma coarse_start_Some:
  assumes ok: "counted rows"
  shows "\<exists>found. coarse_start params rows (map_option (without_overlays rows) overlays) black = Some found \<and>
    (case found of None \<Rightarrow> True
     | Some c \<Rightarrow> coarse_ok params (read_rows rows overlays) (credit_runs params rows) c)"
proof -
  let ?runs = "credit_runs params rows" and ?read = "read_rows rows overlays"
  let ?ci = "\<lambda>run. credit_indices params ?read (fst run) (snd run)"
  note facts = read_rows_facts [OF ok, where overlays = overlays]
  show ?thesis
  proof (cases "?runs = [] \<or> credit_bounds params ?read (last ?runs) = None")
    case True
    then show ?thesis by (auto simp: coarse_start_unfold [OF ok] Let_def)
  next
    case False
    then obtain f l where b: "credit_bounds params ?read (last ?runs) = Some (f, l)" and ne: "?runs \<noteq> []"
      by auto
    have in_runs: "snd run < length ?read" if "run \<in> set ?runs" for run
      using credit_runs_ends(2) [of "fst run" "snd run" params rows] that facts(1) by simp
    have bounded: "f < l" "l < length ?read" "is_credit params (?read ! f)" "is_credit params (?read ! l)"
      "2 \<le> length (credit_indices params ?read f l)"
      if "credit_bounds params ?read run = Some (f, l)" "run \<in> set ?runs" for run f l
      using credit_boundsD [OF that(1)] in_runs [OF that(2)] by simp_all
    note last_run = bounded [OF b last_in_set [OF ne]]
    obtain a where a: "anchored params black ?read (f, l) = Some a" "a \<in> set (credit_indices params ?read f l)"
      using anchored_Some [OF last_run(2,1,3,4,5)] by blast
    have a_run: "a \<in> set (?ci (last ?runs))" by (rule credit_bounds_in [OF b a(2)])
    obtain keep where keep: "same_roll params ?read ?runs = Some keep" "keep \<le> length ?runs - 1"
      "keep < length ?runs - 1 \<Longrightarrow> credit_bounds params ?read (?runs ! keep) \<noteq> None \<and>
        (\<forall>i \<in> set (?ci (?runs ! keep)). \<forall>j \<in> set (?ci (last ?runs)). r_pts (?read ! i) < r_pts (?read ! j))"
      using same_roll_Some [OF ne, of params ?read] b by auto
    obtain run bounds start where walk:
      "(if keep = length ?runs - 1 then Some (last ?runs, (f, l), a)
        else (case credit_bounds params ?read (?runs ! keep) of
                None \<Rightarrow> Some (last ?runs, (f, l), a)
              | Some bounds \<Rightarrow> map_option (\<lambda>a. (?runs ! keep, bounds, a)) (anchored params black ?read bounds)))
       = Some (run, bounds, start)"
      and wb: "credit_bounds params ?read run = Some bounds" "run \<in> set ?runs"
      and st: "start \<in> set (credit_indices params ?read (fst bounds) (snd bounds))"
      and early: "r_pts (?read ! start) \<le> r_pts (?read ! a)"
    proof (cases "keep = length ?runs - 1")
      case True
      then show ?thesis using that [of "last ?runs" "(f, l)" a] b a ne by simp
    next
      case False
      then have lt: "keep < length ?runs - 1" using keep(2) by simp
      then obtain f' l' where b': "credit_bounds params ?read (?runs ! keep) = Some (f', l')" using keep(3) by auto
      have m: "?runs ! keep \<in> set ?runs" using lt by simp
      note earlier = bounded [OF b' m]
      obtain a' where a': "anchored params black ?read (f', l') = Some a'"
        "a' \<in> set (credit_indices params ?read f' l')"
        using anchored_Some [OF earlier(2,1,3,4,5)] by blast
      have "r_pts (?read ! a') < r_pts (?read ! a)"
        using keep(3) [OF lt] credit_bounds_in [OF b' a'(2)] a_run by blast
      then show ?thesis using that [of "?runs ! keep" "(f', l')" a'] False b' a' m by simp
    qed
    obtain f' l' where bounds: "bounds = (f', l')" by (cases bounds)
    note walked = bounded [OF wb(1) [unfolded bounds] wb(2)]
    have start: "start < length ?read" using st walked(2) bounds by simp
    obtain i where i: "reach_back params ?read start bounds {fst run..snd run} (Some rows) = Some i"
      "i < length ?read" "r_pts (?read ! i) \<le> r_pts (?read ! start)"
      using reach_back_Some [OF start walked(2,5), where raw = rows and own = "{fst run..snd run}"] facts(1,3)
      unfolding bounds by auto
    define c where "c = \<lparr>co_index = i, co_end_index = l, co_pts_s = r_pts (?read ! i),
      co_run_index = (if i = a then None else Some a)\<rparr>"
    have "coarse_start params rows (map_option (without_overlays rows) overlays) black = Some (Some c)"
      unfolding coarse_start_unfold [OF ok] Let_def b option.case if_not_P [OF ne] a(1) keep(1) walk Option.bind.bind_lunit prod.case
      by (simp add: i(1) c_def)
    moreover have "run_first c = a" by (simp add: run_first_def c_def)
    then have "coarse_ok params ?read ?runs c"
      using i(2,3) early a credit_boundsD [OF b] last_run(2) ne by (simp add: coarse_ok_def c_def)
    ultimately show ?thesis by auto
  qed
qed

section \<open>Starting on dense text\<close>

lemma dense_walk_facts:
  "dense_walk rows shown order since limit k \<le> k \<and>
   (since \<le> r_pts (rows ! (order ! k)) \<longrightarrow>
    since \<le> r_pts (rows ! (order ! dense_walk rows shown order since limit k)))"
  by (induction k) (auto simp: Let_def)

lemma start_on_dense_text_Some:
  assumes "co_index c < length rows" and "co_end_index c < length rows" and "length raw = length rows"
    and "co_pts_s c = r_pts (rows ! co_index c)"
  shows "\<exists>c'. start_on_dense_text params rows c raw shown dense_boxes = Some c' \<and>
    co_pts_s c \<le> co_pts_s c' \<and> co_end_index c' = co_end_index c \<and>
    co_index c' < length rows \<and> co_pts_s c' = r_pts (rows ! co_index c')"
proof -
  define run where "run = sort_key (\<lambda>i. r_pts (rows ! i)) [run_first c..<co_end_index c + 1]"
  define found where
    "found = find (\<lambda>i. r_pts (rows ! i) \<ge> co_pts_s c \<and> dense_text params dense_boxes (rows ! i)) run"
  let ?stay = "dense_text params dense_boxes (rows ! co_index c) \<or> found = None \<or>
    credit_bounds params raw (run_first c, co_end_index c) = None"
  show ?thesis
  proof (cases ?stay)
    case True
    then have "start_on_dense_text params rows c raw shown dense_boxes = Some c"
      unfolding start_on_dense_text_def Let_def run_def [symmetric] found_def [symmetric]
      by (auto split: option.splits)
    then show ?thesis using assms by simp
  next
    case False
    then obtain i b where i: "found = Some i"
      and b: "credit_bounds params raw (run_first c, co_end_index c) = Some b" by auto
    then have "i \<in> set run" and since: "co_pts_s c \<le> r_pts (rows ! i)" using find_SomeD found_def by metis+
    then have len: "i < length rows" using assms(2) by (auto simp: run_def)
    have "2 \<le> length (credit_indices params raw (run_first c) (co_end_index c))"
      using False by (auto simp: credit_bounds_def Let_def split: if_splits)
    then obtain s where s: "run_spacing params raw (run_first c) (co_end_index c) = Some s"
      using run_spacing_Some [of "co_end_index c" raw] assms(2,3) by auto
    define at' where "at' = index_or_len i (time_order rows)"
    define limit where "limit = min (p_gap_s params) (fl (ANCHOR_SPACING_FACTOR * s))"
    define k where "k = dense_walk rows shown (time_order rows) (co_pts_s c) limit at'"
    have "start_on_dense_text params rows c raw shown dense_boxes =
      Some \<lparr>co_index = time_order rows ! k, co_end_index = co_end_index c,
            co_pts_s = r_pts (rows ! (time_order rows ! k)), co_run_index = None\<rparr>"
      using False i b s unfolding start_on_dense_text_def Let_def run_def [symmetric] found_def [symmetric]
      by (simp add: k_def limit_def at'_def)
    moreover have "i \<in> set (time_order rows)" using len time_order_facts(1) by blast
    then have "time_order rows ! at' = i" unfolding at'_def by (rule nth_index_or_len)
    then have "k \<le> at'" "co_pts_s c \<le> r_pts (rows ! (time_order rows ! k))"
      using dense_walk_facts [of rows shown "time_order rows" "co_pts_s c" limit at'] since by (simp_all add: k_def)
    moreover have "time_order rows ! k < length rows"
      using time_order_earlier(1) [OF len] calculation(2) unfolding at'_def by blast
    ultimately show ?thesis by simp
  qed
qed

section \<open>The refined start\<close>

lemma in_refine_window [simp]:
  "j \<in> set (refine_window fine lo hi) \<longleftrightarrow> j < length fine \<and> lo \<le> r_pts (fine ! j) \<and> r_pts (fine ! j) \<le> hi"
  by (auto simp: refine_window_def)

lemma fade_walk_facts:
  "r_pts (rows ! fade_walk rows floor_s i) \<le> r_pts (rows ! i) \<and>
   (floor_s \<le> r_pts (rows ! i) \<longrightarrow> floor_s \<le> r_pts (rows ! fade_walk rows floor_s i))"
  by (induction i) auto

lemma roll_walk_in: "roll_walk fine roll j = j \<or> roll_walk fine roll j \<in> set roll"
proof (induction fine roll j rule: roll_walk.induct)
  case (1 fine roll j)
  show ?case
  proof (cases "filter (\<lambda>k. k < j \<and> fl (r_pts (fine ! j) - r_pts (fine ! k)) \<le> REFINE_GAP_S) roll")
    case (Cons k ks)
    have step: "roll_walk fine roll j = roll_walk fine roll k" using Cons by (subst roll_walk.simps) simp
    have "k \<in> set roll" using filter_ConsD [OF Cons] by blast
    then show ?thesis using "1.IH" [OF Cons] step by metis
  qed (simp add: roll_walk.simps [of fine roll j])
qed

lemma roll_walk_stops:
  "k \<in> set roll \<Longrightarrow> k < roll_walk fine roll j \<Longrightarrow>
    REFINE_GAP_S < fl (r_pts (fine ! roll_walk fine roll j) - r_pts (fine ! k))"
proof (induction fine roll j rule: roll_walk.induct)
  case (1 fine roll j)
  let ?steps = "filter (\<lambda>k. k < j \<and> fl (r_pts (fine ! j) - r_pts (fine ! k)) \<le> REFINE_GAP_S) roll"
  show ?case
  proof (cases ?steps)
    case Nil
    then have "roll_walk fine roll j = j" by (subst roll_walk.simps) simp
    then show ?thesis using Nil "1.prems" unfolding filter_empty_conv by (simp add: not_le)
  next
    case (Cons i rest)
    then have "roll_walk fine roll j = roll_walk fine roll i" by (subst roll_walk.simps) simp
    then show ?thesis using "1.IH" [OF Cons] "1.prems" by simp
  qed
qed

lemma refine_walk_in:
  assumes "refine_walk params rows c fine before_s = (window, Some j, from_roll)"
  shows "j \<in> set (refine_window fine (fl (co_pts_s c - before_s)) (fl (co_pts_s c + REFINE_AFTER_S)))"
proof -
  let ?w = "refine_window fine (fl (co_pts_s c - before_s)) (fl (co_pts_s c + REFINE_AFTER_S))"
  define roll where "roll = filter (\<lambda>j. is_credit params (fine ! j) \<or>
    (case band_of params rows (run_first c) (co_end_index c) of None \<Rightarrow> False | Some b \<Rightarrow> in_band b (fine ! j))) ?w"
  define near where "near = filter (\<lambda>j. r_pts (fine ! j) \<ge> fl (co_pts_s c - REFINE_GAP_S)) roll"
  define walk_from where
    "walk_from = (if near \<noteq> [] then near else filter (\<lambda>j. is_credit params (fine ! j)) ?w)"
  have "walk_from \<noteq> []" and j: "j = roll_walk fine roll (last walk_from)"
    using assms unfolding refine_walk_def Let_def roll_def [symmetric] near_def [symmetric] walk_from_def [symmetric]
    by (auto split: if_splits)
  then have "last walk_from \<in> set walk_from" by simp
  moreover have "set roll \<subseteq> set ?w" "set walk_from \<subseteq> set ?w" by (auto simp: roll_def near_def walk_from_def)
  ultimately show ?thesis using roll_walk_in [of fine roll "last walk_from"] j by (metis subsetD)
qed

lemma refine_walk_window:
  "fst (refine_walk params rows c fine before_s) =
    refine_window fine (fl (co_pts_s c - before_s)) (fl (co_pts_s c + REFINE_AFTER_S))"
  by (simp add: refine_walk_def Let_def)

section \<open>The end\<close>

lemma run_end_credit:
  assumes "credit = by_time (filter (is_credit params) (run_rows rows c))" and "credit \<noteq> []"
  shows "r_pts (last credit) = last_credit_s params rows c"
proof -
  let ?xs = "filter (is_credit params) (run_rows rows c)"
  have set_eq: "set credit = set ?xs" and s: "sorted (map r_pts credit)" using assms(1) by (simp_all add: by_time_def)
  have ne: "?xs \<noteq> []" using assms(2) set_eq by (metis set_empty)
  have "Max (r_pts ` set ?xs) = r_pts (last credit)"
  proof (rule Max_eqI)
    show "r_pts (last credit) \<in> r_pts ` set ?xs" using last_in_set [OF assms(2)] set_eq by blast
    fix t assume "t \<in> r_pts ` set ?xs"
    then have "t \<in> set (map r_pts credit)" using set_eq by simp
    then obtain i where i: "i < length credit" "t = map r_pts credit ! i" by (auto simp: in_set_conv_nth)
    then have "t \<le> map r_pts credit ! (length credit - 1)" using sorted_nth_mono [OF s, of i "length credit - 1"] by simp
    then show "t \<le> r_pts (last credit)" using assms(2) by (simp add: last_conv_nth)
  qed simp
  then show ?thesis using ne by (simp add: last_credit_s_def)
qed

lemma coarse_end_s_row [simp]:
  "co_end_index c < length rows \<Longrightarrow> coarse_end_s params rows c = Some (last_credit_s params rows c)"
  by (simp add: coarse_end_s_def)

lemma end_keyframes_Some:
  assumes row: "co_end_index c < length rows"
  shows "\<exists>t scene_s. end_keyframes params rows c = Some (t, scene_s) \<and>
    (case scene_s of None \<Rightarrow> t = last_credit_s params rows c
     | Some s \<Rightarrow> t < s \<and> s < last_credit_s params rows c)"
proof -
  define credit where "credit = by_time (filter (is_credit params) (run_rows rows c))"
  define scene where "scene = map r_pts (filter (\<lambda>row. r_pts (credit ! (length credit - 2)) < r_pts row \<and>
    r_pts row < r_pts (last credit) \<and> r_count row = 0 \<and> r_luma row \<ge> p_dark params) (run_rows rows c))"
  note unfold = end_keyframes_def Let_def credit_def [symmetric] scene_def [symmetric]
  show ?thesis
  proof (cases "length credit < 3")
    case True
    then show ?thesis unfolding unfold by (simp add: row)
  next
    case False
    then have "credit \<noteq> []" by auto
    then have latest: "r_pts (last credit) = last_credit_s params rows c" by (rule run_end_credit [OF credit_def])
    have "2 \<le> length (butlast credit)" using False by simp
    then obtain s where s: "typical_spacing (butlast credit) = Some s" using typical_spacing_Some by blast
    have "r_pts (credit ! (length credit - 2)) < Min (set scene) \<and> Min (set scene) < r_pts (last credit)"
      if "scene \<noteq> []"
    proof -
      have "Min (set scene) \<in> set scene" using that by (intro Min_in) simp_all
      then show ?thesis by (auto simp: scene_def)
    qed
    then show ?thesis using False s latest unfolding unfold by auto
  qed
qed

lemma credit_walk_in: "credit_walk fine credit j = j \<or> credit_walk fine credit j \<in> set credit"
proof (induction fine credit j rule: credit_walk.induct)
  case (1 fine credit j)
  let ?later = "filter (\<lambda>k. k > j \<and> fl (r_pts (fine ! k) - r_pts (fine ! j)) \<le> REFINE_GAP_S) credit"
  show ?case
  proof (cases "?later = []")
    case False
    have step: "credit_walk fine credit j = credit_walk fine credit (last ?later)"
      using False by (subst credit_walk.simps) (simp only: Let_def if_False)
    have "last ?later \<in> set credit" using last_filterD [OF refl False] by blast
    then show ?thesis using "1.IH" [OF refl False] step by metis
  qed (simp add: credit_walk.simps [of fine credit j])
qed

lemma walk_forward_le:
  "walk_forward params fine t reach_s = t \<or> walk_forward params fine t reach_s \<le> reach_s"
proof (cases "filter (\<lambda>j. is_credit params (fine ! j)) (refine_window fine (fl (t - REFINE_END_BEFORE_S)) reach_s)")
  case (Cons j js)
  let ?w = "refine_window fine (fl (t - REFINE_END_BEFORE_S)) reach_s"
  have "set (j # js) \<subseteq> set ?w" unfolding Cons [symmetric] by auto
  then have "credit_walk fine (j # js) j \<in> set ?w" using credit_walk_in [of fine "j # js" j] by auto
  then show ?thesis using Cons by (simp add: walk_forward_def)
qed (simp add: walk_forward_def)

lemma refine_end_cases:
  assumes "co_end_index c < length rows"
  shows "\<exists>e. refine_end params rows c fine REFINE_END_AFTER_S = Some e \<and>
    (e \<le> last_credit_s params rows c \<or>
     e = walk_forward params fine (last_credit_s params rows c)
           (fl (last_credit_s params rows c + REFINE_END_AFTER_S)))"
proof -
  obtain t scene_s where t: "end_keyframes params rows c = Some (t, scene_s)"
    and ends: "case scene_s of None \<Rightarrow> t = last_credit_s params rows c
               | Some s \<Rightarrow> t < s \<and> s < last_credit_s params rows c"
    using end_keyframes_Some [OF assms] by blast
  show ?thesis
  proof (cases scene_s)
    case (Some s)
    have "walk_forward params fine t (min (fl (t + REFINE_END_AFTER_S)) s) \<le> last_credit_s params rows c"
      using walk_forward_le [of params fine t "min (fl (t + REFINE_END_AFTER_S)) s"] ends Some by auto
    then show ?thesis using t Some by (simp add: refine_end_def)
  qed (use t ends in \<open>simp add: refine_end_def\<close>)
qed

lemma keeps_a_scene_after_mono:
  "e \<le> e' \<Longrightarrow> keeps_a_scene_after e' duration_s \<Longrightarrow> keeps_a_scene_after e duration_s"
  unfolding keeps_a_scene_after_def using fl_mono [of "duration_s - e'" "duration_s - e"] by simp

lemma credits_end_keeps:
  assumes row: "co_end_index c < length rows"
  shows "\<exists>answer. credits_end params rows c fine duration_s = Some answer \<and>
    (case answer of None \<Rightarrow> True | Some end_s \<Rightarrow> keeps_a_scene_after end_s duration_s)"
proof -
  let ?latest = "last_credit_s params rows c"
  let ?walked = "walk_forward params fine ?latest (fl (?latest + REFINE_END_AFTER_S))"
  obtain e where e: "refine_end params rows c fine REFINE_END_AFTER_S = Some e" "e \<le> ?latest \<or> e = ?walked"
    using refine_end_cases [OF row] by blast
  show ?thesis
  proof (cases "keeps_a_scene_after ?latest duration_s \<and> keeps_a_scene_after ?walked duration_s")
    case True
    then have "keeps_a_scene_after e duration_s" using e(2) keeps_a_scene_after_mono by blast
    then show ?thesis using True e(1) row by (simp add: credits_end_def)
  qed (use row in \<open>auto simp: credits_end_def\<close>)
qed

end
