(* ===== verification/Rule_J_Claims.thy ===== *)
theory Rule_J_Claims
  imports Rule_J_Sound
begin

text \<open>
  The properties of rule J: what its runs and overlays are, that it never raises, and the bounds of
  every start and end it answers.
\<close>

section \<open>Overlays\<close>

lemma best_group_fold:
  "(case fold (\<lambda>g (best, best_iou).
       (let overlap = iou box (g_box (groups ! g))
        in if overlap \<ge> OVERLAY_IOU \<and> overlap > best_iou then (Some g, overlap) else (best, best_iou)))
       [0..<n] (None, 0) of
     (None, best_iou) \<Rightarrow> best_iou = 0 \<and> (\<forall>g < n. iou box (g_box (groups ! g)) < OVERLAY_IOU)
   | (Some g, best_iou) \<Rightarrow> g < n \<and> OVERLAY_IOU \<le> iou box (g_box (groups ! g)))"
proof (induction n)
  case (Suc n)
  then show ?case
    by (auto simp: Let_def less_Suc_eq OVERLAY_IOU_def split: option.splits prod.splits)
qed simp

lemma best_group_None:
  "best_group groups box = None \<Longrightarrow> g < length groups \<Longrightarrow> iou box (g_box (groups ! g)) < OVERLAY_IOU"
  using best_group_fold [where box = box and groups = groups and n = "length groups"]
  by (auto simp: best_group_def split: prod.splits option.splits)

lemma best_group_Some:
  "best_group groups box = Some g \<Longrightarrow> g < length groups \<and> OVERLAY_IOU \<le> iou box (g_box (groups ! g))"
  using best_group_fold [where box = box and groups = groups and n = "length groups"]
  by (auto simp: best_group_def split: prod.splits)

definition sightings :: "box list \<Rightarrow> box \<Rightarrow> nat" where
  "sightings bs b = length (filter (\<lambda>x. x = b \<or> OVERLAY_IOU \<le> iou x b) bs)"

text \<open>No group's box overlaps an earlier group's, and each was seen at most as often as boxes lie on it.\<close>

definition groups_ok :: "box list \<Rightarrow> group list \<Rightarrow> bool" where
  "groups_ok bs groups \<longleftrightarrow>
     sorted_wrt (\<lambda>a b. iou b a < OVERLAY_IOU) (map g_box groups) \<and>
     (\<forall>g \<in> set groups. g_seen g \<le> sightings bs (g_box g))"

lemma gather_box_ok:
  assumes "groups_ok bs groups"
  shows "groups_ok (bs @ [b]) (gather_box pts b groups)"
proof (cases "best_group groups b")
  case None
  have "iou b (g_box g) < OVERLAY_IOU" if "g \<in> set groups" for g
    using that best_group_None [OF None] by (metis in_set_conv_nth)
  then show ?thesis using assms None
    by (auto simp: groups_ok_def gather_box_def sorted_wrt_append sightings_def)
next
  case (Some i)
  note i = best_group_Some [OF Some]
  define g where "g = (groups ! i)\<lparr>g_first_s := min (g_first_s (groups ! i)) pts,
    g_last_s := max (g_last_s (groups ! i)) pts, g_seen := g_seen (groups ! i) + 1\<rparr>"
  have g: "g_box g = g_box (groups ! i)" "g_seen g = g_seen (groups ! i) + 1" by (simp_all add: g_def)
  have out: "gather_box pts b groups = groups[i := g]" by (simp add: gather_box_def Some g_def)
  have "map g_box (groups[i := g]) = map g_box groups" using i g(1) by (simp add: map_update list_update_same_conv)
  moreover have "g_seen h \<le> sightings (bs @ [b]) (g_box h)" if "h \<in> set (groups[i := g])" for h
  proof -
    have old: "g_seen x \<le> sightings bs (g_box x)" if "x \<in> set groups" for x
      using assms that by (simp add: groups_ok_def)
    have grow: "sightings bs x \<le> sightings (bs @ [b]) x" for x by (simp add: sightings_def)
    have "h = g \<or> h \<in> set groups" using that set_update_subset_insert [of groups i g] by auto
    then show ?thesis
    proof
      assume "h = g"
      moreover have "sightings (bs @ [b]) (g_box (groups ! i)) = sightings bs (g_box (groups ! i)) + 1"
        using i by (simp add: sightings_def)
      ultimately show ?thesis using old [of "groups ! i"] i g by simp
    next
      assume "h \<in> set groups"
      then show ?thesis using old [of h] grow [of "g_box h"] by simp
    qed
  qed
  ultimately show ?thesis using assms out by (simp add: groups_ok_def)
qed

lemma gather_row_ok:
  "groups_ok bs groups \<Longrightarrow> groups_ok (bs @ boxes) (fold (gather_box pts) boxes groups)"
proof (induction boxes arbitrary: bs groups)
  case (Cons b boxes)
  then show ?case using Cons.IH [OF gather_box_ok [OF Cons.prems, of b pts]] by simp
qed simp

lemma gather_story_ok:
  "groups_ok bs groups \<Longrightarrow>
    groups_ok (bs @ concat (map boxes_of story))
      (fold (\<lambda>row. fold (gather_box (r_pts row)) (boxes_of row)) story groups)"
proof (induction story arbitrary: bs groups)
  case (Cons row story)
  then show ?case
    using Cons.IH [OF gather_row_ok [OF Cons.prems, of "boxes_of row" "r_pts row"]] by simp
qed simp

lemma sightings_filter:
  "sightings (concat (map f (filter P xs))) b \<le> sightings (concat (map f xs)) b"
  by (induction xs) (auto simp: sightings_def)

text \<open>A place \<open>overlay_boxes\<close> calls an overlay holds at least four boxes of the rows on it, and no
  overlay overlaps an earlier one by half.\<close>

theorem overlay_boxes_seen:
  "sorted_wrt (\<lambda>a b. iou b a < OVERLAY_IOU) (overlay_boxes params rows) \<and>
   set (overlay_boxes params rows) \<subseteq>
     {b. OVERLAY_LEAST \<le> length (filter (\<lambda>x. x = b \<or> OVERLAY_IOU \<le> iou x b) (concat (map boxes_of rows)))}"
proof (cases "overlay_boxes params rows = []")
  case False
  then obtain run_from story_s where nonempty: "overlay_boxes params rows =
    (let story = filter (\<lambda>row. r_pts row < run_from) rows;
         groups = fold (\<lambda>row. fold (gather_box (r_pts row)) (boxes_of row)) story [];
         least = max (of_nat OVERLAY_LEAST) (fl (OVERLAY_KEYFRAME_SHARE * of_nat (length story)))
     in map g_box (filter (\<lambda>g. fl (g_last_s g - g_first_s g) \<ge> fl (OVERLAY_SPAN_SHARE * story_s) \<and>
          of_nat (g_seen g) \<ge> least) groups))"
    by (auto simp: overlay_boxes_def Let_def split: list.splits prod.splits if_splits)
  define story where "story = filter (\<lambda>row. r_pts row < run_from) rows"
  define groups where "groups = fold (\<lambda>row. fold (gather_box (r_pts row)) (boxes_of row)) story []"
  define keep where "keep = (\<lambda>g :: group. fl (g_last_s g - g_first_s g) \<ge> fl (OVERLAY_SPAN_SHARE * story_s) \<and>
    of_nat (g_seen g) \<ge> max (of_nat OVERLAY_LEAST) (fl (OVERLAY_KEYFRAME_SHARE * of_nat (length story))))"
  have out: "overlay_boxes params rows = map g_box (filter keep groups)"
    unfolding nonempty Let_def story_def [symmetric] groups_def [symmetric] keep_def ..
  have ok: "groups_ok (concat (map boxes_of story)) groups"
    using gather_story_ok [of "[]" "[]" story] by (simp add: groups_def groups_ok_def)
  have "OVERLAY_LEAST \<le> sightings (concat (map boxes_of rows)) (g_box g)" if "g \<in> set (filter keep groups)" for g
  proof -
    have "(of_nat OVERLAY_LEAST :: rat) \<le> of_nat (g_seen g)" using that by (simp add: keep_def)
    then have "OVERLAY_LEAST \<le> g_seen g" by simp
    also have "\<dots> \<le> sightings (concat (map boxes_of story)) (g_box g)" using ok that by (simp add: groups_ok_def)
    also have "\<dots> \<le> sightings (concat (map boxes_of rows)) (g_box g)" unfolding story_def by (rule sightings_filter)
    finally show ?thesis .
  qed
  moreover have "sorted_wrt (\<lambda>a b. iou b a < OVERLAY_IOU) (map g_box (filter keep groups))"
    using ok by (simp add: groups_ok_def sorted_wrt_map sorted_wrt_filter)
  ultimately show ?thesis unfolding out by (auto simp: sightings_def)
qed simp

section \<open>Runs\<close>

text \<open>C33: \<open>credit_runs\<close> answers the chains of credit frames that are at least \<open>run_s\<close> long: every credit
  frame is in exactly one chain, neighbours of a chain are joined by the time between them or by dark
  frames only, and the answered runs are in order and apart.\<close>

theorem credit_runs_exact:
  "credit_runs params rows =
     filter (\<lambda>(first, last'). p_run_s params \<le> fl (r_pts (rows ! last') - r_pts (rows ! first)))
       (map (\<lambda>c. (hd c, last c)) (chains (joins params rows) (all_credit params rows (length rows)))) \<and>
   concat (chains (joins params rows) (all_credit params rows (length rows))) =
     filter (\<lambda>i. is_credit params (rows ! i)) [0..<length rows] \<and>
   sorted_wrt (\<lambda>r s. snd r < fst s) (credit_runs params rows) \<and>
   set (credit_runs params rows) \<subseteq>
     {(a, b). a \<le> b \<and> b < length rows \<and> is_credit params (rows ! a) \<and> is_credit params (rows ! b)}"
proof (intro conjI)
  show "credit_runs params rows =
     filter (\<lambda>(first, last'). p_run_s params \<le> fl (r_pts (rows ! last') - r_pts (rows ! first)))
       (map (\<lambda>c. (hd c, last c)) (chains (joins params rows) (all_credit params rows (length rows))))"
    by (simp only: credit_runs_chains chain_ends_def)
  show "concat (chains (joins params rows) (all_credit params rows (length rows))) =
     filter (\<lambda>i. is_credit params (rows ! i)) [0..<length rows]"
    by (simp only: concat_chains all_credit_def)
  show "set (credit_runs params rows) \<subseteq>
     {(a, b). a \<le> b \<and> b < length rows \<and> is_credit params (rows ! a) \<and> is_credit params (rows ! b)}"
    using credit_runs_ends by blast
qed (rule credit_runs_ordered)

section \<open>The starts\<close>

lemma coarse_start_none:
  assumes "counted rows"
  shows "coarse_start params rows (map_option (without_overlays rows) overlays) black = Some None \<longleftrightarrow>
    credit_runs params rows = [] \<or>
    credit_bounds params (read_rows rows overlays) (last (credit_runs params rows)) = None"
  unfolding coarse_start_unfold [OF assms] Let_def
  by (auto simp: bind_eq_Some_conv split: option.splits prod.splits)

text \<open>C32: where the rows have their boxes counted, and are read as they are or without some overlays' boxes,
  \<open>coarse_start\<close> raises nothing.  It finds no start exactly when there is no credit run, or the last run has too
  few credit frames left on the rows as read.  Where it finds one, the frame the last run is anchored at and the frame it
  ends at lie in that run and are credit frames as read; the start itself is one of the rows, and reaching back over
  the same roll can move it before the run but never after the anchor's time.\<close>

theorem coarse_start_in_last_run:
  assumes "counted rows"
  shows "case coarse_start params rows (map_option (without_overlays rows) overlays) black of
      None \<Rightarrow> False
    | Some None \<Rightarrow> credit_runs params rows = [] \<or>
        credit_bounds params (read_rows rows overlays) (last (credit_runs params rows)) = None
    | Some (Some c) \<Rightarrow>
        (let read = read_rows rows overlays; run = last (credit_runs params rows)
         in credit_runs params rows \<noteq> [] \<and> credit_bounds params read run \<noteq> None \<and>
            co_index c < length rows \<and> co_pts_s c = r_pts (read ! co_index c) \<and>
            fst run \<le> run_first c \<and> run_first c \<le> co_end_index c \<and> co_end_index c \<le> snd run \<and>
            is_credit params (read ! run_first c) \<and> is_credit params (read ! co_end_index c) \<and>
            co_pts_s c \<le> r_pts (read ! run_first c))"
proof -
  obtain found where f: "coarse_start params rows (map_option (without_overlays rows) overlays) black = Some found"
    and ok: "case found of None \<Rightarrow> True
      | Some c \<Rightarrow> coarse_ok params (read_rows rows overlays) (credit_runs params rows) c"
    using coarse_start_Some [OF assms] by blast
  show ?thesis
  proof (cases found)
    case None
    with f have none: "coarse_start params rows (map_option (without_overlays rows) overlays) black = Some None"
      by simp
    then have "credit_runs params rows = [] \<or>
        credit_bounds params (read_rows rows overlays) (last (credit_runs params rows)) = None"
      by (simp only: coarse_start_none [OF assms])
    then show ?thesis unfolding none option.case .
  next
    case (Some c)
    then have "credit_runs params rows \<noteq> []"
      "credit_bounds params (read_rows rows overlays) (last (credit_runs params rows)) \<noteq> None"
      using f coarse_start_none [OF assms, of params overlays black] by simp_all
    with Some f ok read_rows_facts(1) [OF assms, of overlays] show ?thesis
      by (simp add: coarse_ok_def Let_def)
  qed
qed

definition card_row :: "rat \<Rightarrow> int \<Rightarrow> rat \<Rightarrow> row" where
  "card_row t n luma = \<lparr>r_pts = t, r_count = n, r_luma = luma, r_boxes = None\<rparr>"

definition sample_tail :: "row list" where
  "sample_tail = [card_row 0 0 80, card_row 10 0 80, card_row 50 3 20, card_row 60 4 20, card_row 70 4 20]"

lemma sample_tail_counted: "counted sample_tail"
  by (simp add: counted_def sample_tail_def card_row_def)

definition sample_coarse :: coarse where
  "sample_coarse = \<lparr>co_index = 2, co_end_index = 4, co_pts_s = 50, co_run_index = None\<rparr>"

lemma sample_coarse_start:
  "coarse_start RULE_J sample_tail (map_option (without_overlays sample_tail) (Some [])) True =
    Some (Some sample_coarse)"
  by code_simp

theorem coarse_start_in_last_run_witness:
  "coarse_start RULE_J sample_tail (map_option (without_overlays sample_tail) (Some [])) True =
     Some (Some sample_coarse) \<and>
   fst (last (credit_runs RULE_J sample_tail)) \<le> run_first sample_coarse \<and>
   co_end_index sample_coarse \<le> snd (last (credit_runs RULE_J sample_tail))"
  using coarse_start_in_last_run [OF sample_tail_counted, of RULE_J "Some []" True]
  unfolding sample_coarse_start by (simp add: sample_coarse_start [simplified] Let_def)

text \<open>C34: \<open>credits_start\<close> answers, with a start or without one, on all rows with their boxes counted: no
  step of the rule raises.\<close>

theorem credits_start_returns:
  assumes "counted rows"
  shows "\<exists>answer. credits_start fsum params rows fine before_s = Some answer"
proof -
  define bs where "bs = overlay_boxes params rows"
  obtain found where f: "coarse_start params rows (Some (without_overlays rows bs)) True = Some found"
    and ok: "case found of None \<Rightarrow> True
      | Some c \<Rightarrow> coarse_ok params (read_rows rows (Some bs)) (credit_runs params rows) c"
    using coarse_start_Some [OF assms, of params "Some bs" True] by auto
  show ?thesis
  proof (cases found)
    case (Some c)
    have "rows \<noteq> []" using ok Some read_rows_facts(1) [OF assms, of "Some bs"] by (auto simp: coarse_ok_def)
    then have "\<exists>through. text_all_through rows c = Some through"
      by (auto simp: text_all_through_def too_little_story_def first_s_def Let_def)
    moreover have "co_end_index c < length (without_overlays rows bs)"
      using ok Some by (simp add: coarse_ok_def read_rows_def)
    ultimately show ?thesis using f Some unfolding credits_start_def Let_def bs_def [symmetric] by auto
  qed (use f in \<open>simp add: credits_start_def bs_def Let_def\<close>)
qed

theorem credits_start_returns_witness:
  "\<exists>answer. credits_start sum_list RULE_J sample_tail [] REFINE_BEFORE_S = Some answer"
  by (rule credits_start_returns [OF sample_tail_counted])

text \<open>\<open>start_on_dense_text\<close> raises nothing and only ever moves the start later; the run's end stays.\<close>

theorem dense_start_only_later:
  assumes "co_index c < length rows" and "co_end_index c < length rows" and "length raw = length rows"
    and "co_pts_s c = r_pts (rows ! co_index c)"
  shows "\<exists>c'. start_on_dense_text params rows c raw shown dense_boxes = Some c' \<and>
    co_pts_s c \<le> co_pts_s c' \<and> co_end_index c' = co_end_index c \<and>
    co_index c' < length rows \<and> co_pts_s c' = r_pts (rows ! co_index c')"
  by (rule start_on_dense_text_Some [OF assms])

theorem dense_start_only_later_witness:
  "\<exists>c'. start_on_dense_text RULE_J sample_tail sample_coarse sample_tail sample_tail 6 = Some c' \<and>
    co_pts_s sample_coarse \<le> co_pts_s c' \<and> co_end_index c' = co_end_index sample_coarse \<and>
    co_index c' < length sample_tail \<and> co_pts_s c' = r_pts (sample_tail ! co_index c')"
  by (rule dense_start_only_later) (simp_all add: sample_coarse_def sample_tail_def card_row_def)

text \<open>The refined start is the coarse start or lies in the window of frames around it; without frames
  in the window it is not after the coarse start's row.\<close>

theorem refine_start_bounds:
  "if refine_window fine (fl (co_pts_s c - before_s)) (fl (co_pts_s c + REFINE_AFTER_S)) = []
   then refine_start params rows c fine before_s \<le> r_pts (rows ! co_index c)
   else refine_start params rows c fine before_s = co_pts_s c \<or>
        (fl (co_pts_s c - before_s) \<le> refine_start params rows c fine before_s \<and>
         refine_start params rows c fine before_s \<le> fl (co_pts_s c + REFINE_AFTER_S))"
proof -
  obtain window j near where w: "refine_walk params rows c fine before_s = (window, j, near)"
    by (cases "refine_walk params rows c fine before_s")
  have win: "window = refine_window fine (fl (co_pts_s c - before_s)) (fl (co_pts_s c + REFINE_AFTER_S))"
    using refine_walk_window [of params rows c fine before_s] w by simp
  show ?thesis
  proof (cases j)
    case None
    then show ?thesis using fade_walk_facts [of rows "- 1" "co_index c"] win
      by (simp add: refine_start_def w fade_back_def)
  next
    case (Some i)
    have i: "i \<in> set window" using refine_walk_in [OF w [unfolded Some]] win by simp
    then have "window \<noteq> []" by auto
    then show ?thesis using Some i fade_walk_facts [of fine "fl (co_pts_s c - before_s)" i] win
      by (auto simp: refine_start_def w fade_back_def)
  qed
qed

text \<open>One step of the walk: an earlier roll frame at most \<open>REFINE_GAP_S\<close> away.\<close>

definition roll_steps :: "row list \<Rightarrow> nat list \<Rightarrow> (nat \<times> nat) set" where
  "roll_steps fine roll =
     {(j, k). k \<in> set roll \<and> k < j \<and> fl (r_pts (fine ! j) - r_pts (fine ! k)) \<le> REFINE_GAP_S}"

lemma roll_walk_reached: "(j, roll_walk fine roll j) \<in> (roll_steps fine roll)\<^sup>*"
proof (induction fine roll j rule: roll_walk.induct)
  case (1 fine roll j)
  let ?steps = "filter (\<lambda>k. k < j \<and> fl (r_pts (fine ! j) - r_pts (fine ! k)) \<le> REFINE_GAP_S) roll"
  show ?case
  proof (cases ?steps)
    case Nil
    then show ?thesis by (simp add: roll_walk.simps [of fine roll j])
  next
    case (Cons k ks)
    have "(j, k) \<in> roll_steps fine roll" using filter_ConsD [OF Cons] by (simp add: roll_steps_def)
    moreover have "roll_walk fine roll j = roll_walk fine roll k" using Cons by (subst roll_walk.simps) simp
    ultimately show ?thesis using "1.IH" [OF Cons] by (simp add: converse_rtrancl_into_rtrancl)
  qed
qed

text \<open>C35: on frames in order the walk back over the roll, which always takes the earliest frame within one
  step, ends on the earliest frame any sequence of such steps reaches.\<close>

theorem roll_walk_earliest:
  assumes "sorted (map r_pts fine)" and "j < length fine"
  shows "(j, roll_walk fine roll j) \<in> (roll_steps fine roll)\<^sup>* \<and>
    {k. (j, k) \<in> (roll_steps fine roll)\<^sup>*} \<subseteq> {roll_walk fine roll j..j}"
proof -
  let ?r = "roll_walk fine roll j"
  have "?r \<le> k \<and> k \<le> j" if "(j, k) \<in> (roll_steps fine roll)\<^sup>*" for k
    using that
  proof (induction rule: rtrancl_induct)
    case base
    have "a \<le> j" if "(j, a) \<in> (roll_steps fine roll)\<^sup>*" for a
      using that by (induction rule: rtrancl_induct) (auto simp: roll_steps_def)
    then show ?case using roll_walk_reached by blast
  next
    case (step a b)
    then have b: "b \<in> set roll" "b < a" "fl (r_pts (fine ! a) - r_pts (fine ! b)) \<le> REFINE_GAP_S"
      by (simp_all add: roll_steps_def)
    have "?r \<le> b"
    proof (rule ccontr)
      assume "\<not> ?r \<le> b"
      then have far: "REFINE_GAP_S < fl (r_pts (fine ! ?r) - r_pts (fine ! b))" using b(1) roll_walk_stops by simp
      have "r_pts (fine ! ?r) \<le> r_pts (fine ! a)"
        using sorted_nth_mono [OF assms(1), of ?r a] step.IH assms(2) by simp
      then have "fl (r_pts (fine ! ?r) - r_pts (fine ! b)) \<le> fl (r_pts (fine ! a) - r_pts (fine ! b))"
        by (intro fl_mono) simp
      with far b(3) show False by simp
    qed
    then show ?case using b(2) step.IH by simp
  qed
  then show ?thesis using roll_walk_reached by auto
qed

theorem roll_walk_earliest_witness:
  "(4, roll_walk sample_tail [2, 3, 4] 4) \<in> (roll_steps sample_tail [2, 3, 4])\<^sup>* \<and>
    {k. (4, k) \<in> (roll_steps sample_tail [2, 3, 4])\<^sup>*} \<subseteq> {roll_walk sample_tail [2, 3, 4] 4..4}"
  by (rule roll_walk_earliest) (simp_all add: sample_tail_def card_row_def)

section \<open>The end\<close>

text \<open>C31: \<open>credits_end\<close> raises nothing for a coarse start whose run ends on one of the rows (on another it
  raises IndexError, even where the run has credit frames), and more than 30 s of the file follow every end it
  answers.\<close>

theorem credits_end_leaves_a_scene:
  assumes "co_end_index c < length rows"
  shows "case credits_end params rows c fine duration_s of
     None \<Rightarrow> False
   | Some None \<Rightarrow> True
   | Some (Some end_s) \<Rightarrow> fl (duration_s - end_s) > 30"
  using credits_end_keeps [OF assms, of params fine duration_s]
  by (auto simp: keeps_a_scene_after_def KEEP_AFTER_CREDITS_S_def split: option.splits)

theorem credits_end_leaves_a_scene_witness:
  "case credits_end RULE_J sample_tail \<lparr>co_index = 2, co_end_index = 4, co_pts_s = 0, co_run_index = None\<rparr>
       sample_tail 1000 of
     None \<Rightarrow> False
   | Some None \<Rightarrow> True
   | Some (Some end_s) \<Rightarrow> fl (1000 - end_s) > 30"
  by (rule credits_end_leaves_a_scene) (simp add: sample_tail_def)

text \<open>The hypothesis cannot be dropped.\<close>

lemma credits_end_raises: "length rows \<le> co_end_index c \<Longrightarrow> credits_end params rows c fine duration_s = None"
  by (simp add: credits_end_def coarse_end_s_def)

section \<open>The credits chapter\<close>

lemma find_sorted_least:
  assumes "find P xs = Some x" and "sorted (map f xs)" and "y \<in> set xs" and "P y"
  shows "f x \<le> (f y :: rat)"
  using assms by (induction xs) (auto split: if_splits)

text \<open>A chapter \<open>chapter_moves_to\<close> moves is more than 10 s off the roll.  It moves earlier only onto the
  roll's start, with no lit frame without text after the first second between them; later only past
  lit frames without text, by more than 10 s and at most to the roll's start.\<close>

theorem chapter_moves_bounds:
  "case chapter_moves_to rows start_s chapter_s of
     None \<Rightarrow> True
   | Some moved \<Rightarrow>
       \<bar>fl (start_s - chapter_s)\<bar> > 10 \<and>
       (if start_s < chapter_s
        then moved = start_s \<and>
             filter (\<lambda>row. fl (start_s + CHAPTER_START_FADE_S) < r_pts row \<and> start_s < r_pts row \<and>
               r_pts row < chapter_s \<and> r_count row = 0 \<and> r_luma row \<ge> p_dark RULE_J) rows = []
        else fl (moved - chapter_s) > 10 \<and> moved \<le> start_s \<and>
             set (filter (\<lambda>row. chapter_s \<le> r_pts row \<and> r_pts row < moved) rows)
               \<subseteq> {row. r_count row < 1 \<and> r_luma row \<ge> p_dark RULE_J} \<and>
             filter (\<lambda>row. chapter_s \<le> r_pts row \<and> r_pts row < moved) rows \<noteq> [])"
proof (cases "\<bar>fl (start_s - chapter_s)\<bar> \<le> 10")
  case apart: False
  show ?thesis
  proof (cases "start_s < chapter_s")
    case True
    then show ?thesis using apart
      by (auto simp: chapter_moves_to_def CHAPTER_AGREES_S_def Let_def filter_empty_conv split: option.splits if_splits)
  next
    case False
    define after where "after = by_time (filter (\<lambda>row. chapter_s \<le> r_pts row \<and> r_pts row < start_s) rows)"
    define first_text where
      "first_text = (case find (\<lambda>row. r_count row \<ge> 1) after of None \<Rightarrow> start_s | Some row \<Rightarrow> r_pts row)"
    define story where "story = filter (\<lambda>row. r_pts row < first_text) after"
    have in_after: "row \<in> set after \<longleftrightarrow> row \<in> set rows \<and> chapter_s \<le> r_pts row \<and> r_pts row < start_s" for row
      by (auto simp: after_def by_time_def)
    have le: "first_text \<le> start_s"
      using find_SomeD [of "\<lambda>row. r_count row \<ge> 1" after] in_after
      by (auto simp: first_text_def split: option.splits intro: less_imp_le)
    have blank: "r_count row < 1" if "row \<in> set story" for row
    proof (rule ccontr)
      assume texted: "\<not> r_count row < 1"
      have row: "row \<in> set after" "r_pts row < first_text" using that by (auto simp: story_def)
      then obtain x where x: "find (\<lambda>row. r_count row \<ge> 1) after = Some x"
        using texted by (cases "find (\<lambda>row. r_count row \<ge> 1) after") (auto simp: find_None_iff)
      have "r_pts x \<le> r_pts row"
        using find_sorted_least [OF x, of r_pts row] row(1) texted by (simp add: after_def by_time_def)
      then show False using row(2) x by (simp add: first_text_def)
    qed
    have story: "set (filter (\<lambda>row. chapter_s \<le> r_pts row \<and> r_pts row < first_text) rows) = set story"
      unfolding story_def set_filter in_after using less_le_trans [OF _ le] by blast
    have out: "chapter_moves_to rows start_s chapter_s =
      (if fl (first_text - chapter_s) \<le> CHAPTER_AGREES_S \<or> story = [] \<or> (\<exists>row \<in> set story. r_luma row < p_dark RULE_J)
       then None else Some first_text)"
      unfolding chapter_moves_to_def Let_def after_def [symmetric] first_text_def [symmetric] story_def [symmetric]
      using apart False by (simp add: CHAPTER_AGREES_S_def)
    show ?thesis
    proof (cases "chapter_moves_to rows start_s chapter_s")
      case (Some moved)
      then have m: "moved = first_text" "fl (first_text - chapter_s) > 10" "story \<noteq> []"
        "\<And>row. row \<in> set story \<Longrightarrow> \<not> r_luma row < p_dark RULE_J"
        unfolding out by (auto simp: CHAPTER_AGREES_S_def split: if_splits)
      have "filter (\<lambda>row. chapter_s \<le> r_pts row \<and> r_pts row < first_text) rows \<noteq> []"
        using story m(3) by (metis set_empty)
      then show ?thesis using Some m story blank le False apart by (auto simp: not_less)
    qed simp
  qed
qed (simp add: chapter_moves_to_def CHAPTER_AGREES_S_def)

end
