(* ===== verification/Actions.thy ===== *)
theory Actions
  imports Prelude
begin

text \<open>
  Steps that read the outside world: an action takes the world, and gives a value or a failure and the
  world after it.  \<open>ends E P m\<close> says that \<open>m\<close> fails only with a failure of \<open>E\<close> and that a value it gives
  satisfies \<open>P\<close>; its rules follow the shape of an action.
\<close>

text \<open>
  The exceptions of the credits decodes and of text detection (\<open>markers/credits/frames.py\<close>,
  \<open>textdet_helper.py\<close>); \<open>Rule_Raised\<close> is any of Python's own, \<open>Never_Returns\<close> a loop that does not end.
\<close>

datatype failure =
    Frame_Decode | Read_Stalled | Gpu_Decode | Gpu_Read_Nothing | No_Decoder | Decode_Timeout
  | Decode_Cancelled | Text_Unavailable | Text_Shutting_Down | Text_Cancelled
  | Rule_Raised | Never_Returns

text \<open>The classes an \<open>except\<close> clause names, with their subclasses.\<close>

definition gpu_decode_errors :: "failure set" where
  "gpu_decode_errors = {Gpu_Decode, Gpu_Read_Nothing}"

definition frame_decode_errors :: "failure set" where
  "frame_decode_errors = {Frame_Decode, Read_Stalled, Gpu_Decode, Gpu_Read_Nothing, No_Decoder, Decode_Timeout}"

definition text_unavailable_errors :: "failure set" where
  "text_unavailable_errors = {Text_Unavailable, Text_Shutting_Down}"

type_synonym ('w, 'a) action = "'w \<Rightarrow> (failure + 'a) \<times> 'w"

definition give :: "'a \<Rightarrow> ('w, 'a) action" where
  "give x = (\<lambda>w. (Inr x, w))"

definition fail :: "failure \<Rightarrow> ('w, 'a) action" where
  "fail e = (\<lambda>w. (Inl e, w))"

definition ask :: "('w \<Rightarrow> 'a) \<Rightarrow> ('w, 'a) action" where
  "ask f = (\<lambda>w. (Inr (f w), w))"

definition andthen :: "('w, 'a) action \<Rightarrow> ('a \<Rightarrow> ('w, 'b) action) \<Rightarrow> ('w, 'b) action" where
  "andthen m k = (\<lambda>w. case m w of (Inl e, w') \<Rightarrow> (Inl e, w') | (Inr x, w') \<Rightarrow> k x w')"

definition handle :: "('w, 'a) action \<Rightarrow> (failure \<Rightarrow> ('w, 'a) action) \<Rightarrow> ('w, 'a) action" where
  "handle m h = (\<lambda>w. case m w of (Inl e, w') \<Rightarrow> h e w' | (Inr x, w') \<Rightarrow> (Inr x, w'))"

definition of_option :: "'a option \<Rightarrow> ('w, 'a) action" where
  "of_option r = (case r of None \<Rightarrow> fail Rule_Raised | Some x \<Rightarrow> give x)"

section \<open>What an action can end with\<close>

definition ends :: "failure set \<Rightarrow> ('a \<Rightarrow> bool) \<Rightarrow> ('w, 'a) action \<Rightarrow> bool" where
  "ends E P m \<longleftrightarrow> (\<forall>w. case fst (m w) of Inl e \<Rightarrow> e \<in> E | Inr x \<Rightarrow> P x)"

named_theorems ends_intros

lemma ends_give [ends_intros]: "P x \<Longrightarrow> ends E P (give x)"
  by (simp add: ends_def give_def)

lemma ends_fail [ends_intros]: "e \<in> E \<Longrightarrow> ends E P (fail e)"
  by (simp add: ends_def fail_def)

lemma ends_ask [ends_intros]: "(\<And>w. P (f w)) \<Longrightarrow> ends E P (ask f)"
  by (simp add: ends_def ask_def)

lemma ends_andthen:
  assumes "ends E Q m" and "\<And>x. Q x \<Longrightarrow> ends E P (k x)"
  shows "ends E P (andthen m k)"
  unfolding ends_def
proof
  fix w
  show "case fst (andthen m k w) of Inl e \<Rightarrow> e \<in> E | Inr x \<Rightarrow> P x"
  proof (cases "m w")
    case (Pair r w')
    then show ?thesis
    proof (cases r)
      case (Inr x)
      then have "Q x" using assms(1) Pair by (auto simp: ends_def dest: spec [of _ w])
      then show ?thesis using assms(2) Pair Inr by (simp add: ends_def andthen_def)
    qed (use assms(1) Pair in \<open>auto simp: ends_def andthen_def dest: spec [of _ w]\<close>)
  qed
qed

lemma ends_handle:
  assumes "ends F P m" and "\<And>e. e \<in> F \<Longrightarrow> ends E P (h e)"
  shows "ends E P (handle m h)"
  unfolding ends_def
proof
  fix w
  show "case fst (handle m h w) of Inl e \<Rightarrow> e \<in> E | Inr x \<Rightarrow> P x"
  proof (cases "m w")
    case (Pair r w')
    then show ?thesis
    proof (cases r)
      case (Inl e)
      then have "e \<in> F" using assms(1) Pair by (auto simp: ends_def dest: spec [of _ w])
      then show ?thesis using assms(2) Pair Inl by (simp add: ends_def handle_def)
    qed (use assms(1) Pair in \<open>auto simp: ends_def handle_def dest: spec [of _ w]\<close>)
  qed
qed

lemma ends_of_option: "r = Some x \<Longrightarrow> P x \<Longrightarrow> ends E P (of_option r)"
  by (simp add: of_option_def ends_give)

lemma andthen_of_option [simp]: "r = Some x \<Longrightarrow> andthen (of_option r) k = k x"
  by (simp add: of_option_def andthen_def give_def)

lemma andthen_give [simp]: "andthen (give x) k = k x"
  by (simp add: andthen_def give_def)

lemma ends_if [ends_intros]: "(c \<Longrightarrow> ends E P a) \<Longrightarrow> (\<not> c \<Longrightarrow> ends E P b) \<Longrightarrow> ends E P (if c then a else b)"
  by simp

lemma ends_weaken: "ends E Q m \<Longrightarrow> (\<And>x. Q x \<Longrightarrow> P x) \<Longrightarrow> ends E P m"
  by (fastforce simp: ends_def split: sum.splits)

lemma endsD: "ends E P m \<Longrightarrow> m w = (Inr x, w') \<Longrightarrow> P x"
  by (auto simp: ends_def split: sum.splits dest: spec [of _ w])

lemma ends_failD: "ends E P m \<Longrightarrow> m w = (Inl e, w') \<Longrightarrow> e \<in> E"
  by (auto simp: ends_def split: sum.splits dest: spec [of _ w])

end
