(* ===== verification/Cards.thy ===== *)
theory Cards
  imports Rule_J_Runs Actions Py_Values
begin

text \<open>
  Prose cards at the credits start (\<open>markers/credits/cards.py\<close>): frames a second apart split into cards,
  whether a card's lines read as prose, and the walk past the cards that do.  Texts are Latin-1.
\<close>

definition FIRST_CARD_WINDOW_S :: rat where "FIRST_CARD_WINDOW_S = 30"
definition CARD_WINDOW_S :: rat where "CARD_WINDOW_S = 90"
definition PROSE_WORDS :: nat where "PROSE_WORDS = 7"
definition SENTENCE_WORDS :: nat where "SENTENCE_WORDS = 4"
definition SENTENCE_WORDS_PER_LINE :: nat where "SENTENCE_WORDS_PER_LINE = 3"

record title_card =
  k_first_s :: rat
  k_last_s :: rat
  k_read_s :: rat
  k_dark :: bool

section \<open>Splitting into cards\<close>

definition boxes_lie_in :: "box list \<Rightarrow> box list \<Rightarrow> bool" where
  "boxes_lie_in boxes holders \<longleftrightarrow>
     (\<forall>box \<in> set boxes. \<exists>holder \<in> set holders. inside box holder \<ge> OVERLAY_CONTAINMENT)"

definition continues :: "box list \<Rightarrow> box list \<Rightarrow> bool" where
  "continues earlier later \<longleftrightarrow> boxes_lie_in earlier later \<or> boxes_lie_in later earlier"

definition card_of :: "row list \<Rightarrow> title_card" where
  "card_of current =
     (let most = Max ((\<lambda>row. length (boxes_of row)) ` set current);
          fullest = filter (\<lambda>row. length (boxes_of row) = most) current;
          read = fullest ! (length fullest div 2)
      in \<lparr>k_first_s = r_pts (hd current), k_last_s = r_pts (last current), k_read_s = r_pts read,
          k_dark = r_luma read < p_dark RULE_J\<rparr>)"

definition close_card :: "title_card list \<times> row list \<Rightarrow> title_card list \<times> row list" where
  "close_card st = (case st of (found, current) \<Rightarrow>
     if current \<noteq> [] then (found @ [card_of current], []) else (found, []))"

definition card_step :: "row \<Rightarrow> title_card list \<times> row list \<Rightarrow> title_card list \<times> row list" where
  "card_step row st =
     (if boxes_of row = [] then close_card st
      else
        (let st = (if snd st \<noteq> [] \<and> \<not> continues (boxes_of (last (snd st))) (boxes_of row)
                   then close_card st else st)
         in (fst st, snd st @ [row])))"

definition cards :: "row list \<Rightarrow> rat \<Rightarrow> title_card list" where
  "cards rows start_s =
     fst (close_card (fold card_step (by_time (filter (\<lambda>row. r_pts row \<ge> start_s) rows)) ([], [])))"

section \<open>Prose\<close>

text \<open>The maximal runs of characters that satisfy \<open>P\<close>: \<open>split()\<close> and \<open>findall\<close>.\<close>

function char_runs :: "(char \<Rightarrow> bool) \<Rightarrow> string \<Rightarrow> string list" where
  "char_runs P s =
     (let rest = dropWhile (\<lambda>c. \<not> P c) s
      in if rest = [] then [] else takeWhile P rest # char_runs P (dropWhile P rest))"
  by pat_completeness auto
termination
proof (relation "measure (\<lambda>(P, s). length s)", goal_cases)
  case (2 P s rest)
  then have "P (hd rest)" using hd_dropWhile [of "\<lambda>c. \<not> P c" s] by simp
  with 2(2) have "length (dropWhile P rest) < length rest"
    by (cases rest) (auto intro: le_less_trans [OF length_dropWhile_le])
  also have "\<dots> \<le> length s" using 2(1) by (simp add: length_dropWhile_le)
  finally show ?case by simp
qed simp

declare char_runs.simps [simp del]

text \<open>\<open>[^\W\d_]\<close> and \<open>islower()\<close> on Latin-1.\<close>

definition word_letter :: "char \<Rightarrow> bool" where
  "word_letter c \<longleftrightarrow>
     (let n = code c
      in 65 \<le> n \<and> n \<le> 90 \<or> 97 \<le> n \<and> n \<le> 122 \<or> n \<in> {170, 178, 179, 181, 185, 186, 188, 189, 190} \<or>
         192 \<le> n \<and> n \<le> 255 \<and> n \<noteq> 215 \<and> n \<noteq> 247)"

definition lower_letter :: "char \<Rightarrow> bool" where
  "lower_letter c \<longleftrightarrow>
     (let n = code c in 97 \<le> n \<and> n \<le> 122 \<or> n \<in> {170, 181, 186} \<or> 223 \<le> n \<and> n \<le> 255 \<and> n \<noteq> 247)"

definition CLOSERS :: "char set" where
  "CLOSERS = {CHR 0x22, CHR 0x27, CHR 0xBB, CHR '')'', CHR '']''}"

text \<open>The letters and full stops of \<open>_INITIALISM\<close>, with the number of full stops; \<open>None\<close> when it does not match.\<close>

fun initials :: "string \<Rightarrow> nat option" where
  "initials [] = Some 0"
| "initials [a] = None"
| "initials [a, b] = (if word_letter a \<and> b = CHR ''.'' then Some 1 else None)"
| "initials (a # b # c # s) =
     (if \<not> word_letter a then None
      else if b = CHR ''.'' then map_option Suc (initials (c # s))
      else if word_letter b \<and> c = CHR ''.'' then map_option Suc (initials s)
      else None)"

definition initialism :: "string \<Rightarrow> bool" where
  "initialism token \<longleftrightarrow> (case initials token of None \<Rightarrow> False | Some n \<Rightarrow> n \<ge> 2)"

definition ends_a_sentence :: "string \<Rightarrow> bool" where
  "ends_a_sentence token =
     (let t = rev (dropWhile (\<lambda>c. c \<in> CLOSERS) (rev token))
      in t \<noteq> [] \<and> last t = CHR ''.'' \<and> \<not> initialism t)"

fun prose_from :: "nat \<Rightarrow> nat \<Rightarrow> string list \<Rightarrow> bool" where
  "prose_from sentence sentence_lines [] = False"
| "prose_from sentence sentence_lines (line # lines) =
     (let tokens = char_runs (\<lambda>c. \<not> is_space c) line;
          sentence = sentence + length tokens;
          sentence_lines = sentence_lines + 1;
          full_stop = (tokens \<noteq> [] \<and> ends_a_sentence (last tokens));
          words = char_runs word_letter line
      in if full_stop \<and> sentence \<ge> SENTENCE_WORDS \<and> sentence \<ge> SENTENCE_WORDS_PER_LINE * sentence_lines then True
         else if length words \<ge> PROSE_WORDS \<and>
                 2 * length (filter (\<lambda>word. lower_letter (hd word)) words) > length words then True
         else if full_stop then prose_from 0 0 lines
         else prose_from sentence sentence_lines lines)"

definition is_prose :: "string list \<Rightarrow> bool" where
  "is_prose lines = prose_from 0 0 lines"

section \<open>Past the prose\<close>

definition moving :: "title_card \<Rightarrow> bool" where
  "moving c \<longleftrightarrow> k_last_s c = k_first_s c"

fun first_no_prose :: "(title_card \<Rightarrow> ('w, string list) action) \<Rightarrow> title_card list \<Rightarrow> ('w, rat option) action" where
  "first_no_prose read [] = give None"
| "first_no_prose read (c # rest) =
     (if moving c then give (Some (k_first_s c))
      else andthen (read c) (\<lambda>lines.
             if \<not> is_prose lines then give (Some (k_first_s c)) else first_no_prose read rest))"

definition past_prose ::
  "title_card option \<Rightarrow> ('w, title_card list) action \<Rightarrow> (title_card \<Rightarrow> ('w, string list) action) \<Rightarrow> ('w, rat option) action" where
  "past_prose first rest read =
     (case first of
        None \<Rightarrow> give None
      | Some c \<Rightarrow>
          if \<not> k_dark c then give None
          else andthen (read c) (\<lambda>lines.
                 if \<not> is_prose lines then give None
                 else andthen rest (first_no_prose read)))"

end
