(* ===== verification/Cards_Claims.thy ===== *)
theory Cards_Claims
  imports Cards
begin

text \<open>
  What the loop over the frames finds: the cards are the chains of frames whose text continues, in time
  order; and what the walk past prose can answer.
\<close>

definition same_card :: "row \<Rightarrow> row \<Rightarrow> bool" where
  "same_card a b \<longleftrightarrow> boxes_of a \<noteq> [] \<and> boxes_of b \<noteq> [] \<and> continues (boxes_of a) (boxes_of b)"

definition shows_text :: "row list \<Rightarrow> bool" where
  "shows_text c \<longleftrightarrow> boxes_of (hd c) \<noteq> []"

lemma chain_text:
  assumes "c \<in> set (chains same_card xs)"
  shows "shows_text c \<longleftrightarrow> boxes_of (last c) \<noteq> []"
proof (cases c)
  case (Cons a d)
  have j: "same_card (c ! i) (c ! Suc i)" if "Suc i < length c" for i using chains_joined [OF assms that] .
  show ?thesis
  proof (cases "d = []")
    case False
    have "boxes_of a \<noteq> []" using j [of 0] Cons False by (simp add: same_card_def)
    moreover have "boxes_of (last c) \<noteq> []"
      using j [of "length d - 1"] Cons False by (simp add: same_card_def last_conv_nth)
    ultimately show ?thesis using Cons by (simp add: shows_text_def)
  qed (simp add: shows_text_def Cons)
qed (use assms Nil_notin_chains in auto)

lemma last_chain:
  assumes "xs \<noteq> []"
  shows "chains same_card xs = butlast (chains same_card xs) @ [last (chains same_card xs)]"
    "last (chains same_card xs) \<noteq> []" "last (last (chains same_card xs)) = last xs"
    "shows_text (last (chains same_card xs)) \<longleftrightarrow> boxes_of (last xs) \<noteq> []"
proof -
  have ne: "chains same_card xs \<noteq> []" using assms by simp
  then show "chains same_card xs = butlast (chains same_card xs) @ [last (chains same_card xs)]" by simp
  show "last (chains same_card xs) \<noteq> []" using last_in_set [OF ne] Nil_notin_chains by metis
  show "last (last (chains same_card xs)) = last xs" by (rule last_last_chains [OF assms])
  then show "shows_text (last (chains same_card xs)) \<longleftrightarrow> boxes_of (last xs) \<noteq> []"
    using chain_text [OF last_in_set [OF ne]] by simp
qed

definition closed :: "row list list \<Rightarrow> title_card list" where
  "closed cs = map card_of (filter shows_text cs)"

lemma closed_append [simp]: "closed (cs @ ds) = closed cs @ closed ds"
  by (simp add: closed_def)

lemma closed_single [simp]: "closed [c] = (if shows_text c then [card_of c] else [])"
  by (simp add: closed_def)

lemma closed_Nil [simp]: "closed [] = []"
  by (simp add: closed_def)

lemma shows_text_single [simp]: "shows_text [y] \<longleftrightarrow> boxes_of y \<noteq> []"
  by (simp add: shows_text_def)

definition open_state :: "row list \<Rightarrow> title_card list \<times> row list" where
  "open_state xs =
     (if xs = [] then ([], [])
      else if boxes_of (last xs) = [] then (closed (chains same_card xs), [])
      else (closed (butlast (chains same_card xs)), last (chains same_card xs)))"

lemma close_open_state: "close_card (open_state xs) = (closed (chains same_card xs), [])"
proof (cases "xs = [] \<or> boxes_of (last xs) = []")
  case False
  then have ne: "xs \<noteq> []" by simp
  have "closed (chains same_card xs) =
      closed (butlast (chains same_card xs)) @ closed [last (chains same_card xs)]"
    by (subst last_chain(1) [OF ne]) simp
  then show ?thesis using False last_chain(2,4) [OF ne] by (simp add: open_state_def close_card_def)
qed (auto simp: open_state_def close_card_def)

lemma card_step_open_state: "card_step y (open_state xs) = open_state (xs @ [y])"
proof (cases "xs = []")
  case True
  then show ?thesis by (simp add: open_state_def card_step_def close_card_def)
next
  case False
  note snoc = chains_snoc [OF False, of same_card y]
  show ?thesis
  proof (cases "same_card (last xs) y")
    case True
    then show ?thesis using snoc False last_chain(2,3) [OF False]
      by (simp add: open_state_def card_step_def same_card_def)
  next
    case apart: False
    then have out: "open_state (xs @ [y]) =
      (if boxes_of y = [] then (closed (chains same_card xs), []) else (closed (chains same_card xs), [y]))"
      using snoc by (simp add: open_state_def)
    show ?thesis
    proof (cases "boxes_of y = []")
      case True
      then show ?thesis using out close_open_state [of xs] by (simp add: card_step_def)
    next
      case y: False
      show ?thesis
      proof (cases "boxes_of (last xs) = []")
        case True
        then show ?thesis using out y False by (simp add: card_step_def open_state_def)
      next
        case last: False
        then have "\<not> continues (boxes_of (last xs)) (boxes_of y)" using apart y by (simp add: same_card_def)
        moreover have "snd (open_state xs) = last (chains same_card xs)" using last False by (simp add: open_state_def)
        ultimately show ?thesis using out y last_chain(2,3) [OF False] close_open_state [of xs]
          by (simp add: card_step_def)
      qed
    qed
  qed
qed

lemma fold_card_step: "fold card_step xs ([], []) = open_state xs"
proof (induction xs rule: rev_induct)
  case (snoc y xs)
  then show ?case by (simp add: card_step_open_state)
qed (simp add: open_state_def)

lemma cards_chains:
  "cards rows start_s = closed (chains same_card (by_time (filter (\<lambda>row. r_pts row \<ge> start_s) rows)))"
  by (simp add: cards_def fold_card_step close_open_state)

section \<open>Times\<close>

lemma card_of_times:
  assumes "c \<noteq> []" and "sorted (map r_pts c)"
  shows "k_first_s (card_of c) = r_pts (hd c)" "k_last_s (card_of c) = r_pts (last c)"
    "k_first_s (card_of c) \<le> k_read_s (card_of c)" "k_read_s (card_of c) \<le> k_last_s (card_of c)"
proof -
  let ?f = "filter (\<lambda>row. length (boxes_of row) = Max ((\<lambda>row. length (boxes_of row)) ` set c)) c"
  have "Max ((\<lambda>row. length (boxes_of row)) ` set c) \<in> (\<lambda>row. length (boxes_of row)) ` set c"
    using assms(1) by (intro Max_in) simp_all
  then have "?f \<noteq> []" unfolding filter_empty_conv by fastforce
  then have "?f ! (length ?f div 2) \<in> set ?f" by (intro nth_mem) simp
  then obtain i where i: "i < length c" "c ! i = ?f ! (length ?f div 2)" by (auto simp: in_set_conv_nth)
  have mono: "r_pts (c ! j) \<le> r_pts (c ! k)" if "j \<le> k" "k < length c" for j k
    using sorted_nth_mono [OF assms(2), of j k] that by simp
  show ends: "k_first_s (card_of c) = r_pts (hd c)" "k_last_s (card_of c) = r_pts (last c)"
    by (simp_all add: card_of_def Let_def)
  have read: "k_read_s (card_of c) = r_pts (c ! i)" using i(2) by (simp add: card_of_def Let_def)
  show "k_first_s (card_of c) \<le> k_read_s (card_of c)"
    using mono [of 0 i] i(1) assms(1) by (simp add: ends read hd_conv_nth)
  show "k_read_s (card_of c) \<le> k_last_s (card_of c)"
    using mono [of i "length c - 1"] i(1) assms(1) by (simp add: ends read last_conv_nth)
qed

lemma sorted_chain:
  assumes "sorted (map f xs)" and "c \<in> set (chains J xs)"
  shows "sorted (map (f :: _ \<Rightarrow> rat) c)" "set c \<subseteq> set xs"
proof -
  obtain cs ds where "chains J xs = cs @ c # ds" using split_list [OF assms(2)] by blast
  then have xs: "xs = concat cs @ c @ concat ds" using concat_chains [of J xs] by simp
  show "sorted (map f c)" "set c \<subseteq> set xs" using assms(1) unfolding xs by (auto simp: sorted_append)
qed

lemma sorted_chains_apart:
  assumes "sorted (map f xs)"
  shows "sorted_wrt (\<lambda>c d. (f :: _ \<Rightarrow> rat) (last c) \<le> f (hd d)) (chains J xs)"
  using assms
proof (induction "chains J xs" arbitrary: xs)
  case (Cons c cs)
  have all: "concat (c # cs) = xs" using concat_chains [of J xs] Cons.hyps(2) by simp
  have ne: "d \<noteq> []" if "d \<in> set (c # cs)" for d
    using that Nil_notin_chains [of J xs] Cons.hyps(2) by metis
  have "sorted_wrt (\<lambda>c d. f (last c) \<le> f (hd d)) ds"
    if "concat ds = ys" "sorted (map f ys)" "\<And>d. d \<in> set ds \<Longrightarrow> d \<noteq> []" for ds ys
    using that
  proof (induction ds arbitrary: ys)
    case (Cons d ds)
    then have s: "sorted (map f (d @ concat ds))" by simp
    have "f (last d) \<le> f (hd e)" if "e \<in> set ds" for e
    proof -
      have "last d \<in> set d" "hd e \<in> set e" using Cons.prems(3) that by (auto intro: last_in_set hd_in_set)
      then show ?thesis using s that by (auto simp: sorted_append)
    qed
    then show ?case using Cons.IH [OF refl] s Cons.prems(3) by (simp add: sorted_append)
  qed simp
  from this [OF all Cons.prems] ne show ?case using Cons.hyps(2) by metis
qed simp

text \<open>The cards are in time order and apart, none before the start, each read while it is on screen.\<close>

lemma cards_in_order:
  "sorted_wrt (\<lambda>a b. k_last_s a \<le> k_first_s b) (cards rows start_s) \<and>
   (\<forall>c \<in> set (cards rows start_s). start_s \<le> k_first_s c \<and> k_first_s c \<le> k_read_s c \<and> k_read_s c \<le> k_last_s c)"
proof -
  let ?xs = "by_time (filter (\<lambda>row. r_pts row \<ge> start_s) rows)"
  let ?cs = "chains same_card ?xs"
  have s: "sorted (map r_pts ?xs)" by (simp add: by_time_def)
  have ge: "start_s \<le> r_pts row" if "row \<in> set ?xs" for row using that by (simp add: by_time_def)
  have chain: "c \<noteq> []" "sorted (map r_pts c)" "set c \<subseteq> set ?xs" if "c \<in> set ?cs" for c
    using that sorted_chain [OF s that] Nil_notin_chains by metis+
  have "sorted_wrt (\<lambda>c d. k_last_s (card_of c) \<le> k_first_s (card_of d)) ?cs"
    using sorted_wrt_mono_rel [OF _ sorted_chains_apart [OF s, of same_card]]
    by (simp add: card_of_times [OF chain(1,2)])
  then have "sorted_wrt (\<lambda>a b. k_last_s a \<le> k_first_s b) (cards rows start_s)"
    by (simp add: cards_chains closed_def sorted_wrt_map sorted_wrt_filter)
  moreover have "start_s \<le> k_first_s c \<and> k_first_s c \<le> k_read_s c \<and> k_read_s c \<le> k_last_s c"
    if c: "c \<in> set (cards rows start_s)" for c
  proof -
    obtain d where d: "d \<in> set ?cs" "c = card_of d" using c by (auto simp: cards_chains closed_def)
    have "hd d \<in> set ?xs" using chain [OF d(1)] hd_in_set [of d] by blast
    then have "start_s \<le> r_pts (hd d)" by (rule ge)
    then show ?thesis using card_of_times [OF chain(1,2) [OF d(1)]] unfolding d(2) by simp
  qed
  ultimately show ?thesis by blast
qed

end
