(* ===== verification/Detector.thy ===== *)
theory Detector
  imports Rule_J_Refine Cards Cluster_Decision
begin

text \<open>
  The credit text detector (\<open>markers/credits/detector.py\<close>): the readings of a file's ending, rule J on
  them, the second reading at a larger size, and the walk past prose cards.  Decoding frames, reading
  their text, the clock and a cancelled job are the outside world: the fields of \<open>video\<close>.  What only
  shows progress or writes the log is left out.
\<close>

definition RETRY_SCALE :: nat where "RETRY_SCALE = 2"
definition SMALL_TEXT_MAX_HEIGHT_PX :: int where "SMALL_TEXT_MAX_HEIGHT_PX = 15"
definition DENSE_BOXES :: int where "DENSE_BOXES = p_dense RULE_J * int RETRY_SCALE"
definition LANDS_ON_S :: rat where "LANDS_ON_S = 2"
definition LOOK_BACK_TIMEOUT_S :: rat where "LOOK_BACK_TIMEOUT_S = 600"
definition READ_BEFORE_TAIL_S :: rat where "READ_BEFORE_TAIL_S = 120"
definition MOVIE_TAIL_S :: rat where "MOVIE_TAIL_S = 900"
definition EPISODE_TAIL_S :: rat where "EPISODE_TAIL_S = 450"

record thinning =
  t_keep_every :: "int option"
  t_drop_non_key :: bool
  t_download_format :: "string option"

text \<open>One decode: where it starts, how long it is (to the end of the file without a length), keyframes or
  one frame a second, its size in multiples of 320x180, its time limit.\<close>

record decode_part =
  w_start :: rat
  w_length :: "rat option"
  w_keyframes :: bool
  w_scale :: nat
  w_timeout :: "rat option"

text \<open>
  The functions of \<open>frames\<close> the detector calls, with the arguments that stay the same for the file:
  \<open>container_start_s\<close>, \<open>keyframe_thinning\<close>, \<open>decode_rows\<close>, \<open>read_text_at\<close> (\<open>None\<close> when no words are
  read); the look-back's clock and the cancel check.
\<close>

record 'w video =
  v_start_time :: "('w, rat) action"
  v_thinning :: "('w, thinning) action"
  v_decode :: "rat \<Rightarrow> thinning \<Rightarrow> decode_part \<Rightarrow> ('w, row list) action"
  v_read_text :: "(rat \<Rightarrow> ('w, string list) action) option"
  v_clock :: "'w \<Rightarrow> rat"
  v_cancelled :: "'w \<Rightarrow> bool"

record credits_result =
  cr_start_s :: "rat option"
  cr_end_s :: "rat option"
  cr_key_rows :: "row list"
  cr_fine_rows :: "row list"
  cr_end_rows :: "row list"
  cr_overlays :: "box list"
  cr_scale :: nat
  cr_run_rows :: "row list"
  cr_prose_start_s :: "rat option"

section \<open>The larger reading's rows\<close>

text \<open>The 320x180 reading's boxes by time: a dict built from rows, so the last row of a time counts.\<close>

type_synonym seen_boxes = "(rat \<times> box list) list"

definition seen_at :: "seen_boxes \<Rightarrow> rat \<Rightarrow> box list" where
  "seen_at seen t = (case map_of (rev seen) t of None \<Rightarrow> [] | Some boxes \<Rightarrow> boxes)"

definition small_row :: "seen_boxes \<Rightarrow> row \<Rightarrow> row" where
  "small_row seen row =
     (case r_boxes row of
        None \<Rightarrow> row
      | Some boxes \<Rightarrow>
          (let tall = filter (\<lambda>(l, t, r, u). u - t + 1 > SMALL_TEXT_MAX_HEIGHT_PX) boxes;
               alone = \<lparr>r_pts = r_pts row, r_count = int (length tall), r_luma = r_luma row, r_boxes = Some tall\<rparr>;
               unseen = concat (map boxes_of (without_overlays [alone] (seen_at seen (r_pts row))));
               kept = filter (\<lambda>box. box \<notin> set unseen) boxes
           in \<lparr>r_pts = r_pts row, r_count = int (length kept), r_luma = r_luma row, r_boxes = Some kept\<rparr>))"

definition small_text :: "seen_boxes \<Rightarrow> row list \<Rightarrow> row list" where
  "small_text seen rows = map (small_row seen) rows"

definition not_seen :: "bool \<Rightarrow> seen_boxes \<Rightarrow> row list \<Rightarrow> row list" where
  "not_seen read_whole seen rows =
     (if seen = [] then rows
      else map (\<lambda>row. let unseen = hd (without_overlays [row] (seen_at seen (r_pts row)))
                      in if read_whole \<and> r_count unseen > 0 then row else unseen) rows)"

definition captions :: "(rat list \<Rightarrow> rat) \<Rightarrow> row list \<Rightarrow> row list \<Rightarrow> coarse \<Rightarrow> box list \<Rightarrow> bool option" where
  "captions fsum key_rows rule_rows coarse overlays =
     map_option (captions_all_through fsum RULE_J key_rows (without_overlays key_rows overlays) coarse)
       (coarse_end_s RULE_J rule_rows coarse)"

section \<open>The steps before the tail\<close>

definition tail_length_s :: "bool \<Rightarrow> int option \<Rightarrow> int option \<Rightarrow> rat" where
  "tail_length_s episode tv_s movie_s =
     (case (if episode then tv_s else movie_s) of
        Some n \<Rightarrow> fl (of_int n)
      | None \<Rightarrow> if episode then EPISODE_TAIL_S else MOVIE_TAIL_S)"

definition tail_start_s :: "int \<Rightarrow> rat \<Rightarrow> rat" where
  "tail_start_s duration tail_s = max 0 (fl (fl (of_int duration / 1000) - tail_s))"

definition next_step_start :: "rat \<Rightarrow> rat option \<Rightarrow> rat option" where
  "next_step_start read_from_s earliest =
     (case earliest of
        None \<Rightarrow> None
      | Some earliest_start_s \<Rightarrow>
          (let floor_s = fl (earliest_start_s - STORY_BEFORE_RUN_S)
           in if fl (read_from_s - floor_s) < STORY_BEFORE_RUN_S then None
              else
                (let start_s = fl (read_from_s - READ_BEFORE_TAIL_S)
                 in Some (if fl (start_s - floor_s) \<ge> STORY_BEFORE_RUN_S then start_s else floor_s))))"

definition step_rows ::
  "'w video \<Rightarrow> (rat \<Rightarrow> rat option \<Rightarrow> rat option \<Rightarrow> ('w, row list) action) \<Rightarrow> rat \<Rightarrow> rat \<Rightarrow> rat
    \<Rightarrow> ('w, row list) action" where
  "step_rows video keyframes start_s end_s deadline =
     andthen (ask (v_cancelled video)) (\<lambda>cancelled.
       if cancelled then fail Decode_Cancelled
       else andthen (ask (v_clock video)) (\<lambda>now.
         (let remaining_s = fl (deadline - now)
          in if remaining_s \<le> 0 then fail Decode_Timeout
             else keyframes start_s (Some (fl (end_s - start_s))) (Some remaining_s))))"

text \<open>What the readings before the tail end with: the keyframe rows, the coarse start on them, and every
  keyframe row decoded.\<close>

type_synonym looked_back = "row list \<times> coarse option \<times> row list"

fun look_back ::
  "nat \<Rightarrow> 'w video \<Rightarrow> (rat \<Rightarrow> rat option \<Rightarrow> rat option \<Rightarrow> ('w, row list) action) \<Rightarrow>
    (row list \<Rightarrow> row list) \<Rightarrow> box list \<Rightarrow> bool \<Rightarrow> rat option \<Rightarrow> rat \<Rightarrow> rat \<Rightarrow> row list \<Rightarrow> row list
    \<Rightarrow> ('w, looked_back) action" where
  "look_back 0 video keyframes new_text overlays black_reads earliest deadline before_start joined decoded =
     fail Never_Returns"
| "look_back (Suc n) video keyframes new_text overlays black_reads earliest deadline before_start joined decoded =
     andthen (of_option (coarse_start RULE_J (new_text joined)
                (Some (without_overlays (new_text joined) overlays)) black_reads)) (\<lambda>found.
       case found of
         None \<Rightarrow> give (joined, None, decoded)
       | Some coarse \<Rightarrow>
           andthen (of_option (too_little_story joined coarse)) (\<lambda>little.
             if \<not> little then give (joined, Some coarse, decoded)
             else
               (case next_step_start before_start earliest of
                  None \<Rightarrow> give (joined, Some coarse, decoded)
                | Some next_start \<Rightarrow>
                    andthen (step_rows video keyframes next_start before_start deadline) (\<lambda>rows.
                      andthen (of_option (rows_before rows joined)) (\<lambda>joined'.
                        look_back n video keyframes new_text overlays black_reads earliest deadline next_start
                          joined' (decoded @ rows))))))"

text \<open>One more than the 119 s steps that fit before \<open>before_start\<close>, and the one down to the floor.\<close>

definition look_back_fuel :: "rat \<Rightarrow> rat option \<Rightarrow> nat" where
  "look_back_fuel before_start earliest =
     (case earliest of None \<Rightarrow> 1 | Some e \<Rightarrow> nat \<lceil>before_start - fl (e - STORY_BEFORE_RUN_S)\<rceil> + 3)"

section \<open>One reading\<close>

text \<open>What a reading of the file's ending is given: the constant arguments of its decodes folded in.\<close>

record 'w reading =
  rd_decode :: "decode_part \<Rightarrow> ('w, row list) action"
  rd_strided :: bool
  rd_duration_ms :: int
  rd_tail_start :: rat
  rd_earliest :: "rat option"

definition decode_window ::
  "'w reading \<Rightarrow> nat \<Rightarrow> seen_boxes \<Rightarrow> rat \<Rightarrow> rat option \<Rightarrow> bool \<Rightarrow> rat option \<Rightarrow> ('w, row list) action" where
  "decode_window rd scale seen start_s length_s keyframes_only timeout_s =
     andthen (rd_decode rd \<lparr>w_start = start_s, w_length = length_s, w_keyframes = keyframes_only,
                            w_scale = scale, w_timeout = timeout_s\<rparr>) (\<lambda>rows.
       give (if scale = 1 then rows else small_text (if keyframes_only then seen else []) rows))"

text \<open>The tail's keyframes, or those after another reading's answer behind that reading's own rows.\<close>

definition tail_rows ::
  "'w reading \<Rightarrow> (rat \<Rightarrow> rat option \<Rightarrow> rat option \<Rightarrow> ('w, row list) action) \<Rightarrow> (rat \<times> row list) option
    \<Rightarrow> ('w, row list \<times> row list) action" where
  "tail_rows rd keyframes after =
     (case after of
        None \<Rightarrow> andthen (keyframes (rd_tail_start rd) None None) (\<lambda>rows. give (rows, rows))
      | Some (from_s, earlier_rows) \<Rightarrow>
          andthen (keyframes (if rd_strided rd then rd_tail_start rd else from_s) None None) (\<lambda>rows.
            give (earlier_rows @ filter (\<lambda>row. r_pts row \<ge> from_s) rows, rows)))"

text \<open>The rows before the tail, when the tail's run continues into them.\<close>

definition steps_before ::
  "'w video \<Rightarrow> 'w reading \<Rightarrow> (rat \<Rightarrow> rat option \<Rightarrow> rat option \<Rightarrow> ('w, row list) action) \<Rightarrow>
    (row list \<Rightarrow> row list) \<Rightarrow> box list \<Rightarrow> bool \<Rightarrow> row list \<Rightarrow> coarse \<Rightarrow> row list \<Rightarrow> ('w, looked_back) action" where
  "steps_before video rd keyframes new_text overlays black_reads key_rows coarse decoded =
     andthen (ask (v_clock video)) (\<lambda>now.
       (let deadline = fl (now + LOOK_BACK_TIMEOUT_S);
            before_start = max 0 (fl (rd_tail_start rd - READ_BEFORE_TAIL_S))
        in andthen (keyframes before_start (Some (fl (rd_tail_start rd - before_start))) None) (\<lambda>before_rows.
             andthen (of_option (joined_before RULE_J (new_text before_rows) (new_text key_rows) overlays black_reads))
               (\<lambda>joins.
                 if joins = None then give (key_rows, Some coarse, decoded @ before_rows)
                 else andthen (of_option (rows_before before_rows key_rows)) (\<lambda>joined.
                   look_back (look_back_fuel before_start (rd_earliest rd)) video keyframes new_text overlays
                     black_reads (rd_earliest rd) deadline before_start joined (decoded @ before_rows))))))"

definition dense_start ::
  "nat \<Rightarrow> row list \<Rightarrow> row list \<Rightarrow> row list \<Rightarrow> box list \<Rightarrow> coarse option \<Rightarrow> coarse option option" where
  "dense_start scale key_rows rule_rows found_rows overlays coarse =
     (case coarse of
        None \<Rightarrow> Some None
      | Some c \<Rightarrow>
          if scale > 1
          then map_option Some (start_on_dense_text RULE_J rule_rows c found_rows
                 (without_overlays key_rows overlays) DENSE_BOXES)
          else Some (Some c))"

definition no_roll ::
  "(rat list \<Rightarrow> rat) \<Rightarrow> row list \<Rightarrow> row list \<Rightarrow> box list \<Rightarrow> coarse \<Rightarrow> bool option" where
  "no_roll fsum key_rows rule_rows overlays c =
     do {
       through \<leftarrow> text_all_through key_rows c;
       if through then Some True else captions fsum key_rows rule_rows c overlays
     }"

text \<open>The frames before the coarse start and the start they give.\<close>

definition fine_start_rows ::
  "'w reading \<Rightarrow> nat \<Rightarrow> row list \<Rightarrow> box list \<Rightarrow> coarse \<Rightarrow> ('w, row list \<times> rat) action" where
  "fine_start_rows rd scale rule_rows overlays c =
     (let fine_start = max 0 (fl (co_pts_s c - REFINE_BEFORE_S));
          fine_length = fl (fl (co_pts_s c + REFINE_AFTER_S) - fine_start)
      in andthen (decode_window rd scale [] fine_start (Some fine_length) False None) (\<lambda>fine.
           (let own_fine = without_overlays fine overlays;
                start_s = refine_start RULE_J rule_rows c own_fine REFINE_BEFORE_S
            in if \<not> (fine_start > 0 \<and> refine_reaches_floor RULE_J rule_rows c own_fine REFINE_BEFORE_S)
               then give (fine, start_s)
               else
                 (let more_start = max 0 (fl (fine_start - p_gap_s RULE_J))
                  in andthen (of_option (first_s fine)) (\<lambda>first.
                       andthen (decode_window rd scale [] more_start (Some (fl (fine_start - more_start))) False None)
                         (\<lambda>more.
                           (let fine = filter (\<lambda>row. r_pts row < first) more @ fine
                            in give (fine, refine_start RULE_J rule_rows c (without_overlays fine overlays)
                                             (fl (co_pts_s c - more_start))))))))))"

text \<open>The frames around the end and the end they give.\<close>

definition end_rows_and_end ::
  "'w reading \<Rightarrow> nat \<Rightarrow> row list \<Rightarrow> box list \<Rightarrow> coarse \<Rightarrow> ('w, row list \<times> rat option) action" where
  "end_rows_and_end rd scale rule_rows overlays c =
     (let duration_s = fl (of_int (rd_duration_ms rd) / 1000)
      in andthen (of_option (coarse_end_s RULE_J rule_rows c)) (\<lambda>last_keyframe.
         if \<not> keeps_a_scene_after last_keyframe duration_s then give ([], None)
         else
           andthen (of_option (end_keyframe_s RULE_J rule_rows c)) (\<lambda>end_keyframe.
             (let end_start = max 0 (fl (end_keyframe - REFINE_END_BEFORE_S));
                  end_length = fl (fl (last_keyframe + REFINE_END_AFTER_S) - end_start)
              in andthen (decode_window rd scale [] end_start (Some end_length) False None) (\<lambda>rows.
                   andthen (of_option (credits_end RULE_J rule_rows c (without_overlays rows overlays) duration_s))
                     (\<lambda>end_s. give (rows, end_s)))))))"

text \<open>The coarse start, and the rows it was found on after the steps before the tail.\<close>

definition searched ::
  "'w video \<Rightarrow> 'w reading \<Rightarrow> (rat \<Rightarrow> rat option \<Rightarrow> rat option \<Rightarrow> ('w, row list) action) \<Rightarrow>
    (row list \<Rightarrow> row list) \<Rightarrow> box list \<Rightarrow> bool \<Rightarrow> row list \<Rightarrow> row list \<Rightarrow> ('w, looked_back) action" where
  "searched video rd keyframes new_text overlays black_reads key_rows decoded =
     andthen (of_option (coarse_start RULE_J (new_text key_rows)
                (Some (without_overlays (new_text key_rows) overlays)) black_reads)) (\<lambda>found.
       case found of
         None \<Rightarrow> give (key_rows, None, decoded)
       | Some c \<Rightarrow>
           if \<not> rd_tail_start rd > 0 then give (key_rows, Some c, decoded)
           else andthen (of_option (opens_on_the_run RULE_J (new_text key_rows) c)) (\<lambda>opens.
                  if opens then steps_before video rd keyframes new_text overlays black_reads key_rows c decoded
                  else give (key_rows, Some c, decoded)))"

text \<open>The result: nothing, or the refined start and the end.\<close>

definition answer ::
  "(rat list \<Rightarrow> rat) \<Rightarrow> 'w reading \<Rightarrow> nat \<Rightarrow> box list \<Rightarrow> row list \<Rightarrow> row list \<Rightarrow> row list \<Rightarrow> coarse option
    \<Rightarrow> ('w, credits_result) action" where
  "answer fsum rd scale overlays key_rows rule_rows found_rows coarse =
     (let nothing = \<lparr>cr_start_s = None, cr_end_s = None, cr_key_rows = key_rows, cr_fine_rows = [],
                     cr_end_rows = [], cr_overlays = overlays, cr_scale = scale,
                     cr_run_rows = found_rows, cr_prose_start_s = None\<rparr>
      in andthen (of_option (dense_start scale key_rows rule_rows found_rows overlays coarse)) (\<lambda>coarse.
           case coarse of
             None \<Rightarrow> give nothing
           | Some c \<Rightarrow>
               andthen (of_option (no_roll fsum key_rows rule_rows overlays c)) (\<lambda>refused.
                 if refused then give nothing
                 else
                   andthen (fine_start_rows rd scale rule_rows overlays c) (\<lambda>(fine, start_s).
                   andthen (end_rows_and_end rd scale rule_rows overlays c) (\<lambda>(ending, end_s).
                     give (nothing\<lparr>cr_start_s := Some start_s, cr_end_s := end_s,
                                   cr_fine_rows := fine, cr_end_rows := ending\<rparr>))))))"

definition read_credits ::
  "(rat list \<Rightarrow> rat) \<Rightarrow> 'w video \<Rightarrow> 'w reading \<Rightarrow> nat \<Rightarrow> row list \<Rightarrow> (rat \<times> row list) option
    \<Rightarrow> ('w, credits_result \<times> row list) action" where
  "read_credits fsum video rd scale seen after =
     (let seen_boxes = map (\<lambda>row. (r_pts row, boxes_of row)) seen;
          keyframes = (\<lambda>start_s length_s timeout_s. decode_window rd scale seen_boxes start_s length_s True timeout_s);
          new_text = not_seen (after \<noteq> None) seen_boxes
      in andthen (tail_rows rd keyframes after) (\<lambda>(key_rows, decoded).
           (let overlays = overlay_boxes RULE_J key_rows
            in andthen (searched video rd keyframes new_text overlays (scale = 1) key_rows decoded)
                 (\<lambda>(key_rows, coarse, decoded).
                 andthen (answer fsum rd scale overlays key_rows (without_overlays (new_text key_rows) overlays)
                            (if scale > 1 then new_text key_rows else []) coarse)
                   (\<lambda>result. give (result, decoded))))))"

section \<open>Both readings\<close>

definition the_roll ::
  "(nat \<Rightarrow> row list \<Rightarrow> (rat \<times> row list) option \<Rightarrow> ('w, credits_result \<times> row list) action)
    \<Rightarrow> ('w, credits_result) action" where
  "the_roll read =
     andthen (read 1 [] None) (\<lambda>(found, seen).
       if cr_key_rows found = [] \<or> (cr_start_s found \<noteq> None \<and> cr_end_s found = None) then give found
       else
         (let after = map_option (\<lambda>e. (e, filter (\<lambda>row. r_pts row < e) (cr_key_rows found))) (cr_end_s found)
          in handle
               (andthen (read RETRY_SCALE seen after) (\<lambda>(larger, _).
                  give (case cr_start_s larger of
                          None \<Rightarrow> found
                        | Some s \<Rightarrow>
                            (case cr_end_s found of
                               None \<Rightarrow> larger
                             | Some e \<Rightarrow> if s < e then found else larger))))
               (\<lambda>e.
                  if e \<in> gpu_decode_errors \<or> e = Text_Shutting_Down then fail e
                  else if e \<in> frame_decode_errors \<or> e \<in> text_unavailable_errors then
                    (if cr_start_s found \<noteq> None then give found
                     else if e = Decode_Timeout then fail e
                     else give found)
                  else fail e)))"

definition window_end :: "credits_result \<Rightarrow> rat \<Rightarrow> rat \<Rightarrow> rat" where
  "window_end found start length_s =
     (case cr_end_s found of
        None \<Rightarrow> fl (start + length_s)
      | Some e \<Rightarrow> min (fl (start + length_s)) (fl (e + 1)))"

text \<open>The cards after the first one, on frames of both sizes.\<close>

definition cards_after ::
  "(rat \<Rightarrow> rat \<Rightarrow> nat \<Rightarrow> ('w, row list) action) \<Rightarrow> credits_result \<Rightarrow> rat \<Rightarrow> title_card
    \<Rightarrow> ('w, title_card list) action" where
  "cards_after one_fps found start first =
     (let end_s = window_end found start CARD_WINDOW_S
      in if end_s \<le> fl (k_last_s first + 1) then give []
         else
           (let cut = (case cr_end_s found of None \<Rightarrow> True | Some e \<Rightarrow> end_s < fl (e + 1))
            in andthen (one_fps (k_last_s first) end_s 1) (\<lambda>small.
                 (let seen = map (\<lambda>row. (r_pts row, boxes_of row)) small
                  in andthen (one_fps (k_last_s first) end_s RETRY_SCALE) (\<lambda>rows.
                       (let larger = without_overlays (small_text seen rows) (cr_overlays found)
                        in give (filter (\<lambda>c. k_last_s first < k_first_s c \<and>
                                              \<not> (cut \<and> fl (k_last_s c + 1) \<ge> end_s))
                                   (cards larger (k_last_s first)))))))))"

definition past_prose_cards ::
  "(decode_part \<Rightarrow> ('w, row list) action) \<Rightarrow> (rat \<Rightarrow> ('w, string list) action) \<Rightarrow> credits_result \<Rightarrow> rat
    \<Rightarrow> ('w, credits_result) action" where
  "past_prose_cards decode read_text found start =
     (let shown = without_overlays (by_time (cr_fine_rows found @ cr_key_rows found)) (cr_overlays found);
          one_fps = (\<lambda>start_s end_s scale. decode \<lparr>w_start = start_s, w_length = Some (fl (end_s - start_s)),
                       w_keyframes = False, w_scale = scale, w_timeout = None\<rparr>)
      in case find (\<lambda>row. r_pts row \<ge> start \<and> boxes_of row \<noteq> []) shown of
           None \<Rightarrow> give found
         | Some text_at_start \<Rightarrow>
             if r_luma text_at_start \<ge> p_dark RULE_J then give found
             else
               andthen (one_fps start (window_end found start FIRST_CARD_WINDOW_S) 1) (\<lambda>rows.
                 case cards (without_overlays rows (cr_overlays found)) start of
                   [] \<Rightarrow> give found
                 | first # _ \<Rightarrow>
                     if k_first_s first > fl (r_pts text_at_start + LANDS_ON_S) then give found
                     else
                       andthen (past_prose (Some first) (cards_after one_fps found start first)
                                  (\<lambda>c. read_text (k_read_s c))) (\<lambda>moved.
                         give (case moved of
                                 None \<Rightarrow> found
                               | Some m \<Rightarrow>
                                   if (case cr_end_s found of None \<Rightarrow> False | Some e \<Rightarrow> m \<ge> e) then found
                                   else found\<lparr>cr_start_s := Some m, cr_prose_start_s := Some start\<rparr>))))"

text \<open>The answer with its start moved past prose, where words are read; what keeps the answer instead.\<close>

definition start_past_prose ::
  "'w video \<Rightarrow> (decode_part \<Rightarrow> ('w, row list) action) \<Rightarrow> credits_result \<Rightarrow> ('w, credits_result) action" where
  "start_past_prose video decode found =
     (case (v_read_text video, cr_start_s found) of
        (Some read_text, Some start) \<Rightarrow>
          handle (past_prose_cards decode read_text found start)
            (\<lambda>e. if e \<in> gpu_decode_errors \<or> e = Text_Shutting_Down then fail e
                  else if e \<in> frame_decode_errors \<or> e \<in> text_unavailable_errors then give found
                  else fail e)
      | _ \<Rightarrow> give found)"

definition reading_of ::
  "'w video \<Rightarrow> int \<Rightarrow> bool \<Rightarrow> rat option \<Rightarrow> rat option \<Rightarrow> rat \<Rightarrow> thinning \<Rightarrow> 'w reading" where
  "reading_of video duration episode tail_s earliest start_time thinning =
     \<lparr>rd_decode = v_decode video start_time thinning,
      rd_strided = (case t_keep_every thinning of None \<Rightarrow> False | Some n \<Rightarrow> n \<noteq> 0),
      rd_duration_ms = duration,
      rd_tail_start = tail_start_s duration
                        (case tail_s of None \<Rightarrow> tail_length_s episode None None | Some t \<Rightarrow> t),
      rd_earliest = earliest\<rparr>"

definition find_credits ::
  "(rat list \<Rightarrow> rat) \<Rightarrow> 'w video \<Rightarrow> int \<Rightarrow> bool \<Rightarrow> rat option \<Rightarrow> rat option \<Rightarrow> ('w, credits_result) action" where
  "find_credits fsum video duration episode tail_s earliest =
     andthen (v_start_time video) (\<lambda>start_time.
     andthen (v_thinning video) (\<lambda>thinning.
     andthen (the_roll (read_credits fsum video
                (reading_of video duration episode tail_s earliest start_time thinning)))
       (start_past_prose video (v_decode video start_time thinning))))"

section \<open>The answer\<close>

definition to_ms :: "rat \<Rightarrow> int" where
  "to_ms t = round_half_even (fl (t * 1000))"

definition chapter_origin :: "credits_result \<Rightarrow> int \<Rightarrow> string option" where
  "chapter_origin result chapter =
     (case cr_start_s result of
        None \<Rightarrow> None
      | Some start_s \<Rightarrow>
          (let chapter_s = fl (of_int chapter / 1000)
           in if (case cr_prose_start_s result of
                    None \<Rightarrow> False
                  | Some p \<Rightarrow> fl (p - CHAPTER_AGREES_S) \<le> chapter_s \<and> chapter_s < start_s)
              then Some (chapter_hint chapter True None)
              else
                (case chapter_moves_to (without_overlays (cr_key_rows result) (cr_overlays result)) start_s chapter_s of
                   None \<Rightarrow> Some (chapter_hint chapter False None)
                 | Some moved_s \<Rightarrow>
                     Some (chapter_hint chapter True
                       (if to_ms moved_s = to_ms start_s then None else Some (to_ms moved_s))))))"

text \<open>The candidate \<open>detect_credits_text\<close> answers with; \<open>None\<close> around it is an exception.\<close>

definition credits_candidate :: "credits_result \<Rightarrow> int option \<Rightarrow> candidate option option" where
  "credits_candidate result chapter =
     (case cr_start_s result of
        None \<Rightarrow> Some None
      | Some start_s \<Rightarrow>
          map_option (\<lambda>origin. Some \<lparr>c_type = CREDITS, c_start_ms = to_ms start_s,
              c_end_ms = map_option to_ms (cr_end_s result), c_source = CREDITS_TEXT,
              c_confidence = Finite 1, c_origin = origin, c_copied_from = [], c_stale = False\<rparr>)
            (case chapter of None \<Rightarrow> Some [] | Some ch \<Rightarrow> chapter_origin result ch))"

end
