(* ===== verification/Detector_Sound.thy ===== *)
theory Detector_Sound
  imports Detector Cards_Claims Rule_J_Sound
begin

text \<open>
  The detector raises nothing of its own: on rows with their boxes counted every step of rule J answers,
  and the steps before the tail end.  What it answers keeps a scene after the end, and a start moved past
  prose lies after the old one and before the end.
\<close>

section \<open>Rows\<close>

definition counted_row :: "row \<Rightarrow> bool" where
  "counted_row row = (case r_boxes row of None \<Rightarrow> True | Some boxes \<Rightarrow> r_count row = int (length boxes))"

lemma counted_iff: "counted rows \<longleftrightarrow> (\<forall>row \<in> set rows. counted_row row)"
  by (auto simp: counted_def counted_row_def list_all_iff)

lemma counted_append [simp]: "counted (xs @ ys) \<longleftrightarrow> counted xs \<and> counted ys"
  by (auto simp: counted_iff)

lemma counted_Nil [simp]: "counted []"
  by (simp add: counted_iff)

lemma counted_filter [simp]: "counted xs \<Longrightarrow> counted (filter P xs)"
  by (auto simp: counted_iff)

lemma counted_drop: "counted_row row \<Longrightarrow> counted_row (drop_overlays overlays row)"
  by (auto simp: counted_row_def drop_overlays_def Let_def split: option.splits)

lemma counted_without [simp]: "counted rows \<Longrightarrow> counted (without_overlays rows overlays)"
  by (auto simp: without_overlays_def counted_iff counted_drop)

lemma without_single: "without_overlays [row] overlays = [hd (without_overlays [row] overlays)]"
  by (simp add: without_overlays_def)

lemma counted_small [simp]: "counted rows \<Longrightarrow> counted (small_text seen rows)"
  by (auto simp: small_text_def counted_iff counted_row_def small_row_def Let_def split: option.splits)

lemma counted_not_seen [simp]: "counted rows \<Longrightarrow> counted (not_seen whole seen rows)"
  unfolding not_seen_def Let_def
  by (auto simp: counted_iff without_overlays_def counted_drop)

lemma length_not_seen [simp]: "length (not_seen whole seen rows) = length rows"
  by (simp add: not_seen_def)

lemma not_seen_eq_Nil [simp]: "not_seen whole seen rows = [] \<longleftrightarrow> rows = []"
  using length_not_seen [of whole seen rows] by (metis length_0_conv)

lemma without_eq_Nil [simp]: "without_overlays rows overlays = [] \<longleftrightarrow> rows = []"
  by (simp add: without_overlays_def)

section \<open>Single steps of the rule\<close>

text \<open>A coarse start on \<open>rows\<close> whose overlays' boxes are dropped from the rows it reads.\<close>

definition found_on :: "row list \<Rightarrow> box list \<Rightarrow> coarse option \<Rightarrow> bool" where
  "found_on rows overlays found \<longleftrightarrow>
     (case found of None \<Rightarrow> True
      | Some c \<Rightarrow> coarse_ok RULE_J (without_overlays rows overlays) (credit_runs RULE_J rows) c)"

lemma found_on_rows: "found_on rows overlays (Some c) \<Longrightarrow> rows \<noteq> [] \<and> credit_runs RULE_J rows \<noteq> []"
  using without_overlays_keeps(1) [of rows overlays] by (auto simp: found_on_def coarse_ok_def)

lemma read_rows_Some: "read_rows rows (Some overlays) = without_overlays rows overlays"
  by (simp add: read_rows_def)

lemma coarse_start_ends:
  assumes "counted rows"
  shows "ends E (found_on rows overlays)
    (of_option (coarse_start RULE_J rows (Some (without_overlays rows overlays)) black))"
proof -
  obtain found where "coarse_start RULE_J rows (Some (without_overlays rows overlays)) black = Some found"
    "found_on rows overlays found"
    using coarse_start_Some [OF assms, of RULE_J "Some overlays" black, unfolded read_rows_Some option.map]
    unfolding found_on_def by blast
  then show ?thesis by (simp add: ends_of_option)
qed

lemma too_little_story_ends: "rows \<noteq> [] \<Longrightarrow> ends E (\<lambda>_. True) (of_option (too_little_story rows c))"
  by (simp add: too_little_story_def first_s_def of_option_def ends_give)

lemma rows_before_ends:
  "rows \<noteq> [] \<Longrightarrow> counted before_rows \<Longrightarrow> counted rows \<Longrightarrow>
    ends E (\<lambda>joined. counted joined \<and> joined \<noteq> []) (of_option (rows_before before_rows rows))"
  by (simp add: rows_before_def first_s_def of_option_def ends_give)

lemma opens_ends:
  "found_on rows overlays (Some c) \<Longrightarrow> ends E (\<lambda>_. True) (of_option (opens_on_the_run RULE_J rows c))"
  using found_on_rows [of rows overlays c]
  by (simp add: opens_on_the_run_def too_little_story_def first_s_def of_option_def ends_give Let_def)

lemma joined_before_ends:
  assumes "counted before_rows" and "counted rows" and "rows \<noteq> []"
  shows "ends E (\<lambda>_. True) (of_option (joined_before RULE_J before_rows rows overlays black))"
proof -
  define joined where "joined = filter (\<lambda>row. r_pts row < Min (r_pts ` set rows)) before_rows @ rows"
  have j: "rows_before before_rows rows = Some joined"
    using assms(3) by (simp add: rows_before_def first_s_def joined_def)
  have "counted joined" using assms by (simp add: joined_def)
  then have "\<exists>found. coarse_start RULE_J joined (map_option (without_overlays joined) bs) black = Some found" for bs
    using coarse_start_Some by blast
  from this [of "if overlays = [] then None else Some overlays"]
  obtain found where
    "coarse_start RULE_J joined (if overlays = [] then None else Some (without_overlays joined overlays)) black =
      Some found" by (auto split: if_splits)
  then show ?thesis using j assms(3)
    by (simp add: joined_before_def first_s_def of_option_def ends_give Let_def)
qed

lemma dense_start_ends:
  assumes "found_on rows overlays found" and "scale > 1 \<longrightarrow> raw = rows"
  shows "ends E (\<lambda>c. case c of None \<Rightarrow> True | Some c \<Rightarrow> rows \<noteq> [] \<and> co_end_index c < length rows)
    (of_option (dense_start scale key_rows (without_overlays rows overlays) raw overlays found))"
proof (cases found)
  case (Some c)
  note ok = assms(1) [unfolded Some]
  have c: "co_index c < length (without_overlays rows overlays)" "co_end_index c < length (without_overlays rows overlays)"
    "co_pts_s c = r_pts (without_overlays rows overlays ! co_index c)"
    using ok by (simp_all add: found_on_def coarse_ok_def)
  have len: "length rows = length (without_overlays rows overlays)" by (simp add: without_overlays_keeps)
  obtain c' where c': "start_on_dense_text RULE_J (without_overlays rows overlays) c rows
      (without_overlays key_rows overlays) DENSE_BOXES = Some c'" "co_end_index c' = co_end_index c"
    using start_on_dense_text_Some [OF c(1,2) len c(3)] by blast
  show ?thesis using found_on_rows [OF ok] Some c' assms(2) c(2) len
    by (auto simp: dense_start_def of_option_def intro: ends_give)
qed (simp add: dense_start_def of_option_def ends_give)

lemma no_roll_ends:
  "key_rows \<noteq> [] \<Longrightarrow> co_end_index c < length rule_rows \<Longrightarrow>
     ends E (\<lambda>_. True) (of_option (no_roll fsum key_rows rule_rows overlays c))"
  by (auto simp: no_roll_def captions_def text_all_through_def too_little_story_def first_s_def of_option_def
      Let_def intro: ends_give)

section \<open>The steps before the tail end\<close>

lemma fl_le_of_int: "x \<le> of_int n \<Longrightarrow> \<bar>n\<bar> < 2 ^ 53 \<Longrightarrow> fl x \<le> of_int n"
  using fl_mono [of x "of_int n"] fl_of_int [of n] by simp

lemma fl_ge_of_int: "of_int n \<le> x \<Longrightarrow> \<bar>n\<bar> < 2 ^ 53 \<Longrightarrow> of_int n \<le> fl x"
  using fl_mono [of "of_int n" x] fl_of_int [of n] by simp

lemma fl_geD: "c \<le> fl x \<Longrightarrow> 0 < c \<Longrightarrow> 0 < x"
  using fl_pos_iff [of x] by linarith

lemma next_step_bounds:
  assumes "next_step_start t (Some e) = Some s" and "fl (e - STORY_BEFORE_RUN_S) = floor_s"
    and "t \<le> 2 ^ 52" and "- (2 ^ 52) \<le> floor_s"
  shows "floor_s \<le> s" "s \<le> 2 ^ 52" "nat \<lceil>s - floor_s\<rceil> < nat \<lceil>t - floor_s\<rceil>"
proof -
  let ?s = "fl (t - 120)"
  have far: "30 \<le> fl (t - floor_s)" and s: "s = (if fl (?s - floor_s) \<ge> 30 then ?s else floor_s)"
    using assms(1) unfolding next_step_start_def option.case Let_def assms(2)
    by (auto simp: STORY_BEFORE_RUN_S_def READ_BEFORE_TAIL_S_def split: if_splits)
  have ahead: "floor_s < t" using fl_geD [OF far] by simp
  show "floor_s \<le> s" using s fl_geD [of 30 "?s - floor_s"] by (auto split: if_splits)
  have "\<lceil>- (2 ^ 52) - 120 :: rat\<rceil> \<le> \<lceil>t - 120\<rceil>" using ahead assms(4) by (intro ceiling_mono) simp
  then have c: "\<lceil>t - 120\<rceil> \<le> 2 ^ 52 - 120" "- (2 ^ 52) - 120 \<le> \<lceil>t - 120\<rceil>"
    using assms(3) by (simp_all add: ceiling_le_iff)
  then have "?s \<le> of_int \<lceil>t - 120\<rceil>" by (intro fl_le_of_int) (simp_all add: abs_less_iff)
  also have "\<dots> \<le> t - 1" using of_int_ceiling_le_add_one [of "t - 120"] by simp
  finally have step: "?s \<le> t - 1" .
  then show "s \<le> 2 ^ 52" using s assms(3) ahead by (auto split: if_splits)
  show "nat \<lceil>s - floor_s\<rceil> < nat \<lceil>t - floor_s\<rceil>"
  proof (cases "s = floor_s")
    case False
    then have "s - floor_s \<le> (t - floor_s) - 1" using s step by (auto split: if_splits)
    then have "\<lceil>s - floor_s\<rceil> \<le> \<lceil>t - floor_s\<rceil> - 1" using ceiling_mono [of "s - floor_s" "t - floor_s - 1"] by simp
    moreover have "0 < \<lceil>t - floor_s\<rceil>" using ahead by simp
    ultimately show ?thesis by linarith
  qed (use ahead in simp)
qed

lemma step_rows_ends:
  assumes "{Decode_Cancelled, Decode_Timeout} \<subseteq> E" and "\<And>s l t. ends E counted (keyframes s l t)"
  shows "ends E counted (step_rows video keyframes start_s end_s deadline)"
  unfolding step_rows_def Let_def using assms
  by (auto intro!: ends_andthen [OF ends_ask [where P = "\<lambda>_. True"]] ends_if ends_fail)

text \<open>\<open>looked\<close>: the keyframe rows are counted and the coarse start is one on them.\<close>

definition looked :: "(row list \<Rightarrow> row list) \<Rightarrow> box list \<Rightarrow> looked_back \<Rightarrow> bool" where
  "looked new_text overlays r \<longleftrightarrow> (case r of (rows, found, decoded) \<Rightarrow>
     counted rows \<and> found_on (new_text rows) overlays found)"

lemma look_back_ends:
  assumes E: "{Decode_Cancelled, Decode_Timeout} \<subseteq> E" "\<And>s l t. ends E counted (keyframes s l t)"
    and newt: "\<And>rows. counted rows \<Longrightarrow> counted (new_text rows)"
    and fuel: "0 < n" "\<And>e. earliest = Some e \<Longrightarrow> - (2 ^ 52) \<le> fl (e - STORY_BEFORE_RUN_S) \<and>
      nat \<lceil>before_start - fl (e - STORY_BEFORE_RUN_S)\<rceil> < n"
    and start: "before_start \<le> 2 ^ 52" "counted joined" "joined \<noteq> []"
  shows "ends E (looked new_text overlays)
    (look_back n video keyframes new_text overlays black earliest deadline before_start joined decoded)"
  using fuel start
proof (induction n arbitrary: before_start joined decoded)
  case (Suc n)
  show ?case
    unfolding look_back.simps
  proof (rule ends_andthen [OF coarse_start_ends [OF newt [OF Suc.prems(4)]]], goal_cases)
    case (1 found)
    show ?case
    proof (cases found)
      case None
      then show ?thesis using Suc.prems(4) 1 by (auto simp: looked_def intro: ends_give)
    next
      case (Some c)
      have stays: "ends E (looked new_text overlays) (give (joined, Some c, decoded))"
        using Suc.prems(4) 1 Some by (auto simp: looked_def intro: ends_give)
      show ?thesis unfolding Some option.case
      proof (rule ends_andthen [OF too_little_story_ends [OF Suc.prems(5)]], rule ends_if, goal_cases)
        case (2 little)
        show ?case
        proof (cases "next_step_start before_start earliest")
          case s: (Some s)
          then obtain e' where e: "earliest = Some e'" by (cases earliest) (auto simp: next_step_start_def)
          define f where "f = fl (e' - STORY_BEFORE_RUN_S)"
          have fuel: "- (2 ^ 52) \<le> f" "nat \<lceil>before_start - f\<rceil> < Suc n" using Suc.prems(2) [OF e] by (simp_all add: f_def)
          note next_b = next_step_bounds [OF s [unfolded e] f_def [symmetric] Suc.prems(3) fuel(1)]
          have "nat \<lceil>s - f\<rceil> < n" using next_b(3) fuel(2) by linarith
          then have ih: "ends E (looked new_text overlays)
              (look_back n video keyframes new_text overlays black earliest deadline s joined' decoded')"
            if "counted joined'" "joined' \<noteq> []" for joined' decoded'
            using that fuel(1) next_b(2) by (intro Suc.IH) (auto simp: e f_def)
          show ?thesis unfolding s option.case
          proof (rule ends_andthen [OF step_rows_ends [OF E]])
            fix rows :: "row list" assume "counted rows"
            then show "ends E (looked new_text overlays) (andthen (of_option (rows_before rows joined))
                (\<lambda>joined'. look_back n video keyframes new_text overlays black earliest deadline s joined'
                   (decoded @ rows)))"
              by (rule ends_andthen [OF rows_before_ends [OF Suc.prems(5) _ Suc.prems(4)]]) (simp add: ih)
          qed
        qed (simp add: stays)
      qed (rule stays)
    qed
  qed
qed simp

section \<open>A reading\<close>

text \<open>What the answer promises: more than 30 s of the file after an end, and a start with every end.\<close>

definition keeps_scene :: "int \<Rightarrow> credits_result \<Rightarrow> bool" where
  "keeps_scene duration r \<longleftrightarrow>
     (case cr_end_s r of None \<Rightarrow> True
      | Some e \<Rightarrow> cr_start_s r \<noteq> None \<and> keeps_a_scene_after e (fl (of_int duration / 1000)))"

lemma decode_window_ends:
  assumes "\<And>w. ends E counted (rd_decode rd w)"
  shows "ends E counted (decode_window rd scale seen start_s length_s key timeout_s)"
  unfolding decode_window_def by (rule ends_andthen [OF assms]) (simp add: ends_give)

lemma tail_rows_ends:
  assumes "\<And>s l t. ends E counted (keyframes s l t)" and "case after of None \<Rightarrow> True | Some (_, rows) \<Rightarrow> counted rows"
  shows "ends E (\<lambda>(key_rows, decoded). counted key_rows) (tail_rows rd keyframes after)"
  using assms(2) unfolding tail_rows_def
  by (auto intro!: ends_andthen [OF assms(1)] ends_give split: option.splits)

lemma fine_start_rows_ends:
  assumes "\<And>w. ends E counted (rd_decode rd w)"
  shows "ends E (\<lambda>_. True) (fine_start_rows rd scale rule_rows overlays c)"
proof -
  have ne: "fine \<noteq> []" if "refine_reaches_floor RULE_J rule_rows c (without_overlays fine overlays) t" for fine t
    using that by (auto simp: refine_reaches_floor_def refine_walk_def refine_window_def Let_def)
  have first: "ends E (\<lambda>_. True) (of_option (first_s fine))" if "fine \<noteq> []" for fine
    using that by (simp add: first_s_def of_option_def ends_give)
  show ?thesis
    unfolding fine_start_rows_def Let_def
    by (auto intro!: ends_andthen [OF decode_window_ends [OF assms]] ends_if ends_give ends_andthen [OF first]
        dest: ne)
qed

lemma end_rows_and_end_ends:
  assumes "\<And>w. ends E counted (rd_decode rd w)" and row: "co_end_index c < length rule_rows"
  shows "ends E (\<lambda>(rows, end_s). case end_s of None \<Rightarrow> True
      | Some e \<Rightarrow> keeps_a_scene_after e (fl (of_int (rd_duration_ms rd) / 1000)))
    (end_rows_and_end rd scale rule_rows overlays c)"
proof -
  let ?d = "fl (of_int (rd_duration_ms rd) / 1000)"
  obtain t scene where t: "end_keyframes RULE_J rule_rows c = Some (t, scene)"
    using end_keyframes_Some [OF row] by blast
  have latest: "ends E (\<lambda>_. True) (of_option (coarse_end_s RULE_J rule_rows c))"
    using row by (simp add: of_option_def ends_give)
  from t have key: "ends E (\<lambda>_. True) (of_option (end_keyframe_s RULE_J rule_rows c))"
    by (simp add: end_keyframe_s_def of_option_def ends_give)
  have "\<exists>answer. credits_end RULE_J rule_rows c fine ?d = Some answer \<and>
      (case answer of None \<Rightarrow> True | Some e \<Rightarrow> keeps_a_scene_after e ?d)" for fine
    using credits_end_keeps [OF row] by blast
  then have last: "ends E (\<lambda>answer. case answer of None \<Rightarrow> True | Some e \<Rightarrow> keeps_a_scene_after e ?d)
      (of_option (credits_end RULE_J rule_rows c fine ?d))" for fine
    by (metis (no_types, lifting) ends_of_option)
  show ?thesis
    unfolding end_rows_and_end_def Let_def
    by (auto intro!: ends_if ends_give ends_andthen [OF latest] ends_andthen [OF key]
        ends_andthen [OF decode_window_ends [OF assms(1)]] ends_andthen [OF last] split: option.splits)
qed

definition reading_ok :: "failure set \<Rightarrow> 'w reading \<Rightarrow> bool" where
  "reading_ok E rd \<longleftrightarrow>
     {Decode_Cancelled, Decode_Timeout} \<subseteq> E \<and> (\<forall>w. ends E counted (rd_decode rd w)) \<and>
     rd_tail_start rd \<le> 2 ^ 52 \<and>
     (case rd_earliest rd of None \<Rightarrow> True | Some e \<Rightarrow> - (2 ^ 52) \<le> fl (e - STORY_BEFORE_RUN_S))"

lemma steps_before_ends:
  assumes ok: "reading_ok E rd" and keys: "\<And>s l t. ends E counted (keyframes s l t)"
    and newt: "\<And>rows. counted rows \<Longrightarrow> counted (new_text rows)" "\<And>rows. new_text rows = [] \<longleftrightarrow> rows = []"
    and rows: "counted key_rows" "key_rows \<noteq> []" "found_on (new_text key_rows) overlays (Some c)"
  shows "ends E (looked new_text overlays)
    (steps_before video rd keyframes new_text overlays black key_rows c decoded)"
proof -
  define before_start where "before_start = max 0 (fl (rd_tail_start rd - READ_BEFORE_TAIL_S))"
  have "fl (rd_tail_start rd - READ_BEFORE_TAIL_S) \<le> of_int (2 ^ 52)"
    using ok by (intro fl_le_of_int) (simp_all add: reading_ok_def READ_BEFORE_TAIL_S_def)
  then have start: "before_start \<le> 2 ^ 52" by (simp add: before_start_def)
  have E: "{Decode_Cancelled, Decode_Timeout} \<subseteq> E" using ok by (simp add: reading_ok_def)
  have fuel: "0 < look_back_fuel before_start (rd_earliest rd)"
    "\<And>e. rd_earliest rd = Some e \<Longrightarrow> - (2 ^ 52) \<le> fl (e - STORY_BEFORE_RUN_S) \<and>
      nat \<lceil>before_start - fl (e - STORY_BEFORE_RUN_S)\<rceil> < look_back_fuel before_start (rd_earliest rd)"
    using ok by (auto simp: look_back_fuel_def reading_ok_def split: option.splits)
  have looks: "ends E (looked new_text overlays)
      (look_back (look_back_fuel before_start (rd_earliest rd)) video keyframes new_text overlays black
         (rd_earliest rd) deadline before_start joined decoded')"
    if "counted joined" "joined \<noteq> []" for deadline joined decoded'
    using look_back_ends [OF E keys newt(1) fuel start that] .
  have joins: "ends E (\<lambda>_. True) (of_option (joined_before RULE_J (new_text b) (new_text key_rows) overlays black))"
    if "counted b" for b
    using joined_before_ends [OF newt(1) [OF that] newt(1) [OF rows(1)]] newt(2) rows(2) by simp
  show ?thesis
    unfolding steps_before_def Let_def before_start_def [symmetric]
  proof (rule ends_andthen [OF ends_ask [where P = "\<lambda>_. True"]], simp, rule ends_andthen [OF keys])
    fix deadline and b :: "row list" assume b: "counted b"
    show "ends E (looked new_text overlays)
      (andthen (of_option (joined_before RULE_J (new_text b) (new_text key_rows) overlays black))
        (\<lambda>joins. if joins = None then give (key_rows, Some c, decoded @ b)
          else andthen (of_option (rows_before b key_rows))
            (\<lambda>joined. look_back (look_back_fuel before_start (rd_earliest rd)) video keyframes new_text overlays
               black (rd_earliest rd) (fl (deadline + LOOK_BACK_TIMEOUT_S)) before_start joined (decoded @ b))))"
      by (intro ends_andthen [OF joins [OF b]] ends_if ends_andthen [OF rows_before_ends [OF rows(2) b rows(1)]])
        (use rows in \<open>auto intro: ends_give looks simp: looked_def\<close>)
  qed
qed

lemma searched_ends:
  assumes ok: "reading_ok E rd" and keys: "\<And>s l t. ends E counted (keyframes s l t)"
    and newt: "\<And>rows. counted rows \<Longrightarrow> counted (new_text rows)" "\<And>rows. new_text rows = [] \<longleftrightarrow> rows = []"
    and rows: "counted key_rows"
  shows "ends E (looked new_text overlays)
    (searched video rd keyframes new_text overlays black key_rows decoded)"
  unfolding searched_def
proof (rule ends_andthen [OF coarse_start_ends [OF newt(1) [OF rows]]])
  fix found assume found: "found_on (new_text key_rows) overlays found"
  show "ends E (looked new_text overlays)
        (case found of
           None \<Rightarrow> give (key_rows, None, decoded)
         | Some c \<Rightarrow>
             if \<not> rd_tail_start rd > 0 then give (key_rows, Some c, decoded)
             else andthen (of_option (opens_on_the_run RULE_J (new_text key_rows) c)) (\<lambda>opens.
                    if opens then steps_before video rd keyframes new_text overlays black key_rows c decoded
                    else give (key_rows, Some c, decoded)))"
  proof (cases found)
    case (Some c)
    have ne: "key_rows \<noteq> []" using found_on_rows [OF found [unfolded Some]] newt(2) by blast
    show ?thesis unfolding Some option.case
      by (intro ends_if ends_andthen [OF opens_ends [OF found [unfolded Some]]]
            steps_before_ends [OF ok keys newt rows ne found [unfolded Some]])
        (use rows found Some in \<open>auto intro: ends_give simp: looked_def\<close>)
  qed (use rows found in \<open>auto intro: ends_give simp: looked_def\<close>)
qed

definition answer_ok :: "int \<Rightarrow> credits_result \<Rightarrow> bool" where
  "answer_ok duration r \<longleftrightarrow> keeps_scene duration r \<and> counted (cr_key_rows r) \<and> cr_prose_start_s r = None"

lemma answer_ends:
  assumes ok: "reading_ok E rd" and rows: "counted key_rows" "found_on rows overlays coarse"
    and raw: "raw = (if scale > 1 then rows else [])" and same: "rows = [] \<longleftrightarrow> key_rows = []"
  shows "ends E (answer_ok (rd_duration_ms rd))
    (answer fsum rd scale overlays key_rows (without_overlays rows overlays) raw coarse)"
proof -
  have decode: "\<And>w. ends E counted (rd_decode rd w)" using ok by (simp add: reading_ok_def)
  have raw': "scale > 1 \<longrightarrow> raw = rows" using raw by simp
  show ?thesis
    unfolding answer_def Let_def
  proof (rule ends_andthen [OF dense_start_ends [OF rows(2) raw']], goal_cases)
    case (1 c)
    show ?case
    proof (cases c)
      case (Some c)
      have ne: "key_rows \<noteq> []" and row: "co_end_index c < length (without_overlays rows overlays)"
        using 1 Some same by (simp_all add: without_overlays_keeps)
      show ?thesis unfolding Some option.case
        by (intro ends_andthen [OF no_roll_ends [OF ne row]] ends_if ends_give)
          (auto intro!: ends_andthen [OF fine_start_rows_ends [OF decode]]
            ends_andthen [OF end_rows_and_end_ends [OF decode row]] ends_give
            simp: answer_ok_def keeps_scene_def rows(1) split: option.splits)
    qed (use rows(1) in \<open>auto intro!: ends_give simp: answer_ok_def keeps_scene_def\<close>)
  qed
qed

lemma read_credits_ends:
  assumes ok: "reading_ok E rd" and behind: "case after of None \<Rightarrow> True | Some (_, rows) \<Rightarrow> counted rows"
  shows "ends E (\<lambda>(r, decoded). answer_ok (rd_duration_ms rd) r) (read_credits fsum video rd scale seen after)"
proof -
  define seen_boxes where "seen_boxes = map (\<lambda>row. (r_pts row, boxes_of row)) seen"
  define keyframes where
    "keyframes = (\<lambda>start_s length_s timeout_s. decode_window rd scale seen_boxes start_s length_s True timeout_s)"
  define new_text where "new_text = not_seen (after \<noteq> None) seen_boxes"
  have keys: "\<And>s l t. ends E counted (keyframes s l t)"
    using ok unfolding keyframes_def by (intro decode_window_ends) (simp add: reading_ok_def)
  have newt: "\<And>rows. counted rows \<Longrightarrow> counted (new_text rows)" "\<And>rows. new_text rows = [] \<longleftrightarrow> rows = []"
    by (simp_all add: new_text_def)
  show ?thesis
    unfolding read_credits_def Let_def seen_boxes_def [symmetric] keyframes_def [symmetric] new_text_def [symmetric]
  proof (rule ends_andthen [OF tail_rows_ends [OF keys behind]], clarsimp)
    fix key_rows decoded :: "row list" assume rows: "counted key_rows"
    let ?overlays = "overlay_boxes RULE_J key_rows"
    show "ends E (\<lambda>(r, decoded). answer_ok (rd_duration_ms rd) r)
      (andthen (searched video rd keyframes new_text ?overlays (scale = Suc 0) key_rows decoded)
        (\<lambda>(key_rows, coarse, decoded).
          andthen (answer fsum rd scale ?overlays key_rows (without_overlays (new_text key_rows) ?overlays)
            (if Suc 0 < scale then new_text key_rows else []) coarse) (\<lambda>result. give (result, decoded))))"
    proof (rule ends_andthen [OF searched_ends [OF ok keys newt rows]])
      fix r assume "looked new_text ?overlays r"
      then obtain read_rows' coarse decoded' where r: "r = (read_rows', coarse, decoded')"
        and looked: "counted read_rows'" "found_on (new_text read_rows') ?overlays coarse"
        by (cases r) (auto simp: looked_def)
      show "ends E (\<lambda>(r, decoded). answer_ok (rd_duration_ms rd) r)
        (case r of (key_rows', coarse, decoded) \<Rightarrow>
          andthen (answer fsum rd scale ?overlays key_rows' (without_overlays (new_text key_rows') ?overlays)
            (if Suc 0 < scale then new_text key_rows' else []) coarse) (\<lambda>result. give (result, decoded)))"
        unfolding r prod.case
        by (rule ends_andthen [OF answer_ends [OF ok looked]]) (auto intro: ends_give simp: newt(2))
    qed
  qed
qed

end
