(* ===== verification/Detector_Claims.thy ===== *)
theory Detector_Claims
  imports Detector_Sound Decide
begin

text \<open>
  The properties of the credit text detector: what a whole run can end with, which of the two readings
  answers, where the walk past prose goes, and that the decision rules read back the chapter label.
\<close>

section \<open>Both readings and the cards\<close>

lemma first_no_prose_ends:
  assumes "\<And>c. ends E (\<lambda>_. True) (read c)"
  shows "ends E (\<lambda>m. case m of None \<Rightarrow> True | Some t \<Rightarrow> t \<in> k_first_s ` set cs) (first_no_prose read cs)"
proof (induction cs)
  case (Cons c cs)
  have "ends E (\<lambda>m. case m of None \<Rightarrow> True | Some t \<Rightarrow> t \<in> k_first_s ` set (c # cs)) (first_no_prose read cs)"
    by (rule ends_weaken [OF Cons.IH]) (auto split: option.splits)
  then show ?case by (auto intro!: ends_if ends_give ends_andthen [OF assms])
qed (simp add: ends_give)

text \<open>Only later, and before the end.\<close>

definition moved_past_prose :: "credits_result \<Rightarrow> bool" where
  "moved_past_prose r \<longleftrightarrow>
     (case cr_prose_start_s r of None \<Rightarrow> True
      | Some p \<Rightarrow>
          (case cr_start_s r of None \<Rightarrow> False
           | Some s \<Rightarrow> p < s \<and> (case cr_end_s r of None \<Rightarrow> True | Some e \<Rightarrow> s < e)))"

lemma cards_after_ends:
  assumes "\<And>s t n. ends E (\<lambda>_. True) (one_fps s t n)"
  shows "ends E (\<lambda>cs. \<forall>c \<in> set cs. k_last_s first < k_first_s c) (cards_after one_fps found start first)"
  unfolding cards_after_def Let_def
  by (auto intro!: ends_if ends_give ends_andthen [OF assms])

lemma past_prose_cards_ends:
  assumes decode: "\<And>w. ends E counted (decode w)" and read: "\<And>t. ends E (\<lambda>_. True) (read_text t)"
    and found: "keeps_scene duration found" "cr_prose_start_s found = None" "cr_start_s found = Some start"
  shows "ends E (\<lambda>r. keeps_scene duration r \<and> moved_past_prose r) (past_prose_cards decode read_text found start)"
proof -
  have decode': "ends E (\<lambda>_. True) (decode w)" for w by (rule ends_weaken [OF decode]) simp
  have stays: "ends E (\<lambda>r. keeps_scene duration r \<and> moved_past_prose r) (give found)"
    using found by (auto intro: ends_give simp: moved_past_prose_def)
  have moved: "ends E (\<lambda>m. case m of None \<Rightarrow> True | Some t \<Rightarrow> start < t)
      (past_prose (Some first) (cards_after one_fps found start first) (\<lambda>c. read_text (k_read_s c)))"
    if one: "\<And>s t n. ends E (\<lambda>_. True) (one_fps s t n)" and "start \<le> k_last_s first" for one_fps first
  proof -
    have "ends E (\<lambda>m. case m of None \<Rightarrow> True | Some t \<Rightarrow> start < t)
        (first_no_prose (\<lambda>c. read_text (k_read_s c)) cs)"
      if "\<forall>c \<in> set cs. k_last_s first < k_first_s c" for cs
      by (rule ends_weaken [OF first_no_prose_ends [OF read]])
        (use that \<open>start \<le> k_last_s first\<close> in \<open>fastforce split: option.splits\<close>)
    then show ?thesis
      unfolding past_prose_def option.case
      by (auto intro!: ends_if ends_give ends_andthen [OF read] ends_andthen [OF cards_after_ends [OF one]])
  qed
  have after: "start \<le> k_last_s first" if "cards rows start = first # rest" for rows first rest
    using cards_in_order [of rows start] that by fastforce
  show ?thesis
    unfolding past_prose_cards_def Let_def
  proof (split option.split, intro conjI allI impI, goal_cases)
    case (2 row)
    show ?case
    proof (rule ends_if [OF stays], rule ends_andthen [OF decode'], split list.split, intro conjI allI impI stays, goal_cases)
      case (1 rows first rest)
      show ?case
      proof (rule ends_if [OF stays], rule ends_andthen [OF moved [OF decode' after [OF 1(3)]]], rule ends_give)
        fix m assume "case m of None \<Rightarrow> True | Some t \<Rightarrow> start < t"
        then show "keeps_scene duration (case m of None \<Rightarrow> found
              | Some m \<Rightarrow> if case cr_end_s found of None \<Rightarrow> False | Some e \<Rightarrow> m \<ge> e then found
                  else found\<lparr>cr_start_s := Some m, cr_prose_start_s := Some start\<rparr>) \<and>
            moved_past_prose (case m of None \<Rightarrow> found
              | Some m \<Rightarrow> if case cr_end_s found of None \<Rightarrow> False | Some e \<Rightarrow> m \<ge> e then found
                  else found\<lparr>cr_start_s := Some m, cr_prose_start_s := Some start\<rparr>)"
          using found by (auto simp: keeps_scene_def moved_past_prose_def split: option.splits)
      qed
    qed
  qed (rule stays)
qed

lemma the_roll_ends:
  assumes "\<And>scale seen after. (case after of None \<Rightarrow> True | Some (_, rows) \<Rightarrow> counted rows) \<Longrightarrow>
    ends E (\<lambda>(r, decoded). answer_ok duration r) (read scale seen after)"
  shows "ends E (answer_ok duration) (the_roll read)"
proof -
  have none: "case None of None \<Rightarrow> True | Some (_, rows) \<Rightarrow> counted rows" by simp
  have "ends E (answer_ok duration)
    (if cr_key_rows found = [] \<or> (cr_start_s found \<noteq> None \<and> cr_end_s found = None) then give found
     else handle (andthen (read RETRY_SCALE seen
         (map_option (\<lambda>e. (e, filter (\<lambda>row. r_pts row < e) (cr_key_rows found))) (cr_end_s found)))
       (\<lambda>(larger, _).
       give (case cr_start_s larger of None \<Rightarrow> found
            | Some s \<Rightarrow> (case cr_end_s found of None \<Rightarrow> larger | Some e \<Rightarrow> if s < e then found else larger))))
       (\<lambda>e. if e \<in> gpu_decode_errors \<or> e = Text_Shutting_Down then fail e
       else if e \<in> frame_decode_errors \<or> e \<in> text_unavailable_errors
         then if cr_start_s found \<noteq> None then give found
              else if e = Decode_Timeout then fail e else give found
         else fail e))" if found: "answer_ok duration found" for found and seen :: "row list"
  proof -
  let ?after = "map_option (\<lambda>e. (e, filter (\<lambda>row. r_pts row < e) (cr_key_rows found))) (cr_end_s found)"
  have behind: "case ?after of None \<Rightarrow> True | Some (_, rows) \<Rightarrow> counted rows"
    using found by (simp add: answer_ok_def split: option.splits)
  have second: "ends E (answer_ok duration) (andthen (read RETRY_SCALE seen ?after) (\<lambda>(larger, _).
      give (case cr_start_s larger of None \<Rightarrow> found
            | Some s \<Rightarrow> (case cr_end_s found of None \<Rightarrow> larger | Some e \<Rightarrow> if s < e then found else larger))))"
    by (rule ends_andthen [OF assms [OF behind]]) (use found in \<open>auto intro!: ends_give split: option.splits\<close>)
  have again: "ends E (answer_ok duration) (if e \<in> gpu_decode_errors \<or> e = Text_Shutting_Down then fail e
       else if e \<in> frame_decode_errors \<or> e \<in> text_unavailable_errors
         then if cr_start_s found \<noteq> None then give found
              else if e = Decode_Timeout then fail e else give found
         else fail e)" if "e \<in> E" for e
    using found that by (auto intro: ends_give ends_fail)
    show ?thesis
    proof (rule ends_if)
      show "ends E (answer_ok duration) (give found)" using found by (rule ends_give)
    qed (rule ends_handle [OF second again])
  qed
  then show ?thesis
    unfolding the_roll_def Let_def by (intro ends_andthen [OF assms [OF none]]) (simp only: split_beta)
qed

section \<open>The whole detector\<close>

text \<open>What is asked of the outside world: its calls end with a result or one of their own failures, and
  decoded rows have their boxes counted.\<close>

definition world_failures :: "failure set" where
  "world_failures = UNIV - {Rule_Raised, Never_Returns}"

definition video_ok :: "'w video \<Rightarrow> bool" where
  "video_ok video \<longleftrightarrow>
     ends world_failures (\<lambda>_. True) (v_start_time video) \<and>
     ends world_failures (\<lambda>_. True) (v_thinning video) \<and>
     (\<forall>t thin w. ends world_failures counted (v_decode video t thin w)) \<and>
     (case v_read_text video of None \<Rightarrow> True | Some read \<Rightarrow> \<forall>t. ends world_failures (\<lambda>_. True) (read t))"

definition sizes_ok :: "int \<Rightarrow> rat option \<Rightarrow> rat option \<Rightarrow> bool" where
  "sizes_ok duration tail_s earliest \<longleftrightarrow>
     duration \<le> 2 ^ 52 \<and> (case tail_s of None \<Rightarrow> True | Some t \<Rightarrow> 0 \<le> t) \<and>
     (case earliest of None \<Rightarrow> True | Some e \<Rightarrow> 0 \<le> e)"

lemma tail_start_bound:
  assumes "duration \<le> 2 ^ 52" and "0 \<le> tail_s"
  shows "tail_start_s duration tail_s \<le> 2 ^ 52"
proof -
  have "fl (of_int duration / 1000) \<le> of_int (2 ^ 52)"
  proof (rule fl_le_of_int)
    have "(of_int duration :: rat) \<le> of_int (2 ^ 52)" using assms(1) by (simp only: of_int_le_iff)
    then show "of_int duration / 1000 \<le> (of_int (2 ^ 52) :: rat)" by simp
  qed simp
  then have "fl (fl (of_int duration / 1000) - tail_s) \<le> of_int (2 ^ 52)"
    using assms(2) by (intro fl_le_of_int) simp_all
  then show ?thesis by (simp add: tail_start_s_def)
qed

lemma reading_of_ok:
  assumes "video_ok video" and "sizes_ok duration tail_s earliest"
  shows "reading_ok world_failures (reading_of video duration episode tail_s earliest start_time thin)"
proof -
  have tail: "rd_tail_start (reading_of video duration episode tail_s earliest start_time thin) \<le> 2 ^ 52"
    unfolding reading_of_def reading.simps using assms(2)
    by (intro tail_start_bound)
      (auto simp: sizes_ok_def tail_length_s_def EPISODE_TAIL_S_def MOVIE_TAIL_S_def split: option.splits)
  have early: "case earliest of None \<Rightarrow> True | Some e \<Rightarrow> - (2 ^ 52) \<le> fl (e - STORY_BEFORE_RUN_S)"
  proof (cases earliest)
    case (Some e)
    have "of_int (- 30) \<le> fl (e - STORY_BEFORE_RUN_S)"
      using assms(2) Some by (intro fl_ge_of_int) (simp_all add: sizes_ok_def STORY_BEFORE_RUN_S_def)
    then show ?thesis using Some by simp
  qed simp
  show ?thesis using assms(1) tail early by (simp add: reading_ok_def reading_of_def video_ok_def world_failures_def)
qed

lemma start_past_prose_ends:
  assumes ok: "video_ok video" and found: "answer_ok duration found"
  shows "ends world_failures (\<lambda>r. keeps_scene duration r \<and> moved_past_prose r)
    (start_past_prose video (v_decode video start_time thin) found)"
proof -
  let ?good = "\<lambda>r. keeps_scene duration r \<and> moved_past_prose r"
  have stays: "ends world_failures ?good (give found)"
    using found by (intro ends_give) (simp add: answer_ok_def moved_past_prose_def)
  have decode: "\<And>w. ends world_failures counted (v_decode video start_time thin w)" using ok by (simp add: video_ok_def)
  show ?thesis
  proof (cases "v_read_text video")
    case rt: (Some read_text)
    show ?thesis
    proof (cases "cr_start_s found")
      case (Some start)
      have read: "\<And>t. ends world_failures (\<lambda>_. True) (read_text t)" using ok rt by (simp add: video_ok_def)
      have again: "ends world_failures ?good
          (if e \<in> gpu_decode_errors \<or> e = Text_Shutting_Down then fail e
           else if e \<in> frame_decode_errors \<or> e \<in> text_unavailable_errors then give found else fail e)"
        if "e \<in> world_failures" for e using that stays by (auto intro: ends_fail)
      have first: "keeps_scene duration found" "cr_prose_start_s found = None" using found by (simp_all add: answer_ok_def)
      show ?thesis unfolding start_past_prose_def rt Some prod.case option.case
        by (rule ends_handle [OF past_prose_cards_ends [OF decode read first Some] again])
    qed (simp add: start_past_prose_def rt stays)
  qed (simp add: start_past_prose_def stays)
qed

lemma find_credits_ends:
  assumes ok: "video_ok video" and sizes: "sizes_ok duration tail_s earliest"
  shows "ends world_failures (\<lambda>r. keeps_scene duration r \<and> moved_past_prose r)
    (find_credits fsum video duration episode tail_s earliest)"
proof -
  have probes: "ends world_failures (\<lambda>_. True) (v_start_time video)" "ends world_failures (\<lambda>_. True) (v_thinning video)"
    using ok by (simp_all add: video_ok_def)
  have roll: "ends world_failures (answer_ok duration)
      (the_roll (read_credits fsum video (reading_of video duration episode tail_s earliest start_time thin)))"
    for start_time thin
  proof (rule the_roll_ends)
    fix scale and seen :: "row list" and after :: "(rat \<times> row list) option"
    assume "case after of None \<Rightarrow> True | Some (_, rows) \<Rightarrow> counted rows"
    from read_credits_ends [OF reading_of_ok [OF ok sizes] this]
    show "ends world_failures (\<lambda>(r, decoded). answer_ok duration r)
      (read_credits fsum video (reading_of video duration episode tail_s earliest start_time thin) scale seen after)"
      by (simp add: reading_of_def)
  qed
  show ?thesis
    unfolding find_credits_def
    by (intro ends_andthen [OF probes(1)] ends_andthen [OF probes(2)] ends_andthen [OF roll] start_past_prose_ends [OF ok])
qed

section \<open>Properties\<close>

text \<open>C26: \<open>find_credits\<close> ends, and fails only with a failure of the calls it makes: no loop of it runs
  for ever and no step of rule J raises.\<close>

theorem find_credits_ends_cleanly:
  assumes "video_ok video" and "sizes_ok duration tail_s earliest"
  shows "case fst (find_credits fsum video duration episode tail_s earliest w) of
      Inl e \<Rightarrow> e \<noteq> Rule_Raised \<and> e \<noteq> Never_Returns
    | Inr r \<Rightarrow> True"
  using find_credits_ends [OF assms, of fsum episode] unfolding ends_def world_failures_def
  by (auto split: sum.splits dest: spec [of _ w])

text \<open>C27: more than 30 s of the file follow an end \<open>find_credits\<close> answers, which always comes with a start;
  a start moved past prose cards is later than the one rule J gave and before the end.\<close>

theorem find_credits_answer:
  assumes "video_ok video" and "sizes_ok duration tail_s earliest"
  shows "case fst (find_credits fsum video duration episode tail_s earliest w) of
      Inl e \<Rightarrow> True
    | Inr r \<Rightarrow>
        (case cr_end_s r of None \<Rightarrow> True
         | Some end_s \<Rightarrow> cr_start_s r \<noteq> None \<and> fl (fl (of_int duration / 1000) - end_s) > 30) \<and>
        (case cr_prose_start_s r of None \<Rightarrow> True
         | Some p \<Rightarrow>
             (case cr_start_s r of None \<Rightarrow> False
              | Some s \<Rightarrow> p < s \<and> (case cr_end_s r of None \<Rightarrow> True | Some e \<Rightarrow> s < e)))"
  using find_credits_ends [OF assms, of fsum episode]
  unfolding ends_def keeps_scene_def moved_past_prose_def keeps_a_scene_after_def KEEP_AFTER_CREDITS_S_def
  by (auto split: sum.splits dest: spec [of _ w])

definition text_row :: "rat \<Rightarrow> nat \<Rightarrow> rat \<Rightarrow> row" where
  "text_row t n luma =
     \<lparr>r_pts = t, r_count = int n, r_luma = luma, r_boxes = Some (map (\<lambda>i. (100, 20 * int i, 200, 20 * int i + 8)) [0..<n])\<rparr>"

definition sample_rows :: "row list" where
  "sample_rows = map (\<lambda>t. text_row t 0 80) [160, 190, 220] @ map (\<lambda>t. text_row t 3 20) [300, 310, 320]"

definition sample_video :: "unit video" where
  "sample_video =
     \<lparr>v_start_time = give 0,
      v_thinning = give \<lparr>t_keep_every = None, t_drop_non_key = False, t_download_format = None\<rparr>,
      v_decode = (\<lambda>_ _ w. give (if w_keyframes w then sample_rows else [text_row 299 3 20])),
      v_read_text = None, v_clock = (\<lambda>_. 0), v_cancelled = (\<lambda>_. False)\<rparr>"

lemma sample_video_ok: "video_ok sample_video" "sizes_ok 600000 None None"
  by (auto simp: video_ok_def sample_video_def sizes_ok_def sample_rows_def text_row_def counted_def
      intro!: ends_give)

theorem find_credits_ends_cleanly_witness:
  "case fst (find_credits sum_list sample_video 600000 True None None ()) of
      Inl e \<Rightarrow> e \<noteq> Rule_Raised \<and> e \<noteq> Never_Returns
    | Inr r \<Rightarrow> True"
  by (rule find_credits_ends_cleanly [OF sample_video_ok])

theorem find_credits_answer_witness:
  "case fst (find_credits sum_list sample_video 600000 True None None ()) of
      Inl e \<Rightarrow> True
    | Inr r \<Rightarrow>
        (case cr_end_s r of None \<Rightarrow> True
         | Some end_s \<Rightarrow> cr_start_s r \<noteq> None \<and> fl (fl (of_int 600000 / 1000) - end_s) > 30) \<and>
        (case cr_prose_start_s r of None \<Rightarrow> True
         | Some p \<Rightarrow>
             (case cr_start_s r of None \<Rightarrow> False
              | Some s \<Rightarrow> p < s \<and> (case cr_end_s r of None \<Rightarrow> True | Some e \<Rightarrow> s < e)))"
  by (rule find_credits_answer [OF sample_video_ok])

definition moved_result :: credits_result where
  "moved_result = \<lparr>cr_start_s = Some 310, cr_end_s = None, cr_key_rows = sample_rows, cr_fine_rows = [],
     cr_end_rows = [], cr_overlays = [], cr_scale = 1, cr_run_rows = [], cr_prose_start_s = None\<rparr>"

text \<open>C28: the second reading never takes an answer away.  An answer of the first that runs to the end of
  the file is final; one that ends in a scene only gives way to a start at or after that scene; a failure
  of the second reading that says nothing about the GPU or the job leaves the first one's result.\<close>

theorem second_reading_never_loses:
  assumes "read 1 [] None w = (Inr (found, seen), w')"
  shows "case fst (the_roll read w) of
      Inr r \<Rightarrow> r = found \<or>
        (case cr_start_s r of None \<Rightarrow> False
         | Some s \<Rightarrow> (case cr_end_s found of None \<Rightarrow> cr_start_s found = None | Some scene \<Rightarrow> scene \<le> s))
    | Inl e \<Rightarrow>
        (cr_start_s found = None \<or> (\<exists>scene. cr_end_s found = Some scene)) \<and>
        (if cr_start_s found = None
         then e \<notin> {Frame_Decode, Read_Stalled, No_Decoder, Text_Unavailable}
         else e \<notin> {Frame_Decode, Read_Stalled, No_Decoder, Text_Unavailable, Decode_Timeout})"
proof -
  let ?after = "map_option (\<lambda>e. (e, filter (\<lambda>row. r_pts row < e) (cr_key_rows found))) (cr_end_s found)"
  show ?thesis
  proof (cases "cr_key_rows found = [] \<or> (cr_start_s found \<noteq> None \<and> cr_end_s found = None)")
    case True
    then show ?thesis using assms by (auto simp: the_roll_def andthen_def give_def)
  next
    case False
    obtain r2 w2 where second: "read RETRY_SCALE seen ?after w' = (r2, w2)" by (cases "read RETRY_SCALE seen ?after w'")
    show ?thesis
    proof (cases r2)
      case (Inl e)
      have "e = Frame_Decode \<or> e = Read_Stalled \<or> e = Gpu_Decode \<or> e = Gpu_Read_Nothing \<or> e = No_Decoder \<or>
        e = Decode_Timeout \<or> e = Decode_Cancelled \<or> e = Text_Unavailable \<or> e = Text_Shutting_Down \<or>
        e = Text_Cancelled \<or> e = Rule_Raised \<or> e = Never_Returns" by (cases e) simp_all
      then show ?thesis using False assms second Inl
        by (auto simp: the_roll_def andthen_def handle_def Let_def give_def fail_def
            gpu_decode_errors_def frame_decode_errors_def text_unavailable_errors_def)
    next
      case (Inr p)
      obtain larger d where p: "p = (larger, d)" by (cases p)
      show ?thesis using False assms second Inr p
        by (auto simp: the_roll_def andthen_def handle_def Let_def give_def split: option.splits)
    qed
  qed
qed

text \<open>A first reading that ends in a scene at 320 s, and a second one that runs out of time.\<close>

definition two_readings :: "nat \<Rightarrow> row list \<Rightarrow> (rat \<times> row list) option \<Rightarrow> (unit, credits_result \<times> row list) action" where
  "two_readings scale seen after =
     (if scale = 1 then give (moved_result\<lparr>cr_end_s := Some 320\<rparr>, sample_rows) else fail Decode_Timeout)"

theorem second_reading_never_loses_witness:
  "fst (the_roll two_readings ()) = Inr (moved_result\<lparr>cr_end_s := Some 320\<rparr>)"
  using second_reading_never_loses [of two_readings "()" "moved_result\<lparr>cr_end_s := Some 320\<rparr>" sample_rows "()"]
  by (simp add: two_readings_def moved_result_def give_def fail_def the_roll_def andthen_def handle_def
      RETRY_SCALE_def Let_def gpu_decode_errors_def frame_decode_errors_def text_unavailable_errors_def)

text \<open>C29: the cards are the longest stretches of frames from the start on whose text continues from frame to
  frame, each with its first and last second; frames without text are in none.\<close>

theorem cards_exact:
  "cards rows start_s =
     map card_of (filter (\<lambda>c. boxes_of (hd c) \<noteq> [])
       (chains (\<lambda>a b. boxes_of a \<noteq> [] \<and> boxes_of b \<noteq> [] \<and> continues (boxes_of a) (boxes_of b))
         (sort_key r_pts (filter (\<lambda>row. r_pts row \<ge> start_s) rows)))) \<and>
   sorted_wrt (\<lambda>a b. k_last_s a \<le> k_first_s b) (cards rows start_s) \<and>
   set (cards rows start_s) \<subseteq> {c. start_s \<le> k_first_s c \<and> k_first_s c \<le> k_read_s c \<and> k_read_s c \<le> k_last_s c}"
proof (intro conjI)
  have "same_card = (\<lambda>a b. boxes_of a \<noteq> [] \<and> boxes_of b \<noteq> [] \<and> continues (boxes_of a) (boxes_of b))"
    "shows_text = (\<lambda>c. boxes_of (hd c) \<noteq> [])"
    by (simp_all add: fun_eq_iff same_card_def shows_text_def)
  then show "cards rows start_s =
     map card_of (filter (\<lambda>c. boxes_of (hd c) \<noteq> [])
       (chains (\<lambda>a b. boxes_of a \<noteq> [] \<and> boxes_of b \<noteq> [] \<and> continues (boxes_of a) (boxes_of b))
         (sort_key r_pts (filter (\<lambda>row. r_pts row \<ge> start_s) rows))))"
    using cards_chains [of rows start_s] by (simp only: closed_def by_time_def)
qed (use cards_in_order [of rows start_s] in blast)+

section \<open>The chapter label\<close>

text \<open>Where the frames move a credits chapter to, or \<open>None\<close> when they keep it.\<close>

definition frames_move_to :: "credits_result \<Rightarrow> rat \<Rightarrow> rat \<Rightarrow> rat option" where
  "frames_move_to result start_s chapter_s =
     (if (case cr_prose_start_s result of None \<Rightarrow> False
          | Some p \<Rightarrow> fl (p - CHAPTER_AGREES_S) \<le> chapter_s \<and> chapter_s < start_s)
      then Some start_s
      else chapter_moves_to (without_overlays (cr_key_rows result) (cr_overlays result)) start_s chapter_s)"

lemma to_ms_nonneg: "0 \<le> t \<Longrightarrow> 0 \<le> to_ms t"
  unfolding to_ms_def by (intro round_half_even_ge) simp

lemma chapter_moves_ahead:
  assumes "chapter_moves_to rows start_s chapter_s = Some moved_s"
  shows "moved_s = start_s \<or> chapter_s \<le> moved_s"
proof -
  have "chapter_s \<le> t" if "\<not> fl (t - chapter_s) \<le> 10" for t
    using that fl_mono [of "t - chapter_s" 0] by fastforce
  then show ?thesis using assms
    by (auto simp: chapter_moves_to_def Let_def CHAPTER_AGREES_S_def split: if_splits)
qed

text \<open>C30: the decision rules read the label of the credit text answer back: the chapter it is about, whether the
  frames keep or move it, and, when they move it, the place they move it to.\<close>

theorem chapter_label_read_back:
  assumes "credits_candidate result (Some chapter) = Some (Some c)" and "0 \<le> chapter"
  shows "case cr_start_s result of None \<Rightarrow> False
    | Some start_s \<Rightarrow>
        c_start_ms c = to_ms start_s \<and>
        (case frames_move_to result start_s (fl (of_int chapter / 1000)) of
           None \<Rightarrow> read_chapter_hint (c_origin c) = Some (chapter, False, None)
         | Some moved_s \<Rightarrow>
             map_option (\<lambda>(chapter, moves, _). (chapter, moves)) (read_chapter_hint (c_origin c)) = Some (chapter, True) \<and>
             hint_target c = to_ms moved_s)"
proof (cases "cr_start_s result")
  case (Some start_s)
  define chapter_s where "chapter_s = fl (of_int chapter / 1000)"
  have "0 \<le> chapter_s" using assms(2) by (simp add: chapter_s_def)
  then have ms: "0 \<le> to_ms m" if "chapter_s \<le> m" for m using that by (intro to_ms_nonneg) simp
  obtain origin where origin: "chapter_origin result chapter = Some origin"
    and c: "c_origin c = origin" "c_start_ms c = to_ms start_s"
    using assms(1) Some by (auto simp: credits_candidate_def)
  show ?thesis
  proof (cases "frames_move_to result start_s chapter_s")
    case None
    then have "origin = chapter_hint chapter False None"
      using origin Some unfolding chapter_origin_def frames_move_to_def chapter_s_def [symmetric]
      by (auto simp: Let_def chapter_s_def [symmetric] split: if_splits option.splits)
    then show ?thesis using Some None c assms(2) by (simp add: chapter_s_def [symmetric] chapter_hint_read_back)
  next
    case (Some moved_s)
    note start = \<open>cr_start_s result = Some start_s\<close>
    have label: "origin = chapter_hint chapter True (if to_ms moved_s = to_ms start_s then None else Some (to_ms moved_s))"
      using origin start Some unfolding chapter_origin_def frames_move_to_def
      by (auto simp: Let_def chapter_s_def [symmetric] split: if_splits option.splits)
    have "moved_s = start_s \<or> chapter_s \<le> moved_s"
      using Some chapter_moves_ahead unfolding frames_move_to_def by (auto split: if_splits)
    then show ?thesis using start Some c label ms [of moved_s] assms(2)
      by (auto simp: chapter_s_def [symmetric] chapter_hint_read_back hint_target_def)
  qed
qed (use assms in \<open>simp add: credits_candidate_def\<close>)

definition moved_answer :: candidate where
  "moved_answer = \<lparr>c_type = CREDITS, c_start_ms = 310000, c_end_ms = None, c_source = CREDITS_TEXT,
     c_confidence = Finite 1, c_origin = chapter_hint 150000 True (Some 300000), c_copied_from = [], c_stale = False\<rparr>"

lemma moved_place: "chapter_moves_to sample_rows 310 150 = Some 300"
  by code_simp

lemma moved_times: "fl (of_int 150000 / 1000) = 150" "to_ms 310 = 310000" "to_ms 300 = 300000"
  by code_simp+

lemma moved_answer_given: "credits_candidate moved_result (Some 150000) = Some (Some moved_answer)"
  by (simp add: credits_candidate_def chapter_origin_def moved_result_def moved_answer_def moved_times
      moved_place without_overlays_def del: of_int_numeral)

theorem chapter_label_read_back_witness:
  "c_start_ms moved_answer = to_ms 310 \<and>
   map_option (\<lambda>(chapter, moves, _). (chapter, moves)) (read_chapter_hint (c_origin moved_answer)) =
     Some (150000, True) \<and>
   hint_target moved_answer = to_ms 300"
  using chapter_label_read_back [OF moved_answer_given] by (simp add: frames_move_to_def moved_result_def moved_place moved_times without_overlays_def del: of_int_numeral)

end
