(* ===== verification/Spec2Isabelle.thy ===== *)
theory Spec2Isabelle
  imports Rules_Claims Carry_Over Bif_Claims Quiet_Hours Gate_Claims Rate_Claims Path_Claims
    Keyed_Locks Pool_Claims Job_Claims Matcher_Claims Rule_J_Claims Cards_Claims Detector_Claims
begin

text \<open>
  Verification of Media Preview Generator (\<open>src/media_preview_generator\<close>), a service that makes
  preview images, intro, recap, credits and preview markers, and loudness settings for the files of
  Plex, Emby and Jellyfin servers.  The theories model the parts that decide something; what only
  calls ffmpeg, HTTP interfaces, databases and screens is left out (see \<open>Not modelled\<close>).

  \<^bold>\<open>How the parts fit.\<close>  A webhook or a scan gives a path.  Path mappings and ownership
  (\<open>config/paths.py\<close>, \<open>servers/ownership.py\<close>) say which servers and libraries it belongs to.  A
  job for it asks the start-up gate (\<open>web/job_gate.py\<close>) for one of three slots; which kinds of job
  the gate may start follows from the worker groups open at that minute (\<open>worker_groups.py\<close>), and
  quiet hours (\<open>quiet_hours.py\<close>) pause everything.  The dispatcher (\<open>jobs/dispatcher.py\<close>) hands the files
  of a started job to check threads and to the workers of the shared pool (\<open>jobs/worker.py\<close>), which follows the worker
  groups as they are edited, and parks the job (\<open>jobs/checkpoints.py\<close>) when no worker is open.  A preview job writes a BIF file
  (\<open>processing/generator.py\<close>, read back by \<open>bif_reader.py\<close>).  A marker job takes the file's keyed
  lock (\<open>markers/locks.py\<close>), gathers candidates from online sources, paced by limiters
  (\<open>markers/sources/ratelimit.py\<close>), from chapters, from the season's audio
  (\<open>markers/audio/matcher.py\<close>) and from the text on the file's last pictures
  (\<open>markers/credits/detector.py\<close> with the rules of \<open>rule_j.py\<close> and \<open>cards.py\<close>), and the decision rules
  (\<open>markers/decide.py\<close>, times scaled by \<open>markers/speed.py\<close>) make at most one marker per type of
  them.  When a file replaces another of the same length, carry-over (\<open>markers/carry_over.py\<close>)
  keeps what was decided.

  \<^bold>\<open>Theories.\<close>  \<open>Prelude\<close>: Python's \<open>min\<close> with a key, \<open>dict.fromkeys\<close>, strings, numerals, and the
  collections of facts.  \<open>Speed\<close>, \<open>Floats\<close>: a finite double is the rational it stands for, an
  operation rounds with \<open>fl\<close>, which is monotone and odd.  \<open>Bytes\<close>: results with an error, 32-bit
  fields, and the interface \<open>record_codec\<close> of sequences of fixed-width records.  \<open>Py_Values\<close>: JSON
  values and what Python does with one of an unexpected type.  \<open>State_Machine\<close>: reachable states
  and the interface \<open>invariant_machine\<close>, which the gate, the limiter and the keyed locks implement.

  \<^item> Decision rules: \<open>Models\<close> (\<open>markers/models.py\<close>), \<open>Sanity\<close>, \<open>Ranking\<close>, \<open>Clusters\<close>,
    \<open>Cluster_Decision\<close>, \<open>Decide\<close> follow \<open>markers/decide.py\<close> from top to bottom, a definition per
    function.  \<open>Clique_Spec\<close> shows that the sweep finds the maximal groups of agreeing candidates.
    \<open>Decide_Sound\<close>, \<open>Decide_Total\<close> (interface \<open>evidence_rule\<close>: a rule answers and its answer is
    sound), \<open>Decide_Whole\<close>, \<open>Decide_Claims\<close> and \<open>Rules_Claims\<close> hold the properties of the whole and
    of single rules.
  \<^item> \<open>Carry_Over\<close>: \<open>markers/carry_over.py\<close>, with what the store and the disk say as parameters.
  \<^item> \<open>Bif\<close>, \<open>Bif_Claims\<close>: the file format, \<open>generate_bif\<close> on a map of paths to bytes with every
    failure a constructor of \<open>bif_error\<close>, the reader, and their round trip.
  \<^item> \<open>Worker_Groups\<close>, \<open>Worker_Peak\<close>, \<open>Worker_Capacity\<close>, \<open>Worker_Validate\<close>, \<open>Worker_Claims\<close>: weekly
    masks as bits of an integer, availability and openings, peak capacity as a sweep and as a
    maximum, validation of saved settings with every error.  \<open>Quiet_Hours\<close> uses the same masks.
  \<^item> \<open>Job_Gate\<close>, \<open>Gate_Invariant\<close>, \<open>Gate_Claims\<close>: every critical section of the gate is one
    operation on the record \<open>gate\<close>; any interleaving of threads is a sequence of \<open>gate_event\<close>s.
  \<^item> \<open>Rate_Limiter\<close>, \<open>Rate_Claims\<close>: the same for a source's limiter.
  \<^item> \<open>Keyed_Locks\<close>: the same for the table of per-key locks, whose entries are shared objects.
  \<^item> \<open>Job_Tracker\<close>: the files of one job (\<open>JobTracker\<close>, \<open>jobs/dispatcher.py\<close>), a definition per section
    under a lock.  \<open>Job_Files\<close> makes them steps of the job's check threads, the dispatch loop, cancels and
    parking; the record \<open>job_run\<close> also keeps, as history, which files were recorded, dropped and taken away.
    \<open>Job_Accounts\<close>, \<open>Job_Counts\<close>, \<open>Job_Ending\<close>, \<open>Job_Counters\<close> show the parts of the invariant one by one.
    \<open>Job_Checkpoints\<close> (\<open>jobs/checkpoints.py\<close>) and \<open>Job_Saved\<close> are the saved state of a parked job, and
    \<open>Job_Claims\<close> holds the properties.
  \<^item> \<open>Worker_Pool\<close>: \<open>WorkerPool\<close> of \<open>jobs/worker.py\<close> and \<open>jobs/node_members.py\<close> on the record \<open>worker_pool\<close>, a
    worker object being its number.  \<open>Pool_Reconcile\<close> says what reconciling does to each worker, \<open>Pool_Budget\<close> that
    the tasks of a device stay under its limit in every sequence of \<open>pool_event\<close>s, \<open>Pool_Claims\<close> holds the properties.
  \<^item> \<open>Paths\<close>, \<open>Ownership\<close>, \<open>Path_Claims\<close>: translation of paths and the match of a file against
    libraries.
  \<^item> \<open>Matcher\<close>: the season matcher on lists, with numpy's functions as list functions.
    \<open>Matcher_Reference\<close> is \<open>tools/markers_eval/fp3_reference.py\<close>, \<open>Matcher_Shifts\<close> the argument
    that counting in chunks of the sorted order gives the reference's order, \<open>Matcher_Claims\<close> the
    properties.
  \<^item> \<open>Rule_J\<close>, \<open>Rule_J_Refine\<close>: \<open>markers/credits/rule_j.py\<close>, a definition per function, on rows of
    rounded times.  \<open>Rule_J_Runs\<close> says what a credit run is without the loop, \<open>Rule_J_Total\<close> and
    \<open>Rule_J_Sound\<close> that no step raises and where its answers lie, \<open>Rule_J_Claims\<close> the properties.
  \<^item> \<open>Actions\<close>: computations that call the outside, with every exception a constructor of \<open>failure\<close>, and
    what they can end with.  \<open>Cards\<close> (\<open>markers/credits/cards.py\<close>) and \<open>Detector\<close>
    (\<open>markers/credits/detector.py\<close>: \<open>find_credits\<close> and the candidate of \<open>detect_credits_text\<close>) are written with
    them; the record \<open>video\<close> holds the calls.  \<open>Cards_Claims\<close>, \<open>Detector_Sound\<close>, \<open>Detector_Claims\<close> hold
    their properties.

  \<^bold>\<open>Parameters.\<close>  What the sources only call is an argument: numpy's \<open>argsort\<close> (hypothesis
  \<open>argsort_ok\<close>: a permutation that sorts), the parser of HTTP dates, regular-expression search over
  a user's pattern, the Unicode normalisation of paths (\<open>nfc\<close>), digests and uuids, \<open>str\<close> of an arbitrary object, the built-in \<open>sum\<close> of doubles (its rounding
  differs between Python releases), the decodes,
  probes and word readings of a file (under \<open>video_ok\<close>: rows with their boxes counted, and failures of
  the documented classes), whether a file is gone, the
  clock, and the callbacks of the gate.

  \<^bold>\<open>Bounds and fuel.\<close>  Every loop is structural or has a measure, but for the detector's steps back
  before the tail, which run on \<open>look_back_fuel\<close>: a step goes back at least a second and none starts
  before its floor, so the seconds above the floor are enough, and \<open>find_credits_ends_cleanly\<close> shows that
  the fuel never runs out (\<open>Never_Returns\<close>).  Loops that wait on other threads are steps of the state machines.  Weeks have 10080
  minutes; the search for an opening looks at the 15 days the code looks at.  The matcher's 64-bit
  counters are integers, under \<open>keys_fit\<close> where a theorem needs them not to overflow.

  \<^bold>\<open>Idealisations.\<close>  A character is one of 256.  Clock readings and their sums are exact rationals.
  Doubles have no subnormals, and overflow only where a rule scales a time (\<open>scale_ms\<close>).  A number in
  the label of a chapter has fewer than the 4,300 digits from which \<open>int\<close> raises.

  \<^bold>\<open>Not modelled.\<close>  The marker pipeline, store and publishers, server clients, the web
  application, the worker nodes, GPU detection, loudness and library health: their code is
  calls of databases, HTTP interfaces, subprocesses and screens.  In modelled files the helpers
  that read the clock, the log or mounts are left out; \<open>PROJECT.json\<close> names them.
\<close>

end
